(* ===== verification/Prelude.thy ===== *)
theory Prelude
  imports Main "HOL-Library.Word" "HOL-Library.While_Combinator"
begin

unbundle bit_operations_syntax

text \<open>
  Shared vocabulary of the development: the machine integer types of
  \<^verbatim>\<open>kern/lib/types.h\<close>, the outcome of running a piece of kernel code, the loop
  combinators that the C loops are translated to with their total-correctness rules, and generic
  lemmas on words that the components share.
\<close>

section \<open>Machine integers\<close>

type_synonym u8 = "8 word"
type_synonym u16 = "16 word"
type_synonym u32 = "32 word"
type_synonym u64 = "64 word"

section \<open>Outcomes of kernel code\<close>

text \<open>
  Running a C function either returns a value (\<open>Ret\<close>), ends in \<^verbatim>\<open>KERN_PANIC\<close> or a failed
  \<^verbatim>\<open>KERN_ASSERT\<close> (\<open>Panic\<close>, with the message's format string), leaves the defined behaviour of C
  by an array access out of range, a null dereference or, where numbers are read, a signed overflow (\<open>Undef\<close>), or never comes back (\<open>Diverge\<close>).
  The state is threaded explicitly, so a function that changes the kernel state
  returns \<open>Ret\<close> of the new state (paired with its C result, if it has one).
\<close>

datatype 'a outcome = Ret 'a | Panic string | Undef | Diverge

primrec andThen :: "'a outcome \<Rightarrow> ('a \<Rightarrow> 'b outcome) \<Rightarrow> 'b outcome" where
  "andThen (Ret x) f = f x"
| "andThen (Panic msg) f = Panic msg"
| "andThen Undef f = Undef"
| "andThen Diverge f = Diverge"

text \<open>\<open>returns r P\<close>: the code comes back with a value, and the value satisfies \<open>P\<close> (total correctness).\<close>

definition returns :: "'a outcome \<Rightarrow> ('a \<Rightarrow> bool) \<Rightarrow> bool" where
  "returns r P = (case r of Ret x \<Rightarrow> P x | _ \<Rightarrow> False)"

text \<open>An array access \<open>a[i]\<close> of an array of \<open>n\<close> elements: undefined out of range.\<close>

definition bounded :: "u32 \<Rightarrow> u32 \<Rightarrow> 'a outcome \<Rightarrow> 'a outcome" where
  "bounded n i r = (if i < n then r else Undef)"

text \<open>\<^verbatim>\<open>KERN_ASSERT\<close>: the build defines \<^verbatim>\<open>DEBUG_MSG\<close>, so a failed assertion panics and halts.\<close>

definition kern_assert :: "bool \<Rightarrow> 'a outcome \<Rightarrow> 'a outcome" where
  "kern_assert b r = (if b then r else Panic ''Kernel assertion failed: %s'')"

text \<open>
  A C \<^verbatim>\<open>while\<close> loop over a tuple of the variables it changes. The loop that never ends is the
  outcome \<open>Diverge\<close>, so that termination is a theorem about the loop and not an assumption.
\<close>

definition whileM :: "('s \<Rightarrow> bool) \<Rightarrow> ('s \<Rightarrow> 's outcome) \<Rightarrow> 's \<Rightarrow> 's outcome" where
  "whileM b c s =
     (case while_option (\<lambda>r. case r of Ret t \<Rightarrow> b t | _ \<Rightarrow> False) (\<lambda>r. andThen r c) (Ret s) of
        None \<Rightarrow> Diverge
      | Some r \<Rightarrow> r)"

text \<open>A C \<^verbatim>\<open>for\<close> loop without \<^verbatim>\<open>break\<close>: the body at each index of a list, in order.\<close>

primrec forM :: "'i list \<Rightarrow> ('i \<Rightarrow> 's \<Rightarrow> 's outcome) \<Rightarrow> 's \<Rightarrow> 's outcome" where
  "forM [] f s = Ret s"
| "forM (i # is) f s = andThen (f i s) (forM is f)"

text \<open>The indices \<open>lo, lo + 1, \<dots>, hi - 1\<close> of a counting loop, as machine words.\<close>

definition range32 :: "nat \<Rightarrow> nat \<Rightarrow> u32 list" where
  "range32 lo hi = map of_nat [lo..<hi]"

named_theorems wp \<open>rules that push returns through the code\<close>
named_theorems locks \<open>closed forms of the lock operations when the lock is free\<close>

section \<open>Calculus of outcomes\<close>

lemma returns_simps [simp, wp]:
  "returns (Ret x) P = P x"
  "returns (Panic msg) P = False"
  "returns Undef P = False"
  "returns Diverge P = False"
  by (simp_all add: returns_def)

lemma returns_andThen [wp]: "returns (andThen r f) P = returns r (\<lambda>x. returns (f x) P)"
  by (cases r) simp_all

lemma returns_if [wp]:
  "returns (if b then r else q) P = ((b \<longrightarrow> returns r P) \<and> (\<not> b \<longrightarrow> returns q P))"
  by simp

lemma returns_bounded [wp]: "returns (bounded n i r) P = (i < n \<and> returns r P)"
  by (simp add: bounded_def)

lemma returns_kern_assert [wp]: "returns (kern_assert b r) P = (b \<and> returns r P)"
  by (simp add: kern_assert_def)

lemma returns_iff: "returns r P = (\<exists>x. r = Ret x \<and> P x)"
  by (cases r) simp_all

lemma returns_mono: "returns r P \<Longrightarrow> (\<And>x. P x \<Longrightarrow> Q x) \<Longrightarrow> returns r Q"
  by (cases r) simp_all

lemma returns_conj: "returns r (\<lambda>x. P x \<and> Q x) = (returns r P \<and> returns r Q)"
  by (cases r) simp_all

lemma returnsE:
  assumes "returns r P"
  obtains x where "r = Ret x" and "P x"
  using assms by (auto simp: returns_iff)

lemma bounded_in [simp]: "i < n \<Longrightarrow> bounded n i r = r"
  by (simp add: bounded_def)

lemma bounded_out: "\<not> i < n \<Longrightarrow> bounded n i r = Undef"
  by (simp add: bounded_def)

lemma kern_assert_simps [simp]:
  "kern_assert True r = r"
  "kern_assert False r = Panic ''Kernel assertion failed: %s''"
  by (simp_all add: kern_assert_def)

lemma andThen_Ret_right [simp]: "andThen r Ret = r"
  by (cases r) simp_all

lemma andThen_assoc: "andThen (andThen r f) g = andThen r (\<lambda>x. andThen (f x) g)"
  by (cases r) simp_all

lemma andThen_eq_Ret: "andThen r f = Ret y \<longleftrightarrow> (\<exists>x. r = Ret x \<and> f x = Ret y)"
  by (cases r) simp_all

lemma andThen_cong [fundef_cong]:
  "r = r' \<Longrightarrow> (\<And>x. r' = Ret x \<Longrightarrow> f x = g x) \<Longrightarrow> andThen r f = andThen r' g"
  by (cases r') simp_all

section \<open>Loops\<close>

lemma whileM_unfold: "whileM b c s = (if b s then andThen (c s) (whileM b c) else Ret s)"
proof -
  let ?B = "\<lambda>r. case r of Ret t \<Rightarrow> b t | _ \<Rightarrow> False"
  let ?C = "\<lambda>r. andThen r c"
  let ?W = "\<lambda>r. case while_option ?B ?C r of None \<Rightarrow> Diverge | Some q \<Rightarrow> q"
  have W: "?W r = andThen r (whileM b c)" for r
  proof (cases r)
    case (Ret t)
    then show ?thesis by (simp add: whileM_def)
  next
    case (Panic msg)
    then show ?thesis by (subst while_option_unfold) simp
  next
    case Undef
    then show ?thesis by (subst while_option_unfold) simp
  next
    case Diverge
    then show ?thesis by (subst while_option_unfold) simp
  qed
  show ?thesis
  proof (cases "b s")
    case True
    have "whileM b c s = ?W (?C (Ret s))"
      unfolding whileM_def by (subst while_option_unfold) (simp add: True)
    also have "\<dots> = andThen (c s) (whileM b c)" by (simp add: W)
    finally show ?thesis using True by simp
  next
    case False
    then show ?thesis unfolding whileM_def by (subst while_option_unfold) simp
  qed
qed

lemma whileM_step: "b s \<Longrightarrow> whileM b c s = andThen (c s) (whileM b c)"
  by (subst whileM_unfold) simp

lemma whileM_exit: "\<not> b s \<Longrightarrow> whileM b c s = Ret s"
  by (subst whileM_unfold) simp

text \<open>Total correctness: an invariant that the body keeps while a measure decreases.\<close>

lemma returns_whileM:
  fixes m :: "'s \<Rightarrow> nat"
  assumes "I s"
    and body: "\<And>s. I s \<Longrightarrow> b s \<Longrightarrow> returns (c s) (\<lambda>t. I t \<and> m t < m s)"
    and exit: "\<And>s. I s \<Longrightarrow> \<not> b s \<Longrightarrow> Q s"
  shows "returns (whileM b c s) Q"
  using assms(1)
proof (induction "m s" arbitrary: s rule: less_induct)
  case less
  show ?case
  proof (cases "b s")
    case True
    from body [OF less.prems True] obtain t where "c s = Ret t" "I t" "m t < m s"
      by (auto elim: returnsE)
    with True less.hyps show ?thesis by (simp add: whileM_step)
  next
    case False
    with exit less.prems show ?thesis by (simp add: whileM_exit)
  qed
qed

text \<open>The same for a loop that ends after at most \<open>N\<close> rounds, with the number of rounds as a ghost.\<close>

lemma returns_whileM_count:
  assumes "I 0 s"
    and body: "\<And>k s. I k s \<Longrightarrow> b s \<Longrightarrow> k < N \<and> returns (c s) (I (Suc k))"
    and exit: "\<And>k s. I k s \<Longrightarrow> \<not> b s \<Longrightarrow> Q s"
  shows "returns (whileM b c s) Q"
proof -
  have "returns (whileM b c s) Q" if "I k s" for k s
    using that
  proof (induction "N - k" arbitrary: k s rule: less_induct)
    case less
    show ?case
    proof (cases "b s")
      case True
      from body [OF less.prems True] obtain t where t: "k < N" "c s = Ret t" "I (Suc k) t"
        by (auto elim: returnsE)
      from t(1) have "N - Suc k < N - k" by simp
      from less.hyps [OF this t(3)] show ?thesis by (simp add: whileM_step True t(2))
    next
      case False
      with exit less.prems show ?thesis by (simp add: whileM_exit)
    qed
  qed
  from this [OF assms(1)] show ?thesis .
qed

text \<open>Divergence: a set of states from which the body stays in the set and the guard holds.\<close>

lemma whileM_Diverge:
  assumes "I s" and stay: "\<And>s. I s \<Longrightarrow> b s \<and> returns (c s) I"
  shows "whileM b c s = Diverge"
proof -
  let ?B = "\<lambda>r. case r of Ret t \<Rightarrow> b t | _ \<Rightarrow> False"
  let ?C = "\<lambda>r. andThen r c"
  have "while_option ?B ?C (Ret s) = None"
  proof (rule ccontr)
    assume "while_option ?B ?C (Ret s) \<noteq> None"
    then obtain r where r: "while_option ?B ?C (Ret s) = Some r" by auto
    have "returns r I"
      by (rule while_option_rule [where P = "\<lambda>r. returns r I", OF _ r])
        (use assms in \<open>auto simp: returns_andThen elim!: returnsE\<close>)
    then obtain t where "r = Ret t" "I t" by (auto elim: returnsE)
    moreover from while_option_stop [OF r] have "\<not> ?B r" .
    ultimately show False using stay by auto
  qed
  then show ?thesis by (simp add: whileM_def)
qed

lemma forM_Nil_Ret [simp]: "forM [] f = Ret"
  by (rule ext) simp

lemma forM_append: "forM (xs @ ys) f s = andThen (forM xs f s) (forM ys f)"
  by (induction xs arbitrary: s) (simp_all add: andThen_assoc cong: andThen_cong)

text \<open>A counting loop whose bodies all return: it computes the fold of their results.\<close>

lemma forM_fold:
  assumes "I s"
    and "\<And>i s. i \<in> set is \<Longrightarrow> I s \<Longrightarrow> f i s = Ret (g i s) \<and> I (g i s)"
  shows "forM is f s = Ret (fold g is s) \<and> I (fold g is s)"
  using assms by (induction "is" arbitrary: s) simp_all

lemma returns_forM:
  assumes "I [] s"
    and "\<And>pre i todo s. xs = pre @ i # todo \<Longrightarrow> I pre s \<Longrightarrow> returns (f i s) (I (pre @ [i]))"
  shows "returns (forM xs f s) (I xs)"
proof -
  have "returns (forM todo f s) (I xs)" if "xs = pre @ todo" "I pre s" for pre todo s
    using that
  proof (induction todo arbitrary: pre s)
    case Nil
    then show ?case by simp
  next
    case (Cons i todo)
    have "returns (forM todo f t) (I xs)" if "I (pre @ [i]) t" for t
      by (rule Cons.IH [of "pre @ [i]"]) (simp_all add: Cons.prems(1) that)
    with assms(2) [OF Cons.prems] show ?case
      by (auto simp: wp elim: returns_mono)
  qed
  from this [of "[]" xs s] assms(1) show ?thesis by simp
qed

section \<open>Words\<close>

lemma u32_less_nat: "(a::u32) < b \<longleftrightarrow> unat a < unat b"
  by (simp add: word_less_nat_alt)

lemma u32_le_nat: "(a::u32) \<le> b \<longleftrightarrow> unat a \<le> unat b"
  by (simp add: word_le_nat_alt)

lemma set_range32: "hi \<le> 2 ^ 32 \<Longrightarrow> set (range32 lo hi) = {i. lo \<le> unat i \<and> unat i < hi}"
proof -
  assume hi: "hi \<le> 2 ^ 32"
  show ?thesis
  proof (rule set_eqI)
    fix i :: u32
    have "i \<in> set (range32 lo hi) \<longleftrightarrow> (\<exists>n \<in> {lo..<hi}. i = of_nat n)"
      by (auto simp: range32_def)
    also have "\<dots> \<longleftrightarrow> lo \<le> unat i \<and> unat i < hi"
    proof
      assume "\<exists>n \<in> {lo..<hi}. i = of_nat n"
      then obtain n where n: "lo \<le> n" "n < hi" "i = of_nat n" by auto
      from n hi have "unat i = n" by (simp add: unat_of_nat)
      with n show "lo \<le> unat i \<and> unat i < hi" by simp
    next
      assume "lo \<le> unat i \<and> unat i < hi"
      then show "\<exists>n \<in> {lo..<hi}. i = of_nat n"
        by (intro bexI [of _ "unat i"]) simp_all
    qed
    finally show "i \<in> set (range32 lo hi) \<longleftrightarrow> i \<in> {i. lo \<le> unat i \<and> unat i < hi}" by simp
  qed
qed

lemma distinct_range32: "hi \<le> 2 ^ 32 \<Longrightarrow> distinct (range32 lo hi)"
  by (auto simp: range32_def distinct_map inj_on_def word_unat_eq_iff unat_of_nat)

lemma unat_u32_less: "unat (x::u32) < 4294967296"
  using unsigned_less [of x, where 'a = nat] by simp

lemma unat_plus_one: "(i::u32) < n \<Longrightarrow> unat (i + 1) = Suc (unat i)"
  using unat_u32_less [of n] by (simp add: unat_word_ariths word_less_nat_alt)

text \<open>Signed and unsigned readings agree below \<open>2 ^ 31\<close>.\<close>

lemma sint_small:
  assumes "unat (a::u32) < 2 ^ 31"
  shows "sint a = uint a"
proof -
  have "int (unat a) < int (2 ^ 31)" using assms by (simp only: of_nat_less_iff)
  then have "uint a < 2 ^ 31" by simp
  moreover have "- (2 ^ 31) \<le> uint a" by (rule order.trans [OF _ uint_ge_0]) simp
  ultimately show ?thesis unfolding sint_uint by (intro signed_take_bit_int_eq_self) simp_all
qed

lemma sle_unat:
  fixes a b :: u32
  assumes "unat a < 2 ^ 31" and "unat b < 2 ^ 31"
  shows "a \<le>s b \<longleftrightarrow> unat a \<le> unat b" and "a <s b \<longleftrightarrow> unat a < unat b"
  using assms sint_small [of a] sint_small [of b]
  by (simp_all add: word_sle_eq word_sless_alt word_le_nat_alt [symmetric] word_less_nat_alt [symmetric]
      word_le_def word_less_def)

end
