(* ===== verification/Phys_Mem.thy ===== *)
theory Phys_Mem
  imports Prelude
begin

unbundle bit_operations_syntax

text \<open>
  Byte-addressed memory and the little-endian 32-bit accesses that the compiled code makes to it.
  Addresses are 32-bit words and wrap around, as on the machine.
\<close>

type_synonym memory = "u32 \<Rightarrow> u8"

definition load32 :: "memory \<Rightarrow> u32 \<Rightarrow> u32" where
  "load32 m a = ucast (m a) OR push_bit 8 (ucast (m (a + 1))) OR push_bit 16 (ucast (m (a + 2))) OR
     push_bit 24 (ucast (m (a + 3)))"

definition store32 :: "u32 \<Rightarrow> u32 \<Rightarrow> memory \<Rightarrow> memory" where
  "store32 a v m = m(a := ucast v, a + 1 := ucast (drop_bit 8 v), a + 2 := ucast (drop_bit 16 v),
     a + 3 := ucast (drop_bit 24 v))"

text \<open>The bytes of the words at \<open>a\<close> and \<open>b\<close> are different locations.\<close>

definition apart32 :: "u32 \<Rightarrow> u32 \<Rightarrow> bool" where
  "apart32 a b \<longleftrightarrow> (\<forall>i \<in> {0, 1, 2, 3}. \<forall>j \<in> {0, 1, 2, 3}. a + i \<noteq> b + j)"

lemma bit_byte32:
  "bit (push_bit k (ucast (ucast (drop_bit k v) :: u8)) :: u32) n = (k \<le> n \<and> n < k + 8 \<and> bit v n)"
  for v :: u32
  by (cases "k \<le> n") (auto simp: bit_simps dest: bit_imp_le_length)

lemma bit_byte32_low: "bit (ucast (ucast v :: u8) :: u32) n = (n < 8 \<and> bit v n)" for v :: u32
  using bit_byte32 [of 0 v n] by simp

lemma split_bytes32:
  "ucast (ucast v :: u8) OR push_bit 8 (ucast (ucast (drop_bit 8 v) :: u8)) OR
    push_bit 16 (ucast (ucast (drop_bit 16 v) :: u8)) OR
    push_bit 24 (ucast (ucast (drop_bit 24 v) :: u8)) = v" for v :: u32
  by (rule bit_word_eqI, simp only: bit_or_iff bit_byte32 bit_byte32_low) auto

lemma load_store32 [simp]: "load32 (store32 a v m) a = v"
  by (simp add: load32_def store32_def split_bytes32)

lemma store32_other: "\<forall>j \<in> {0, 1, 2, 3}. a + j \<noteq> c \<Longrightarrow> store32 a v m c = m c"
  by (auto simp: store32_def)

lemma load32_cong:
  assumes "\<And>i. i \<in> {0, 1, 2, 3} \<Longrightarrow> m (a + i) = m' (a + i)"
  shows "load32 m a = load32 m' a"
  using assms [of 0] assms [of 1] assms [of 2] assms [of 3] by (simp add: load32_def)

lemma load_store32_apart: "apart32 a b \<Longrightarrow> load32 (store32 a v m) b = load32 m b"
  by (rule load32_cong, rule store32_other) (auto simp only: apart32_def)

section \<open>Aligned addresses\<close>

text \<open>\<open>aligned n a\<close>: the address is a multiple of \<open>n\<close>, which divides the address space.\<close>

definition aligned :: "nat \<Rightarrow> u32 \<Rightarrow> bool" where
  "aligned n a \<longleftrightarrow> n dvd 2 ^ 32 \<and> n dvd unat a"

lemma aligned_add:
  assumes "aligned n a" and "unat i < n"
  shows "unat (a + i) = unat a + unat i"
proof -
  from assms(1) have "n dvd unat a" "n dvd 2 ^ 32" by (simp_all add: aligned_def)
  then obtain k q where k: "unat a = n * k" and q: "2 ^ 32 = n * q" by (metis dvdE)
  have "n * k < n * q" using unat_u32_less [of a] k q by simp
  then have "Suc k \<le> q" by simp
  then have "n * Suc k \<le> n * q" by (rule mult_le_mono2)
  with assms(2) k q have "unat a + unat i < 2 ^ 32" by simp
  then show ?thesis by (simp add: unat_word_ariths)
qed

lemma aligned_offset_eq:
  assumes "aligned n a" and "aligned n b" and "unat i < n" and "unat j < n"
  shows "a + i = b + j \<longleftrightarrow> a = b \<and> i = j"
proof
  assume "a + i = b + j"
  then have "unat a + unat i = unat b + unat j"
    using aligned_add [OF assms(1,3)] aligned_add [OF assms(2,4)] by simp
  moreover have "n dvd unat a" "n dvd unat b" using assms(1,2) by (simp_all add: aligned_def)
  then obtain k l where "unat a = n * k" "unat b = n * l" by (metis dvdE)
  ultimately have *: "n * k + unat i = n * l + unat j" and "unat a = n * k" "unat b = n * l" by simp_all
  from arg_cong [OF *(1), of "\<lambda>x. x div n"] assms(3,4) have "k = l" by simp
  with * \<open>unat a = n * k\<close> \<open>unat b = n * l\<close> show "a = b \<and> i = j"
    by (simp add: word_unat_eq_iff)
qed simp

lemma aligned_apart32:
  assumes "aligned 4 a" and "aligned 4 b" and "a \<noteq> b"
  shows "apart32 a b"
  unfolding apart32_def
proof (intro ballI)
  fix i j :: u32
  assume "i \<in> {0, 1, 2, 3}" "j \<in> {0, 1, 2, 3}"
  then have "unat i < 4" "unat j < 4" by auto
  with assms show "a + i \<noteq> b + j" by (simp add: aligned_offset_eq)
qed

end
