(* ===== verification/Machine.thy ===== *)
theory Machine
  imports Phys_Mem
begin

unbundle bit_operations_syntax

text \<open>
  The machine the kernel runs on: the arithmetic helpers of \<^verbatim>\<open>kern/lib/types.c\<close>, the constants
  of \<^verbatim>\<open>kern/lib/x86.h\<close>, segment descriptors and kernel stacks (\<^verbatim>\<open>kern/lib/seg.h\<close>,
  \<^verbatim>\<open>kern/lib/kstack.h\<close>), the per-CPU table of \<^verbatim>\<open>kern/pcpu/PCPUIntro\<close>, and the
  record \<open>machine\<close> that every layer of the kernel extends.
\<close>

section \<open>Arithmetic helpers (lib/types.c)\<close>

definition max32 :: "u32 \<Rightarrow> u32 \<Rightarrow> u32" where
  "max32 a b = (if a > b then a else b)"

definition min32 :: "u32 \<Rightarrow> u32 \<Rightarrow> u32" where
  "min32 a b = (if a < b then a else b)"

definition rounddown :: "u32 \<Rightarrow> u32 \<Rightarrow> u32" where
  "rounddown a n = a - a mod n"

definition roundup :: "u32 \<Rightarrow> u32 \<Rightarrow> u32" where
  "roundup a n = rounddown (a + n - 1) n"

section \<open>Constants (lib/x86.h)\<close>

abbreviation (input) PAGESIZE :: u32 where "PAGESIZE \<equiv> 4096"
abbreviation (input) PTE_P :: u32 where "PTE_P \<equiv> 1"
abbreviation (input) PTE_W :: u32 where "PTE_W \<equiv> 2"
abbreviation (input) PTE_U :: u32 where "PTE_U \<equiv> 4"
abbreviation (input) PTE_G :: u32 where "PTE_G \<equiv> 256"
abbreviation (input) NUM_CPUS :: u32 where "NUM_CPUS \<equiv> 8"
abbreviation (input) NUM_IDS :: u32 where "NUM_IDS \<equiv> 64"
abbreviation (input) MagicNumber :: u32 where "MagicNumber \<equiv> 1048577"
abbreviation (input) MAX_CHILDREN :: u32 where "MAX_CHILDREN \<equiv> 3"
abbreviation (input) VM_USERLO :: u32 where "VM_USERLO \<equiv> 0x40000000"
abbreviation (input) VM_USERHI :: u32 where "VM_USERHI \<equiv> 0xF0000000"
abbreviation (input) VM_USERLO_PI :: u32 where "VM_USERLO_PI \<equiv> 0x40000"
abbreviation (input) VM_USERHI_PI :: u32 where "VM_USERHI_PI \<equiv> 0xF0000"
abbreviation (input) KSTACK_SIZE :: u32 where "KSTACK_SIZE \<equiv> 4096"
abbreviation (input) KSTACK_MAGIC :: u32 where "KSTACK_MAGIC \<equiv> 0x98765432"

section \<open>Segment descriptors (lib/seg.h)\<close>

record segdesc =
  sd_lim_15_0 :: "16 word"
  sd_base_15_0 :: "16 word"
  sd_base_23_16 :: "8 word"
  sd_type :: "4 word"
  sd_s :: "1 word"
  sd_dpl :: "2 word"
  sd_p :: "1 word"
  sd_lim_19_16 :: "4 word"
  sd_avl :: "1 word"
  sd_rsv1 :: "1 word"
  sd_db :: "1 word"
  sd_g :: "1 word"
  sd_base_31_24 :: "8 word"

definition SEGDESC_NULL :: segdesc where
  "SEGDESC_NULL =
     \<lparr>sd_lim_15_0 = 0, sd_base_15_0 = 0, sd_base_23_16 = 0, sd_type = 0, sd_s = 0, sd_dpl = 0,
      sd_p = 0, sd_lim_19_16 = 0, sd_avl = 0, sd_rsv1 = 0, sd_db = 0, sd_g = 0,
      sd_base_31_24 = 0\<rparr>"

definition SEGDESC32 :: "u32 \<Rightarrow> u32 \<Rightarrow> u32 \<Rightarrow> u32 \<Rightarrow> segdesc" where
  "SEGDESC32 type base lim dpl =
     \<lparr>sd_lim_15_0 = ucast (drop_bit 12 lim AND 0xffff), sd_base_15_0 = ucast (base AND 0xffff),
      sd_base_23_16 = ucast (drop_bit 16 base AND 0xff),
      sd_type = ucast type, sd_s = 1, sd_dpl = ucast dpl, sd_p = 1,
      sd_lim_19_16 = ucast (drop_bit 28 lim), sd_avl = 0, sd_rsv1 = 0, sd_db = 1, sd_g = 1,
      sd_base_31_24 = ucast (drop_bit 24 base)\<rparr>"

definition SEGDESC16 :: "u32 \<Rightarrow> u32 \<Rightarrow> u32 \<Rightarrow> u32 \<Rightarrow> segdesc" where
  "SEGDESC16 type base lim dpl =
     \<lparr>sd_lim_15_0 = ucast (lim AND 0xffff), sd_base_15_0 = ucast (base AND 0xffff),
      sd_base_23_16 = ucast (drop_bit 16 base AND 0xff),
      sd_type = ucast type, sd_s = 1, sd_dpl = ucast dpl, sd_p = 1,
      sd_lim_19_16 = ucast (drop_bit 16 lim), sd_avl = 0, sd_rsv1 = 0, sd_db = 1, sd_g = 0,
      sd_base_31_24 = ucast (drop_bit 24 base)\<rparr>"

text \<open>The fields of the task state segment that the kernel reads or writes.\<close>

record tss_t =
  ts_esp0 :: u32
  ts_ss0 :: u16
  ts_iomb :: u16
  ts_iopm :: "u32 \<Rightarrow> u8"

section \<open>Kernel stacks (lib/kstack.h) and per-CPU data (pcpu/PCPUIntro)\<close>

record kstack =
  gdt :: "u32 \<Rightarrow> segdesc"
  tss :: tss_t
  kst_cpu_idx :: u32
  magic :: u32

text \<open>
  A kernel stack is found from the stack pointer: \<^verbatim>\<open>ROUNDDOWN(read_esp(), KSTACK_SIZE)\<close>. The
  stacks are the elements of the two static arrays \<^verbatim>\<open>bsp_kstack\<close> and \<^verbatim>\<open>proc_kstack\<close>, so the
  rounded stack pointer is represented by the array and the index of the stack it points to.
\<close>

datatype kstack_ref = Bsp u32 | Proc u32

record pcpu =
  pcpu_inited :: bool
  pcpu_booted :: bool
  pcpu_kstack :: "kstack_ref option"
  pcpu_cpu_idx :: u32

text \<open>
  The callee-saved registers of the running kernel thread, as \<^verbatim>\<open>cswitch\<close> saves them, and the address
  it resumes at.
\<close>

record cpu_regs =
  r_esp :: u32
  r_edi :: u32
  r_esi :: u32
  r_ebx :: u32
  r_ebp :: u32
  r_eip :: u32

text \<open>
  Physical memory is byte addressed; the kernel runs on an identity map of it, so a kernel
  pointer is a physical address.
\<close>

record machine =
  mem :: memory
  regs :: cpu_regs
  cr0 :: u32
  cr2 :: u32
  cr3 :: u32
  cr4 :: u32
  cur_kstack :: kstack_ref
  bsp_kstack :: "u32 \<Rightarrow> kstack"
  proc_kstack :: "u32 \<Rightarrow> kstack"
  pcpu_tab :: "u32 \<Rightarrow> pcpu"

section \<open>Kernel stack and per-CPU accessors\<close>

text \<open>The structure that \<^verbatim>\<open>get_kstack_pointer()\<close> points to.\<close>

definition get_kstack :: "'a machine_scheme \<Rightarrow> kstack outcome" where
  "get_kstack s =
     (case cur_kstack s of
        Bsp i \<Rightarrow> bounded NUM_CPUS i (Ret (bsp_kstack s i))
      | Proc i \<Rightarrow> bounded NUM_IDS i (Ret (proc_kstack s i)))"

definition get_kstack_cpu_idx :: "'a machine_scheme \<Rightarrow> u32 outcome" where
  "get_kstack_cpu_idx s = andThen (get_kstack s) (\<lambda>ks. Ret (kst_cpu_idx ks))"

definition pcpu_zero :: pcpu where
  "pcpu_zero = \<lparr>pcpu_inited = False, pcpu_booted = False, pcpu_kstack = None, pcpu_cpu_idx = 0\<rparr>"

definition pcpu_set_zero :: "'a machine_scheme \<Rightarrow> 'a machine_scheme" where
  "pcpu_set_zero s = s\<lparr>pcpu_tab := (\<lambda>i. if i < NUM_CPUS then pcpu_zero else pcpu_tab s i)\<rparr>"

definition pcpu_fields_init :: "u32 \<Rightarrow> 'a machine_scheme \<Rightarrow> 'a machine_scheme outcome" where
  "pcpu_fields_init cpu_idx s = bounded NUM_CPUS cpu_idx
     (Ret (s\<lparr>pcpu_tab := (pcpu_tab s)(cpu_idx :=
        (pcpu_tab s cpu_idx)\<lparr>pcpu_inited := True, pcpu_cpu_idx := cpu_idx\<rparr>)\<rparr>))"

definition pcpu_cur :: "'a machine_scheme \<Rightarrow> pcpu outcome" where
  "pcpu_cur s = andThen (get_kstack_cpu_idx s) (\<lambda>cpu_idx.
     bounded NUM_CPUS cpu_idx (Ret (pcpu_tab s cpu_idx)))"

definition get_pcpu_idx :: "'a machine_scheme \<Rightarrow> u32 outcome" where
  "get_pcpu_idx s = andThen (pcpu_cur s) (\<lambda>p. Ret (pcpu_cpu_idx p))"

definition set_pcpu_idx :: "u32 \<Rightarrow> u32 \<Rightarrow> 'a machine_scheme \<Rightarrow> 'a machine_scheme outcome" where
  "set_pcpu_idx index cpu_idx s = bounded NUM_CPUS index
     (Ret (s\<lparr>pcpu_tab := (pcpu_tab s)(index := (pcpu_tab s index)\<lparr>pcpu_cpu_idx := cpu_idx\<rparr>)\<rparr>))"

definition get_pcpu_kstack_pointer :: "u32 \<Rightarrow> 'a machine_scheme \<Rightarrow> kstack_ref option outcome" where
  "get_pcpu_kstack_pointer cpu_idx s =
     bounded NUM_CPUS cpu_idx (Ret (pcpu_kstack (pcpu_tab s cpu_idx)))"

definition set_pcpu_kstack_pointer ::
    "u32 \<Rightarrow> kstack_ref option \<Rightarrow> 'a machine_scheme \<Rightarrow> 'a machine_scheme outcome" where
  "set_pcpu_kstack_pointer cpu_idx ks s = bounded NUM_CPUS cpu_idx
     (Ret (s\<lparr>pcpu_tab := (pcpu_tab s)(cpu_idx := (pcpu_tab s cpu_idx)\<lparr>pcpu_kstack := ks\<rparr>)\<rparr>))"

definition get_pcpu_boot_info :: "u32 \<Rightarrow> 'a machine_scheme \<Rightarrow> bool outcome" where
  "get_pcpu_boot_info cpu_idx s = bounded NUM_CPUS cpu_idx (Ret (pcpu_booted (pcpu_tab s cpu_idx)))"

definition set_pcpu_boot_info :: "u32 \<Rightarrow> bool \<Rightarrow> 'a machine_scheme \<Rightarrow> 'a machine_scheme outcome" where
  "set_pcpu_boot_info cpu_idx boot_info s = bounded NUM_CPUS cpu_idx
     (Ret (s\<lparr>pcpu_tab := (pcpu_tab s)(cpu_idx := (pcpu_tab s cpu_idx)\<lparr>pcpu_booted := boot_info\<rparr>)\<rparr>))"

definition get_pcpu_inited_info :: "u32 \<Rightarrow> 'a machine_scheme \<Rightarrow> bool outcome" where
  "get_pcpu_inited_info cpu_idx s = bounded NUM_CPUS cpu_idx (Ret (pcpu_inited (pcpu_tab s cpu_idx)))"

text \<open>
  The running code is on an initialised kernel stack of CPU \<open>this_cpu s\<close>, whose entry of the
  per-CPU table is filled in. Every kernel entry point runs in such a state.
\<close>

definition this_kstack :: "'a machine_scheme \<Rightarrow> kstack" where
  "this_kstack s = (case cur_kstack s of Bsp i \<Rightarrow> bsp_kstack s i | Proc i \<Rightarrow> proc_kstack s i)"

definition this_cpu :: "'a machine_scheme \<Rightarrow> u32" where
  "this_cpu s = kst_cpu_idx (this_kstack s)"

definition on_cpu :: "'a machine_scheme \<Rightarrow> bool" where
  "on_cpu s \<longleftrightarrow>
     (case cur_kstack s of Bsp i \<Rightarrow> i < NUM_CPUS | Proc i \<Rightarrow> i < NUM_IDS) \<and>
     magic (this_kstack s) = KSTACK_MAGIC \<and>
     this_cpu s < NUM_CPUS \<and>
     pcpu_cpu_idx (pcpu_tab s (this_cpu s)) = this_cpu s"

section \<open>Lemmas\<close>

lemma get_kstack_on_cpu: "on_cpu s \<Longrightarrow> get_kstack s = Ret (this_kstack s)"
  by (auto simp: get_kstack_def on_cpu_def this_kstack_def split: kstack_ref.splits)

lemma get_kstack_cpu_idx_on_cpu: "on_cpu s \<Longrightarrow> get_kstack_cpu_idx s = Ret (this_cpu s)"
  by (simp add: get_kstack_cpu_idx_def get_kstack_on_cpu this_cpu_def)

lemma get_pcpu_idx_on_cpu: "on_cpu s \<Longrightarrow> get_pcpu_idx s = Ret (this_cpu s)"
  by (simp add: get_pcpu_idx_def pcpu_cur_def get_kstack_cpu_idx_on_cpu on_cpu_def)

lemma this_cpu_less: "on_cpu s \<Longrightarrow> this_cpu s < NUM_CPUS"
  by (simp add: on_cpu_def)

text \<open>An update of any other part of the machine leaves the running CPU alone.\<close>

lemma this_kstack_frame [simp]:
  "this_kstack (s\<lparr>mem := m\<rparr>) = this_kstack s"
  "this_kstack (s\<lparr>cr0 := c\<rparr>) = this_kstack s"
  "this_kstack (s\<lparr>cr2 := c\<rparr>) = this_kstack s"
  "this_kstack (s\<lparr>cr3 := c\<rparr>) = this_kstack s"
  "this_kstack (s\<lparr>cr4 := c\<rparr>) = this_kstack s"
  by (simp_all add: this_kstack_def split: kstack_ref.split)

lemma this_cpu_frame [simp]:
  "this_cpu (s\<lparr>mem := m\<rparr>) = this_cpu s"
  "this_cpu (s\<lparr>cr0 := c\<rparr>) = this_cpu s"
  "this_cpu (s\<lparr>cr2 := c\<rparr>) = this_cpu s"
  "this_cpu (s\<lparr>cr3 := c\<rparr>) = this_cpu s"
  "this_cpu (s\<lparr>cr4 := c\<rparr>) = this_cpu s"
  by (simp_all add: this_cpu_def)

lemma on_cpu_frame [simp]:
  "on_cpu (s\<lparr>mem := m\<rparr>) = on_cpu s"
  "on_cpu (s\<lparr>cr0 := c\<rparr>) = on_cpu s"
  "on_cpu (s\<lparr>cr2 := c\<rparr>) = on_cpu s"
  "on_cpu (s\<lparr>cr3 := c\<rparr>) = on_cpu s"
  "on_cpu (s\<lparr>cr4 := c\<rparr>) = on_cpu s"
  by (simp_all add: on_cpu_def)

lemma unat_rounddown:
  "unat (rounddown a n) = unat a - unat a mod unat n"
  unfolding rounddown_def
  by (subst unat_sub) (simp_all add: word_le_nat_alt unat_mod)

lemma rounddown_le: "rounddown a n \<le> a"
  by (simp add: word_le_nat_alt unat_rounddown)

lemma rounddown_dvd: "unat n dvd unat (rounddown a n)"
  by (simp add: unat_rounddown minus_mod_eq_mult_div)

lemma roundup_unat:
  assumes "0 < n" and "unat a + unat n - 1 < 2 ^ 32"
  shows "unat (roundup a n) = (unat a + unat n - 1) div unat n * unat n"
proof -
  from assms(1) have n: "0 < unat n" by (simp add: word_less_nat_alt)
  have "unat (n - 1) = unat n - 1"
    using n by (subst unat_sub) (simp_all add: word_le_nat_alt)
  then have "unat (a + (n - 1)) = unat a + unat n - 1"
    using assms(2) n by (simp add: unat_word_ariths)
  then have "unat (a + n - 1) = unat a + unat n - 1"
    by (simp add: add_diff_eq)
  then show ?thesis by (simp add: roundup_def unat_rounddown minus_mod_eq_div_mult)
qed

text \<open>The boot processor on its boot stack, with nothing in memory: a machine for concrete runs.\<close>

definition bsp_kstack_boot :: kstack where
  "bsp_kstack_boot =
     \<lparr>gdt = (\<lambda>_. SEGDESC_NULL), tss = \<lparr>ts_esp0 = 0, ts_ss0 = 0, ts_iomb = 0, ts_iopm = (\<lambda>_. 0)\<rparr>,
      kst_cpu_idx = 0, magic = KSTACK_MAGIC\<rparr>"

definition boot_machine :: machine where
  "boot_machine =
     \<lparr>mem = (\<lambda>_. 0),
      regs = \<lparr>r_esp = 0, r_edi = 0, r_esi = 0, r_ebx = 0, r_ebp = 0, r_eip = 0\<rparr>,
      cr0 = 0, cr2 = 0, cr3 = 0, cr4 = 0, cur_kstack = Bsp 0,
      bsp_kstack = (\<lambda>_. bsp_kstack_boot), proc_kstack = (\<lambda>_. bsp_kstack_boot),
      pcpu_tab = (\<lambda>_. pcpu_zero)\<rparr>"

lemma boot_machine_on_cpu [simp]: "on_cpu boot_machine" "this_cpu boot_machine = 0"
  by (simp_all add: on_cpu_def boot_machine_def this_kstack_def this_cpu_def bsp_kstack_boot_def
      pcpu_zero_def)

end
