(* ===== verification/Spinlock.thy ===== *)
theory Spinlock
  imports Machine
begin

text \<open>
  The two locks of the kernel, \<^verbatim>\<open>kern/lib/spinlock.c\<close> and \<^verbatim>\<open>kern/lib/reentrant_lock.c\<close>, as the build
  compiles them (neither \<^verbatim>\<open>DEBUG_DEADLOCK\<close> nor \<^verbatim>\<open>DEBUG_LOCKHOLDING\<close> is defined). The operations are
  functions of the machine, whose kernel stack names the acquiring CPU, and of the lock. A CPU that
  runs alone and spins on a lock nobody releases never returns, which is the value \<open>Diverge\<close>. The
  second half interleaves the instructions of all CPUs and proves mutual exclusion.
\<close>

section \<open>Atomic instructions (lib/x86.h)\<close>

text \<open>\<^verbatim>\<open>xchg\<close> and \<^verbatim>\<open>cmpxchg\<close> return the old value of the word together with the new one.\<close>

definition xchg :: "u32 \<Rightarrow> u32 \<Rightarrow> u32 \<times> u32" where
  "xchg cell newval = (cell, newval)"

definition cmpxchg :: "u32 \<Rightarrow> u32 \<Rightarrow> u32 \<Rightarrow> u32 \<times> u32" where
  "cmpxchg cell oldval newval = (cell, if cell = oldval then newval else cell)"

section \<open>Spin locks\<close>

record spinlock =
  lock_holder :: u32
  lock :: u32

definition spinlock_init :: "spinlock \<Rightarrow> spinlock" where
  "spinlock_init lk = lk\<lparr>lock_holder := NUM_CPUS + 1, lock := 0\<rparr>"

definition spinlock_holding :: "'a machine_scheme \<Rightarrow> spinlock \<Rightarrow> bool outcome" where
  "spinlock_holding s lk =
     (if lock lk = 0 then Ret False
      else andThen (get_kstack s) (\<lambda>ks.
        kern_assert (magic ks = KSTACK_MAGIC) (
        Ret (lock_holder lk = kst_cpu_idx ks))))"

text \<open>One evaluation of the condition \<^verbatim>\<open>xchg(&lk->lock, 1) != 0\<close>: the old value and the lock.\<close>

definition xchg_lock :: "spinlock \<Rightarrow> u32 \<times> spinlock" where
  "xchg_lock lk = (let (old, new) = xchg (lock lk) 1 in (old, lk\<lparr>lock := new\<rparr>))"

definition spinlock_acquire_A :: "'a machine_scheme \<Rightarrow> spinlock \<Rightarrow> spinlock outcome" where
  "spinlock_acquire_A s lk =
     andThen (whileM (\<lambda>(old, _). old \<noteq> 0) (\<lambda>(_, lk). Ret (xchg_lock lk)) (xchg_lock lk)) (\<lambda>(_, lk).
     andThen (get_kstack s) (\<lambda>ks.
     kern_assert (magic ks = KSTACK_MAGIC) (
     Ret (lk\<lparr>lock_holder := kst_cpu_idx ks\<rparr>))))"

definition spinlock_try_acquire_A :: "'a machine_scheme \<Rightarrow> spinlock \<Rightarrow> (u32 \<times> spinlock) outcome" where
  "spinlock_try_acquire_A s lk =
     (let (old_val, lk) = xchg_lock lk in
      if old_val = 0 then
        andThen (get_kstack s) (\<lambda>ks.
        kern_assert (magic ks = KSTACK_MAGIC) (
        Ret (old_val, lk\<lparr>lock_holder := kst_cpu_idx ks\<rparr>)))
      else Ret (old_val, lk))"

definition spinlock_release_A :: "spinlock \<Rightarrow> spinlock" where
  "spinlock_release_A lk =
     (let lk = lk\<lparr>lock_holder := NUM_CPUS + 1\<rparr>; (_, new) = xchg (lock lk) 0 in lk\<lparr>lock := new\<rparr>)"

definition spinlock_acquire :: "'a machine_scheme \<Rightarrow> spinlock \<Rightarrow> spinlock outcome" where
  "spinlock_acquire s lk = spinlock_acquire_A s lk"

definition spinlock_release :: "spinlock \<Rightarrow> spinlock" where
  "spinlock_release lk = spinlock_release_A lk"

definition spinlock_try_acquire :: "'a machine_scheme \<Rightarrow> spinlock \<Rightarrow> (u32 \<times> spinlock) outcome" where
  "spinlock_try_acquire s lk = spinlock_try_acquire_A s lk"

section \<open>Reentrant locks\<close>

record reentrantlock =
  rl_lock :: u32
  rl_count :: u32

abbreviation (input) UNLOCKED :: u32 where "UNLOCKED \<equiv> 0xFFFFFFFF"

definition reentrantlock_init :: "reentrantlock \<Rightarrow> reentrantlock" where
  "reentrantlock_init lk = lk\<lparr>rl_lock := UNLOCKED, rl_count := 0\<rparr>"

definition reentrantlock_holding :: "reentrantlock \<Rightarrow> bool" where
  "reentrantlock_holding lk = (if rl_count lk > 0 then True else False)"

text \<open>One iteration of the acquiring loop.\<close>

definition cmpxchg_lock :: "u32 \<Rightarrow> reentrantlock \<Rightarrow> u32 \<times> reentrantlock" where
  "cmpxchg_lock cpuid lk =
     (let (lv, new) = cmpxchg (rl_lock lk) UNLOCKED cpuid in (lv, lk\<lparr>rl_lock := new\<rparr>))"

definition reentrantlock_acquire :: "'a machine_scheme \<Rightarrow> reentrantlock \<Rightarrow> reentrantlock outcome" where
  "reentrantlock_acquire s lk =
     andThen (get_kstack_cpu_idx s) (\<lambda>cpuid.
     andThen (whileM (\<lambda>(lv, _). lv \<noteq> cpuid \<and> lv \<noteq> UNLOCKED) (\<lambda>(_, lk). Ret (cmpxchg_lock cpuid lk))
                (cmpxchg_lock cpuid lk)) (\<lambda>(_, lk).
     Ret (lk\<lparr>rl_count := rl_count lk + 1\<rparr>)))"

definition reentrantlock_try_acquire ::
    "'a machine_scheme \<Rightarrow> reentrantlock \<Rightarrow> (u32 \<times> reentrantlock) outcome" where
  "reentrantlock_try_acquire s lk =
     andThen (get_kstack_cpu_idx s) (\<lambda>cpuid.
     let (lv, lk) = cmpxchg_lock cpuid lk in
     if lv = cpuid \<or> lv = UNLOCKED then Ret (1, lk\<lparr>rl_count := rl_count lk + 1\<rparr>) else Ret (0, lk))"

definition reentrantlock_release :: "reentrantlock \<Rightarrow> reentrantlock" where
  "reentrantlock_release lk =
     (let lk = lk\<lparr>rl_count := rl_count lk - 1\<rparr> in
      if rl_count lk = 0 then (let (_, new) = xchg (rl_lock lk) UNLOCKED in lk\<lparr>rl_lock := new\<rparr>)
      else lk)"

section \<open>The sequential behaviour of the locks\<close>

text \<open>What \<open>spinlock_init\<close> makes and \<open>spinlock_release\<close> leaves, and what a CPU that acquired it sees.\<close>

definition unlocked :: spinlock where
  "unlocked = \<lparr>lock_holder = NUM_CPUS + 1, lock = 0\<rparr>"

definition held_by :: "u32 \<Rightarrow> spinlock" where
  "held_by c = \<lparr>lock_holder = c, lock = 1\<rparr>"

lemma spinlock_init_unlocked [simp, locks]: "spinlock_init lk = unlocked"
  by (simp add: spinlock_init_def unlocked_def)

lemma spinlock_release_unlocked [simp, locks]: "spinlock_release lk = unlocked"
  by (simp add: spinlock_release_def spinlock_release_A_def xchg_def unlocked_def)

lemma spinlock_acquire_free:
  assumes "on_cpu s" and "lock lk = 0"
  shows "spinlock_acquire s lk = Ret (held_by (this_cpu s))"
  using assms
  by (simp add: spinlock_acquire_def spinlock_acquire_A_def xchg_lock_def xchg_def whileM_exit
      get_kstack_on_cpu held_by_def this_cpu_def on_cpu_def)

lemma spinlock_acquire_unlocked [locks]:
  "on_cpu s \<Longrightarrow> spinlock_acquire s unlocked = Ret (held_by (this_cpu s))"
  by (simp add: spinlock_acquire_free unlocked_def)

lemma spinlock_acquire_held:
  assumes "lock lk \<noteq> 0"
  shows "spinlock_acquire s lk = Diverge"
proof -
  have "whileM (\<lambda>(old, _). old \<noteq> 0) (\<lambda>(_, lk). Ret (xchg_lock lk)) (xchg_lock lk) = Diverge"
    by (rule whileM_Diverge [where I = "\<lambda>(old, lk). old \<noteq> 0 \<and> lock lk \<noteq> 0"])
      (use assms in \<open>auto simp: xchg_lock_def xchg_def\<close>)
  then show ?thesis by (simp add: spinlock_acquire_def spinlock_acquire_A_def)
qed

lemma spinlock_try_acquire_cases:
  assumes "on_cpu s"
  shows "spinlock_try_acquire s lk =
    (if lock lk = 0 then Ret (0, held_by (this_cpu s)) else Ret (lock lk, lk\<lparr>lock := 1\<rparr>))"
  using assms
  by (simp add: spinlock_try_acquire_def spinlock_try_acquire_A_def xchg_lock_def xchg_def
      get_kstack_on_cpu held_by_def this_cpu_def on_cpu_def)

lemma spinlock_holding_held [locks]:
  "on_cpu s \<Longrightarrow> spinlock_holding s (held_by c) = Ret (c = this_cpu s)"
  by (simp add: spinlock_holding_def get_kstack_on_cpu held_by_def this_cpu_def on_cpu_def)

lemma spinlock_holding_unlocked [locks]: "spinlock_holding s unlocked = Ret False"
  by (simp add: spinlock_holding_def unlocked_def)

text \<open>A reentrant lock that CPU \<open>c\<close> holds \<open>n\<close> deep.\<close>

definition rl_held :: "u32 \<Rightarrow> u32 \<Rightarrow> reentrantlock" where
  "rl_held c n = \<lparr>rl_lock = (if n = 0 then UNLOCKED else c), rl_count = n\<rparr>"

lemma reentrantlock_init_held: "reentrantlock_init lk = rl_held c 0"
  by (simp add: reentrantlock_init_def rl_held_def)

lemma reentrantlock_acquire_mine [locks]:
  assumes "on_cpu s" and "n + 1 \<noteq> 0"
  shows "reentrantlock_acquire s (rl_held (this_cpu s) n) = Ret (rl_held (this_cpu s) (n + 1))"
  using assms
  by (auto simp: reentrantlock_acquire_def get_kstack_cpu_idx_on_cpu cmpxchg_lock_def cmpxchg_def
      rl_held_def whileM_exit)

lemma reentrantlock_acquire_other:
  assumes "on_cpu s" and "n \<noteq> 0" and "c \<noteq> this_cpu s" and "c \<noteq> UNLOCKED"
  shows "reentrantlock_acquire s (rl_held c n) = Diverge"
proof -
  have "whileM (\<lambda>(lv, _). lv \<noteq> this_cpu s \<and> lv \<noteq> UNLOCKED) (\<lambda>(_, lk). Ret (cmpxchg_lock (this_cpu s) lk))
      (cmpxchg_lock (this_cpu s) (rl_held c n)) = Diverge"
    by (rule whileM_Diverge [where I = "\<lambda>(lv, lk). lv = c \<and> rl_lock lk = c"])
      (use assms in \<open>auto simp: cmpxchg_lock_def cmpxchg_def rl_held_def\<close>)
  then show ?thesis by (simp add: reentrantlock_acquire_def get_kstack_cpu_idx_on_cpu assms(1))
qed

lemma reentrantlock_release_mine [locks]:
  assumes "n \<noteq> 0"
  shows "reentrantlock_release (rl_held c n) = rl_held c (n - 1)"
  using assms by (auto simp: reentrantlock_release_def rl_held_def xchg_def)

end
