(* ===== verification/Lock_Protocol.thy ===== *)
theory Lock_Protocol
  imports Spinlock
begin

text \<open>
  What the locks promise. The locale \<open>kernel_lock\<close> is the contract a critical section relies on, and
  is interpreted on both locks of the kernel. The second part lets the instructions of
  \<^verbatim>\<open>spinlock_acquire\<close>, \<^verbatim>\<open>spinlock_try_acquire\<close> and \<^verbatim>\<open>spinlock_release\<close> on
  all CPUs interleave at their single memory accesses, and shows mutual exclusion.
\<close>

section \<open>The contract of a lock\<close>

locale kernel_lock =
  fixes acquire :: "'m \<Rightarrow> 'l \<Rightarrow> 'l outcome"
    and release :: "'l \<Rightarrow> 'l"
    and free :: 'l
    and ok :: "'m \<Rightarrow> bool"
    and cpu :: "'m \<Rightarrow> u32"
  assumes acquire_free: "ok m \<Longrightarrow> \<exists>l. acquire m free = Ret l \<and> release l = free"
    and acquire_excludes:
      "\<lbrakk>ok m; ok m'; cpu m' \<noteq> cpu m; acquire m free = Ret l\<rbrakk> \<Longrightarrow> acquire m' l = Diverge"
begin

text \<open>A critical section: take the lock, run the body, give the lock back.\<close>

definition critical :: "'m \<Rightarrow> ('l \<Rightarrow> 'b outcome) \<Rightarrow> 'l \<Rightarrow> ('b \<times> 'l) outcome" where
  "critical m body l = andThen (acquire m l) (\<lambda>l. andThen (body l) (\<lambda>b. Ret (b, release l)))"

lemma critical_restores:
  assumes "ok m" and "\<And>l. acquire m free = Ret l \<Longrightarrow> returns (body l) Q"
  shows "returns (critical m body free) (\<lambda>(b, l). Q b \<and> l = free)"
  using acquire_free [OF assms(1)] assms(2) by (auto simp: critical_def wp elim: returns_mono)

lemma critical_excludes:
  assumes "ok m" and "ok m'" and "cpu m' \<noteq> cpu m"
  shows "critical m (critical m' body) free = Diverge"
  using acquire_free [OF assms(1)] acquire_excludes [OF assms(1,2,3)] by (auto simp: critical_def)

lemma criticals_compose:
  assumes "ok m" and "ok m'"
    and "\<And>l. acquire m free = Ret l \<Longrightarrow> returns (f l) P"
    and "\<And>l. acquire m' free = Ret l \<Longrightarrow> returns (g l) Q"
  shows "returns (critical m f free) (\<lambda>(_, l). returns (critical m' g l) (\<lambda>(b, l). Q b \<and> l = free))"
proof -
  have "returns (critical m' g free) (\<lambda>(b, l). Q b \<and> l = free)"
    using assms(2,4) by (rule critical_restores)
  moreover have "returns (critical m f free) (\<lambda>(b, l). P b \<and> l = free)"
    using assms(1,3) by (rule critical_restores)
  ultimately show ?thesis by (auto elim!: returns_mono)
qed

end

interpretation spin: kernel_lock spinlock_acquire spinlock_release unlocked on_cpu this_cpu
proof unfold_locales
  fix m :: "'a machine_scheme"
  assume "on_cpu m"
  then show "\<exists>l. spinlock_acquire m unlocked = Ret l \<and> spinlock_release l = unlocked"
    by (simp add: locks)
next
  fix m m' :: "'a machine_scheme" and l
  assume "on_cpu m" "spinlock_acquire m unlocked = Ret l"
  then show "spinlock_acquire m' l = Diverge"
    by (intro spinlock_acquire_held) (auto simp: locks held_by_def)
qed

lemma reentrantlock_free_acquire:
  assumes "on_cpu m"
  shows "reentrantlock_acquire m (rl_held c 0) = Ret (rl_held (this_cpu m) 1)"
proof -
  have "rl_held c 0 = rl_held (this_cpu m) 0" by (simp add: rl_held_def)
  with reentrantlock_acquire_mine [OF assms, of 0] show ?thesis by simp
qed

interpretation reentrant: kernel_lock reentrantlock_acquire reentrantlock_release "rl_held 0 0" on_cpu this_cpu
proof unfold_locales
  fix m :: "'a machine_scheme"
  assume m: "on_cpu m"
  have "reentrantlock_release (rl_held (this_cpu m) 1) = rl_held 0 0"
    by (subst reentrantlock_release_mine) (simp_all add: rl_held_def)
  with reentrantlock_free_acquire [OF m]
  show "\<exists>l. reentrantlock_acquire m (rl_held 0 0) = Ret l \<and> reentrantlock_release l = rl_held 0 0"
    by blast
next
  fix m m' :: "'a machine_scheme" and l
  assume m: "on_cpu m" "on_cpu m'" "this_cpu m' \<noteq> this_cpu m"
    and l: "reentrantlock_acquire m (rl_held 0 0) = Ret l"
  have "this_cpu m \<noteq> UNLOCKED" using this_cpu_less [OF m(1)] by auto
  with m l show "reentrantlock_acquire m' l = Diverge"
    by (auto simp: reentrantlock_free_acquire intro: reentrantlock_acquire_other)
qed

section \<open>All CPUs at once\<close>

text \<open>Where a CPU is with respect to one spin lock; between two of these it makes one access of the lock.\<close>

datatype lock_pc =
    Outside   \<comment> \<open>not in a lock operation, and not holding the lock\<close>
  | Spinning  \<comment> \<open>in the loop of \<^verbatim>\<open>spinlock_acquire_A\<close>\<close>
  | Won       \<comment> \<open>\<^verbatim>\<open>xchg\<close> returned 0; \<^verbatim>\<open>lock_holder\<close> not yet stored\<close>
  | Critical  \<comment> \<open>acquire returned, release not yet called\<close>
  | Cleared   \<comment> \<open>release stored \<^verbatim>\<open>lock_holder\<close>; the lock word not yet cleared\<close>

record lock_world =
  lw_lk :: spinlock
  lw_pc :: "u32 \<Rightarrow> lock_pc"

definition goto :: "u32 \<Rightarrow> lock_pc \<Rightarrow> spinlock \<Rightarrow> lock_world \<Rightarrow> lock_world" where
  "goto c p lk w = \<lparr>lw_lk = lk, lw_pc = (lw_pc w)(c := p)\<rparr>"

inductive lock_step :: "lock_world \<Rightarrow> lock_world \<Rightarrow> bool" where
  acquire_call: "c < NUM_CPUS \<Longrightarrow> lw_pc w c = Outside \<Longrightarrow> lock_step w (goto c Spinning (lw_lk w) w)"
| acquire_spin: "c < NUM_CPUS \<Longrightarrow> lw_pc w c = Spinning \<Longrightarrow> xchg_lock (lw_lk w) = (old, lk) \<Longrightarrow> old \<noteq> 0 \<Longrightarrow>
    lock_step w (goto c Spinning lk w)"
| acquire_win: "c < NUM_CPUS \<Longrightarrow> lw_pc w c = Spinning \<Longrightarrow> xchg_lock (lw_lk w) = (0, lk) \<Longrightarrow>
    lock_step w (goto c Won lk w)"
| try_fail: "c < NUM_CPUS \<Longrightarrow> lw_pc w c = Outside \<Longrightarrow> xchg_lock (lw_lk w) = (old, lk) \<Longrightarrow> old \<noteq> 0 \<Longrightarrow>
    lock_step w (goto c Outside lk w)"
| try_win: "c < NUM_CPUS \<Longrightarrow> lw_pc w c = Outside \<Longrightarrow> xchg_lock (lw_lk w) = (0, lk) \<Longrightarrow>
    lock_step w (goto c Won lk w)"
| store_holder: "c < NUM_CPUS \<Longrightarrow> lw_pc w c = Won \<Longrightarrow>
    lock_step w (goto c Critical ((lw_lk w)\<lparr>lock_holder := c\<rparr>) w)"
| clear_holder: "c < NUM_CPUS \<Longrightarrow> lw_pc w c = Critical \<Longrightarrow>
    lock_step w (goto c Cleared ((lw_lk w)\<lparr>lock_holder := NUM_CPUS + 1\<rparr>) w)"
| release_lock: "c < NUM_CPUS \<Longrightarrow> lw_pc w c = Cleared \<Longrightarrow>
    lock_step w (goto c Outside ((lw_lk w)\<lparr>lock := snd (xchg (lock (lw_lk w)) 0)\<rparr>) w)"

inductive_cases lock_stepE: "lock_step w w'"

definition lock_boot :: lock_world where
  "lock_boot = \<lparr>lw_lk = spinlock_init undefined, lw_pc = (\<lambda>_. Outside)\<rparr>"

text \<open>A CPU owns the lock from the winning \<^verbatim>\<open>xchg\<close> to the releasing one.\<close>

definition owns :: "lock_world \<Rightarrow> u32 \<Rightarrow> bool" where
  "owns w c \<longleftrightarrow> lw_pc w c \<in> {Won, Critical, Cleared}"

text \<open>
  A free lock has no owner and no recorded holder; a taken lock has exactly one owner, which is the
  recorded holder while it is in its critical section.
\<close>

definition lock_inv :: "lock_world \<Rightarrow> bool" where
  "lock_inv w \<longleftrightarrow>
     (if lock (lw_lk w) = 0 then (\<forall>d. \<not> owns w d) \<and> lock_holder (lw_lk w) = NUM_CPUS + 1
      else \<exists>c < NUM_CPUS. (\<forall>d. owns w d \<longleftrightarrow> d = c) \<and>
        (if lw_pc w c = Critical then lock_holder (lw_lk w) = c else lock_holder (lw_lk w) = NUM_CPUS + 1))"

lemma lock_boot_simps [simp]: "lw_lk lock_boot = unlocked" "lw_pc lock_boot c = Outside"
  by (simp_all add: lock_boot_def)

lemma lock_inv_boot: "lock_inv lock_boot"
  by (simp add: lock_inv_def owns_def unlocked_def)

lemma owns_goto: "owns (goto c p lk w) d = (if d = c then p \<in> {Won, Critical, Cleared} else owns w d)"
  by (simp add: owns_def goto_def)

lemma xchg_lock_fields:
  "xchg_lock lk = (old, lk') \<Longrightarrow> lock lk' = 1 \<and> old = lock lk \<and> lock_holder lk' = lock_holder lk"
  by (auto simp: xchg_lock_def xchg_def)

lemma pc_goto [simp]: "lw_pc (goto c p lk w) d = (if d = c then p else lw_pc w d)"
  by (simp add: goto_def)

lemma lk_goto [simp]: "lw_lk (goto c p lk w) = lk"
  by (simp add: goto_def)

lemma goto_goto: "goto c p lk (goto c q lk' w) = goto c p lk w"
  by (simp add: goto_def)

lemma owner_taken:
  assumes "lock_inv w" and "owns w c"
  shows "c < NUM_CPUS" and "lock (lw_lk w) \<noteq> 0" and "owns w d \<Longrightarrow> d = c"
    and "lw_pc w c = Critical \<Longrightarrow> lock_holder (lw_lk w) = c"
    and "lw_pc w c \<noteq> Critical \<Longrightarrow> lock_holder (lw_lk w) = NUM_CPUS + 1"
  using assms by (auto simp: lock_inv_def split: if_splits)

lemma lock_inv_idle:
  assumes "lock_inv w" and "\<not> owns w c" and "p \<in> {Outside, Spinning}"
    and "lock lk = 0 \<longleftrightarrow> lock (lw_lk w) = 0" and "lock_holder lk = lock_holder (lw_lk w)"
  shows "lock_inv (goto c p lk w)"
  using assms by (auto simp: lock_inv_def owns_goto split: if_splits)

lemma lock_inv_take:
  assumes "lock_inv w" and "c < NUM_CPUS" and "lock (lw_lk w) = 0"
    and "lock lk \<noteq> 0" and "lock_holder lk = lock_holder (lw_lk w)"
  shows "lock_inv (goto c Won lk w)"
  using assms by (auto simp: lock_inv_def owns_goto)

lemma lock_inv_owner:
  assumes "lock_inv w" and "owns w c" and "lock lk = lock (lw_lk w)"
    and "p = Critical \<and> lock_holder lk = c \<or> p = Cleared \<and> lock_holder lk = NUM_CPUS + 1"
  shows "lock_inv (goto c p lk w)"
proof -
  note o = owner_taken [OF assms(1,2)]
  then have "\<forall>d. owns (goto c p lk w) d \<longleftrightarrow> d = c" using assms(4) by (auto simp: owns_goto)
  with o(1,2) assms(3,4) show ?thesis by (auto simp: lock_inv_def)
qed

lemma lock_inv_step: "lock_step w w' \<Longrightarrow> lock_inv w \<Longrightarrow> lock_inv w'"
proof (induction rule: lock_step.induct)
  case (store_holder c w)
  then show ?case by (intro lock_inv_owner) (simp_all add: owns_def)
next
  case (clear_holder c w)
  then show ?case by (intro lock_inv_owner) (simp_all add: owns_def)
next
  case (release_lock c w)
  then have "owns w c" by (simp add: owns_def)
  note o = owner_taken [OF release_lock.prems this]
  with release_lock show ?case by (auto simp: lock_inv_def owns_goto xchg_def)
qed (auto simp: owns_def intro!: lock_inv_idle lock_inv_take dest!: xchg_lock_fields)

lemma lock_inv_reachable: "lock_step\<^sup>*\<^sup>* lock_boot w \<Longrightarrow> lock_inv w"
  by (induction rule: rtranclp_induct) (simp_all add: lock_inv_boot lock_inv_step)

lemma spinlock_updates:
  "lk\<lparr>lock := 1, lock_holder := c\<rparr> = held_by c"
  "lock_holder lk = NUM_CPUS + 1 \<Longrightarrow> lk\<lparr>lock := 0\<rparr> = unlocked"
  by (simp_all add: held_by_def unlocked_def)

text \<open>What \<^verbatim>\<open>spinlock_holding\<close> answers, and the schedules that empty and take the lock.\<close>

lemma holding_critical:
  assumes inv: "lock_inv w" and s: "on_cpu s"
  shows "spinlock_holding s (lw_lk w) = Ret (lw_pc w (this_cpu s) = Critical)"
proof (cases "lock (lw_lk w) = 0")
  case True
  with inv have "\<not> owns w (this_cpu s)" by (simp add: lock_inv_def)
  with True show ?thesis by (simp add: spinlock_holding_def owns_def)
next
  case False
  with inv obtain c where c: "owns w c" by (auto simp: lock_inv_def)
  note o = owner_taken [OF inv c]
  have "lock_holder (lw_lk w) = this_cpu s" if "lw_pc w (this_cpu s) = Critical"
    using o(3) [of "this_cpu s"] o(4) that by (simp add: owns_def)
  moreover have "lw_pc w (this_cpu s) = Critical" if "lock_holder (lw_lk w) = this_cpu s"
    using o(4,5) this_cpu_less [OF s] that by (cases "lw_pc w c = Critical") auto
  ultimately show ?thesis using False s
    by (auto simp: spinlock_holding_def get_kstack_on_cpu this_cpu_def on_cpu_def)
qed

lemma spinner_wins:
  assumes "lw_pc w c = Spinning" and "lock (lw_lk w) = 0" and "c < NUM_CPUS"
  shows "lock_step\<^sup>*\<^sup>* w (goto c Critical (held_by c) w)"
proof -
  let ?w = "goto c Won ((lw_lk w)\<lparr>lock := 1\<rparr>) w"
  have "lock_step w ?w"
    using assms by (intro lock_step.acquire_win) (simp_all add: xchg_lock_def xchg_def)
  moreover have "lock_step ?w (goto c Critical (held_by c) w)"
    using lock_step.store_holder [of c ?w] assms(3) by (simp add: goto_def spinlock_updates)
  ultimately show ?thesis by (rule converse_rtranclp_into_rtranclp [OF _ r_into_rtranclp])
qed

lemma owner_releases:
  assumes "lock_inv w" and "owns w c"
  shows "lock_step\<^sup>*\<^sup>* w (goto c Outside unlocked w)"
proof -
  note own = owner_taken [OF assms]
  have cleared: "lock_step\<^sup>*\<^sup>* v (goto c Outside unlocked v)"
    if "lw_pc v c = Cleared" "lock_holder (lw_lk v) = NUM_CPUS + 1" for v
    using lock_step.release_lock [OF own(1) that(1)] that(2)
    by (simp add: xchg_def spinlock_updates r_into_rtranclp)
  have critical: "lock_step\<^sup>*\<^sup>* v (goto c Outside unlocked v)" if "lw_pc v c = Critical" for v
    using lock_step.clear_holder [OF own(1) that]
      cleared [of "goto c Cleared ((lw_lk v)\<lparr>lock_holder := NUM_CPUS + 1\<rparr>) v"]
    by (simp add: goto_goto converse_rtranclp_into_rtranclp)
  from assms(2) consider "lw_pc w c = Won" | "lw_pc w c = Critical" | "lw_pc w c = Cleared"
    by (auto simp: owns_def)
  then show ?thesis
  proof cases
    case 1
    from lock_step.store_holder [OF own(1) 1]
      critical [of "goto c Critical ((lw_lk w)\<lparr>lock_holder := c\<rparr>) w"]
    show ?thesis by (simp add: goto_goto converse_rtranclp_into_rtranclp)
  next
    case 2
    then show ?thesis by (rule critical)
  next
    case 3
    then show ?thesis using own(5) by (intro cleared) simp_all
  qed
qed

lemma lock_drained:
  assumes "lock_inv w"
  shows "\<exists>v. lock_step\<^sup>*\<^sup>* w v \<and> lock (lw_lk v) = 0 \<and>
    (\<forall>d. lw_pc v d = (if owns w d then Outside else lw_pc w d))"
proof (cases "lock (lw_lk w) = 0")
  case True
  with assms show ?thesis by (intro exI [of _ w]) (simp add: lock_inv_def)
next
  case False
  with assms obtain c where c: "owns w c" "\<forall>d. owns w d \<longleftrightarrow> d = c" by (auto simp: lock_inv_def)
  then show ?thesis using owner_releases [OF assms c(1)]
    by (intro exI [of _ "goto c Outside unlocked w"]) (auto simp: unlocked_def)
qed

section \<open>Properties\<close>

text \<open>
  (C8) Mutual exclusion and the meaning of \<^verbatim>\<open>spinlock_holding\<close>: from the initialised lock, however
  the CPUs interleave, at most one of them is between the return of an acquire and its release, and
  \<^verbatim>\<open>spinlock_holding\<close> called by a CPU returns whether it is that one.
\<close>

theorem spinlock_mutual_exclusion:
  assumes "lock_step\<^sup>*\<^sup>* lock_boot w" and "on_cpu s"
  shows "(\<forall>c d. lw_pc w c = Critical \<longrightarrow> lw_pc w d = Critical \<longrightarrow> c = d) \<and>
    spinlock_holding s (lw_lk w) = Ret (lw_pc w (this_cpu s) = Critical)"
proof -
  from assms(1) have inv: "lock_inv w" by (rule lock_inv_reachable)
  have "c = d" if "lw_pc w c = Critical" "lw_pc w d = Critical" for c d
    using owner_taken(3) [OF inv, of d c] that by (simp add: owns_def)
  moreover have "spinlock_holding s (lw_lk w) = Ret (lw_pc w (this_cpu s) = Critical)"
    using inv assms(2) by (rule holding_critical)
  ultimately show ?thesis by blast
qed

definition lock_taken :: lock_world where
  "lock_taken = goto 2 Critical (held_by 2) lock_boot"

lemma lock_taken_reachable: "lock_step\<^sup>*\<^sup>* lock_boot lock_taken"
proof -
  have "lock_step lock_boot (goto 2 Won (unlocked\<lparr>lock := 1\<rparr>) lock_boot)"
    by (rule lock_step.try_win) (simp_all add: xchg_lock_def xchg_def unlocked_def)
  moreover have "lock_step (goto 2 Won (unlocked\<lparr>lock := 1\<rparr>) lock_boot) lock_taken"
    using lock_step.store_holder [of 2 "goto 2 Won (unlocked\<lparr>lock := 1\<rparr>) lock_boot"]
    by (simp add: lock_taken_def goto_goto spinlock_updates)
  ultimately show ?thesis by (rule converse_rtranclp_into_rtranclp [OF _ r_into_rtranclp])
qed

theorem spinlock_mutual_exclusion_witness:
  "lw_pc lock_taken 2 = Critical \<and> spinlock_holding boot_machine (lw_lk lock_taken) = Ret False"
  using conjunct2 [OF spinlock_mutual_exclusion [OF lock_taken_reachable boot_machine_on_cpu(1)]]
  by (simp add: lock_taken_def)

text \<open>
  (C31) The lock can always be had: in every reachable state in which a CPU spins in
  \<^verbatim>\<open>spinlock_acquire\<close>, a schedule that only lets the present owner (if any) finish its critical
  section and then runs the spinning CPU brings that CPU into its critical section, with the
  lock recording it as its holder.
\<close>

theorem spinlock_acquire_live:
  assumes "lock_step\<^sup>*\<^sup>* lock_boot w" and "lw_pc w c = Spinning" and "c < NUM_CPUS"
  shows "\<exists>w'. lock_step\<^sup>*\<^sup>* w w' \<and> lw_pc w' c = Critical \<and> lw_lk w' = held_by c \<and>
    (\<forall>d. d \<noteq> c \<longrightarrow> lw_pc w' d = (if owns w d then Outside else lw_pc w d))"
proof -
  from assms(1) have inv: "lock_inv w" by (rule lock_inv_reachable)
  with assms(2) obtain v where v: "lock_step\<^sup>*\<^sup>* w v" "lock (lw_lk v) = 0"
    "\<forall>d. lw_pc v d = (if owns w d then Outside else lw_pc w d)"
    using lock_drained [OF inv] by blast
  with assms(2) have "lw_pc v c = Spinning" by (simp add: owns_def)
  with v(2) assms(3) have "lock_step\<^sup>*\<^sup>* v (goto c Critical (held_by c) v)"
    by (intro spinner_wins)
  with v show ?thesis by (intro exI [of _ "goto c Critical (held_by c) v"]) auto
qed

theorem spinlock_acquire_live_witness:
  "\<exists>w'. lock_step\<^sup>*\<^sup>* (goto 1 Spinning (held_by 2) lock_taken) w' \<and> lw_pc w' 1 = Critical \<and> lw_lk w' = held_by 1"
proof -
  have "lock_step lock_taken (goto 1 Spinning (lw_lk lock_taken) lock_taken)"
    by (rule lock_step.acquire_call) (simp_all add: lock_taken_def)
  then have "lock_step\<^sup>*\<^sup>* lock_boot (goto 1 Spinning (held_by 2) lock_taken)"
    using lock_taken_reachable by (simp add: lock_taken_def rtranclp.rtrancl_into_rtrancl)
  from spinlock_acquire_live [OF this, of 1]
  obtain w' where "lock_step\<^sup>*\<^sup>* (goto 1 Spinning (held_by 2) lock_taken) w'"
    "lw_pc w' 1 = Critical" "lw_lk w' = held_by 1" by auto
  then show ?thesis by blast
qed

text \<open>
  (C32) The sequential \<^verbatim>\<open>spinlock_acquire\<close> refines the interleaved one: whenever it returns on
  CPU \<open>c\<close>, the instructions of that CPU alone take it from outside the lock operations into its
  critical section with the same lock, and it returns exactly when the lock word is clear.
\<close>

theorem spinlock_acquire_refines:
  assumes "on_cpu s" and "lw_pc w (this_cpu s) = Outside"
  shows "(\<exists>lk. spinlock_acquire s (lw_lk w) = Ret lk) = (lock (lw_lk w) = 0) \<and>
    (\<forall>lk. spinlock_acquire s (lw_lk w) = Ret lk \<longrightarrow>
      lock_step\<^sup>*\<^sup>* w (goto (this_cpu s) Critical lk w))"
proof (cases "lock (lw_lk w) = 0")
  case True
  let ?c = "this_cpu s"
  have c: "?c < NUM_CPUS" using assms(1) by (rule this_cpu_less)
  have "lock_step w (goto ?c Spinning (lw_lk w) w)"
    using c assms(2) by (rule lock_step.acquire_call)
  moreover have "lock_step\<^sup>*\<^sup>* (goto ?c Spinning (lw_lk w) w) (goto ?c Critical (held_by ?c) w)"
    using spinner_wins [of "goto ?c Spinning (lw_lk w) w" ?c] True c by (simp add: goto_goto)
  ultimately have "lock_step\<^sup>*\<^sup>* w (goto ?c Critical (held_by ?c) w)"
    by (rule converse_rtranclp_into_rtranclp)
  with True spinlock_acquire_free [OF assms(1) True] show ?thesis by simp
next
  case False
  with spinlock_acquire_held [OF False, of s] show ?thesis by simp
qed

theorem spinlock_acquire_refines_witness:
  "spinlock_acquire boot_machine (lw_lk lock_boot) = Ret (held_by 0) \<and>
    lock_step\<^sup>*\<^sup>* lock_boot (goto 0 Critical (held_by 0) lock_boot)"
  using spinlock_acquire_refines [of boot_machine lock_boot] spinlock_acquire_unlocked [of boot_machine]
  by simp

end
