(* ===== verification/Mboot.thy ===== *)
theory Mboot
  imports Spinlock
begin

unbundle bit_operations_syntax

text \<open>
  The physical memory map of \<^verbatim>\<open>kern/dev/mboot.c\<close>: the BIOS ranges that the boot loader left in
  memory are copied into a list sorted by start address, overlapping neighbours are merged, and the
  accessors of the physical memory manager read the list. A slot of \<^verbatim>\<open>pmmap_slots\<close> is taken for each
  entry and never given back, so the pool is represented by the number of slots taken, and a singly
  linked list of slots by the list of their contents.
\<close>

section \<open>State\<close>

record pmmap =
  pm_start :: u32
  pm_end :: u32
  pm_type :: u32

record mboot = machine +
  pmmap_slots_next_free :: u32
  pmmap_list :: "pmmap list"
  pmmap_sublist :: "u32 \<Rightarrow> pmmap list"
  max_usable_memory :: u32
  mem_npages :: u32
  pmmap_nentries :: u32

abbreviation (input) MEM_RAM :: u32 where "MEM_RAM \<equiv> 1"
abbreviation (input) MEM_RESERVED :: u32 where "MEM_RESERVED \<equiv> 2"
abbreviation (input) MEM_ACPI :: u32 where "MEM_ACPI \<equiv> 3"
abbreviation (input) MEM_NVS :: u32 where "MEM_NVS \<equiv> 4"
abbreviation (input) PMMAP_USABLE :: u32 where "PMMAP_USABLE \<equiv> 0"
abbreviation (input) PMMAP_RESV :: u32 where "PMMAP_RESV \<equiv> 1"
abbreviation (input) PMMAP_ACPI :: u32 where "PMMAP_ACPI \<equiv> 2"
abbreviation (input) PMMAP_NVS :: u32 where "PMMAP_NVS \<equiv> 3"

definition PMMAP_SUBLIST_NR :: "u32 \<Rightarrow> u32" where
  "PMMAP_SUBLIST_NR type =
     (if type = MEM_RAM then PMMAP_USABLE
      else if type = MEM_RESERVED then PMMAP_RESV
      else if type = MEM_ACPI then PMMAP_ACPI
      else if type = MEM_NVS then PMMAP_NVS else -1)"

section \<open>Operations\<close>

definition pmmap_alloc_slot :: "'a mboot_scheme \<Rightarrow> 'a mboot_scheme option" where
  "pmmap_alloc_slot s =
     (if pmmap_slots_next_free s = 128 then None
      else Some (s\<lparr>pmmap_slots_next_free := pmmap_slots_next_free s + 1\<rparr>))"

text \<open>The loop of \<^verbatim>\<open>pmmap_insert\<close>: the new slot goes before the first slot that starts later.\<close>

primrec pmmap_place :: "pmmap \<Rightarrow> pmmap list \<Rightarrow> pmmap list" where
  "pmmap_place free_slot [] = [free_slot]"
| "pmmap_place free_slot (slot # slots) =
     (if pm_start free_slot < pm_start slot then free_slot # slot # slots
      else slot # pmmap_place free_slot slots)"

definition pmmap_insert ::
    "u32 \<Rightarrow> u32 \<Rightarrow> u32 \<Rightarrow> 'a mboot_scheme \<Rightarrow> 'a mboot_scheme outcome" where
  "pmmap_insert start end' type s =
     (case pmmap_alloc_slot s of
        None \<Rightarrow> Panic ''More than 128 E820 entries.''
      | Some s \<Rightarrow>
          Ret (s\<lparr>pmmap_list :=
            pmmap_place \<lparr>pm_start = start, pm_end = end', pm_type = type\<rparr> (pmmap_list s)\<rparr>))"

text \<open>
  Step 1 of \<^verbatim>\<open>pmmap_merge\<close>: the loop looks at a slot and its successor; after a merge it goes on
  behind the grown slot.
\<close>

fun pmmap_merge_pass :: "pmmap list \<Rightarrow> pmmap list" where
  "pmmap_merge_pass (slot # next_slot # slots) =
     (if pm_start slot \<le> pm_start next_slot \<and> pm_end slot \<ge> pm_start next_slot \<and>
         pm_type slot = pm_type next_slot
      then slot\<lparr>pm_end := max32 (pm_end slot) (pm_end next_slot)\<rparr> # pmmap_merge_pass slots
      else slot # pmmap_merge_pass (next_slot # slots))"
| "pmmap_merge_pass slots = slots"

text \<open>
  Step 2: each slot is appended to the list of its type. The lists are empty before the loop, so
  inserting after the last slot inserted is appending.
\<close>

definition pmmap_classify ::
    "pmmap \<Rightarrow> (u32 \<Rightarrow> pmmap option) \<times> (u32 \<Rightarrow> pmmap list) \<Rightarrow>
     ((u32 \<Rightarrow> pmmap option) \<times> (u32 \<Rightarrow> pmmap list)) outcome" where
  "pmmap_classify slot = (\<lambda>(last_slot, sublist).
     let sublist_nr = PMMAP_SUBLIST_NR (pm_type slot) in
     kern_assert (sublist_nr \<noteq> -1)
       (Ret (last_slot(sublist_nr := Some slot), sublist(sublist_nr := sublist sublist_nr @ [slot]))))"

definition pmmap_merge :: "'a mboot_scheme \<Rightarrow> 'a mboot_scheme outcome" where
  "pmmap_merge s =
     (let s = s\<lparr>pmmap_list := pmmap_merge_pass (pmmap_list s)\<rparr> in
      andThen (forM (pmmap_list s) pmmap_classify (\<lambda>_. None, pmmap_sublist s)) (\<lambda>(last_slot, sublist).
      let s = s\<lparr>pmmap_sublist := sublist\<rparr> in
      Ret (case last_slot PMMAP_USABLE of
             None \<Rightarrow> s
           | Some slot \<Rightarrow> s\<lparr>max_usable_memory := pm_end slot\<rparr>)))"

text \<open>
  The fields of \<^verbatim>\<open>mboot_info_t\<close> and of a 24-byte \<^verbatim>\<open>mboot_mmap_t\<close> that \<^verbatim>\<open>pmmap_init\<close> reads.
\<close>

definition mbi_mmap_length :: "memory \<Rightarrow> u32 \<Rightarrow> u32" where
  "mbi_mmap_length m mbi = load32 m (mbi + 44)"

definition mbi_mmap_addr :: "memory \<Rightarrow> u32 \<Rightarrow> u32" where
  "mbi_mmap_addr m mbi = load32 m (mbi + 48)"

record mboot_mmap =
  base_addr_low :: u32
  base_addr_high :: u32
  length_low :: u32
  length_high :: u32
  mm_type :: u32

definition mboot_mmap_at :: "memory \<Rightarrow> u32 \<Rightarrow> mboot_mmap" where
  "mboot_mmap_at m p =
     \<lparr>base_addr_low = load32 m (p + 4), base_addr_high = load32 m (p + 8),
      length_low = load32 m (p + 12), length_high = load32 m (p + 16), mm_type = load32 m (p + 20)\<rparr>"

definition pmmap_entry_end :: "mboot_mmap \<Rightarrow> u32" where
  "pmmap_entry_end e =
     (if length_high e \<noteq> 0 \<or> length_low e \<ge> 0xffffffff - base_addr_low e then 0xffffffff
      else base_addr_low e + length_low e)"

definition pmmap_init_entry :: "mboot_mmap \<Rightarrow> 'a mboot_scheme \<Rightarrow> 'a mboot_scheme outcome" where
  "pmmap_init_entry e s =
     (if base_addr_high e \<noteq> 0 then Ret s
      else pmmap_insert (base_addr_low e) (pmmap_entry_end e) (mm_type e) s)"

definition pmmap_init :: "u32 \<Rightarrow> 'a mboot_scheme \<Rightarrow> 'a mboot_scheme outcome" where
  "pmmap_init mbi s =
     (let s = s\<lparr>pmmap_list := [],
        pmmap_sublist := (pmmap_sublist s)(PMMAP_USABLE := [], PMMAP_RESV := [], PMMAP_ACPI := [],
          PMMAP_NVS := [])\<rparr> in
      andThen (whileM
        (\<lambda>(p, s). p - mbi_mmap_addr (mem s) mbi < mbi_mmap_length (mem s) mbi)
        (\<lambda>(p, s). andThen (pmmap_init_entry (mboot_mmap_at (mem s) p) s) (\<lambda>s. Ret (p + 24, s)))
        (mbi_mmap_addr (mem s) mbi, s)) (\<lambda>(_, s).
      andThen (pmmap_merge s) (\<lambda>s.
      let s = s\<lparr>pmmap_nentries := pmmap_nentries s + of_nat (length (pmmap_list s))\<rparr> in
      Ret (s\<lparr>mem_npages := rounddown (max_usable_memory s) PAGESIZE div PAGESIZE\<rparr>))))"

definition get_size :: "'a mboot_scheme \<Rightarrow> u32" where
  "get_size s = pmmap_nentries s"

text \<open>The loop that the three accessors share: the index it stops at and the slot found there.\<close>

primrec pmmap_seek :: "u32 \<Rightarrow> u32 \<Rightarrow> pmmap list \<Rightarrow> u32 \<times> pmmap option" where
  "pmmap_seek i idx [] = (i, None)"
| "pmmap_seek i idx (slot # slots) =
     (if i = idx then (i, Some slot) else pmmap_seek (i + 1) idx slots)"

definition get_mms :: "u32 \<Rightarrow> 'a mboot_scheme \<Rightarrow> u32" where
  "get_mms idx s = (case pmmap_seek 0 idx (pmmap_list s) of
     (_, None) \<Rightarrow> 0 | (i, Some slot) \<Rightarrow> if i = pmmap_nentries s then 0 else pm_start slot)"

definition get_mml :: "u32 \<Rightarrow> 'a mboot_scheme \<Rightarrow> u32" where
  "get_mml idx s = (case pmmap_seek 0 idx (pmmap_list s) of
     (_, None) \<Rightarrow> 0 | (i, Some slot) \<Rightarrow> if i = pmmap_nentries s then 0 else pm_end slot - pm_start slot)"

definition is_usable :: "u32 \<Rightarrow> 'a mboot_scheme \<Rightarrow> bool" where
  "is_usable idx s = (case pmmap_seek 0 idx (pmmap_list s) of
     (_, None) \<Rightarrow> False | (i, Some slot) \<Rightarrow> if i = pmmap_nentries s then False else pm_type slot = MEM_RAM)"

definition set_cr3 :: "u32 \<Rightarrow> 'a machine_scheme \<Rightarrow> 'a machine_scheme" where
  "set_cr3 pdir s = s\<lparr>cr3 := pdir\<rparr>"

definition enable_paging :: "'a machine_scheme \<Rightarrow> 'a machine_scheme" where
  "enable_paging s =
     (let s = s\<lparr>cr4 := cr4 s OR 0x80\<rparr>;
          c = cr0 s OR (0x1 OR 0x80000000 OR 0x40000 OR 0x10000 OR 0x20 OR 0x2)
      in s\<lparr>cr0 := c AND NOT (0x4 OR 0x8)\<rparr>)"

section \<open>The memory map as a set of addresses\<close>

text \<open>Address \<open>a\<close> is in a range of type \<open>t\<close> of the map.\<close>

definition pm_covered :: "pmmap list \<Rightarrow> u32 \<Rightarrow> u32 \<Rightarrow> bool" where
  "pm_covered l t a = list_ex (\<lambda>r. pm_type r = t \<and> pm_start r \<le> a \<and> a < pm_end r) l"

abbreviation pm_sorted :: "pmmap list \<Rightarrow> bool" where
  "pm_sorted l \<equiv> sorted (map pm_start l)"

lemma pm_covered_simps [simp]:
  "\<not> pm_covered [] t a"
  "pm_covered (r # l) t a = ((pm_type r = t \<and> pm_start r \<le> a \<and> a < pm_end r) \<or> pm_covered l t a)"
  by (simp_all add: pm_covered_def)

lemma set_pmmap_place: "set (pmmap_place x l) = insert x (set l)"
  by (induction l) auto

lemma length_pmmap_place: "length (pmmap_place x l) = Suc (length l)"
  by (induction l) auto

lemma sorted_pmmap_place: "pm_sorted l \<Longrightarrow> pm_sorted (pmmap_place x l)"
  by (induction l) (auto simp: set_pmmap_place)

lemma pm_covered_place: "pm_covered (pmmap_place x l) t a = pm_covered (x # l) t a"
  by (induction l) auto

lemma pmmap_merge_pass_types: "pm_type ` set (pmmap_merge_pass l) \<subseteq> pm_type ` set l"
  by (induction l rule: pmmap_merge_pass.induct) auto

lemma pmmap_merge_pass_starts: "pm_start ` set (pmmap_merge_pass l) \<subseteq> pm_start ` set l"
  by (induction l rule: pmmap_merge_pass.induct) auto

lemma length_pmmap_merge_pass: "length (pmmap_merge_pass l) \<le> length l"
  by (induction l rule: pmmap_merge_pass.induct) auto

lemma sorted_pmmap_merge_pass: "pm_sorted l \<Longrightarrow> pm_sorted (pmmap_merge_pass l)"
proof (induction l rule: pmmap_merge_pass.induct)
  case (1 slot next_slot slots)
  have "pm_start ` set (pmmap_merge_pass slots) \<subseteq> pm_start ` set slots"
    and "pm_start ` set (pmmap_merge_pass (next_slot # slots)) \<subseteq> pm_start ` set (next_slot # slots)"
    by (rule pmmap_merge_pass_starts)+
  with 1 show ?case by (auto simp: subset_iff image_iff)
qed auto

lemma pm_covered_merge_pass: "pm_covered (pmmap_merge_pass l) t a = pm_covered l t a"
proof (induction l rule: pmmap_merge_pass.induct)
  case (1 slot next_slot slots)
  then show ?case by (auto simp: max32_def)
qed auto

section \<open>Building the map\<close>

lemma pmmap_insert_Ret:
  "pmmap_slots_next_free s \<noteq> 128 \<Longrightarrow> pmmap_insert start e type s =
    Ret (s\<lparr>pmmap_slots_next_free := pmmap_slots_next_free s + 1,
          pmmap_list := pmmap_place \<lparr>pm_start = start, pm_end = e, pm_type = type\<rparr> (pmmap_list s)\<rparr>)"
  by (simp add: pmmap_insert_def pmmap_alloc_slot_def)

definition valid_type :: "u32 \<Rightarrow> bool" where
  "valid_type t \<longleftrightarrow> t \<in> {MEM_RAM, MEM_RESERVED, MEM_ACPI, MEM_NVS}"

lemma valid_type_sublist: "valid_type t \<Longrightarrow> PMMAP_SUBLIST_NR t \<noteq> -1"
  by (auto simp: valid_type_def PMMAP_SUBLIST_NR_def)

lemma pmmap_classify_returns:
  assumes "\<forall>r \<in> set l. valid_type (pm_type r)"
  shows "returns (forM l pmmap_classify st) (\<lambda>_. True)"
  using assms
  by (induction l arbitrary: st)
    (auto simp: pmmap_classify_def Let_def valid_type_sublist split: prod.splits)

lemma pmmap_merge_returns:
  assumes "\<forall>r \<in> set (pmmap_list s). valid_type (pm_type r)"
  shows "returns (pmmap_merge s) (\<lambda>s'. pmmap_list s' = pmmap_merge_pass (pmmap_list s) \<and>
    pmmap_nentries s' = pmmap_nentries s)"
proof -
  have "\<forall>r \<in> set (pmmap_merge_pass (pmmap_list s)). valid_type (pm_type r)"
    using assms pmmap_merge_pass_types [of "pmmap_list s"] by fastforce
  from pmmap_classify_returns [OF this, of "(\<lambda>_. None, pmmap_sublist s)"] show ?thesis
    by (auto simp: pmmap_merge_def Let_def wp elim!: returns_mono split: option.splits)
qed

text \<open>
  What a BIOS entry says, as the specification of the map: entries that start above 4G are ignored,
  and a range is cut at the last address.
\<close>

definition e820_end :: "mboot_mmap \<Rightarrow> nat" where
  "e820_end e = min (2 ^ 32 - 1) (unat (base_addr_low e) + (unat (length_high e) * 2 ^ 32 + unat (length_low e)))"

definition e820_covers :: "mboot_mmap \<Rightarrow> u32 \<Rightarrow> u32 \<Rightarrow> bool" where
  "e820_covers e t a \<longleftrightarrow> base_addr_high e = 0 \<and> mm_type e = t \<and>
     unat (base_addr_low e) \<le> unat a \<and> unat a < e820_end e"

lemma unat_pmmap_entry_end: "unat (pmmap_entry_end e) = e820_end e"
proof -
  have d: "unat (0xffffffff - base_addr_low e) = 0xffffffff - unat (base_addr_low e)"
    using unat_u32_less [of "base_addr_low e"] by (subst unat_sub) (simp_all add: word_le_nat_alt)
  show ?thesis
  proof (cases "length_high e = 0")
    case True
    then show ?thesis
      using d unat_u32_less [of "base_addr_low e"] unat_u32_less [of "length_low e"]
      by (auto simp: pmmap_entry_end_def e820_end_def word_le_nat_alt unat_word_ariths)
  next
    case False
    then have "1 \<le> unat (length_high e)" by (simp add: Suc_le_eq unat_gt_0)
    with False show ?thesis by (auto simp: pmmap_entry_end_def e820_end_def)
  qed
qed

text \<open>The state of the map after the first \<open>k\<close> BIOS entries.\<close>

definition pmmap_after :: "(nat \<Rightarrow> mboot_mmap) \<Rightarrow> nat \<Rightarrow> 'a mboot_scheme \<Rightarrow> bool" where
  "pmmap_after e k s \<longleftrightarrow>
     unat (pmmap_slots_next_free s) \<le> k \<and> length (pmmap_list s) \<le> k \<and>
     pm_sorted (pmmap_list s) \<and> (\<forall>r \<in> set (pmmap_list s). valid_type (pm_type r)) \<and>
     (\<forall>t a. pm_covered (pmmap_list s) t a \<longleftrightarrow> (\<exists>j < k. e820_covers (e j) t a))"

lemma pmmap_init_entry_after:
  assumes after: "pmmap_after e k s" and k: "k < 128"
    and valid: "base_addr_high (e k) = 0 \<Longrightarrow> valid_type (mm_type (e k))"
  shows "returns (pmmap_init_entry (e k) s) (\<lambda>s'. pmmap_after e (Suc k) s' \<and> mem s' = mem s \<and>
    pmmap_nentries s' = pmmap_nentries s)"
proof (cases "base_addr_high (e k) = 0")
  case False
  then show ?thesis using after
    by (auto simp: pmmap_init_entry_def pmmap_after_def less_Suc_eq e820_covers_def)
next
  case True
  from after k have slots: "pmmap_slots_next_free s \<noteq> 128" "unat (pmmap_slots_next_free s) \<le> k"
    by (auto simp: pmmap_after_def)
  then have slots': "unat (pmmap_slots_next_free s + 1) \<le> Suc k"
    using k by (simp add: unat_word_ariths)
  have "pm_covered (pmmap_place \<lparr>pm_start = base_addr_low (e k), pm_end = pmmap_entry_end (e k), pm_type = mm_type (e k)\<rparr> (pmmap_list s)) t a
      \<longleftrightarrow> (\<exists>j < Suc k. e820_covers (e j) t a)" for t a
    using after True
    by (auto simp: unat_pmmap_entry_end pm_covered_place pmmap_after_def less_Suc_eq e820_covers_def u32_le_nat u32_less_nat)
  with after valid [OF True] slots slots' show ?thesis
    by (simp add: pmmap_init_entry_def True Let_def pmmap_insert_Ret pmmap_after_def sorted_pmmap_place
        set_pmmap_place length_pmmap_place)
qed

text \<open>
  The BIOS map in memory: \<open>n\<close> entries of 24 bytes, at most as many as there are slots, whose types
  below 4G are known ones.
\<close>

definition e820_entry :: "memory \<Rightarrow> u32 \<Rightarrow> nat \<Rightarrow> mboot_mmap" where
  "e820_entry m mbi j = mboot_mmap_at m (mbi_mmap_addr m mbi + 24 * of_nat j)"

definition e820_ok :: "memory \<Rightarrow> u32 \<Rightarrow> nat \<Rightarrow> bool" where
  "e820_ok m mbi n \<longleftrightarrow> n \<le> 128 \<and> mbi_mmap_length m mbi = 24 * of_nat n \<and>
     list_all (\<lambda>j. base_addr_high (e820_entry m mbi j) = 0 \<longrightarrow> valid_type (mm_type (e820_entry m mbi j))) [0..<n]"

lemma unat_24_times: "k \<le> 128 \<Longrightarrow> unat (24 * of_nat k :: u32) = 24 * k"
  by (simp add: unat_word_ariths unat_of_nat)

lemma pmmap_init_loop:
  assumes ok: "e820_ok m mbi n" and s: "mem s = m" "pmmap_after (e820_entry m mbi) 0 s" "pmmap_nentries s = c"
  shows "returns (whileM
      (\<lambda>(p, s). p - mbi_mmap_addr (mem s) mbi < mbi_mmap_length (mem s) mbi)
      (\<lambda>(p, s). andThen (pmmap_init_entry (mboot_mmap_at (mem s) p) s) (\<lambda>s. Ret (p + 24, s)))
      (mbi_mmap_addr (mem s) mbi, s))
    (\<lambda>(_, s). pmmap_after (e820_entry m mbi) n s \<and> pmmap_nentries s = c)"
proof (rule returns_whileM [where
      I = "\<lambda>(p, s). \<exists>k \<le> n. p = mbi_mmap_addr m mbi + 24 * of_nat k \<and> mem s = m \<and>
        pmmap_after (e820_entry m mbi) k s \<and> pmmap_nentries s = c" and
      m = "\<lambda>(p, s). 24 * n - unat (p - mbi_mmap_addr m mbi)"], goal_cases)
  case 1
  show ?case using s by (auto intro!: exI [of _ 0])
next
  case (2 ps)
  then obtain p s k where ps: "ps = (p, s)" and k: "k \<le> n" "p = mbi_mmap_addr m mbi + 24 * of_nat k"
    and st: "mem s = m" "pmmap_after (e820_entry m mbi) k s" "pmmap_nentries s = c"
    by (auto split: prod.splits)
  from ok have n: "n \<le> 128" by (simp add: e820_ok_def)
  have kn: "k < n"
    using 2(2) ok n k unfolding ps st(1) by (auto simp: e820_ok_def st(1) u32_less_nat unat_24_times)
  have "returns (pmmap_init_entry (e820_entry m mbi k) s)
    (\<lambda>s'. pmmap_after (e820_entry m mbi) (Suc k) s' \<and> mem s' = mem s \<and> pmmap_nentries s' = pmmap_nentries s)"
    by (rule pmmap_init_entry_after [OF st(2)]) (use kn n ok in \<open>auto simp: e820_ok_def list_all_iff\<close>)
  moreover have "mboot_mmap_at (mem s) p = e820_entry m mbi k" by (simp add: e820_entry_def st(1) k(2))
  moreover have "unat (24 * of_nat k + 24 :: u32) = 24 * Suc k"
    using unat_24_times [of "Suc k"] kn n by (simp add: algebra_simps)
  moreover have "unat (of_nat k * 24 :: u32) = k * 24"
    using unat_24_times [of k] kn n by (simp add: mult.commute)
  ultimately show ?case using kn n st
    by (auto simp: ps wp k(2) algebra_simps intro!: exI [of _ "Suc k"] elim!: returns_mono)
next
  case (3 ps)
  then obtain p s k where ps: "ps = (p, s)" and k: "k \<le> n" "p = mbi_mmap_addr m mbi + 24 * of_nat k"
    and st: "mem s = m" "pmmap_after (e820_entry m mbi) k s" "pmmap_nentries s = c"
    by (auto split: prod.splits)
  from ok have n: "n \<le> 128" by (simp add: e820_ok_def)
  have "k = n"
    using 3(2) ok n k by (auto simp: ps e820_ok_def st(1) u32_less_nat unat_24_times)
  with st show ?case by (simp add: ps)
qed

lemma pmmap_seek_eq:
  assumes "length l \<le> 128" and "unat i + length l \<le> 128" and "j < length l"
  shows "pmmap_seek i (i + of_nat j) l = (i + of_nat j, Some (l ! j))"
  using assms
proof (induction l arbitrary: i j)
  case (Cons r l)
  show ?case
  proof (cases j)
    case (Suc k)
    have "i + 1 + of_nat k \<noteq> i"
    proof -
      have "unat (1 + of_nat k :: u32) = Suc k"
        using Cons.prems Suc by (simp add: unat_word_ariths unat_of_nat)
      then show ?thesis by (auto simp: add.assoc)
    qed
    moreover have "unat (i + 1) + length l \<le> 128"
      using Cons.prems(2) by (simp add: unat_word_ariths)
    ultimately show ?thesis
      using Cons.IH [of "i + 1" k] Cons.prems Suc by (auto simp: add.assoc)
  qed simp
qed simp

text \<open>The accessors read the slot at an index, when the entries have been counted.\<close>

lemma pmmap_accessors:
  assumes "length (pmmap_list s) \<le> 128" and "pmmap_nentries s = of_nat (length (pmmap_list s))"
    and "j < length (pmmap_list s)"
  shows "get_mms (of_nat j) s = pm_start (pmmap_list s ! j)"
    and "get_mml (of_nat j) s = pm_end (pmmap_list s ! j) - pm_start (pmmap_list s ! j)"
    and "is_usable (of_nat j) s \<longleftrightarrow> pm_type (pmmap_list s ! j) = MEM_RAM"
proof -
  have "(of_nat j :: u32) \<noteq> of_nat (length (pmmap_list s))"
    using assms by (simp add: word_unat_eq_iff unat_of_nat)
  with pmmap_seek_eq [of "pmmap_list s" 0 j] assms
  show "get_mms (of_nat j) s = pm_start (pmmap_list s ! j)"
    and "get_mml (of_nat j) s = pm_end (pmmap_list s ! j) - pm_start (pmmap_list s ! j)"
    and "is_usable (of_nat j) s \<longleftrightarrow> pm_type (pmmap_list s ! j) = MEM_RAM"
    by (simp_all add: get_mms_def get_mml_def is_usable_def)
qed

section \<open>Properties\<close>

text \<open>
  (C17) The memory map is the BIOS map: from the initial state, \<^verbatim>\<open>pmmap_init\<close> comes back for every
  BIOS map of at most 128 entries of known types, with a list sorted by start address in which an
  address lies in a range of type \<open>t\<close> exactly when one of the BIOS entries of type \<open>t\<close> below 4G
  contains it (cut at the last address); merging overlapping ranges loses and adds nothing, and
  \<^verbatim>\<open>get_size\<close> counts the ranges of the list.
\<close>

theorem pmmap_init_correct:
  assumes "e820_ok (mem s) mbi n" and "pmmap_slots_next_free s = 0" and "pmmap_nentries s = 0"
  shows "returns (pmmap_init mbi s) (\<lambda>s'.
    pm_sorted (pmmap_list s') \<and> length (pmmap_list s') \<le> n \<and>
    get_size s' = of_nat (length (pmmap_list s')) \<and>
    (\<forall>t a. pm_covered (pmmap_list s') t a \<longleftrightarrow> (\<exists>j < n. e820_covers (e820_entry (mem s) mbi j) t a)))"
proof -
  define s0 where "s0 = s\<lparr>pmmap_list := [], pmmap_sublist := (pmmap_sublist s)(PMMAP_USABLE := [],
    PMMAP_RESV := [], PMMAP_ACPI := [], PMMAP_NVS := [])\<rparr>"
  have "pmmap_after (e820_entry (mem s) mbi) 0 s0"
    using assms(2) by (simp add: pmmap_after_def s0_def)
  moreover have "mem s0 = mem s" "pmmap_nentries s0 = 0" using assms(3) by (simp_all add: s0_def)
  ultimately have loop: "returns (whileM
      (\<lambda>(p, s). p - mbi_mmap_addr (mem s) mbi < mbi_mmap_length (mem s) mbi)
      (\<lambda>(p, s). andThen (pmmap_init_entry (mboot_mmap_at (mem s) p) s) (\<lambda>s. Ret (p + 24, s)))
      (mbi_mmap_addr (mem s0) mbi, s0))
    (\<lambda>(_, s'). pmmap_after (e820_entry (mem s) mbi) n s' \<and> pmmap_nentries s' = 0)"
    using assms(1) by (intro pmmap_init_loop) simp_all
  have merge: "returns (pmmap_merge s') (\<lambda>s''. pm_sorted (pmmap_list s'') \<and>
      length (pmmap_list s'') \<le> n \<and> pmmap_nentries s'' = 0 \<and>
      (\<forall>t a. pm_covered (pmmap_list s'') t a \<longleftrightarrow> (\<exists>j < n. e820_covers (e820_entry (mem s) mbi j) t a)))"
    if "pmmap_after (e820_entry (mem s) mbi) n s'" "pmmap_nentries s' = 0" for s'
  proof (rule returns_mono [OF pmmap_merge_returns])
    show "\<forall>r \<in> set (pmmap_list s'). valid_type (pm_type r)" using that by (simp add: pmmap_after_def)
  qed (use that length_pmmap_merge_pass [of "pmmap_list s'"] in
      \<open>auto simp: pmmap_after_def sorted_pmmap_merge_pass pm_covered_merge_pass\<close>)
  show ?thesis
    unfolding pmmap_init_def Let_def s0_def [symmetric]
    using loop by (auto simp: wp get_size_def intro: merge elim!: returns_mono)
qed

text \<open>A machine with one usable megabyte above the first, and nothing else in its BIOS map.\<close>

definition mboot_boot :: "memory \<Rightarrow> mboot" where
  "mboot_boot m = machine.extend (boot_machine\<lparr>mem := m\<rparr>) (mboot.fields 0 [] (\<lambda>_. []) 0 0 0)"

definition e820_sample :: memory where
  "e820_sample = store32 0x2014 1 (store32 0x200c 0x100000 (store32 0x2004 0x100000
     (store32 0x1030 0x2000 (store32 0x102c 24 (\<lambda>_. 0)))))"

lemma e820_sample_ok: "e820_ok (mem (mboot_boot e820_sample)) 0x1000 1"
  by code_simp

theorem pmmap_init_correct_witness:
  "returns (pmmap_init 0x1000 (mboot_boot e820_sample)) (\<lambda>s'. pm_covered (pmmap_list s') MEM_RAM 0x180000 \<and>
     \<not> pm_covered (pmmap_list s') MEM_RAM 0x200000)"
proof -
  have "e820_entry (mem (mboot_boot e820_sample)) 0x1000 0 =
    \<lparr>base_addr_low = 0x100000, base_addr_high = 0, length_low = 0x100000, length_high = 0, mm_type = 1\<rparr>"
    by code_simp
  then have e: "e820_covers (e820_entry (mem (mboot_boot e820_sample)) 0x1000 0) MEM_RAM 0x180000"
    "\<not> e820_covers (e820_entry (mem (mboot_boot e820_sample)) 0x1000 0) MEM_RAM 0x200000"
    by (simp_all add: e820_covers_def e820_end_def)
  have "returns (pmmap_init 0x1000 (mboot_boot e820_sample)) (\<lambda>s'.
    pm_sorted (pmmap_list s') \<and> length (pmmap_list s') \<le> 1 \<and>
    get_size s' = of_nat (length (pmmap_list s')) \<and>
    (\<forall>t a. pm_covered (pmmap_list s') t a \<longleftrightarrow>
      (\<exists>j < 1. e820_covers (e820_entry (mem (mboot_boot e820_sample)) 0x1000 j) t a)))"
    by (rule pmmap_init_correct [OF e820_sample_ok]) (simp_all add: mboot_boot_def machine.defs mboot.defs boot_machine_def)
  then show ?thesis by (rule returns_mono) (use e in auto)
qed

end
