(* ===== verification/MAT.thy ===== *)
theory MAT
  imports Mboot
begin

text \<open>
  Physical memory management below the containers: the allocation table of
  \<^verbatim>\<open>kern/pmm/MATIntro\<close>, its initialisation from the memory map in \<^verbatim>\<open>kern/pmm/MATInit\<close>, and the page
  allocator of \<^verbatim>\<open>kern/pmm/MATOp\<close>.
\<close>

section \<open>The allocation table (MATIntro)\<close>

record ATStruct =
  at_perm :: u32
  at_allocated :: u32

record mat = mboot +
  mem_lk :: spinlock
  NUM_PAGES :: u32
  AT :: "u32 \<Rightarrow> ATStruct"
  last_palloc_index :: u32

abbreviation (input) AT_SIZE :: u32 where "AT_SIZE \<equiv> 0x100000"

definition mem_spinlock_init :: "'a mat_scheme \<Rightarrow> 'a mat_scheme" where
  "mem_spinlock_init s = s\<lparr>mem_lk := spinlock_init (mem_lk s)\<rparr>"

definition mem_lock :: "'a mat_scheme \<Rightarrow> 'a mat_scheme outcome" where
  "mem_lock s = andThen (spinlock_acquire s (mem_lk s)) (\<lambda>lk. Ret (s\<lparr>mem_lk := lk\<rparr>))"

definition mem_unlock :: "'a mat_scheme \<Rightarrow> 'a mat_scheme" where
  "mem_unlock s = s\<lparr>mem_lk := spinlock_release (mem_lk s)\<rparr>"

definition get_nps :: "'a mat_scheme \<Rightarrow> u32" where
  "get_nps s = NUM_PAGES s"

definition set_nps :: "u32 \<Rightarrow> 'a mat_scheme \<Rightarrow> 'a mat_scheme" where
  "set_nps nps s = s\<lparr>NUM_PAGES := nps\<rparr>"

definition at_is_norm :: "u32 \<Rightarrow> 'a mat_scheme \<Rightarrow> u32 outcome" where
  "at_is_norm page_index s = bounded AT_SIZE page_index
     (let perm = at_perm (AT s page_index) in Ret (if perm > 1 then 1 else 0))"

definition at_set_perm :: "u32 \<Rightarrow> u32 \<Rightarrow> 'a mat_scheme \<Rightarrow> 'a mat_scheme outcome" where
  "at_set_perm page_index perm s = bounded AT_SIZE page_index
     (Ret (s\<lparr>AT := (AT s)(page_index := (AT s page_index)\<lparr>at_perm := perm, at_allocated := 0\<rparr>)\<rparr>))"

definition at_is_allocated :: "u32 \<Rightarrow> 'a mat_scheme \<Rightarrow> u32 outcome" where
  "at_is_allocated page_index s = bounded AT_SIZE page_index
     (let allocated = at_allocated (AT s page_index) in Ret (if allocated > 0 then 1 else allocated))"

definition at_set_allocated :: "u32 \<Rightarrow> u32 \<Rightarrow> 'a mat_scheme \<Rightarrow> 'a mat_scheme outcome" where
  "at_set_allocated page_index allocated s = bounded AT_SIZE page_index
     (Ret (s\<lparr>AT := (AT s)(page_index := (AT s page_index)\<lparr>at_allocated := allocated\<rparr>)\<rparr>))"

section \<open>Initialisation (MATInit)\<close>

text \<open>The loop that computes the end of the highest range, over \<open>(entry_idx, nps)\<close>.\<close>

definition pmem_highest :: "'a mat_scheme \<Rightarrow> (u32 \<times> u32) outcome" where
  "pmem_highest s =
     whileM (\<lambda>(entry_idx, nps). entry_idx < get_size s)
       (\<lambda>(entry_idx, nps).
          let cur_addr = get_mms entry_idx s + get_mml entry_idx s in
          Ret (entry_idx + 1, if nps < cur_addr then cur_addr else nps))
       (0, 0)"

text \<open>The inner loop for one page, over \<open>(entry_idx, flag, isnorm)\<close>.\<close>

definition pmem_page :: "u32 \<Rightarrow> 'a mat_scheme \<Rightarrow> (u32 \<times> bool \<times> bool) outcome" where
  "pmem_page pg_idx s =
     whileM (\<lambda>(entry_idx, flag, isnorm). entry_idx < get_size s \<and> \<not> flag)
       (\<lambda>(entry_idx, flag, isnorm).
          let isnorm = is_usable entry_idx s; start = get_mms entry_idx s; len = get_mml entry_idx s in
          Ret (entry_idx + 1,
               if start \<le> pg_idx * PAGESIZE \<and> (pg_idx + 1) * PAGESIZE \<le> start + len then True else flag,
               isnorm))
       (0, False, False)"

definition pmem_set_page :: "u32 \<Rightarrow> 'a mat_scheme \<Rightarrow> 'a mat_scheme outcome" where
  "pmem_set_page pg_idx s =
     (if pg_idx < VM_USERLO_PI \<or> VM_USERHI_PI \<le> pg_idx then at_set_perm pg_idx 1 s
      else andThen (pmem_page pg_idx s) (\<lambda>(_, flag, isnorm).
        if flag \<and> isnorm then at_set_perm pg_idx 2 s else at_set_perm pg_idx 0 s))"

text \<open>
  \<open>pmem_init\<close> after its call of \<^verbatim>\<open>devinit\<close>, which sets up the devices and the memory map; the
  device initialisation is an argument.
\<close>

definition pmem_init ::
    "(u32 \<Rightarrow> 'a mat_scheme \<Rightarrow> 'a mat_scheme outcome) \<Rightarrow> u32 \<Rightarrow> 'a mat_scheme \<Rightarrow> 'a mat_scheme outcome" where
  "pmem_init devinit mbi_addr s =
     andThen (devinit mbi_addr s) (\<lambda>s.
     let s = mem_spinlock_init s in
     andThen (pmem_highest s) (\<lambda>(_, nps).
     let nps = rounddown nps PAGESIZE div PAGESIZE; s = set_nps nps s in
     andThen (whileM (\<lambda>(pg_idx, s). pg_idx < nps)
       (\<lambda>(pg_idx, s). andThen (pmem_set_page pg_idx s) (\<lambda>s. Ret (pg_idx + 1, s)))
       (0, s)) (\<lambda>(_, s).
     Ret s)))"

section \<open>The page allocator (MATOp)\<close>

text \<open>One evaluation of \<^verbatim>\<open>at_is_norm(i) && !at_is_allocated(i)\<close>.\<close>

definition at_is_free :: "u32 \<Rightarrow> 'a mat_scheme \<Rightarrow> bool outcome" where
  "at_is_free i s = andThen (at_is_norm i s) (\<lambda>norm.
     if norm \<noteq> 0 then andThen (at_is_allocated i s) (\<lambda>a. Ret (a = 0)) else Ret False)"

text \<open>The scan, over \<open>(palloc_index, palloc_free_index, first)\<close>.\<close>

definition palloc_scan :: "'a mat_scheme \<Rightarrow> (u32 \<times> u32 \<times> bool) outcome" where
  "palloc_scan s =
     (let nps = get_nps s in
      whileM
        (\<lambda>(palloc_index, palloc_free_index, first).
           (palloc_index \<noteq> last_palloc_index s \<or> first) \<and> palloc_free_index = nps)
        (\<lambda>(palloc_index, palloc_free_index, first).
           andThen (at_is_free palloc_index s) (\<lambda>free.
           let palloc_free_index = (if free then palloc_index else palloc_free_index);
               palloc_index = palloc_index + 1;
               palloc_index = (if palloc_index \<ge> VM_USERHI_PI then VM_USERLO_PI else palloc_index)
           in Ret (palloc_index, palloc_free_index, False)))
        (last_palloc_index s, nps, True))"

definition palloc :: "'a mat_scheme \<Rightarrow> (u32 \<times> 'a mat_scheme) outcome" where
  "palloc s =
     andThen (mem_lock s) (\<lambda>s.
     let nps = get_nps s in
     andThen (palloc_scan s) (\<lambda>(_, palloc_free_index, _).
     if palloc_free_index = nps then
       Ret (0, mem_unlock (s\<lparr>last_palloc_index := VM_USERLO_PI\<rparr>))
     else
       andThen (at_set_allocated palloc_free_index 1 s) (\<lambda>s.
       Ret (palloc_free_index, mem_unlock (s\<lparr>last_palloc_index := palloc_free_index\<rparr>)))))"

definition pfree :: "u32 \<Rightarrow> 'a mat_scheme \<Rightarrow> 'a mat_scheme outcome" where
  "pfree pfree_index s =
     andThen (mem_lock s) (\<lambda>s.
     andThen (at_set_allocated pfree_index 0 s) (\<lambda>s.
     Ret (mem_unlock s)))"

section \<open>Pages\<close>

text \<open>A page that the allocator may hand out, and the invariant of the allocator's state.\<close>

definition page_norm :: "'a mat_scheme \<Rightarrow> u32 \<Rightarrow> bool" where
  "page_norm s i \<longleftrightarrow> 1 < at_perm (AT s i)"

definition page_free :: "'a mat_scheme \<Rightarrow> u32 \<Rightarrow> bool" where
  "page_free s i \<longleftrightarrow> page_norm s i \<and> at_allocated (AT s i) = 0"

definition user_page :: "u32 \<Rightarrow> bool" where
  "user_page i \<longleftrightarrow> VM_USERLO_PI \<le> i \<and> i < VM_USERHI_PI"

definition mat_ok :: "'a mat_scheme \<Rightarrow> bool" where
  "mat_ok s \<longleftrightarrow> on_cpu s \<and> mem_lk s = unlocked \<and> user_page (last_palloc_index s) \<and>
     (\<forall>i. page_norm s i \<longrightarrow> user_page i \<and> i < NUM_PAGES s) \<and>
     (\<forall>i. at_allocated (AT s i) \<noteq> 0 \<longrightarrow> page_norm s i)"

lemma user_page_AT: "user_page i \<Longrightarrow> i < AT_SIZE"
  by (auto simp: user_page_def u32_less_nat)

lemma at_is_free_eq: "i < AT_SIZE \<Longrightarrow> at_is_free i s = Ret (page_free s i)"
  by (auto simp: at_is_free_def at_is_norm_def at_is_allocated_def page_free_def page_norm_def Let_def)

lemma cpu_mat_frame [simp]:
  "this_cpu (s\<lparr>mem_lk := l\<rparr>) = this_cpu s" "on_cpu (s\<lparr>mem_lk := l\<rparr>) = on_cpu s"
  "this_cpu (s\<lparr>AT := a\<rparr>) = this_cpu s" "on_cpu (s\<lparr>AT := a\<rparr>) = on_cpu s"
  "this_cpu (s\<lparr>last_palloc_index := i\<rparr>) = this_cpu s" "on_cpu (s\<lparr>last_palloc_index := i\<rparr>) = on_cpu s"
  "this_cpu (s\<lparr>NUM_PAGES := n\<rparr>) = this_cpu s" "on_cpu (s\<lparr>NUM_PAGES := n\<rparr>) = on_cpu s"
  by (simp_all add: on_cpu_def this_cpu_def this_kstack_def split: kstack_ref.split)

section \<open>The circular scan\<close>

text \<open>The index the scan looks at in round \<open>k\<close>, from the remembered index \<open>l\<close>.\<close>

definition circ :: "u32 \<Rightarrow> nat \<Rightarrow> u32" where
  "circ l k = of_nat (0x40000 + (unat l - 0x40000 + k) mod 0xB0000)"

lemma unat_circ: "unat (circ l k) = 0x40000 + (unat l - 0x40000 + k) mod 0xB0000"
proof -
  have "(unat l - 0x40000 + k) mod 0xB0000 < 0xB0000" by simp
  then have "0x40000 + (unat l - 0x40000 + k) mod 0xB0000 < 2 ^ LENGTH(32)" by simp
  then show ?thesis unfolding circ_def unat_of_nat by (rule mod_less)
qed

lemma user_page_circ: "user_page (circ l k)"
  by (simp add: user_page_def u32_le_nat u32_less_nat unat_circ)

lemma circ_0: "user_page l \<Longrightarrow> circ l 0 = l"
  by (auto simp: word_unat_eq_iff unat_circ user_page_def u32_le_nat u32_less_nat mod_less)

lemma circ_Suc: "circ l (Suc k) = (if circ l k + 1 \<ge> VM_USERHI_PI then VM_USERLO_PI else circ l k + 1)"
proof -
  let ?x = "unat l - 0x40000 + k"
  have "unat (circ l k + 1) = Suc (unat (circ l k))"
    by (rule unat_plus_one [of _ VM_USERHI_PI]) (use user_page_circ [of l k] in \<open>simp add: user_page_def\<close>)
  then have "unat (circ l k + 1) = 0x40000 + Suc (?x mod 0xB0000)" by (simp add: unat_circ)
  moreover have "unat (circ l (Suc k)) = 0x40000 + (if Suc (?x mod 0xB0000) = 0xB0000 then 0 else Suc (?x mod 0xB0000))"
    by (simp add: unat_circ mod_Suc)
  moreover have "?x mod 0xB0000 < 0xB0000" by simp
  ultimately show ?thesis by (auto simp: word_unat_eq_iff u32_le_nat simp del: mod_less_divisor)
qed

lemma circ_back: "user_page l \<Longrightarrow> 0 < k \<Longrightarrow> k \<le> 0xB0000 \<Longrightarrow> circ l k = l \<Longrightarrow> k = 0xB0000"
proof -
  assume l: "user_page l" and k: "0 < k" "k \<le> 0xB0000" and eq: "circ l k = l"
  define x where "x = unat l - 0x40000"
  from l have x: "x < 0xB0000" "unat l = 0x40000 + x"
    by (auto simp: x_def user_page_def u32_le_nat u32_less_nat)
  from eq x have m: "(x + k) mod 0xB0000 = x"
    using unat_circ [of l k] by (simp add: x_def [symmetric])
  show "k = 0xB0000"
  proof (rule ccontr)
    assume "k \<noteq> 0xB0000"
    with k have "k < 0xB0000" by simp
    with m x(1) k(1) show False
      by (cases "x + k < 0xB0000") (auto simp: mod_if split: if_splits)
  qed
qed

lemma circ_reaches: "user_page l \<Longrightarrow> user_page i \<Longrightarrow> \<exists>k < 0xB0000. circ l k = i"
proof -
  assume l: "user_page l" and i: "user_page i"
  let ?k = "(unat i + 0xB0000 - unat l) mod 0xB0000"
  have "(unat l - 0x40000 + ?k) mod 0xB0000 = (unat l - 0x40000 + (unat i + 0xB0000 - unat l)) mod 0xB0000"
    by (simp add: mod_add_right_eq)
  also have "\<dots> = (unat i - 0x40000 + 0xB0000) mod 0xB0000"
    using l i by (intro arg_cong [where f = "\<lambda>x. x mod 0xB0000"])
      (auto simp: user_page_def u32_le_nat u32_less_nat)
  also have "\<dots> = unat i - 0x40000"
    using i by (simp only: mod_add_self2) (auto simp: user_page_def u32_le_nat u32_less_nat)
  finally have "circ l ?k = i"
    using i by (simp add: word_unat_eq_iff unat_circ user_page_def u32_le_nat)
  then show ?thesis by (intro exI [of _ ?k]) simp
qed

text \<open>Page \<open>p\<close> is the first free one in the order of the scan.\<close>

definition first_free :: "'a mat_scheme \<Rightarrow> u32 \<Rightarrow> bool" where
  "first_free s p \<longleftrightarrow> (\<exists>k < 0xB0000. p = circ (last_palloc_index s) k \<and> page_free s p \<and>
     (\<forall>j < k. \<not> page_free s (circ (last_palloc_index s) j)))"

lemma palloc_scan_spec:
  assumes l: "user_page (last_palloc_index s)" and norm: "\<forall>i. page_norm s i \<longrightarrow> i < NUM_PAGES s"
  shows "returns (palloc_scan s) (\<lambda>(_, f, _).
    if f = NUM_PAGES s then \<forall>i. user_page i \<longrightarrow> \<not> page_free s i else first_free s f)"
  unfolding palloc_scan_def get_nps_def Let_def
proof (rule returns_whileM_count [where N = "0xB0000" and
    I = "\<lambda>k (i, f, first). k \<le> 0xB0000 \<and> i = circ (last_palloc_index s) k \<and> (first \<longleftrightarrow> k = 0) \<and>
      (if f = NUM_PAGES s then \<forall>j < k. \<not> page_free s (circ (last_palloc_index s) j) else first_free s f)"],
    goal_cases)
  case 1
  show ?case by (simp add: circ_0 [OF l])
next
  case (2 k st)
  let ?c = "circ (last_palloc_index s)"
  from 2 obtain first where st: "st = (?c k, NUM_PAGES s, first)" and k: "k \<le> 0xB0000"
    and nf: "\<forall>j < k. \<not> page_free s (?c j)" and g: "?c k \<noteq> last_palloc_index s \<or> k = 0"
    by (auto split: prod.splits if_splits)
  have "k \<noteq> 0xB0000" using g circ_0 [OF l] by (auto simp: circ_def)
  with k have kN: "k < 0xB0000" by simp
  have "returns (at_is_free (?c k) s) (\<lambda>free. free = page_free s (?c k))"
    by (simp add: at_is_free_eq user_page_AT user_page_circ)
  moreover have "first_free s (?c k) \<and> ?c k \<noteq> NUM_PAGES s" if "page_free s (?c k)"
    using that kN nf norm by (auto simp: first_free_def page_free_def)
  ultimately show ?case using kN nf
    by (auto simp: st wp circ_Suc less_Suc_eq elim!: returns_mono)
next
  case (3 k st)
  then obtain i f first where st: "st = (i, f, first)" by (cases st) auto
  show ?case
  proof (cases "f = NUM_PAGES s")
    case True
    with 3 st have "k = 0xB0000"
      using circ_back [OF l, of k] by (auto split: if_splits)
    with 3 True have "\<forall>j < 0xB0000. \<not> page_free s (circ (last_palloc_index s) j)" by (simp add: st)
    then show ?thesis using circ_reaches [OF l] by (auto simp: st True)
  next
    case False
    with 3 show ?thesis by (simp add: st)
  qed
qed

text \<open>What \<open>palloc\<close> and \<open>pfree\<close> do to the state, on each of their branches.\<close>

lemma palloc_cases:
  assumes ok: "mat_ok s"
  obtains (full) "\<forall>i. \<not> page_free s i" and "palloc s = Ret (0, s\<lparr>last_palloc_index := VM_USERLO_PI\<rparr>)"
  | (page) p where "first_free s p" and "palloc s =
      Ret (p, s\<lparr>AT := (AT s)(p := (AT s p)\<lparr>at_allocated := 1\<rparr>), last_palloc_index := p\<rparr>)"
proof -
  let ?s = "s\<lparr>mem_lk := held_by (this_cpu s)\<rparr>"
  from ok have cpu: "on_cpu s" and lk: "mem_lk s = unlocked" by (simp_all add: mat_ok_def)
  have pf: "page_norm ?s = page_norm s" "page_free ?s = page_free s" "first_free ?s = first_free s"
    by (auto simp: fun_eq_iff page_norm_def page_free_def first_free_def)
  have lock: "mem_lock s = Ret ?s" using cpu lk by (simp add: mem_lock_def locks)
  have restore: "mem_unlock (?s\<lparr>AT := a, last_palloc_index := i\<rparr>) = s\<lparr>AT := a, last_palloc_index := i\<rparr>"
    "mem_unlock (?s\<lparr>last_palloc_index := i\<rparr>) = s\<lparr>last_palloc_index := i\<rparr>" for a i
    using lk by (simp_all add: mem_unlock_def)
  obtain i f b where scan: "palloc_scan ?s = Ret (i, f, b)" and
    r: "if f = NUM_PAGES s then \<forall>i. user_page i \<longrightarrow> \<not> page_free s i else first_free s f"
    using palloc_scan_spec [of ?s, unfolded pf] ok by (auto simp: mat_ok_def elim!: returnsE split: prod.splits)
  show thesis
  proof (cases "f = NUM_PAGES s")
    case True
    with r ok have "\<forall>i. \<not> page_free s i" by (auto simp: mat_ok_def page_free_def)
    with True scan show thesis
      by (intro full) (simp_all add: palloc_def lock get_nps_def restore)
  next
    case False
    with r have f: "first_free s f" by simp
    then have "f < AT_SIZE" by (auto simp: first_free_def intro: user_page_AT user_page_circ)
    with f False scan show thesis
      by (intro page [of f]) (simp_all add: palloc_def lock get_nps_def at_set_allocated_def restore)
  qed
qed

lemma pfree_eq:
  assumes "on_cpu s" and "mem_lk s = unlocked" and "p < AT_SIZE"
  shows "pfree p s = Ret (s\<lparr>AT := (AT s)(p := (AT s p)\<lparr>at_allocated := 0\<rparr>)\<rparr>)"
  using assms by (simp add: pfree_def mem_lock_def locks at_set_allocated_def mem_unlock_def)

section \<open>The contract of a page allocator\<close>

text \<open>
  What the layers above rely on, over the set \<open>managed\<close> of pages that the allocator owns and the set
  \<open>avail\<close> of those it can still hand out; page 0 is the answer that there is none.
\<close>

locale page_allocator =
  fixes alloc :: "'s \<Rightarrow> (u32 \<times> 's) outcome"
    and release :: "u32 \<Rightarrow> 's \<Rightarrow> 's outcome"
    and inv :: "'s \<Rightarrow> bool"
    and avail :: "'s \<Rightarrow> u32 set"
    and managed :: "'s \<Rightarrow> u32 set"
  assumes alloc_spec: "inv s \<Longrightarrow> returns (alloc s) (\<lambda>(p, s'). inv s' \<and> managed s' = managed s \<and>
      (if avail s = {} then p = 0 \<and> avail s' = {} else p \<in> avail s \<and> avail s' = avail s - {p}))"
    and release_spec: "\<lbrakk>inv s; p \<in> managed s\<rbrakk> \<Longrightarrow> returns (release p s) (\<lambda>s'. inv s' \<and>
      managed s' = managed s \<and> avail s' = insert p (avail s))"
    and avail_managed: "inv s \<Longrightarrow> avail s \<subseteq> managed s"
    and zero_unmanaged: "inv s \<Longrightarrow> 0 \<notin> managed s"
begin

text \<open>A run of \<open>n\<close> allocations, and the pages it returned.\<close>

primrec allocs :: "nat \<Rightarrow> 's \<Rightarrow> (u32 list \<times> 's) outcome" where
  "allocs 0 s = Ret ([], s)"
| "allocs (Suc n) s = andThen (alloc s) (\<lambda>(p, s). andThen (allocs n s) (\<lambda>(ps, s). Ret (p # ps, s)))"

lemma alloc_fails_iff:
  assumes "inv s"
  shows "returns (alloc s) (\<lambda>(p, _). p = 0 \<longleftrightarrow> avail s = {})"
  using alloc_spec [OF assms] avail_managed [OF assms] zero_unmanaged [OF assms]
  by (auto elim!: returns_mono split: if_splits)

text \<open>As long as pages are left, a run hands out distinct available pages and nothing else changes.\<close>

lemma allocs_distinct:
  assumes "inv s" and "n \<le> card (avail s)"
  shows "returns (allocs n s) (\<lambda>(ps, s'). inv s' \<and> length ps = n \<and> distinct ps \<and> set ps \<subseteq> avail s \<and>
    avail s' = avail s - set ps \<and> managed s' = managed s)"
  using assms
proof (induction n arbitrary: s)
  case (Suc n)
  from Suc.prems have ne: "avail s \<noteq> {}" by auto
  have fin: "finite (avail s)" using Suc.prems by (intro card_ge_0_finite) simp
  from alloc_spec [OF Suc.prems(1)] ne obtain p s1 where s1: "alloc s = Ret (p, s1)" "inv s1"
    "managed s1 = managed s" "p \<in> avail s" "avail s1 = avail s - {p}"
    by (auto elim!: returnsE)
  have "n \<le> card (avail s1)" using Suc.prems(2) s1(4) fin by (simp add: s1(5))
  from Suc.IH [OF s1(2) this] show ?case
    by (auto simp: s1 wp elim!: returns_mono)
qed simp

text \<open>A page that is given back can be had again, and the set of available pages is restored.\<close>

lemma alloc_release:
  assumes "inv s" and "avail s \<noteq> {}"
  shows "returns (alloc s) (\<lambda>(p, s'). returns (release p s') (\<lambda>s''. inv s'' \<and> avail s'' = avail s))"
proof -
  from alloc_spec [OF assms(1)] assms(2) obtain p s1 where s1: "alloc s = Ret (p, s1)" "inv s1"
    "managed s1 = managed s" "p \<in> avail s" "avail s1 = avail s - {p}"
    by (auto elim!: returnsE)
  have "p \<in> managed s1" using s1 avail_managed [OF assms(1)] by auto
  from release_spec [OF s1(2) this] show ?thesis
    using s1 by (auto simp: insert_absorb elim!: returns_mono)
qed

end

lemma first_free_free: "first_free s p \<Longrightarrow> page_free s p"
  by (auto simp: first_free_def)

lemma first_free_user: "first_free s p \<Longrightarrow> user_page p"
  by (auto simp: first_free_def user_page_circ)

lemma mat_ok_at_update:
  assumes "mat_ok s"
  shows "a = 0 \<or> page_norm s p \<Longrightarrow> mat_ok (s\<lparr>AT := (AT s)(p := (AT s p)\<lparr>at_allocated := a\<rparr>)\<rparr>)"
    and "user_page i \<Longrightarrow> mat_ok (s\<lparr>last_palloc_index := i\<rparr>)"
  using assms by (auto simp: mat_ok_def page_norm_def)

lemma page_sets_at_update:
  "page_norm (s\<lparr>AT := (AT s)(p := (AT s p)\<lparr>at_allocated := a\<rparr>)\<rparr>) i = page_norm s i"
  "page_free (s\<lparr>AT := (AT s)(p := (AT s p)\<lparr>at_allocated := a\<rparr>)\<rparr>) i =
    (if i = p then page_norm s p \<and> a = 0 else page_free s i)"
  "page_norm (s\<lparr>last_palloc_index := l\<rparr>) i = page_norm s i"
  "page_free (s\<lparr>last_palloc_index := l\<rparr>) i = page_free s i"
  by (auto simp: page_free_def page_norm_def)

interpretation mat: page_allocator palloc pfree mat_ok "\<lambda>s. {i. page_free s i}" "\<lambda>s. {i. page_norm s i}"
proof unfold_locales
  fix s :: "'a mat_scheme"
  assume ok: "mat_ok s"
  show "returns (palloc s) (\<lambda>(p, s'). mat_ok s' \<and> {i. page_norm s' i} = {i. page_norm s i} \<and>
      (if {i. page_free s i} = {} then p = 0 \<and> {i. page_free s' i} = {}
       else p \<in> {i. page_free s i} \<and> {i. page_free s' i} = {i. page_free s i} - {p}))"
    using ok
  proof (cases rule: palloc_cases)
    case full
    then show ?thesis using mat_ok_at_update(2) [OF ok, of VM_USERLO_PI]
      by (auto simp: page_sets_at_update user_page_def)
  next
    case (page p)
    note p = first_free_free [OF page(1)] first_free_user [OF page(1)]
    have "mat_ok (s\<lparr>AT := (AT s)(p := (AT s p)\<lparr>at_allocated := 1\<rparr>), last_palloc_index := p\<rparr>)"
      by (rule mat_ok_at_update(2) [OF mat_ok_at_update(1) [OF ok] p(2)]) (use p(1) in \<open>simp add: page_free_def\<close>)
    with p page show ?thesis by (auto simp: page_sets_at_update split: if_splits)
  qed
next
  fix s :: "'a mat_scheme" and p
  assume ok: "mat_ok s" and p: "p \<in> {i. page_norm s i}"
  then have "p < AT_SIZE" by (auto simp: mat_ok_def intro: user_page_AT)
  then have "pfree p s = Ret (s\<lparr>AT := (AT s)(p := (AT s p)\<lparr>at_allocated := 0\<rparr>)\<rparr>)"
    using ok by (intro pfree_eq) (simp_all add: mat_ok_def)
  then show "returns (pfree p s) (\<lambda>s'. mat_ok s' \<and> {i. page_norm s' i} = {i. page_norm s i} \<and>
      {i. page_free s' i} = insert p {i. page_free s i})"
    using p by (auto simp: mat_ok_at_update(1) [OF ok, of 0] page_sets_at_update)
next
  fix s :: "'a mat_scheme"
  assume "mat_ok s"
  then show "{i. page_free s i} \<subseteq> {i. page_norm s i}" "0 \<notin> {i. page_norm s i}"
    by (auto simp: page_free_def mat_ok_def user_page_def)
qed

section \<open>Initialisation of the table\<close>

text \<open>
  The specification of a page's permission: 1 for the kernel's pages, and for a user page 2 when the
  first range of the map that contains the whole page is usable memory, 0 otherwise.
\<close>

definition contains_page :: "u32 \<Rightarrow> pmmap \<Rightarrow> bool" where
  "contains_page i r \<longleftrightarrow> unat (pm_start r) \<le> unat i * 4096 \<and> (unat i + 1) * 4096 \<le> unat (pm_end r)"

definition page_perm :: "pmmap list \<Rightarrow> u32 \<Rightarrow> u32" where
  "page_perm l i =
     (if \<not> user_page i then 1
      else case find (contains_page i) l of None \<Rightarrow> 0 | Some r \<Rightarrow> if pm_type r = MEM_RAM then 2 else 0)"

text \<open>The memory map as \<open>pmmap_init\<close> leaves it.\<close>

definition pmmap_ok :: "'a mboot_scheme \<Rightarrow> bool" where
  "pmmap_ok s \<longleftrightarrow> length (pmmap_list s) \<le> 128 \<and> pmmap_nentries s = of_nat (length (pmmap_list s))"

definition pm_highest :: "pmmap list \<Rightarrow> u32" where
  "pm_highest l = fold (\<lambda>r m. max m (pm_end r)) l 0"

lemma unat_get_size: "pmmap_ok s \<Longrightarrow> unat (get_size s) = length (pmmap_list s)"
  by (simp add: pmmap_ok_def get_size_def unat_of_nat)

lemma pmmap_at:
  assumes "pmmap_ok s" and "k < length (pmmap_list s)"
  shows "get_mms (of_nat k) s + get_mml (of_nat k) s = pm_end (pmmap_list s ! k)"
    and "get_mms (of_nat k) s = pm_start (pmmap_list s ! k)"
    and "is_usable (of_nat k) s \<longleftrightarrow> pm_type (pmmap_list s ! k) = MEM_RAM"
  using pmmap_accessors [of s k] assms by (simp_all add: pmmap_ok_def)

lemma entry_idx_less:
  assumes "pmmap_ok s" and "k \<le> length (pmmap_list s)"
  shows "of_nat k < get_size s \<longleftrightarrow> k < length (pmmap_list s)"
  using assms by (auto simp: u32_less_nat unat_get_size unat_of_nat pmmap_ok_def)

lemma pmem_highest_spec:
  assumes ok: "pmmap_ok s"
  shows "returns (pmem_highest s) (\<lambda>(_, nps). nps = pm_highest (pmmap_list s))"
  unfolding pmem_highest_def
proof (rule returns_whileM_count [where N = "length (pmmap_list s)" and
    I = "\<lambda>k (i, nps). k \<le> length (pmmap_list s) \<and> i = of_nat k \<and> nps = pm_highest (take k (pmmap_list s))"], goal_cases)
  case 1
  show ?case by (simp add: pm_highest_def)
next
  case (2 k st)
  then have k: "k < length (pmmap_list s)" "st = (of_nat k, pm_highest (take k (pmmap_list s)))"
    using entry_idx_less [OF ok, of k] by (auto split: prod.splits)
  with pmmap_at(1) [OF ok k(1)] show ?case
    by (auto simp: take_Suc_conv_app_nth pm_highest_def Let_def max_def)
next
  case (3 k st)
  then show ?case using entry_idx_less [OF ok, of k] by (auto split: prod.splits)
qed

lemma page_addr_unat:
  assumes "user_page i"
  shows "unat (i * PAGESIZE) = unat i * 4096" "unat ((i + 1) * PAGESIZE) = (unat i + 1) * 4096"
  using assms by (auto simp: user_page_def u32_le_nat u32_less_nat unat_word_ariths)

lemma pmem_page_spec:
  assumes ok: "pmmap_ok s" and i: "user_page i"
  shows "returns (pmem_page i s) (\<lambda>(_, flag, isnorm). flag \<and> isnorm \<longleftrightarrow> page_perm (pmmap_list s) i = 2)"
proof -
  let ?l = "pmmap_list s"
  have contains: "get_mms (of_nat k) s \<le> i * PAGESIZE \<and> (i + 1) * PAGESIZE \<le> get_mms (of_nat k) s + get_mml (of_nat k) s
      \<longleftrightarrow> contains_page i (?l ! k)" if "k < length ?l" for k
    using pmmap_at(1,2) [OF ok that] by (simp only: contains_page_def u32_le_nat page_addr_unat [OF i])
  show ?thesis
    unfolding pmem_page_def
  proof (rule returns_whileM_count [where N = "length ?l" and
      I = "\<lambda>k (j, flag, isnorm). k \<le> length ?l \<and> j = of_nat k \<and>
        (if flag then \<exists>r. find (contains_page i) ?l = Some r \<and> (isnorm \<longleftrightarrow> pm_type r = MEM_RAM)
         else find (contains_page i) (take k ?l) = None)"], goal_cases)
    case 1
    show ?case by simp
  next
    case (2 k st)
    then obtain n where st: "st = (of_nat k, False, n)" and k: "k < length ?l"
      and none: "find (contains_page i) (take k ?l) = None"
      using entry_idx_less [OF ok, of k] by (auto split: prod.splits)
    have "find (contains_page i) ?l = Some (?l ! k)" if "contains_page i (?l ! k)"
      using that none k by (auto simp: find_Some_iff find_None_iff in_set_conv_nth intro!: exI [of _ k])
    moreover have "find (contains_page i) (take (Suc k) ?l) = None" if "\<not> contains_page i (?l ! k)"
      using that none k by (auto simp: find_None_iff take_Suc_conv_app_nth)
    ultimately show ?case using k contains [OF k] pmmap_at(3) [OF ok k] by (simp add: st Let_def)
  next
    case (3 k st)
    then show ?case using entry_idx_less [OF ok, of k] i
      by (auto simp: page_perm_def split: prod.splits if_splits)
  qed
qed

lemma ATStruct_set [simp]: "r\<lparr>at_perm := p, at_allocated := a\<rparr> = \<lparr>at_perm = p, at_allocated = a\<rparr>"
  by (cases r) simp

lemma pmem_set_page_spec:
  assumes ok: "pmmap_ok s" and i: "i < AT_SIZE"
  shows "pmem_set_page i s =
    Ret (s\<lparr>AT := (AT s)(i := \<lparr>at_perm = page_perm (pmmap_list s) i, at_allocated = 0\<rparr>)\<rparr>)"
proof (cases "user_page i")
  case True
  then have u: "\<not> (i < VM_USERLO_PI \<or> VM_USERHI_PI \<le> i)" by (auto simp: user_page_def)
  have p: "page_perm (pmmap_list s) i = 2 \<or> page_perm (pmmap_list s) i = 0"
    using True by (auto simp: page_perm_def split: option.splits)
  from pmem_page_spec [OF ok True] obtain j f n where page: "pmem_page i s = Ret (j, f, n)"
    "f \<and> n \<longleftrightarrow> page_perm (pmmap_list s) i = 2" by (auto elim!: returnsE)
  then have "pmem_set_page i s = at_set_perm i (page_perm (pmmap_list s) i) s"
    using u p by (elim disjE) (auto simp: pmem_set_page_def)
  then show ?thesis using i by (simp add: at_set_perm_def)
next
  case False
  then have "i < VM_USERLO_PI \<or> VM_USERHI_PI \<le> i" by (auto simp: user_page_def)
  then show ?thesis using i False by (simp add: pmem_set_page_def at_set_perm_def page_perm_def)
qed

text \<open>The number of pages of a memory map.\<close>

definition num_pages :: "pmmap list \<Rightarrow> u32" where
  "num_pages l = rounddown (pm_highest l) PAGESIZE div PAGESIZE"

lemma num_pages_AT: "num_pages l < AT_SIZE"
proof -
  have "unat (rounddown (pm_highest l) PAGESIZE) div 4096 < 0x100000"
    using unat_u32_less [of "rounddown (pm_highest l) PAGESIZE"] by linarith
  then show ?thesis by (simp add: num_pages_def u32_less_nat unat_div)
qed

lemma pmem_init_loop:
  assumes ok: "pmmap_ok s" and n: "n < AT_SIZE"
  shows "returns (whileM (\<lambda>(pg_idx, s). pg_idx < n)
       (\<lambda>(pg_idx, s). andThen (pmem_set_page pg_idx s) (\<lambda>s. Ret (pg_idx + 1, s))) (0, s))
    (\<lambda>(_, s'). s' = s\<lparr>AT := (\<lambda>i. if i < n then \<lparr>at_perm = page_perm (pmmap_list s) i, at_allocated = 0\<rparr> else AT s i)\<rparr>)"
proof -
  define tab where "tab k = (\<lambda>i. if unat i < k then \<lparr>at_perm = page_perm (pmmap_list s) i, at_allocated = 0\<rparr> else AT s i)" for k
  show ?thesis
  proof (rule returns_whileM_count [where N = "unat n" and
      I = "\<lambda>k (i, s'). k \<le> unat n \<and> unat i = k \<and> s' = s\<lparr>AT := tab k\<rparr>"], goal_cases)
    case 1
    show ?case by (simp add: tab_def)
  next
    case (2 k st)
    then obtain i where st: "st = (i, s\<lparr>AT := tab k\<rparr>)" and i: "unat i = k" "i < n"
      by (auto split: prod.splits)
    have "(tab k)(i := \<lparr>at_perm = page_perm (pmmap_list s) i, at_allocated = 0\<rparr>) = tab (Suc k)"
    proof (rule ext)
      fix x
      show "((tab k)(i := \<lparr>at_perm = page_perm (pmmap_list s) i, at_allocated = 0\<rparr>)) x = tab (Suc k) x"
        using i(1) unsigned_word_eqI [of x i] by (cases "x = i") (auto simp: tab_def less_Suc_eq)
    qed
    moreover have "pmmap_ok (s\<lparr>AT := tab k\<rparr>)" using ok by (simp add: pmmap_ok_def)
    moreover have "i < AT_SIZE" using i(2) n by (rule less_trans)
    ultimately show ?case using i
      by (simp add: st pmem_set_page_spec unat_plus_one [of i n] u32_less_nat)
  next
    case (3 k st)
    then show ?case by (auto simp: tab_def fun_eq_iff u32_less_nat split: prod.splits)
  qed
qed

lemma pmem_init_eq:
  assumes "devinit mbi s = Ret s'" and "pmmap_ok s'"
  shows "pmem_init devinit mbi s = Ret (s'\<lparr>mem_lk := unlocked, NUM_PAGES := num_pages (pmmap_list s'),
    AT := (\<lambda>i. if i < num_pages (pmmap_list s')
      then \<lparr>at_perm = page_perm (pmmap_list s') i, at_allocated = 0\<rparr> else AT s' i)\<rparr>)"
proof -
  let ?s = "set_nps (num_pages (pmmap_list s')) (mem_spinlock_init s')"
  have ok: "pmmap_ok (mem_spinlock_init s')" "pmmap_ok ?s"
    using assms(2) by (simp_all add: pmmap_ok_def mem_spinlock_init_def set_nps_def)
  have l: "pmmap_list (mem_spinlock_init s') = pmmap_list s'" "pmmap_list ?s = pmmap_list s'" "AT ?s = AT s'"
    "?s = s'\<lparr>mem_lk := unlocked, NUM_PAGES := num_pages (pmmap_list s')\<rparr>" by (simp_all add: mem_spinlock_init_def set_nps_def)
  from pmem_highest_spec [OF ok(1)] obtain j where
    "pmem_highest (mem_spinlock_init s') = Ret (j, pm_highest (pmmap_list s'))"
    by (auto simp: l elim!: returnsE)
  moreover from pmem_init_loop [OF ok(2) num_pages_AT [of "pmmap_list s'"]] obtain j' where
    "whileM (\<lambda>(pg_idx, s). pg_idx < num_pages (pmmap_list s'))
       (\<lambda>(pg_idx, s). andThen (pmem_set_page pg_idx s) (\<lambda>s. Ret (pg_idx + 1, s))) (0, ?s) =
     Ret (j', ?s\<lparr>AT := (\<lambda>i. if i < num_pages (pmmap_list s')
       then \<lparr>at_perm = page_perm (pmmap_list s') i, at_allocated = 0\<rparr> else AT s' i)\<rparr>)"
    unfolding l(2,3) by (auto elim!: returnsE)
  ultimately show ?thesis
    by (simp add: pmem_init_def assms(1) Let_def num_pages_def [symmetric] l(4))
qed

section \<open>Properties\<close>

text \<open>A machine with two pages of user memory, for concrete runs.\<close>

definition mat_boot :: mat where
  "mat_boot = mboot.extend ((mboot_boot (\<lambda>_. 0))\<lparr>
       pmmap_list := [\<lparr>pm_start = 0x40001000, pm_end = 0x40003000, pm_type = MEM_RAM\<rparr>], pmmap_nentries := 1\<rparr>)
     (mat.fields unlocked 0x40003
       (\<lambda>i. if i = 0x40001 \<or> i = 0x40002 then \<lparr>at_perm = 2, at_allocated = 0\<rparr>
            else \<lparr>at_perm = 0, at_allocated = 0\<rparr>) VM_USERLO_PI)"

lemmas mat_boot_defs = mat_boot_def mboot_boot_def boot_machine_def machine.defs mboot.defs mat.defs

lemma mat_boot_pages: "page_norm mat_boot i \<longleftrightarrow> i = 0x40001 \<or> i = 0x40002"
  "page_free mat_boot i \<longleftrightarrow> i = 0x40001 \<or> i = 0x40002"
  by (auto simp: mat_boot_defs page_norm_def page_free_def)

lemma mat_boot_ok: "mat_ok mat_boot"
proof -
  have "on_cpu mat_boot"
    by (simp add: mat_boot_defs on_cpu_def this_cpu_def this_kstack_def bsp_kstack_boot_def pcpu_zero_def)
  moreover have "mem_lk mat_boot = unlocked" "last_palloc_index mat_boot = VM_USERLO_PI" "NUM_PAGES mat_boot = 0x40003"
    by (simp_all add: mat_boot_defs)
  moreover have "at_allocated (AT mat_boot i) = 0" for i by (simp add: mat_boot_defs)
  ultimately show ?thesis by (auto simp: mat_ok_def mat_boot_pages user_page_def)
qed

text \<open>
  (C13) \<^verbatim>\<open>palloc\<close> comes back from every state that satisfies the allocator's invariant, keeps the
  invariant and returns the first free page of normal permission in circular order
  from the remembered index, now marked allocated and remembered, with every other page and the
  rest of the state as before; it returns 0, and only resets the remembered index,
  exactly when there is no free page.
\<close>

theorem palloc_correct:
  assumes "mat_ok s"
  shows "returns (palloc s) (\<lambda>(p, s'). mat_ok s' \<and>
    (if \<exists>i. page_free s i
     then first_free s p \<and> p \<noteq> 0 \<and>
       s' = s\<lparr>AT := (AT s)(p := (AT s p)\<lparr>at_allocated := 1\<rparr>), last_palloc_index := p\<rparr>
     else p = 0 \<and> s' = s\<lparr>last_palloc_index := VM_USERLO_PI\<rparr>))"
  using assms
proof (cases rule: palloc_cases)
  case full
  then show ?thesis using mat_ok_at_update(2) [OF assms, of VM_USERLO_PI] by (simp add: user_page_def)
next
  case (page p)
  have "p \<noteq> 0" using first_free_user [OF page(1)] by (auto simp: user_page_def)
  moreover have "mat_ok (s\<lparr>AT := (AT s)(p := (AT s p)\<lparr>at_allocated := 1\<rparr>), last_palloc_index := p\<rparr>)"
    by (rule mat_ok_at_update(2) [OF mat_ok_at_update(1) [OF assms] first_free_user [OF page(1)]])
      (use first_free_free [OF page(1)] in \<open>simp add: page_free_def\<close>)
  ultimately show ?thesis using page first_free_free [OF page(1)] by auto
qed

theorem palloc_correct_witness: "returns (palloc mat_boot) (\<lambda>(p, s'). p \<in> {0x40001, 0x40002} \<and> mat_ok s')"
  by (rule returns_mono [OF palloc_correct [OF mat_boot_ok]])
    (auto simp: mat_boot_pages dest!: first_free_free split: if_splits)

text \<open>\<open>n\<close> calls of \<^verbatim>\<open>palloc\<close> in a row.\<close>

primrec palloc_run :: "nat \<Rightarrow> 'a mat_scheme \<Rightarrow> (u32 list \<times> 'a mat_scheme) outcome" where
  "palloc_run 0 s = Ret ([], s)"
| "palloc_run (Suc n) s = andThen (palloc s) (\<lambda>(p, s). andThen (palloc_run n s) (\<lambda>(ps, s). Ret (p # ps, s)))"

lemma palloc_run_allocs: "palloc_run n s = mat.allocs n s"
  by (induction n arbitrary: s) (simp_all add: mat.allocs.simps)

text \<open>
  No page is given out twice: as many calls of \<^verbatim>\<open>palloc\<close> as there are free pages return
  pairwise distinct pages that were free, all of normal permission and none of them page 0, and
  afterwards exactly these are no longer free.
\<close>

theorem palloc_run_distinct:
  assumes "mat_ok s" and "n \<le> card {i. page_free s i}"
  shows "returns (palloc_run n s) (\<lambda>(ps, s'). mat_ok s' \<and> length ps = n \<and> distinct ps \<and>
    set ps \<subseteq> {i. page_free s i} \<and> {i. page_free s' i} = {i. page_free s i} - set ps)"
  unfolding palloc_run_allocs
  by (rule returns_mono [OF mat.allocs_distinct [OF assms]]) auto

theorem palloc_run_distinct_witness:
  "returns (palloc_run 2 mat_boot) (\<lambda>(ps, s'). distinct ps \<and> length ps = 2 \<and> {i. page_free s' i} = {0x40001, 0x40002} - set ps)"
proof -
  have "{i. page_free mat_boot i} = {0x40001, 0x40002}" by (auto simp: mat_boot_pages)
  with palloc_run_distinct [OF mat_boot_ok, of 2] show ?thesis by (auto elim!: returns_mono)
qed

text \<open>
  (C14) Freeing undoes allocating: when a page is free, \<^verbatim>\<open>pfree\<close> of the page that \<^verbatim>\<open>palloc\<close>
  returned comes back, keeps the invariant and leaves exactly the free pages there were before.
\<close>

theorem palloc_pfree:
  assumes "mat_ok s" and "page_free s i"
  shows "returns (palloc s) (\<lambda>(p, s'). returns (pfree p s') (\<lambda>s''. mat_ok s'' \<and>
    (\<forall>j. page_free s'' j = page_free s j)))"
proof -
  have "{i. page_free s i} \<noteq> {}" using assms(2) by auto
  from mat.alloc_release [OF assms(1) this] show ?thesis by (auto simp: set_eq_iff elim!: returns_mono)
qed

theorem palloc_pfree_witness:
  "returns (palloc mat_boot) (\<lambda>(p, s'). returns (pfree p s') (\<lambda>s''. page_free s'' 0x40001 \<and> page_free s'' 0x40002))"
  using palloc_pfree [OF mat_boot_ok, of "0x40001"] by (auto simp: mat_boot_pages elim!: returns_mono)

text \<open>
  (C15) \<^verbatim>\<open>pmem_init\<close>, run after a device initialisation that left a well-formed memory map, comes
  back with every page below the page count marked unallocated and with the permission that the
  map gives it: 1 for the kernel's pages, 2 for a user page that the first range containing all of
  it declares usable, 0 for the others; when the table was clear above, the allocator's
  invariant holds.
\<close>

theorem pmem_init_correct:
  assumes "devinit mbi s = Ret s'" and "pmmap_ok s'" and "on_cpu s'"
    and "user_page (last_palloc_index s')" and "\<forall>i. AT s' i = \<lparr>at_perm = 0, at_allocated = 0\<rparr>"
  shows "returns (pmem_init devinit mbi s) (\<lambda>t. mat_ok t \<and> NUM_PAGES t = num_pages (pmmap_list s') \<and>
    (\<forall>i < NUM_PAGES t. AT t i = \<lparr>at_perm = page_perm (pmmap_list s') i, at_allocated = 0\<rparr>))"
proof -
  have "user_page i \<and> i < num_pages (pmmap_list s')"
    if "1 < at_perm (if i < num_pages (pmmap_list s')
      then \<lparr>at_perm = page_perm (pmmap_list s') i, at_allocated = 0\<rparr> else AT s' i)" for i
    using that assms(5) by (auto simp: page_perm_def split: if_splits)
  with assms(3-5) show ?thesis
    by (simp add: pmem_init_eq [of devinit, OF assms(1,2)] mat_ok_def page_norm_def)
qed

theorem pmem_init_correct_witness:
  "returns (pmem_init (\<lambda>_ s. Ret (s\<lparr>AT := (\<lambda>_. \<lparr>at_perm = 0, at_allocated = 0\<rparr>)\<rparr>)) 0 mat_boot) (\<lambda>t. mat_ok t \<and> NUM_PAGES t = 0x40003 \<and>
     AT t 0x40001 = \<lparr>at_perm = 2, at_allocated = 0\<rparr> \<and> AT t 0x40000 = \<lparr>at_perm = 0, at_allocated = 0\<rparr>)"
proof -
  have l: "pmmap_list mat_boot = [\<lparr>pm_start = 0x40001000, pm_end = 0x40003000, pm_type = MEM_RAM\<rparr>]"
    "pmmap_nentries mat_boot = 1" by (simp_all add: mat_boot_defs)
  have len: "length (pmmap_list mat_boot) = 1" by (simp add: l)
  have n: "num_pages (pmmap_list mat_boot) = 0x40003"
    by (simp add: l num_pages_def pm_highest_def rounddown_def)
  have p: "page_perm (pmmap_list mat_boot) 0x40001 = 2" "page_perm (pmmap_list mat_boot) 0x40000 = 0"
    by (simp_all add: l page_perm_def user_page_def contains_page_def)
  show ?thesis
    by (rule returns_mono [OF pmem_init_correct [where s = mat_boot]])
      (use mat_boot_ok in \<open>auto simp: n p l(2) len mat_ok_def pmmap_ok_def\<close>)
qed

end
