(* ===== verification/MContainer.thy ===== *)
theory MContainer
  imports MAT
begin

text \<open>
  The containers of \<^verbatim>\<open>kern/pmm/MContainer\<close>: each process has a quota of pages, of which it uses
  some itself and hands others on to its children.
\<close>

section \<open>State\<close>

record SContainer =
  ct_quota :: u32
  ct_usage :: u32
  ct_parent :: u32
  ct_nchildren :: u32
  ct_used :: u32

record mcont = mat +
  CONTAINER :: "u32 \<Rightarrow> SContainer"
  container_lks :: "u32 \<Rightarrow> spinlock"

section \<open>Operations\<close>

text \<open>The count of free pages, over \<open>(idx, real_quota)\<close>.\<close>

definition container_real_quota :: "'a mat_scheme \<Rightarrow> (u32 \<times> u32) outcome" where
  "container_real_quota s =
     whileM (\<lambda>(idx, real_quota). idx < get_nps s)
       (\<lambda>(idx, real_quota). andThen (at_is_free idx s) (\<lambda>free.
          Ret (idx + 1, if free then real_quota + 1 else real_quota)))
       (1, 0)"

definition container_init ::
    "(u32 \<Rightarrow> 'a mcont_scheme \<Rightarrow> 'a mcont_scheme outcome) \<Rightarrow> u32 \<Rightarrow> 'a mcont_scheme \<Rightarrow>
     'a mcont_scheme outcome" where
  "container_init devinit mbi_addr s =
     andThen (pmem_init devinit mbi_addr s) (\<lambda>s.
     andThen (container_real_quota s) (\<lambda>(_, real_quota).
     let s = s\<lparr>CONTAINER := (CONTAINER s)(0 := \<lparr>ct_quota = real_quota, ct_usage = 0, ct_parent = 0,
           ct_nchildren = 0, ct_used = 1\<rparr>)\<rparr> in
     forM (range32 0 64)
       (\<lambda>idx s. Ret (s\<lparr>container_lks := (container_lks s)(idx := spinlock_init (container_lks s idx))\<rparr>)) s))"

definition container_get_parent :: "u32 \<Rightarrow> 'a mcont_scheme \<Rightarrow> u32 outcome" where
  "container_get_parent id' s = bounded NUM_IDS id' (Ret (ct_parent (CONTAINER s id')))"

definition container_get_nchildren :: "u32 \<Rightarrow> 'a mcont_scheme \<Rightarrow> u32 outcome" where
  "container_get_nchildren id' s = bounded NUM_IDS id' (Ret (ct_nchildren (CONTAINER s id')))"

definition container_get_quota :: "u32 \<Rightarrow> 'a mcont_scheme \<Rightarrow> u32 outcome" where
  "container_get_quota id' s = bounded NUM_IDS id' (Ret (ct_quota (CONTAINER s id')))"

definition container_get_usage :: "u32 \<Rightarrow> 'a mcont_scheme \<Rightarrow> u32 outcome" where
  "container_get_usage id' s = bounded NUM_IDS id' (Ret (ct_usage (CONTAINER s id')))"

text \<open>
  \<open>usage\<close> is an \<^verbatim>\<open>int\<close> and \<open>n\<close> an \<^verbatim>\<open>unsigned int\<close>, so C adds and compares them as unsigned words; in
  \<open>container_alloc\<close> and \<open>container_free\<close> both sides are \<^verbatim>\<open>int\<close> and the comparison is signed.
\<close>

definition container_can_consume :: "u32 \<Rightarrow> u32 \<Rightarrow> 'a mcont_scheme \<Rightarrow> bool outcome" where
  "container_can_consume id' n s = bounded NUM_IDS id'
     (Ret (ct_usage (CONTAINER s id') + n \<le> ct_quota (CONTAINER s id')))"

definition container_lock :: "u32 \<Rightarrow> 'a mcont_scheme \<Rightarrow> 'a mcont_scheme outcome" where
  "container_lock id' s = bounded NUM_IDS id'
     (andThen (spinlock_acquire s (container_lks s id')) (\<lambda>lk.
      Ret (s\<lparr>container_lks := (container_lks s)(id' := lk)\<rparr>)))"

definition container_unlock :: "u32 \<Rightarrow> 'a mcont_scheme \<Rightarrow> 'a mcont_scheme" where
  "container_unlock id' s =
     s\<lparr>container_lks := (container_lks s)(id' := spinlock_release (container_lks s id'))\<rparr>"

definition container_split :: "u32 \<Rightarrow> u32 \<Rightarrow> 'a mcont_scheme \<Rightarrow> (u32 \<times> 'a mcont_scheme) outcome" where
  "container_split id' quota s =
     andThen (container_lock id' s) (\<lambda>s.
     let nc = ct_nchildren (CONTAINER s id'); child = id' * MAX_CHILDREN + 1 + nc in
     if NUM_IDS \<le> child then Ret (NUM_IDS, s)
     else
       let s = s\<lparr>CONTAINER := (CONTAINER s)(child := (CONTAINER s child)\<lparr>ct_used := 1, ct_quota := quota,
             ct_usage := 0, ct_parent := id', ct_nchildren := 0\<rparr>)\<rparr>;
           s = s\<lparr>CONTAINER := (CONTAINER s)(id' := (CONTAINER s id')\<lparr>
             ct_usage := ct_usage (CONTAINER s id') + quota,
             ct_nchildren := ct_nchildren (CONTAINER s id') + 1\<rparr>)\<rparr>
       in Ret (child, container_unlock id' s))"

definition container_alloc :: "u32 \<Rightarrow> 'a mcont_scheme \<Rightarrow> (u32 \<times> 'a mcont_scheme) outcome" where
  "container_alloc id' s =
     andThen (container_lock id' s) (\<lambda>s.
     andThen (if ct_usage (CONTAINER s id') + 1 \<le>s ct_quota (CONTAINER s id') then
         palloc (s\<lparr>CONTAINER := (CONTAINER s)(id' := (CONTAINER s id')\<lparr>
           ct_usage := ct_usage (CONTAINER s id') + 1\<rparr>)\<rparr>)
       else Ret (0, s)) (\<lambda>(page_index, s).
     Ret (page_index, container_unlock id' s)))"

definition container_free :: "u32 \<Rightarrow> u32 \<Rightarrow> 'a mcont_scheme \<Rightarrow> 'a mcont_scheme outcome" where
  "container_free id' page_index s =
     andThen (container_lock id' s) (\<lambda>s.
     andThen (at_is_allocated page_index s) (\<lambda>a.
     andThen (if a \<noteq> 0 then
         andThen (pfree page_index s) (\<lambda>s.
         Ret (if 0 <s ct_usage (CONTAINER s id') then
             s\<lparr>CONTAINER := (CONTAINER s)(id' := (CONTAINER s id')\<lparr>
               ct_usage := ct_usage (CONTAINER s id') - 1\<rparr>)\<rparr>
           else s))
       else Ret s) (\<lambda>s.
     Ret (container_unlock id' s))))"

section \<open>The invariant\<close>

text \<open>
  The containers in use form a tree: container \<open>j > 0\<close> is child number \<open>(j - 1) mod 3\<close> of
  container \<open>(j - 1) div 3\<close>. What the containers may still consume, in sum, is backed by free pages.
\<close>

definition ct_is_used :: "'a mcont_scheme \<Rightarrow> u32 \<Rightarrow> bool" where
  "ct_is_used s i \<longleftrightarrow> i < NUM_IDS \<and> ct_used (CONTAINER s i) \<noteq> 0"

definition ct_slack :: "'a mcont_scheme \<Rightarrow> u32 \<Rightarrow> nat" where
  "ct_slack s i = unat (ct_quota (CONTAINER s i)) - unat (ct_usage (CONTAINER s i))"

definition ct_tree :: "'a mcont_scheme \<Rightarrow> bool" where
  "ct_tree s \<longleftrightarrow> (\<forall>j. ct_is_used s j \<and> j \<noteq> 0 \<longrightarrow> ct_is_used s ((j - 1) div 3) \<and>
     ct_parent (CONTAINER s j) = (j - 1) div 3 \<and>
     (j - 1) mod 3 < ct_nchildren (CONTAINER s ((j - 1) div 3)))"

definition ct_quotas :: "'a mcont_scheme \<Rightarrow> bool" where
  "ct_quotas s \<longleftrightarrow> (\<forall>i. ct_is_used s i \<longrightarrow> unat (ct_usage (CONTAINER s i)) \<le> unat (ct_quota (CONTAINER s i)) \<and>
     unat (ct_quota (CONTAINER s i)) \<le> 2 ^ 20)"

definition ct_total :: "'a mcont_scheme \<Rightarrow> nat" where
  "ct_total s = (\<Sum>i | ct_is_used s i. ct_slack s i)"

definition num_free :: "'a mat_scheme \<Rightarrow> nat" where
  "num_free s = card {i. page_free s i}"

definition cont_ok :: "'a mcont_scheme \<Rightarrow> bool" where
  "cont_ok s \<longleftrightarrow> mat_ok s \<and> (\<forall>i < NUM_IDS. container_lks s i = unlocked) \<and> ct_tree s \<and> ct_quotas s \<and> ct_total s \<le> num_free s"

lemma cpu_mcont_frame [simp]:
  "this_cpu (s\<lparr>CONTAINER := c\<rparr>) = this_cpu s" "on_cpu (s\<lparr>CONTAINER := c\<rparr>) = on_cpu s"
  "this_cpu (s\<lparr>container_lks := l\<rparr>) = this_cpu s" "on_cpu (s\<lparr>container_lks := l\<rparr>) = on_cpu s"
  by (simp_all add: on_cpu_def this_cpu_def this_kstack_def split: kstack_ref.split)

lemma mat_mcont_frame [simp]:
  "mat_ok (s\<lparr>CONTAINER := c\<rparr>) = mat_ok s" "mat_ok (s\<lparr>container_lks := l\<rparr>) = mat_ok s"
  "page_free (s\<lparr>CONTAINER := c\<rparr>) = page_free s" "page_free (s\<lparr>container_lks := l\<rparr>) = page_free s"
  "first_free (s\<lparr>CONTAINER := c\<rparr>) = first_free s" "first_free (s\<lparr>container_lks := l\<rparr>) = first_free s"
  by (auto simp: mat_ok_def page_norm_def page_free_def first_free_def fun_eq_iff)

lemma finite_ct_used [simp]: "finite {i. ct_is_used s i}"
  by simp

lemma container_lock_eq:
  assumes "cont_ok s" and "i < NUM_IDS"
  shows "container_lock i s = Ret (s\<lparr>container_lks := (container_lks s)(i := held_by (this_cpu s))\<rparr>)"
  using assms by (simp add: container_lock_def cont_ok_def mat_ok_def locks)

text \<open>Giving the lock back restores the table of locks.\<close>

lemma container_unlock_eq:
  assumes "cont_ok s" and "i < NUM_IDS"
    and "container_lks t = (container_lks s)(i := lk)"
  shows "container_unlock i t = t\<lparr>container_lks := container_lks s\<rparr>"
proof -
  have "container_lks s i = unlocked" using assms by (simp add: cont_ok_def)
  then have "(container_lks s)(i := unlocked) = container_lks s" by auto
  with assms(3) show ?thesis by (simp add: container_unlock_def)
qed

lemma ct_slack_le_sum: "ct_is_used s i \<Longrightarrow> ct_slack s i \<le> ct_total s"
  unfolding ct_total_def by (rule member_le_sum) auto

section \<open>Effects of the operations\<close>

text \<open>The state after a page was taken for container \<open>i\<close>.\<close>

definition ct_took :: "u32 \<Rightarrow> u32 \<Rightarrow> 'a mcont_scheme \<Rightarrow> 'a mcont_scheme" where
  "ct_took i p s = s\<lparr>CONTAINER := (CONTAINER s)(i := (CONTAINER s i)\<lparr>ct_usage := ct_usage (CONTAINER s i) + 1\<rparr>),
     AT := (AT s)(p := (AT s p)\<lparr>at_allocated := 1\<rparr>), last_palloc_index := p\<rparr>"

lemma usage_plus_one_sle:
  assumes "cont_ok s" and "ct_is_used s i"
  shows "ct_usage (CONTAINER s i) + 1 \<le>s ct_quota (CONTAINER s i) \<longleftrightarrow> 0 < ct_slack s i"
    and "0 < ct_slack s i \<Longrightarrow> unat (ct_usage (CONTAINER s i) + 1) = Suc (unat (ct_usage (CONTAINER s i)))"
proof -
  let ?u = "ct_usage (CONTAINER s i)" and ?q = "ct_quota (CONTAINER s i)"
  have b: "unat ?u \<le> unat ?q" "unat ?q \<le> 2 ^ 20" using assms by (auto simp: cont_ok_def ct_quotas_def)
  have u: "unat (?u + 1) = Suc (unat ?u)" using b by (simp add: unat_word_ariths)
  then show "0 < ct_slack s i \<Longrightarrow> unat (?u + 1) = Suc (unat ?u)" by simp
  show "?u + 1 \<le>s ?q \<longleftrightarrow> 0 < ct_slack s i"
    using b u sle_unat [of "?u + 1" ?q] by (auto simp: ct_slack_def)
qed

lemma container_alloc_full:
  assumes "cont_ok s" and "ct_is_used s i" and "ct_slack s i = 0"
  shows "container_alloc i s = Ret (0, s)"
proof -
  from assms(2) have i: "i < NUM_IDS" by (simp add: ct_is_used_def)
  have "container_unlock i (s\<lparr>container_lks := (container_lks s)(i := held_by (this_cpu s))\<rparr>) = s"
    using container_unlock_eq [OF assms(1) i, of "s\<lparr>container_lks := (container_lks s)(i := held_by (this_cpu s))\<rparr>"]
    by simp
  then show ?thesis
    using usage_plus_one_sle(1) [OF assms(1,2)] assms(3)
    by (simp add: container_alloc_def container_lock_eq [OF assms(1) i])
qed

lemma container_alloc_page:
  assumes ok: "cont_ok s" and i: "ct_is_used s i" and sl: "0 < ct_slack s i"
  obtains p where "first_free s p" and "container_alloc i s = Ret (p, ct_took i p s)"
proof -
  define s1 where "s1 = s\<lparr>container_lks := (container_lks s)(i := held_by (this_cpu s)),
    CONTAINER := (CONTAINER s)(i := (CONTAINER s i)\<lparr>ct_usage := ct_usage (CONTAINER s i) + 1\<rparr>)\<rparr>"
  from i have id: "i < NUM_IDS" by (simp add: ct_is_used_def)
  from ok have "ct_total s \<le> num_free s" by (simp add: cont_ok_def)
  with ct_slack_le_sum [OF i] sl have "0 < num_free s" by linarith
  then have ex: "\<exists>j. page_free s1 j" by (auto simp: num_free_def card_gt_0_iff s1_def)
  have mat: "mat_ok s1" using ok by (simp add: cont_ok_def s1_def)
  have call: "container_alloc i s = andThen (palloc s1) (\<lambda>(p, s). Ret (p, container_unlock i s))"
    using usage_plus_one_sle(1) [OF ok i] sl
    by (simp add: container_alloc_def container_lock_eq [OF ok id] s1_def)
  from mat show thesis
  proof (cases rule: palloc_cases)
    case full
    with ex show thesis by simp
  next
    case (page p)
    have "first_free s p" using page(1) by (simp add: s1_def)
    moreover have "container_unlock i (s1\<lparr>AT := (AT s1)(p := (AT s1 p)\<lparr>at_allocated := 1\<rparr>), last_palloc_index := p\<rparr>) = ct_took i p s"
      by (subst container_unlock_eq [OF ok id, where lk = "held_by (this_cpu s)"]) (simp_all add: s1_def ct_took_def)
    ultimately show thesis by (intro that [of p]) (simp_all add: call page(2))
  qed
qed

text \<open>How the sum of the slacks moves when one container changes.\<close>

lemma sum_slack_update:
  assumes "ct_is_used s i" and "\<And>j. ct_is_used t j = ct_is_used s j"
    and "\<And>j. j \<noteq> i \<Longrightarrow> ct_slack t j = ct_slack s j"
  shows "ct_total t + ct_slack s i = ct_total s + ct_slack t i"
proof -
  have "(\<Sum>j \<in> {j. ct_is_used s j} - {i}. ct_slack t j) = (\<Sum>j \<in> {j. ct_is_used s j} - {i}. ct_slack s j)"
    using assms(3) by (intro sum.cong) auto
  then show ?thesis
    using assms(1,2) by (simp add: ct_total_def sum.remove [of "{j. ct_is_used s j}" i])
qed

lemma num_free_alloc:
  assumes "page_free s p" and "\<And>j. page_free t j \<longleftrightarrow> page_free s j \<and> j \<noteq> p"
  shows "Suc (num_free t) = num_free s"
proof -
  have "{j. page_free t j} = {j. page_free s j} - {p}" using assms(2) by auto
  with assms(1) card_Suc_Diff1 [of "{j. page_free s j}" p] show ?thesis by (simp add: num_free_def)
qed

lemma ct_tree_cong:
  assumes "\<And>j. ct_is_used t j = ct_is_used s j"
    and "\<And>j. ct_parent (CONTAINER t j) = ct_parent (CONTAINER s j)"
    and "\<And>j. ct_nchildren (CONTAINER t j) = ct_nchildren (CONTAINER s j)"
  shows "ct_tree t = ct_tree s"
  using assms by (simp add: ct_tree_def)

lemma container_alloc_ok:
  assumes ok: "cont_ok s" and i: "ct_is_used s i"
  shows "returns (container_alloc i s) (\<lambda>(p, s'). cont_ok s' \<and>
    (if 0 < ct_slack s i
     then first_free s p \<and> ct_slack s' i = ct_slack s i - 1 \<and> (\<forall>j. page_free s' j \<longleftrightarrow> page_free s j \<and> j \<noteq> p)
     else p = 0 \<and> s' = s))"
proof (cases "0 < ct_slack s i")
  case False
  then show ?thesis using container_alloc_full [OF ok i] ok by simp
next
  case True
  then obtain p where p: "first_free s p" and eq: "container_alloc i s = Ret (p, ct_took i p s)"
    by (rule container_alloc_page [OF ok i])
  let ?t = "ct_took i p s"
  note u = usage_plus_one_sle(2) [OF ok i True]
  have used: "ct_is_used ?t j = ct_is_used s j" for j by (simp add: ct_is_used_def ct_took_def)
  have slack: "ct_slack ?t i = ct_slack s i - 1" "j \<noteq> i \<Longrightarrow> ct_slack ?t j = ct_slack s j" for j
    using u by (simp_all add: ct_slack_def ct_took_def)
  have pages: "page_free ?t j \<longleftrightarrow> page_free s j \<and> j \<noteq> p" for j
    by (auto simp: page_free_def page_norm_def ct_took_def)
  have "mat_ok ?t"
    using ok first_free_user [OF p] first_free_free [OF p]
    by (auto simp: cont_ok_def mat_ok_def page_free_def page_norm_def ct_took_def)
  moreover have "ct_tree ?t = ct_tree s" by (rule ct_tree_cong) (rule used, simp_all add: ct_took_def)
  then have "ct_tree ?t" using ok by (simp add: cont_ok_def)
  moreover have "ct_quotas ?t" using ok u True unfolding ct_quotas_def cont_ok_def used
    by (auto simp: ct_took_def ct_slack_def)
  moreover have "ct_total ?t + ct_slack s i = ct_total s + ct_slack ?t i"
    by (rule sum_slack_update [OF i]) (simp_all add: used slack(2))
  moreover have "Suc (num_free ?t) = num_free s"
    by (rule num_free_alloc [OF first_free_free [OF p]]) (rule pages)
  moreover have "\<forall>j < NUM_IDS. container_lks ?t j = unlocked" using ok by (simp add: cont_ok_def ct_took_def)
  moreover have "ct_total s \<le> num_free s" using ok by (simp add: cont_ok_def)
  ultimately have "cont_ok ?t" using True slack(1) by (auto simp: cont_ok_def)
  with True p slack(1) pages show ?thesis by (simp add: eq)
qed

text \<open>The state after container \<open>i\<close> handed a quota to a new child.\<close>

definition ct_child :: "u32 \<Rightarrow> 'a mcont_scheme \<Rightarrow> u32" where
  "ct_child i s = i * MAX_CHILDREN + 1 + ct_nchildren (CONTAINER s i)"

definition ct_gave :: "u32 \<Rightarrow> u32 \<Rightarrow> 'a mcont_scheme \<Rightarrow> 'a mcont_scheme" where
  "ct_gave i q s = s\<lparr>CONTAINER := (CONTAINER s)
     (ct_child i s := \<lparr>ct_quota = q, ct_usage = 0, ct_parent = i, ct_nchildren = 0, ct_used = 1\<rparr>,
      i := (CONTAINER s i)\<lparr>ct_usage := ct_usage (CONTAINER s i) + q,
        ct_nchildren := ct_nchildren (CONTAINER s i) + 1\<rparr>)\<rparr>"

lemma ct_child_unat:
  assumes "i < NUM_IDS" and "ct_nchildren (CONTAINER s i) < MAX_CHILDREN"
  shows "unat (ct_child i s) = unat i * 3 + 1 + unat (ct_nchildren (CONTAINER s i))"
    and "ct_child i s \<noteq> i" and "ct_child i s \<noteq> 0"
    and "(ct_child i s - 1) div 3 = i" and "(ct_child i s - 1) mod 3 = ct_nchildren (CONTAINER s i)"
proof -
  let ?n = "ct_nchildren (CONTAINER s i)"
  have b: "unat i < 64" "unat ?n < 3" using assms by (simp_all add: u32_less_nat)
  then have m: "unat (i * 3) = unat i * 3" "unat (i * 3 + ?n) = unat i * 3 + unat ?n"
    by (simp_all add: unat_word_ariths)
  then show c: "unat (ct_child i s) = unat i * 3 + 1 + unat ?n"
    using b by (simp add: ct_child_def unat_word_ariths)
  show "ct_child i s \<noteq> i" "ct_child i s \<noteq> 0" using c by (auto simp: word_unat_eq_iff)
  have "unat (ct_child i s - 1) = unat i * 3 + unat ?n" using m(2) by (simp add: ct_child_def algebra_simps)
  then show "(ct_child i s - 1) div 3 = i" "(ct_child i s - 1) mod 3 = ?n"
    using b by (simp_all add: word_unat_eq_iff unat_div unat_mod)
qed

lemma ct_child_frame [simp]: "ct_child i (s\<lparr>container_lks := l\<rparr>) = ct_child i s"
  by (simp add: ct_child_def)

lemma container_split_eq:
  assumes ok: "cont_ok s" and i: "i < NUM_IDS" and n: "ct_nchildren (CONTAINER s i) < MAX_CHILDREN"
    and c: "ct_child i s < NUM_IDS"
  shows "container_split i q s = Ret (ct_child i s, ct_gave i q s)"
proof -
  note ci = ct_child_unat(2) [OF i n]
  have rec: "r\<lparr>ct_used := 1, ct_quota := q, ct_usage := 0, ct_parent := i, ct_nchildren := 0\<rparr> =
    \<lparr>ct_quota = q, ct_usage = 0, ct_parent = i, ct_nchildren = 0, ct_used = 1\<rparr>" for r :: SContainer
    by (cases r) simp
  have "container_split i q s = Ret (ct_child i s, container_unlock i
      (ct_gave i q (s\<lparr>container_lks := (container_lks s)(i := held_by (this_cpu s))\<rparr>)))"
    using c ci by (simp add: container_split_def container_lock_eq [OF ok i] Let_def ct_child_def [symmetric]
        ct_gave_def rec flip: not_less)
  also have "\<dots> = Ret (ct_child i s, ct_gave i q s)"
    by (subst container_unlock_eq [OF ok i, where lk = "held_by (this_cpu s)"]) (simp_all add: ct_gave_def)
  finally show ?thesis .
qed

lemma ct_child_fresh:
  assumes "cont_ok s" and "i < NUM_IDS" and "ct_nchildren (CONTAINER s i) < MAX_CHILDREN"
  shows "\<not> ct_is_used s (ct_child i s)"
    and "ct_is_used s j \<Longrightarrow> j \<noteq> 0 \<Longrightarrow> (j - 1) div 3 \<noteq> ct_child i s"
proof -
  have tree: "\<And>j. ct_is_used s j \<Longrightarrow> j \<noteq> 0 \<Longrightarrow> ct_is_used s ((j - 1) div 3) \<and>
     (j - 1) mod 3 < ct_nchildren (CONTAINER s ((j - 1) div 3))"
    using assms(1) by (auto simp: cont_ok_def ct_tree_def)
  show fresh: "\<not> ct_is_used s (ct_child i s)"
    using tree [of "ct_child i s"] ct_child_unat [OF assms(2,3)] by auto
  show "ct_is_used s j \<Longrightarrow> j \<noteq> 0 \<Longrightarrow> (j - 1) div 3 \<noteq> ct_child i s" using tree [of j] fresh by auto
qed

lemma ct_gave_used:
  assumes "ct_child i s < NUM_IDS" and "i < NUM_IDS" and "ct_child i s \<noteq> i"
  shows "ct_is_used (ct_gave i q s) j \<longleftrightarrow> j = ct_child i s \<or> ct_is_used s j"
  using assms by (auto simp: ct_is_used_def ct_gave_def)

lemma ct_tree_gave:
  assumes ok: "cont_ok s" and i: "ct_is_used s i" and n: "ct_nchildren (CONTAINER s i) < MAX_CHILDREN"
    and c: "ct_child i s < NUM_IDS"
  shows "ct_tree (ct_gave i q s)"
  unfolding ct_tree_def
proof (intro allI impI)
  fix j
  assume j: "ct_is_used (ct_gave i q s) j \<and> j \<noteq> 0"
  from i have id: "i < NUM_IDS" by (simp add: ct_is_used_def)
  note ch = ct_child_unat [OF id n] and fresh = ct_child_fresh [OF ok id n]
  note used = ct_gave_used [OF c id ch(2), of q]
  have more: "ct_nchildren (CONTAINER s i) < ct_nchildren (CONTAINER s i) + 1"
    using n unat_plus_one [OF n] by (simp add: u32_less_nat)
  let ?p = "(j - 1) div 3"
  show "ct_is_used (ct_gave i q s) ?p \<and> ct_parent (CONTAINER (ct_gave i q s) j) = ?p \<and>
    (j - 1) mod 3 < ct_nchildren (CONTAINER (ct_gave i q s) ?p)"
  proof (cases "j = ct_child i s")
    case True
    then show ?thesis using i ch more by (simp add: used) (simp add: ct_gave_def)
  next
    case False
    with j have "ct_is_used s j" "j \<noteq> 0" by (simp_all add: used)
    then have "ct_is_used s ?p" "ct_parent (CONTAINER s j) = ?p" "(j - 1) mod 3 < ct_nchildren (CONTAINER s ?p)"
      using ok by (auto simp: cont_ok_def ct_tree_def)
    moreover have "?p \<noteq> ct_child i s" using fresh(2) \<open>ct_is_used s j\<close> \<open>j \<noteq> 0\<close> .
    ultimately show ?thesis using False more by (simp add: used) (auto simp: ct_gave_def)
  qed
qed

lemma container_split_ok:
  assumes ok: "cont_ok s" and i: "ct_is_used s i" and n: "ct_nchildren (CONTAINER s i) < MAX_CHILDREN"
    and c: "ct_child i s < NUM_IDS" and q: "unat q \<le> ct_slack s i"
  shows "returns (container_split i q s) (\<lambda>(child, s'). child = ct_child i s \<and> cont_ok s' \<and>
    \<not> ct_is_used s child \<and> ct_is_used s' child \<and> ct_slack s' child = unat q \<and>
    ct_slack s' i + unat q = ct_slack s i \<and> ct_total s' = ct_total s)"
proof -
  from i have id: "i < NUM_IDS" by (simp add: ct_is_used_def)
  note ch = ct_child_unat [OF id n] and fresh = ct_child_fresh [OF ok id n]
  let ?c = "ct_child i s" and ?t = "ct_gave i q s"
  note used = ct_gave_used [OF c id ch(2), of q]
  have b: "unat (ct_usage (CONTAINER s i)) \<le> unat (ct_quota (CONTAINER s i))" "unat (ct_quota (CONTAINER s i)) \<le> 2 ^ 20"
    using ok i by (auto simp: cont_ok_def ct_quotas_def)
  have qu: "unat (ct_usage (CONTAINER s i)) + unat q \<le> unat (ct_quota (CONTAINER s i))"
    using q b(1) by (simp add: ct_slack_def)
  then have u: "unat (ct_usage (CONTAINER s i) + q) = unat (ct_usage (CONTAINER s i)) + unat q"
    using b by (simp add: unat_word_ariths)
  have slack: "ct_slack ?t ?c = unat q" "ct_slack ?t i + unat q = ct_slack s i"
    "j \<noteq> ?c \<Longrightarrow> j \<noteq> i \<Longrightarrow> ct_slack ?t j = ct_slack s j" for j
    using ch(2) u qu by (simp_all add: ct_slack_def ct_gave_def)
  have "{j. ct_is_used ?t j} = insert ?c {j. ct_is_used s j}" by (auto simp: used)
  then have "ct_total ?t = unat q + (\<Sum>j | ct_is_used s j. ct_slack ?t j)"
    using fresh(1) slack(1) by (simp add: ct_total_def)
  also have "(\<Sum>j | ct_is_used s j. ct_slack ?t j) = ct_slack ?t i + (\<Sum>j \<in> {j. ct_is_used s j} - {i}. ct_slack s j)"
  proof -
    have "(\<Sum>j \<in> {j. ct_is_used s j} - {i}. ct_slack ?t j) = (\<Sum>j \<in> {j. ct_is_used s j} - {i}. ct_slack s j)"
      using fresh(1) by (intro sum.cong) (auto intro!: slack(3))
    with i show ?thesis by (simp add: sum.remove [of "{j. ct_is_used s j}" i])
  qed
  also have "unat q + \<dots> = ct_total s"
    using slack(2) i by (simp add: ct_total_def sum.remove [of "{j. ct_is_used s j}" i])
  finally have total: "ct_total ?t = ct_total s" .
  have "ct_quotas ?t"
    unfolding ct_quotas_def used using ok u qu b q by (auto simp: cont_ok_def ct_quotas_def ct_gave_def)
  moreover have "num_free ?t = num_free s" by (simp add: num_free_def ct_gave_def)
  moreover have "mat_ok ?t" "container_lks ?t = container_lks s" using ok by (simp_all add: cont_ok_def ct_gave_def)
  ultimately have "cont_ok ?t" using ok ct_tree_gave [OF ok i n c, of q] total by (simp add: cont_ok_def)
  then show ?thesis
    using fresh(1) slack(1,2) total by (simp add: container_split_eq [OF ok id n c] used)
qed

text \<open>Freeing a page that is allocated, on behalf of container \<open>i\<close>.\<close>

definition ct_freed :: "u32 \<Rightarrow> u32 \<Rightarrow> 'a mcont_scheme \<Rightarrow> 'a mcont_scheme" where
  "ct_freed i p s = s\<lparr>AT := (AT s)(p := (AT s p)\<lparr>at_allocated := 0\<rparr>),
     CONTAINER := (CONTAINER s)(i := (CONTAINER s i)\<lparr>ct_usage :=
       (if ct_usage (CONTAINER s i) = 0 then 0 else ct_usage (CONTAINER s i) - 1)\<rparr>)\<rparr>"

lemma container_free_eq:
  assumes ok: "cont_ok s" and i: "ct_is_used s i" and p: "p < AT_SIZE"
  shows "container_free i p s = Ret (if at_allocated (AT s p) = 0 then s else ct_freed i p s)"
proof -
  from i have id: "i < NUM_IDS" by (simp add: ct_is_used_def)
  define s1 where "s1 = s\<lparr>container_lks := (container_lks s)(i := held_by (this_cpu s))\<rparr>"
  have s1: "on_cpu s1" "mem_lk s1 = unlocked" "CONTAINER s1 = CONTAINER s" "AT s1 = AT s"
    "container_unlock i s1 = s" "container_unlock i (ct_freed i p s1) = ct_freed i p s"
    using ok container_unlock_eq [OF ok id, of s1 "held_by (this_cpu s)"]
      container_unlock_eq [OF ok id, of "ct_freed i p s1" "held_by (this_cpu s)"]
    by (simp_all add: s1_def cont_ok_def mat_ok_def ct_freed_def)
  have b: "unat (ct_usage (CONTAINER s i)) \<le> 2 ^ 20"
    using ok i by (auto simp: cont_ok_def ct_quotas_def intro: order.trans)
  have pos: "0 <s ct_usage (CONTAINER s i) \<longleftrightarrow> ct_usage (CONTAINER s i) \<noteq> 0"
    using b sle_unat(2) [of 0 "ct_usage (CONTAINER s i)"] by (auto simp: unat_gt_0)
  have upd: "(CONTAINER s)(i := (CONTAINER s i)\<lparr>ct_usage := 0\<rparr>) = CONTAINER s" if "ct_usage (CONTAINER s i) = 0"
    using that by (auto simp: fun_eq_iff)
  have "0 <s ct_usage (CONTAINER s i) \<Longrightarrow> s1\<lparr>AT := (AT s)(p := (AT s p)\<lparr>at_allocated := 0\<rparr>),
      CONTAINER := (CONTAINER s)(i := (CONTAINER s i)\<lparr>ct_usage := ct_usage (CONTAINER s i) - 1\<rparr>)\<rparr> = ct_freed i p s1"
    "\<not> 0 <s ct_usage (CONTAINER s i) \<Longrightarrow> s1\<lparr>AT := (AT s)(p := (AT s p)\<lparr>at_allocated := 0\<rparr>)\<rparr> = ct_freed i p s1"
    using s1(3,4) upd by (auto simp: pos ct_freed_def)
  with s1 p show ?thesis
    by (simp add: container_free_def container_lock_eq [OF ok id] s1_def [symmetric] at_is_allocated_def
        pfree_eq Let_def word_gt_0)
qed

lemma container_free_ok:
  assumes ok: "cont_ok s" and i: "ct_is_used s i" and p: "p < AT_SIZE"
  shows "returns (container_free i p s) (\<lambda>s'. cont_ok s' \<and>
    (\<forall>j. page_free s' j \<longleftrightarrow> page_free s j \<or> j = p \<and> page_norm s p))"
proof (cases "at_allocated (AT s p) = 0")
  case True
  then show ?thesis using ok by (auto simp: container_free_eq [OF ok i p] page_free_def)
next
  case False
  let ?t = "ct_freed i p s"
  have norm: "page_norm s p" using ok False by (auto simp: cont_ok_def mat_ok_def)
  have used: "ct_is_used ?t j = ct_is_used s j" for j by (simp add: ct_is_used_def ct_freed_def)
  have pages: "page_free ?t j \<longleftrightarrow> page_free s j \<or> j = p" for j
    using norm by (auto simp: page_free_def page_norm_def ct_freed_def)
  have b: "unat (ct_usage (CONTAINER s i)) \<le> unat (ct_quota (CONTAINER s i))"
    using ok i by (auto simp: cont_ok_def ct_quotas_def)
  have u: "unat (ct_usage (CONTAINER s i) - 1) = unat (ct_usage (CONTAINER s i)) - 1" if "ct_usage (CONTAINER s i) \<noteq> 0"
    using that by (simp add: unat_minus_one)
  have slack: "ct_slack ?t i \<le> Suc (ct_slack s i)" "j \<noteq> i \<Longrightarrow> ct_slack ?t j = ct_slack s j" for j
    using u b by (auto simp: ct_slack_def ct_freed_def)
  have "mat_ok ?t" using ok by (auto simp: cont_ok_def mat_ok_def page_norm_def ct_freed_def)
  moreover have "ct_tree ?t = ct_tree s" by (rule ct_tree_cong) (rule used, simp_all add: ct_freed_def)
  then have "ct_tree ?t" using ok by (simp add: cont_ok_def)
  moreover have "ct_quotas ?t"
  proof -
    have "unat (ct_usage (CONTAINER ?t j)) \<le> unat (ct_usage (CONTAINER s j))"
      "ct_quota (CONTAINER ?t j) = ct_quota (CONTAINER s j)" for j
      using u by (simp_all add: ct_freed_def)
    with ok show ?thesis unfolding ct_quotas_def used cont_ok_def by (metis order.trans)
  qed
  moreover have "ct_total ?t + ct_slack s i = ct_total s + ct_slack ?t i"
    by (rule sum_slack_update [OF i]) (simp_all add: used slack(2))
  moreover have "Suc (num_free s) = num_free ?t"
    by (rule num_free_alloc [of _ p]) (use False in \<open>auto simp: pages, auto simp: page_free_def\<close>)
  moreover have "\<forall>j < NUM_IDS. container_lks ?t j = unlocked" "ct_total s \<le> num_free s"
    using ok by (simp_all add: cont_ok_def ct_freed_def)
  ultimately have "cont_ok ?t" using slack(1) by (auto simp: cont_ok_def)
  then show ?thesis using False norm by (simp add: container_free_eq [OF ok i p] pages)
qed

section \<open>Initialisation\<close>

lemma container_real_quota_spec:
  assumes mat: "mat_ok s" and n: "NUM_PAGES s \<le> AT_SIZE"
  shows "returns (container_real_quota s) (\<lambda>(_, q). unat q = num_free s)"
proof -
  define free_below where "free_below k = {i. page_free s i \<and> unat i < Suc k}" for k
  have user: "page_free s i \<Longrightarrow> 0x40000 \<le> unat i \<and> unat i < unat (NUM_PAGES s)" for i
    using mat by (auto simp: mat_ok_def page_free_def user_page_def u32_le_nat u32_less_nat)
  have step: "free_below (Suc k) = (if page_free s i then insert i (free_below k) else free_below k)" if "unat i = Suc k" for i k
  proof -
    have "unat x = Suc k \<longleftrightarrow> x = i" for x using that by (auto simp: word_unat_eq_iff)
    then show ?thesis by (auto simp: free_below_def less_Suc_eq)
  qed
  have small: "card (free_below k) \<le> Suc k" for k
  proof -
    have "card (free_below k) \<le> card (unat ` free_below k)" by (simp add: card_image inj_on_def word_unat_eq_iff)
    also have "\<dots> \<le> card {..<Suc k}" by (intro card_mono) (auto simp: free_below_def)
    finally show ?thesis by simp
  qed
  show ?thesis
    unfolding container_real_quota_def get_nps_def
  proof (rule returns_whileM_count [where N = "unat (NUM_PAGES s)" and
      I = "\<lambda>k (i, q). unat i = Suc k \<and> (k \<noteq> 0 \<longrightarrow> k < unat (NUM_PAGES s)) \<and> unat q = card (free_below k)"], goal_cases)
    case 1
    have "free_below 0 = {}" using user by (fastforce simp: free_below_def)
    then show ?case by simp
  next
    case (2 k st)
    then obtain i q where st: "st = (i, q)" "unat i = Suc k" "i < NUM_PAGES s" "unat q = card (free_below k)"
      by (auto split: prod.splits)
    have i: "i < AT_SIZE" using st(3) n by (rule less_le_trans)
    then have bnd: "Suc k < 0x100000" using st(2) by (simp add: u32_less_nat)
    have "unat (i + 1) = Suc (Suc k)" using unat_plus_one [OF i] st(2) by simp
    moreover have "unat (q + 1) = Suc (card (free_below k))"
      using small [of k] bnd st(4) by (simp add: unat_word_ariths)
    moreover have "i \<notin> free_below k" using st(2) by (simp add: free_below_def)
    ultimately show ?case using st step [OF st(2)] i
      by (auto simp: at_is_free_eq u32_less_nat)
  next
    case (3 k st)
    then obtain i q where st: "st = (i, q)" "unat i = Suc k" "\<not> i < NUM_PAGES s" "unat q = card (free_below k)"
      by (auto split: prod.splits)
    then have "free_below k = {i. page_free s i}" using user by (fastforce simp: free_below_def u32_less_nat)
    with st show ?case by (simp add: num_free_def)
  qed
qed

lemma container_locks_init:
  "forM (range32 0 64)
     (\<lambda>idx s. Ret (s\<lparr>container_lks := (container_lks s)(idx := spinlock_init (container_lks s idx))\<rparr>)) s =
   Ret (s\<lparr>container_lks := (\<lambda>i. if i < NUM_IDS then unlocked else container_lks s i)\<rparr>)"
proof -
  have "forM xs (\<lambda>idx s. Ret (s\<lparr>container_lks := (container_lks s)(idx := spinlock_init (container_lks s idx))\<rparr>)) s =
    Ret (s\<lparr>container_lks := (\<lambda>i. if i \<in> set xs then unlocked else container_lks s i)\<rparr>)" for xs
    by (induction xs arbitrary: s) (auto simp: fun_eq_iff)
  moreover have "i \<in> set (range32 0 64) \<longleftrightarrow> i < NUM_IDS" for i :: u32
    by (simp add: set_range32 u32_less_nat)
  ultimately show ?thesis by simp
qed

lemma container_init_ok:
  assumes dev: "devinit mbi s = Ret s'" and map: "pmmap_ok s'" and cpu: "on_cpu s'"
    and last: "user_page (last_palloc_index s')" and clear: "\<forall>i. AT s' i = \<lparr>at_perm = 0, at_allocated = 0\<rparr>"
    and unused: "\<forall>i. i \<noteq> 0 \<longrightarrow> ct_used (CONTAINER s' i) = 0"
  shows "returns (container_init devinit mbi s) (\<lambda>t. cont_ok t \<and> ct_is_used t 0 \<and>
    unat (ct_quota (CONTAINER t 0)) = num_free t \<and> ct_usage (CONTAINER t 0) = 0 \<and> ct_nchildren (CONTAINER t 0) = 0 \<and>
    {i. page_free t i} = {i. i < num_pages (pmmap_list s') \<and> 1 < page_perm (pmmap_list s') i} \<and>
    (\<exists>n a c l. t = s'\<lparr>mem_lk := unlocked, NUM_PAGES := n, AT := a, CONTAINER := c, container_lks := l\<rparr>))"
proof -
  define s1 where "s1 = s'\<lparr>mem_lk := unlocked, NUM_PAGES := num_pages (pmmap_list s'),
    AT := (\<lambda>i. if i < num_pages (pmmap_list s')
      then \<lparr>at_perm = page_perm (pmmap_list s') i, at_allocated = 0\<rparr> else AT s' i)\<rparr>"
  have init: "pmem_init devinit mbi s = Ret s1"
    unfolding s1_def by (rule pmem_init_eq [of devinit, OF dev map])
  have mat: "mat_ok s1"
    using cpu last clear by (auto simp: mat_ok_def s1_def page_norm_def page_perm_def split: if_splits)
  have "NUM_PAGES s1 \<le> AT_SIZE" using num_pages_AT [of "pmmap_list s'"] by (simp add: s1_def)
  from container_real_quota_spec [OF mat this] obtain j q where
    q: "container_real_quota s1 = Ret (j, q)" "unat q = num_free s1" by (auto elim!: returnsE)
  define t where "t = s1\<lparr>CONTAINER := (CONTAINER s1)(0 := \<lparr>ct_quota = q, ct_usage = 0, ct_parent = 0,
      ct_nchildren = 0, ct_used = 1\<rparr>), container_lks := (\<lambda>i. if i < NUM_IDS then unlocked else container_lks s1 i)\<rparr>"
  have ret: "container_init devinit mbi s = Ret t"
    by (simp add: container_init_def init q container_locks_init [simplified] Let_def t_def cong: if_cong)
  have used: "ct_is_used t i \<longleftrightarrow> i = 0" for i
    using unused by (auto simp: ct_is_used_def t_def s1_def)
  have free: "num_free t = num_free s1" by (simp add: num_free_def t_def)
  have "num_free s1 \<le> card ({..<0x100000} :: nat set)"
  proof -
    have "unat ` {i. page_free s1 i} \<subseteq> {..<0x100000}"
      using mat user_page_AT by (auto simp: mat_ok_def page_free_def u32_less_nat)
    then have "card (unat ` {i. page_free s1 i}) \<le> card ({..<0x100000} :: nat set)" by (intro card_mono) auto
    then show ?thesis by (simp add: num_free_def card_image inj_on_def word_unat_eq_iff)
  qed
  then have "ct_quotas t" using q(2) by (simp add: ct_quotas_def used) (simp add: t_def)
  moreover have "ct_tree t" by (simp add: ct_tree_def used)
  moreover have "ct_total t \<le> num_free t"
    using q(2) by (simp add: ct_total_def used free) (simp add: ct_slack_def t_def)
  moreover have "mat_ok t" "\<forall>i < NUM_IDS. container_lks t i = unlocked" using mat by (simp_all add: t_def)
  ultimately have "cont_ok t" by (simp add: cont_ok_def)
  moreover have "{i. page_free t i} = {i. i < num_pages (pmmap_list s') \<and> 1 < page_perm (pmmap_list s') i}"
    using clear by (auto simp: t_def s1_def page_free_def page_norm_def split: if_splits)
  moreover have "\<exists>n a c l. t = s'\<lparr>mem_lk := unlocked, NUM_PAGES := n, AT := a, CONTAINER := c, container_lks := l\<rparr>"
    unfolding t_def s1_def by blast
  ultimately show ?thesis using q(2) free used by (simp add: ret) (simp add: t_def)
qed

section \<open>Properties\<close>

text \<open>A machine whose root container has the two pages of \<open>mat_boot\<close>, for concrete runs.\<close>

definition cont_boot :: mcont where
  "cont_boot = mat.extend mat_boot (mcont.fields
     (\<lambda>i. if i = 0 then \<lparr>ct_quota = 2, ct_usage = 0, ct_parent = 0, ct_nchildren = 0, ct_used = 1\<rparr>
          else \<lparr>ct_quota = 0, ct_usage = 0, ct_parent = 0, ct_nchildren = 0, ct_used = 0\<rparr>)
     (\<lambda>_. unlocked))"

lemma cont_boot_simps [simp]:
  "CONTAINER cont_boot 0 = \<lparr>ct_quota = 2, ct_usage = 0, ct_parent = 0, ct_nchildren = 0, ct_used = 1\<rparr>"
  "container_lks cont_boot i = unlocked" "AT cont_boot = AT mat_boot" "NUM_PAGES cont_boot = NUM_PAGES mat_boot"
  "ct_is_used cont_boot i \<longleftrightarrow> i = 0" "i \<noteq> 0 \<Longrightarrow> ct_used (CONTAINER cont_boot i) = 0"
  "length (pmmap_list cont_boot) = 1" "pmmap_nentries cont_boot = 1"
  by (auto simp: cont_boot_def mcont.defs mat_boot_defs ct_is_used_def)

lemma cont_boot_ok: "cont_ok cont_boot"
proof -
  have n: "page_norm cont_boot = page_norm mat_boot" "page_free cont_boot = page_free mat_boot"
    by (simp_all add: fun_eq_iff page_norm_def page_free_def)
  have "on_cpu cont_boot"
    by (simp add: cont_boot_def mcont.defs mat_boot_defs on_cpu_def this_cpu_def this_kstack_def bsp_kstack_boot_def pcpu_zero_def)
  moreover have "mem_lk cont_boot = mem_lk mat_boot" "last_palloc_index cont_boot = last_palloc_index mat_boot"
    by (simp_all add: cont_boot_def mcont.defs mat_boot_defs)
  ultimately have "mat_ok cont_boot" using mat_boot_ok by (simp add: mat_ok_def n)
  moreover have "{i. page_free cont_boot i} = {0x40001, 0x40002}" by (auto simp: n mat_boot_pages)
  then have "num_free cont_boot = 2" by (simp add: num_free_def)
  moreover have "ct_total cont_boot = 2" by (simp add: ct_total_def ct_slack_def)
  ultimately show ?thesis by (simp add: cont_ok_def ct_tree_def ct_quotas_def)
qed

text \<open>
  (C4) Quotas are backed by memory: in every state that satisfies the containers' invariant, a
  process below its quota gets a page from \<^verbatim>\<open>container_alloc\<close>, never the failure value 0: the first
  free page of the allocation table, which is then no longer free, and its usage grows by one. A
  process at its quota gets 0 and changes nothing. The invariant is kept.
\<close>

theorem container_alloc_correct:
  assumes "cont_ok s" and "ct_is_used s i"
  shows "returns (container_alloc i s) (\<lambda>(p, s'). cont_ok s' \<and>
    (if ct_usage (CONTAINER s i) < ct_quota (CONTAINER s i)
     then p \<noteq> 0 \<and> first_free s p \<and> ct_slack s' i = ct_slack s i - 1 \<and>
       (\<forall>j. page_free s' j \<longleftrightarrow> page_free s j \<and> j \<noteq> p)
     else p = 0 \<and> s' = s))"
proof -
  have "ct_usage (CONTAINER s i) < ct_quota (CONTAINER s i) \<longleftrightarrow> 0 < ct_slack s i"
    by (simp add: ct_slack_def u32_less_nat)
  moreover have "\<not> first_free s 0" using first_free_user [of s 0] by (auto simp: user_page_def)
  ultimately show ?thesis using container_alloc_ok [OF assms] by (auto elim!: returns_mono)
qed

theorem container_alloc_correct_witness:
  "returns (container_alloc 0 cont_boot) (\<lambda>(p, s'). p \<noteq> 0 \<and> cont_ok s' \<and> ct_slack s' 0 = 1)"
  by (rule returns_mono [OF container_alloc_correct [OF cont_boot_ok, of 0]])
    (auto simp: ct_slack_def)

text \<open>
  (C5) \<^verbatim>\<open>container_split\<close>, called as \<^verbatim>\<open>sys_spawn\<close> guards it (fewer than \<^verbatim>\<open>MAX_CHILDREN\<close> children, a
  child index below \<^verbatim>\<open>NUM_IDS\<close>, a quota the parent can still consume), returns the index of a
  container that was not in use, gives it exactly the quota it takes from the parent, so that the
  sum of what all containers may still consume is unchanged, and keeps the invariant.
\<close>

theorem container_split_correct:
  assumes "cont_ok s" and "ct_is_used s i" and "ct_nchildren (CONTAINER s i) < MAX_CHILDREN"
    and "i * MAX_CHILDREN + 1 + ct_nchildren (CONTAINER s i) < NUM_IDS"
    and "container_can_consume i q s = Ret True" and "unat q \<le> 2 ^ 20"
  shows "returns (container_split i q s) (\<lambda>(child, s'). cont_ok s' \<and>
    \<not> ct_is_used s child \<and> ct_is_used s' child \<and> ct_slack s' child = unat q \<and>
    ct_slack s' i + unat q = ct_slack s i \<and> ct_total s' = ct_total s)"
proof -
  have i: "i < NUM_IDS" using assms(2) by (simp add: ct_is_used_def)
  have b: "unat (ct_usage (CONTAINER s i)) \<le> unat (ct_quota (CONTAINER s i))" "unat (ct_quota (CONTAINER s i)) \<le> 2 ^ 20"
    using assms(1,2) by (auto simp: cont_ok_def ct_quotas_def)
  have "unat (ct_usage (CONTAINER s i) + q) = unat (ct_usage (CONTAINER s i)) + unat q"
    using b assms(6) by (simp add: unat_word_ariths)
  with assms(5) i have "unat q \<le> ct_slack s i"
    by (simp add: container_can_consume_def u32_le_nat ct_slack_def)
  then show ?thesis
    by (intro returns_mono [OF container_split_ok [OF assms(1-3)]]) (use assms(4) in \<open>auto simp: ct_child_def\<close>)
qed

theorem container_split_correct_witness:
  "returns (container_split 0 1 cont_boot) (\<lambda>(child, s'). cont_ok s' \<and> ct_slack s' child = 1 \<and> ct_slack s' 0 = 1)"
  by (rule returns_mono [OF container_split_correct [OF cont_boot_ok, of 0 1]])
    (auto simp: container_can_consume_def ct_slack_def [of cont_boot])

text \<open>
  \<^verbatim>\<open>container_free\<close> comes back from every state with the invariant and keeps it, also when
  the usage is 0 already: the page, if it was allocated, is free again, and no other page changes.
\<close>

theorem container_free_correct:
  assumes "cont_ok s" and "ct_is_used s i" and "p < AT_SIZE"
  shows "returns (container_free i p s) (\<lambda>s'. cont_ok s' \<and> at_allocated (AT s' p) = 0 \<and>
    (\<forall>j. page_free s' j \<longleftrightarrow> page_free s j \<or> j = p \<and> page_norm s p))"
  using container_free_ok [OF assms] by (auto simp: container_free_eq [OF assms] ct_freed_def)

theorem container_free_correct_witness:
  "returns (container_free 0 0x40001 cont_boot) (\<lambda>s'. cont_ok s' \<and> page_free s' 0x40001)"
  by (rule returns_mono [OF container_free_correct [OF cont_boot_ok, of 0 "0x40001"]])
    (auto simp: mat_boot_pages page_norm_def [of cont_boot] page_norm_def [of mat_boot, symmetric])

text \<open>
  (C18) \<^verbatim>\<open>container_init\<close>, from a clear state and a well-formed memory map, establishes the
  invariant with the root container holding a quota of exactly the free pages.
\<close>

theorem container_init_correct:
  assumes "devinit mbi s = Ret s'" and "pmmap_ok s'" and "on_cpu s'"
    and "user_page (last_palloc_index s')" and "\<forall>i. AT s' i = \<lparr>at_perm = 0, at_allocated = 0\<rparr>"
    and "\<forall>i. i \<noteq> 0 \<longrightarrow> ct_used (CONTAINER s' i) = 0"
  shows "returns (container_init devinit mbi s) (\<lambda>t. cont_ok t \<and> ct_is_used t 0 \<and>
    unat (ct_quota (CONTAINER t 0)) = num_free t \<and> ct_usage (CONTAINER t 0) = 0)"
  by (rule returns_mono [OF container_init_ok [of devinit, OF assms]]) blast

theorem container_init_correct_witness:
  "returns (container_init (\<lambda>_ s. Ret (s\<lparr>AT := (\<lambda>_. \<lparr>at_perm = 0, at_allocated = 0\<rparr>)\<rparr>)) 0 cont_boot) cont_ok"
  by (rule returns_mono [OF container_init_correct [where s = cont_boot]])
    (use cont_boot_ok in \<open>auto simp: cont_ok_def mat_ok_def pmmap_ok_def\<close>)

text \<open>
  (C33) A container with no room for another child keeps its lock: when the child's index is
  not below \<^verbatim>\<open>NUM_IDS\<close>, \<^verbatim>\<open>container_split\<close> returns \<^verbatim>\<open>NUM_IDS\<close> with the container's lock still held, and every
  later allocation, release or split of that container spins for ever.
\<close>

theorem container_split_leaks_lock:
  assumes "cont_ok s" and "i < NUM_IDS" and "NUM_IDS \<le> i * MAX_CHILDREN + 1 + ct_nchildren (CONTAINER s i)"
  shows "returns (container_split i q s) (\<lambda>(r, s'). r = NUM_IDS \<and> container_lks s' i = held_by (this_cpu s) \<and>
    container_alloc i s' = Diverge \<and> container_free i p s' = Diverge \<and> container_split i q' s' = Diverge)"
proof -
  define s1 where "s1 = s\<lparr>container_lks := (container_lks s)(i := held_by (this_cpu s))\<rparr>"
  have "container_split i q s = Ret (NUM_IDS, s1)"
    using assms(3) by (simp add: container_split_def container_lock_eq [OF assms(1,2)] s1_def)
  moreover have "spinlock_acquire s1 (held_by (this_cpu s)) = Diverge"
    by (rule spinlock_acquire_held) (simp add: held_by_def)
  then have "container_lock i s1 = Diverge" using assms(2) by (simp add: container_lock_def s1_def)
  ultimately show ?thesis
    by (simp add: container_alloc_def container_free_def container_split_def [of _ _ s1]) (simp add: s1_def)
qed

theorem container_split_leaks_lock_witness:
  "returns (container_split 21 1 cont_boot) (\<lambda>(r, s'). r = NUM_IDS \<and> container_alloc 21 s' = Diverge)"
proof -
  have "ct_nchildren (CONTAINER cont_boot 21) = 0" by (simp add: cont_boot_def mcont.defs mat_boot_defs)
  then show ?thesis
    by (intro returns_mono [OF container_split_leaks_lock [OF cont_boot_ok, where p = 0 and q' = 0]]) auto
qed

end
