(* ===== verification/MPT.thy ===== *)
theory MPT
  imports MContainer
begin

unbundle bit_operations_syntax

text \<open>
  Virtual memory management, \<^verbatim>\<open>kern/vmm/MPTIntro\<close> to \<^verbatim>\<open>kern/vmm/MPTNew\<close>: page directories and page
  tables, their initialisation, and the mapping of pages. The page directories \<^verbatim>\<open>PDirPool\<close> are a
  static array of the kernel. Page tables are reached through the addresses in directory entries, so
  they live in physical memory: the identity tables \<^verbatim>\<open>IDPTbl\<close> at the address the linker
  gave them, the other ones in pages taken from the containers.
\<close>

section \<open>State and entries (MPTIntro)\<close>

record mpt = mcont +
  pt_lk :: spinlock
  PDirPool :: "u32 \<Rightarrow> u32 \<Rightarrow> u32"
  PDirPool_addr :: u32
  IDPTbl_addr :: u32

abbreviation (input) PT_PERM_PTU :: u32 where "PT_PERM_PTU \<equiv> 7"

definition ADDR_MASK :: "u32 \<Rightarrow> u32" where
  "ADDR_MASK x = x AND 0xfffff000"

text \<open>The address of entry \<open>k\<close> of the page table at \<open>pt\<close>: \<^verbatim>\<open>&pt[k]\<close> for an array of 32-bit words.\<close>

definition pt_entry_addr :: "u32 \<Rightarrow> u32 \<Rightarrow> u32" where
  "pt_entry_addr pt k = pt + 4 * k"

text \<open>An access of \<^verbatim>\<open>PDirPool[i][j]\<close>.\<close>

definition pdir_bounded :: "u32 \<Rightarrow> u32 \<Rightarrow> 'a outcome \<Rightarrow> 'a outcome" where
  "pdir_bounded i j r = bounded NUM_IDS i (bounded 1024 j r)"

definition set_pdir_base :: "u32 \<Rightarrow> 'a mpt_scheme \<Rightarrow> 'a mpt_scheme outcome" where
  "set_pdir_base index s = bounded NUM_IDS index (Ret (set_cr3 (PDirPool_addr s + index * 4096) s))"

definition get_pdir_entry :: "u32 \<Rightarrow> u32 \<Rightarrow> 'a mpt_scheme \<Rightarrow> u32 outcome" where
  "get_pdir_entry proc_index pde_index s =
     pdir_bounded proc_index pde_index (Ret (PDirPool s proc_index pde_index))"

text \<open>The assignment \<^verbatim>\<open>PDirPool[i][j] = v\<close>.\<close>

definition put_pdir :: "u32 \<Rightarrow> u32 \<Rightarrow> u32 \<Rightarrow> 'a mpt_scheme \<Rightarrow> 'a mpt_scheme outcome" where
  "put_pdir i j v s = pdir_bounded i j
     (Ret (s\<lparr>PDirPool := (PDirPool s)(i := (PDirPool s i)(j := v))\<rparr>))"

definition set_pdir_entry :: "u32 \<Rightarrow> u32 \<Rightarrow> u32 \<Rightarrow> 'a mpt_scheme \<Rightarrow> 'a mpt_scheme outcome" where
  "set_pdir_entry proc_index pde_index page_index s =
     (let addr = push_bit 12 page_index in put_pdir proc_index pde_index (addr OR PT_PERM_PTU) s)"

definition set_pdir_entry_identity :: "u32 \<Rightarrow> u32 \<Rightarrow> 'a mpt_scheme \<Rightarrow> 'a mpt_scheme outcome" where
  "set_pdir_entry_identity proc_index pde_index s =
     (let addr = IDPTbl_addr s + pde_index * 4096 in
      put_pdir proc_index pde_index (addr OR PT_PERM_PTU) s)"

definition rmv_pdir_entry :: "u32 \<Rightarrow> u32 \<Rightarrow> 'a mpt_scheme \<Rightarrow> 'a mpt_scheme outcome" where
  "rmv_pdir_entry proc_index pde_index s = put_pdir proc_index pde_index 0 s"

definition get_ptbl_entry :: "u32 \<Rightarrow> u32 \<Rightarrow> u32 \<Rightarrow> 'a mpt_scheme \<Rightarrow> u32 outcome" where
  "get_ptbl_entry proc_index pde_index pte_index s =
     pdir_bounded proc_index pde_index
       (let pt = ADDR_MASK (PDirPool s proc_index pde_index) in
        Ret (load32 (mem s) (pt_entry_addr pt pte_index)))"

definition set_ptbl_entry ::
    "u32 \<Rightarrow> u32 \<Rightarrow> u32 \<Rightarrow> u32 \<Rightarrow> u32 \<Rightarrow> 'a mpt_scheme \<Rightarrow> 'a mpt_scheme outcome" where
  "set_ptbl_entry proc_index pde_index pte_index page_index perm s =
     pdir_bounded proc_index pde_index
       (let pt = ADDR_MASK (PDirPool s proc_index pde_index) in
        Ret (s\<lparr>mem := store32 (pt_entry_addr pt pte_index) (push_bit 12 page_index OR perm) (mem s)\<rparr>))"

definition set_ptbl_entry_identity :: "u32 \<Rightarrow> u32 \<Rightarrow> u32 \<Rightarrow> 'a mpt_scheme \<Rightarrow> 'a mpt_scheme outcome" where
  "set_ptbl_entry_identity pde_index pte_index perm s =
     bounded 1024 pde_index (bounded 1024 pte_index
       (let addr = push_bit 22 pde_index OR push_bit 12 pte_index in
        Ret (s\<lparr>mem := store32 (pt_entry_addr (IDPTbl_addr s + pde_index * 4096) pte_index) (addr OR perm) (mem s)\<rparr>)))"

definition rmv_ptbl_entry :: "u32 \<Rightarrow> u32 \<Rightarrow> u32 \<Rightarrow> 'a mpt_scheme \<Rightarrow> 'a mpt_scheme outcome" where
  "rmv_ptbl_entry proc_index pde_index pte_index s =
     pdir_bounded proc_index pde_index
       (let pt = ADDR_MASK (PDirPool s proc_index pde_index) in
        Ret (s\<lparr>mem := store32 (pt_entry_addr pt pte_index) 0 (mem s)\<rparr>))"

section \<open>Entries by virtual address (MPTOp)\<close>

definition PDE_ADDR :: "u32 \<Rightarrow> u32" where
  "PDE_ADDR x = drop_bit 22 x"

definition PTE_ADDR :: "u32 \<Rightarrow> u32" where
  "PTE_ADDR x = drop_bit 12 x AND 0x3ff"

abbreviation (input) VM_USERLO_PDE :: u32 where "VM_USERLO_PDE \<equiv> 256"
abbreviation (input) VM_USERHI_PDE :: u32 where "VM_USERHI_PDE \<equiv> 960"

definition get_ptbl_entry_by_va :: "u32 \<Rightarrow> u32 \<Rightarrow> 'a mpt_scheme \<Rightarrow> u32 outcome" where
  "get_ptbl_entry_by_va proc_index vaddr s =
     (let pde_index = PDE_ADDR vaddr in
      andThen (get_pdir_entry proc_index pde_index s) (\<lambda>pde.
      if pde \<noteq> 0 then get_ptbl_entry proc_index pde_index (PTE_ADDR vaddr) s else Ret 0))"

definition get_pdir_entry_by_va :: "u32 \<Rightarrow> u32 \<Rightarrow> 'a mpt_scheme \<Rightarrow> u32 outcome" where
  "get_pdir_entry_by_va proc_index vaddr s = get_pdir_entry proc_index (PDE_ADDR vaddr) s"

definition rmv_ptbl_entry_by_va :: "u32 \<Rightarrow> u32 \<Rightarrow> 'a mpt_scheme \<Rightarrow> 'a mpt_scheme outcome" where
  "rmv_ptbl_entry_by_va proc_index vaddr s =
     (let pde_index = PDE_ADDR vaddr in
      andThen (get_pdir_entry proc_index pde_index s) (\<lambda>pde.
      if pde \<noteq> 0 then rmv_ptbl_entry proc_index pde_index (PTE_ADDR vaddr) s else Ret s))"

definition rmv_pdir_entry_by_va :: "u32 \<Rightarrow> u32 \<Rightarrow> 'a mpt_scheme \<Rightarrow> 'a mpt_scheme outcome" where
  "rmv_pdir_entry_by_va proc_index vaddr s = rmv_pdir_entry proc_index (PDE_ADDR vaddr) s"

definition set_ptbl_entry_by_va ::
    "u32 \<Rightarrow> u32 \<Rightarrow> u32 \<Rightarrow> u32 \<Rightarrow> 'a mpt_scheme \<Rightarrow> 'a mpt_scheme outcome" where
  "set_ptbl_entry_by_va proc_index vaddr page_index perm s =
     set_ptbl_entry proc_index (PDE_ADDR vaddr) (PTE_ADDR vaddr) page_index perm s"

definition set_pdir_entry_by_va :: "u32 \<Rightarrow> u32 \<Rightarrow> u32 \<Rightarrow> 'a mpt_scheme \<Rightarrow> 'a mpt_scheme outcome" where
  "set_pdir_entry_by_va proc_index vaddr page_index s =
     set_pdir_entry proc_index (PDE_ADDR vaddr) page_index s"

definition idptbl_perm :: "u32 \<Rightarrow> u32" where
  "idptbl_perm pde_index =
     (if pde_index < VM_USERLO_PDE \<or> VM_USERHI_PDE \<le> pde_index then PTE_P OR PTE_W OR PTE_G
      else PTE_P OR PTE_W)"

definition idptbl_init ::
    "(u32 \<Rightarrow> 'a mpt_scheme \<Rightarrow> 'a mpt_scheme outcome) \<Rightarrow> u32 \<Rightarrow> 'a mpt_scheme \<Rightarrow> 'a mpt_scheme outcome" where
  "idptbl_init devinit mbi_addr s =
     andThen (container_init devinit mbi_addr s) (\<lambda>s.
     forM (range32 0 1024) (\<lambda>pde_index s.
       forM (range32 0 1024) (\<lambda>pte_index s.
         set_ptbl_entry_identity pde_index pte_index (idptbl_perm pde_index) s) s) s)"

section \<open>Directories and page tables (MPTComm)\<close>

definition pdir_init ::
    "(u32 \<Rightarrow> 'a mpt_scheme \<Rightarrow> 'a mpt_scheme outcome) \<Rightarrow> u32 \<Rightarrow> 'a mpt_scheme \<Rightarrow> 'a mpt_scheme outcome" where
  "pdir_init devinit mbi_addr s =
     andThen (idptbl_init devinit mbi_addr s) (\<lambda>s.
     forM (range32 0 64) (\<lambda>proc_index s.
       forM (range32 0 1024) (\<lambda>pde_index s.
         if pde_index < VM_USERLO_PDE \<or> VM_USERHI_PDE \<le> pde_index
         then set_pdir_entry_identity proc_index pde_index s
         else rmv_pdir_entry proc_index pde_index s) s) s)"

definition alloc_ptbl :: "u32 \<Rightarrow> u32 \<Rightarrow> 'a mpt_scheme \<Rightarrow> (u32 \<times> 'a mpt_scheme) outcome" where
  "alloc_ptbl proc_index vaddr s =
     andThen (container_alloc proc_index s) (\<lambda>(page_index, s).
     let pde_index = PDE_ADDR vaddr in
     if page_index = 0 then Ret (0, s)
     else
       andThen (set_pdir_entry_by_va proc_index vaddr page_index s) (\<lambda>s.
       andThen (forM (range32 0 1024) (\<lambda>pte_index s. rmv_ptbl_entry proc_index pde_index pte_index s) s) (\<lambda>s.
       Ret (page_index, s))))"

definition free_ptbl :: "u32 \<Rightarrow> u32 \<Rightarrow> 'a mpt_scheme \<Rightarrow> 'a mpt_scheme outcome" where
  "free_ptbl proc_index vaddr s =
     andThen (get_pdir_entry_by_va proc_index vaddr s) (\<lambda>pde.
     let page_index = drop_bit 12 pde in
     andThen (rmv_pdir_entry proc_index (PDE_ADDR vaddr) s) (\<lambda>s.
     container_free proc_index page_index s))"

section \<open>Mapping pages (MPTKern, MPTInit, MPTNew)\<close>

definition pdir_init_kern ::
    "(u32 \<Rightarrow> 'a mpt_scheme \<Rightarrow> 'a mpt_scheme outcome) \<Rightarrow> u32 \<Rightarrow> 'a mpt_scheme \<Rightarrow> 'a mpt_scheme outcome" where
  "pdir_init_kern devinit mbi_addr s =
     andThen (pdir_init devinit mbi_addr s) (\<lambda>s.
     forM (range32 256 960) (\<lambda>pde_index s. set_pdir_entry_identity 0 pde_index s) s)"

definition map_page :: "u32 \<Rightarrow> u32 \<Rightarrow> u32 \<Rightarrow> u32 \<Rightarrow> 'a mpt_scheme \<Rightarrow> (u32 \<times> 'a mpt_scheme) outcome" where
  "map_page proc_index vaddr page_index perm s =
     andThen (get_pdir_entry_by_va proc_index vaddr s) (\<lambda>pde_entry.
     let pde_page_index = drop_bit 12 pde_entry in
     andThen (if pde_entry = 0 then alloc_ptbl proc_index vaddr s else Ret (pde_page_index, s))
       (\<lambda>(pde_page_index, s).
     if pde_entry = 0 \<and> pde_page_index = 0 then Ret (MagicNumber, s)
     else
       andThen (set_ptbl_entry_by_va proc_index vaddr page_index perm s) (\<lambda>s.
       Ret (pde_page_index, s))))"

definition unmap_page :: "u32 \<Rightarrow> u32 \<Rightarrow> 'a mpt_scheme \<Rightarrow> (u32 \<times> 'a mpt_scheme) outcome" where
  "unmap_page proc_index vaddr s =
     andThen (get_ptbl_entry_by_va proc_index vaddr s) (\<lambda>pte_entry.
     if pte_entry \<noteq> 0
     then andThen (rmv_ptbl_entry_by_va proc_index vaddr s) (\<lambda>s. Ret (pte_entry, s))
     else Ret (pte_entry, s))"

definition paging_init ::
    "(u32 \<Rightarrow> 'a mpt_scheme \<Rightarrow> 'a mpt_scheme outcome) \<Rightarrow> u32 \<Rightarrow> 'a mpt_scheme \<Rightarrow> 'a mpt_scheme outcome" where
  "paging_init devinit mbi_addr s =
     andThen (pdir_init_kern devinit mbi_addr s) (\<lambda>s.
     andThen (set_pdir_base 0 s) (\<lambda>s.
     Ret (enable_paging s)))"

definition paging_init_ap :: "'a mpt_scheme \<Rightarrow> 'a mpt_scheme outcome" where
  "paging_init_ap s = andThen (set_pdir_base 0 s) (\<lambda>s. Ret (enable_paging s))"

definition alloc_page :: "u32 \<Rightarrow> u32 \<Rightarrow> u32 \<Rightarrow> 'a mpt_scheme \<Rightarrow> (u32 \<times> 'a mpt_scheme) outcome" where
  "alloc_page proc_index vaddr perm s =
     andThen (container_alloc proc_index s) (\<lambda>(page_index, s).
     if page_index \<noteq> 0 then map_page proc_index vaddr page_index perm s else Ret (MagicNumber, s))"

definition alloc_mem_quota :: "u32 \<Rightarrow> u32 \<Rightarrow> 'a mpt_scheme \<Rightarrow> (u32 \<times> 'a mpt_scheme) outcome" where
  "alloc_mem_quota id' quota s = container_split id' quota s"

end
