(* ===== verification/Page_Tables.thy ===== *)
theory Page_Tables
  imports MPT
begin

unbundle bit_operations_syntax

text \<open>
  What the page-table code of \<^verbatim>\<open>kern/vmm\<close> guarantees. The first part computes with entries and
  addresses; the second states the invariant that every page in use is a page table of one directory
  entry or a frame mapped at one address of one process, and shows that mapping keeps it; the
  third is the initialisation to the identity map.
\<close>

section \<open>Entries and addresses\<close>

lemma mask_not12: "(0xfffff000 :: u32) = NOT (mask 12)"
  by (simp add: mask_eq_exp_minus_1)

lemma ADDR_MASK_eq: "ADDR_MASK x = push_bit 12 (drop_bit 12 x)"
  unfolding ADDR_MASK_def mask_not12
  by (rule bit_word_eqI) (auto simp: bit_simps)

lemma unat_push12:
  assumes "unat p < 2 ^ 20"
  shows "unat (push_bit 12 p :: u32) = unat p * 4096"
  using assms by (simp add: push_bit_eq_mult unat_word_ariths)

lemma unat_drop12: "unat (drop_bit 12 x :: u32) = unat x div 4096"
  by (simp add: drop_bit_eq_div unat_div)

lemma drop12_less: "unat (drop_bit 12 x :: u32) < 2 ^ 20"
  using unat_u32_less [of x] by (simp add: unat_drop12)

lemma aligned_push12: "unat p < 2 ^ 20 \<Longrightarrow> aligned 4096 (push_bit 12 p)"
  by (simp add: aligned_def unat_push12 flip: numeral_power_eq_of_nat_cancel_iff)

lemma aligned_ADDR_MASK: "aligned 4096 (ADDR_MASK x)"
  unfolding ADDR_MASK_eq by (rule aligned_push12 [OF drop12_less])

lemma entry_fields:
  fixes p perm :: u32
  assumes "unat p < 2 ^ 20" and "unat perm < 4096"
  shows "drop_bit 12 (push_bit 12 p OR perm) = p"
    and "ADDR_MASK (push_bit 12 p OR perm) = push_bit 12 p"
proof -
  have perm: "drop_bit 12 perm = 0" using assms(2) by (simp add: word_unat_eq_iff unat_drop12)
  have p: "drop_bit 12 (push_bit 12 p) = p"
    using assms(1) by (simp add: word_unat_eq_iff unat_drop12 unat_push12)
  show d: "drop_bit 12 (push_bit 12 p OR perm) = p" by (simp add: drop_bit_or perm p)
  show "ADDR_MASK (push_bit 12 p OR perm) = push_bit 12 p" by (simp only: ADDR_MASK_eq d)
qed

lemma perm_or_nonzero: "unat p < 2 ^ 20 \<Longrightarrow> p \<noteq> 0 \<Longrightarrow> unat perm < 4096 \<Longrightarrow> push_bit 12 p OR perm \<noteq> (0::u32)"
  using entry_fields(1) [of p perm] by (metis drop_bit_of_0)

lemma unat_PDE: "unat (PDE_ADDR va) = unat va div 2 ^ 22"
  by (simp add: PDE_ADDR_def drop_bit_eq_div unat_div)

lemma PDE_less: "PDE_ADDR va < 1024"
  using unat_u32_less [of va] by (simp add: u32_less_nat unat_PDE)

lemma unat_PTE: "unat (PTE_ADDR va) = unat va div 4096 mod 1024"
proof -
  have "PTE_ADDR va = take_bit 10 (drop_bit 12 va)"
    by (simp add: PTE_ADDR_def take_bit_eq_mask mask_eq_exp_minus_1)
  then show ?thesis by (simp add: take_bit_eq_mod unat_mod unat_drop12)
qed

lemma PTE_less: "PTE_ADDR va < 1024"
  by (simp add: u32_less_nat unat_PTE)

text \<open>A virtual address is determined by its directory index, table index and offset.\<close>

lemma va_parts: "unat va = unat (PDE_ADDR va) * 2 ^ 22 + unat (PTE_ADDR va) * 4096 + unat va mod 4096"
proof -
  let ?y = "unat va div 4096"
  have combine: "a = q * 2 ^ 22 + r * 4096 + m" if "a = y * 4096 + m" "y = q * 1024 + r" for a y m q r :: nat
    using that by simp
  have "?y = unat va div 2 ^ 22 * 1024 + ?y mod 1024"
    using div_mult_mod_eq [of ?y 1024] by (simp add: div_mult2_eq [symmetric])
  then show ?thesis unfolding unat_PDE unat_PTE by (intro combine [of _ ?y]) (simp_all only: div_mult_mod_eq)
qed

lemma unat_times4: "k < 1024 \<Longrightarrow> unat (4 * k :: u32) = 4 * unat k"
  by (simp add: u32_less_nat unat_word_ariths)

lemma pt_entry_apart:
  assumes "aligned 4096 a" and "aligned 4096 b" and "j < 1024" and "k < 1024" and "a \<noteq> b \<or> j \<noteq> k"
  shows "apart32 (pt_entry_addr a j) (pt_entry_addr b k)"
proof (rule aligned_apart32)
  have b: "unat (4 * j) < 4096" "unat (4 * k) < 4096"
    using assms(3,4) by (simp_all add: unat_times4) (simp_all add: u32_less_nat)
  have al: "aligned 4 (pt_entry_addr x l)" if "aligned 4096 x" "l < 1024" "unat (4 * l) < 4096" for x l
    using that aligned_add [OF that(1,3)] by (auto simp: aligned_def pt_entry_addr_def unat_times4 intro: dvd_trans [of 4 4096])
  show "aligned 4 (pt_entry_addr a j)" "aligned 4 (pt_entry_addr b k)"
    using al assms b by blast+
  have "j = k" if "4 * j = 4 * k"
    using arg_cong [OF that, of unat] assms(3,4) by (simp add: unat_times4 word_unat_eq_iff)
  with assms(5) show "pt_entry_addr a j \<noteq> pt_entry_addr b k"
    unfolding pt_entry_addr_def by (auto simp: aligned_offset_eq [OF assms(1,2) b])
qed

section \<open>What pages are used for\<close>

text \<open>
  A page of a user process (any but 0, which has the identity map) is used as the page table of
  a directory entry or as the frame behind a table entry.
\<close>

datatype page_use = PTab u32 u32 | Frame u32 u32 u32

definition user_pde :: "u32 \<Rightarrow> u32 \<Rightarrow> bool" where
  "user_pde pid pde \<longleftrightarrow> 0 < pid \<and> pid < NUM_IDS \<and> VM_USERLO_PDE \<le> pde \<and> pde < VM_USERHI_PDE"

definition pte_at :: "'a mpt_scheme \<Rightarrow> u32 \<Rightarrow> u32 \<Rightarrow> u32 \<Rightarrow> u32" where
  "pte_at s pid pde pte = load32 (mem s) (pt_entry_addr (ADDR_MASK (PDirPool s pid pde)) pte)"

definition use_page :: "'a mpt_scheme \<Rightarrow> page_use \<Rightarrow> u32 option" where
  "use_page s u =
     (case u of
        PTab pid pde \<Rightarrow>
          if user_pde pid pde \<and> PDirPool s pid pde \<noteq> 0 then Some (drop_bit 12 (PDirPool s pid pde)) else None
      | Frame pid pde pte \<Rightarrow>
          if user_pde pid pde \<and> PDirPool s pid pde \<noteq> 0 \<and> pte < 1024 \<and> pte_at s pid pde pte \<noteq> 0
          then Some (drop_bit 12 (pte_at s pid pde pte)) else None)"

text \<open>
  The invariant: the pages in use are allocated user pages, each with one use only, and the
  kernel's part of every directory is the identity.
\<close>

definition uses_ok :: "'a mpt_scheme \<Rightarrow> bool" where
  "uses_ok s \<longleftrightarrow>
     (\<forall>u p. use_page s u = Some p \<longrightarrow> user_page p \<and> at_allocated (AT s p) \<noteq> 0) \<and>
     (\<forall>u v p. use_page s u = Some p \<longrightarrow> use_page s v = Some p \<longrightarrow> u = v)"

definition layout_ok :: "'a mpt_scheme \<Rightarrow> bool" where
  "layout_ok s \<longleftrightarrow> aligned 4096 (IDPTbl_addr s) \<and> 0 < unat (IDPTbl_addr s) \<and> unat (IDPTbl_addr s) + 2 ^ 22 \<le> 0x40000000"

text \<open>The identity map: the tables \<^verbatim>\<open>IDPTbl\<close>, and the directory entries that point to them.\<close>

definition idpt :: "'a mpt_scheme \<Rightarrow> u32 \<Rightarrow> u32" where
  "idpt s pde = IDPTbl_addr s + pde * 4096"

definition id_entry :: "u32 \<Rightarrow> u32 \<Rightarrow> u32" where
  "id_entry pde pte = (push_bit 22 pde OR push_bit 12 pte) OR idptbl_perm pde"

definition ident_ok :: "'a mpt_scheme \<Rightarrow> bool" where
  "ident_ok s \<longleftrightarrow>
     (\<forall>pid pde. pid < NUM_IDS \<longrightarrow> pde < 1024 \<longrightarrow> \<not> user_pde pid pde \<longrightarrow> PDirPool s pid pde = idpt s pde OR 7) \<and>
     (\<forall>pde pte. pde < 1024 \<longrightarrow> pte < 1024 \<longrightarrow> load32 (mem s) (pt_entry_addr (idpt s pde) pte) = id_entry pde pte)"

definition pdes_ok :: "'a mpt_scheme \<Rightarrow> bool" where
  "pdes_ok s \<longleftrightarrow> (\<forall>pid pde. user_pde pid pde \<longrightarrow> PDirPool s pid pde \<noteq> 0 \<longrightarrow> PDirPool s pid pde AND 7 = 7)"

definition mpt_ok :: "'a mpt_scheme \<Rightarrow> bool" where
  "mpt_ok s \<longleftrightarrow> cont_ok s \<and> layout_ok s \<and> ident_ok s \<and> pdes_ok s \<and> uses_ok s"

lemma user_page_20: "user_page p \<Longrightarrow> unat p < 2 ^ 20 \<and> p \<noteq> 0 \<and> unat (push_bit 12 p :: u32) = unat p * 4096 \<and> 0x40000 \<le> unat p"
  using unat_push12 [of p] by (auto simp: user_page_def u32_less_nat u32_le_nat)

lemma PTab_entry:
  assumes "uses_ok s" and "user_pde pid pde" and "PDirPool s pid pde \<noteq> 0"
  shows "user_page (drop_bit 12 (PDirPool s pid pde))" and "at_allocated (AT s (drop_bit 12 (PDirPool s pid pde))) \<noteq> 0"
proof -
  have "use_page s (PTab pid pde) = Some (drop_bit 12 (PDirPool s pid pde))" using assms(2,3) by (simp add: use_page_def)
  then show "user_page (drop_bit 12 (PDirPool s pid pde))" "at_allocated (AT s (drop_bit 12 (PDirPool s pid pde))) \<noteq> 0"
    using assms(1) by (auto simp: uses_ok_def)
qed

text \<open>Two page tables in use are at different addresses.\<close>

lemma PTab_distinct:
  assumes "uses_ok s" and "user_pde i j" and "PDirPool s i j \<noteq> 0" and "user_pde k l" and "PDirPool s k l \<noteq> 0"
    and "ADDR_MASK (PDirPool s i j) = ADDR_MASK (PDirPool s k l)"
  shows "i = k \<and> j = l"
proof -
  have "drop_bit 12 (PDirPool s i j) = drop_bit 12 (PDirPool s k l)"
    using arg_cong [OF assms(6), of "drop_bit 12"] entry_fields(1) [OF drop12_less, of 0]
    by (simp add: ADDR_MASK_eq)
  then have "use_page s (PTab i j) = use_page s (PTab k l)" "use_page s (PTab i j) \<noteq> None"
    using assms(2-5) by (simp_all add: use_page_def)
  with assms(1) have "PTab i j = PTab k l" unfolding uses_ok_def by (metis option.exhaust)
  then show ?thesis by simp
qed

section \<open>Writing a table entry\<close>

lemma pte_at_store:
  assumes ok: "uses_ok s" and ij: "user_pde i j" "PDirPool s i j \<noteq> 0" and kl: "user_pde k l" "PDirPool s k l \<noteq> 0"
    and n: "n < 1024" and m: "m < 1024"
  shows "pte_at (s\<lparr>mem := store32 (pt_entry_addr (ADDR_MASK (PDirPool s i j)) n) v (mem s)\<rparr>) k l m =
    (if i = k \<and> j = l \<and> n = m then v else pte_at s k l m)"
proof (cases "i = k \<and> j = l \<and> n = m")
  case True
  then show ?thesis by (simp add: pte_at_def)
next
  case False
  then have "ADDR_MASK (PDirPool s i j) \<noteq> ADDR_MASK (PDirPool s k l) \<or> n \<noteq> m"
    using PTab_distinct [OF ok ij kl] by auto
  then have "apart32 (pt_entry_addr (ADDR_MASK (PDirPool s i j)) n) (pt_entry_addr (ADDR_MASK (PDirPool s k l)) m)"
    using n m by (intro pt_entry_apart aligned_ADDR_MASK)
  with False show ?thesis by (auto simp: pte_at_def load_store32_apart)
qed

lemma use_page_store:
  assumes "uses_ok s" and "user_pde i j" "PDirPool s i j \<noteq> 0" and "n < 1024"
  shows "use_page (s\<lparr>mem := store32 (pt_entry_addr (ADDR_MASK (PDirPool s i j)) n) v (mem s)\<rparr>) u =
    (if u = Frame i j n then (if v = 0 then None else Some (drop_bit 12 v)) else use_page s u)"
  using assms pte_at_store [OF assms(1-3) _ _ assms(4)]
  by (cases u) (auto simp: use_page_def)

section \<open>Writing into one page\<close>

lemma page_of_entry:
  assumes "aligned 4096 pt" and "k < 1024" and "i \<in> {0, 1, 2, 3}"
  shows "drop_bit 12 (pt_entry_addr pt k + i) = drop_bit 12 pt"
proof -
  have k: "unat (4 * k) \<le> 4092" using assms(2) by (simp add: unat_times4) (simp add: u32_less_nat)
  have i: "unat i \<le> 3" using assms(3) by auto
  have o: "unat (4 * k + i) = unat (4 * k) + unat i" using k i by (simp add: unat_word_ariths)
  have "unat (pt + (4 * k + i)) = unat pt + unat (4 * k + i)"
    using assms(1) by (rule aligned_add) (use k i o in simp)
  moreover have "4096 dvd unat pt" using assms(1) by (simp add: aligned_def)
  ultimately have "unat (pt + (4 * k + i)) div 4096 = unat pt div 4096"
    using k i o by (auto elim!: dvdE)
  then show ?thesis by (simp add: pt_entry_addr_def word_unat_eq_iff unat_drop12 add.assoc)
qed

lemma store_entry_other_page:
  assumes "aligned 4096 pt" and "k < 1024" and "drop_bit 12 c \<noteq> drop_bit 12 pt"
  shows "store32 (pt_entry_addr pt k) v m c = m c"
  using page_of_entry [OF assms(1,2)] assms(3) by (intro store32_other) metis

lemma load_entry_other_page:
  assumes "aligned 4096 pt" and "k < 1024" and "drop_bit 12 pt \<noteq> q"
    and "\<And>c. drop_bit 12 c \<noteq> q \<Longrightarrow> m c = m' c"
  shows "load32 m (pt_entry_addr pt k) = load32 m' (pt_entry_addr pt k)"
  using page_of_entry [OF assms(1,2)] assms(3,4) by (intro load32_cong) metis

text \<open>The loop of \<^verbatim>\<open>alloc_ptbl\<close> that clears the new table.\<close>

definition cleared_page :: "u32 \<Rightarrow> memory \<Rightarrow> memory \<Rightarrow> bool" where
  "cleared_page pt m m' \<longleftrightarrow> (\<forall>k < 1024. load32 m' (pt_entry_addr pt k) = 0) \<and>
     (\<forall>c. drop_bit 12 c \<noteq> drop_bit 12 pt \<longrightarrow> m' c = m c)"

lemma clear_ptbl_loop:
  assumes pid: "pid < NUM_IDS" and pde: "pde < 1024" and pt: "pt = ADDR_MASK (PDirPool s pid pde)"
  shows "\<exists>m'. forM (range32 0 1024) (\<lambda>pte s. rmv_ptbl_entry pid pde pte s) s = Ret (s\<lparr>mem := m'\<rparr>) \<and>
    cleared_page pt (mem s) m'"
proof -
  have al: "aligned 4096 pt" unfolding pt by (rule aligned_ADDR_MASK)
  have mem: "k \<in> set (range32 0 1024) \<longleftrightarrow> k < 1024" for k :: u32 by (simp add: set_range32 u32_less_nat)
  have "returns (forM (range32 0 1024) (\<lambda>pte s. rmv_ptbl_entry pid pde pte s) s) (\<lambda>s'. \<exists>m'. s' = s\<lparr>mem := m'\<rparr> \<and>
    (\<forall>k \<in> set (range32 0 1024). load32 m' (pt_entry_addr pt k) = 0) \<and>
    (\<forall>c. drop_bit 12 c \<noteq> drop_bit 12 pt \<longrightarrow> m' c = mem s c))"
  proof (rule returns_forM [where I = "\<lambda>pre s'. \<exists>m'. s' = s\<lparr>mem := m'\<rparr> \<and>
      (\<forall>k \<in> set pre. load32 m' (pt_entry_addr pt k) = 0) \<and>
      (\<forall>c. drop_bit 12 c \<noteq> drop_bit 12 pt \<longrightarrow> m' c = mem s c)"], goal_cases)
    case 1
    show ?case by (intro exI [of _ "mem s"]) simp
  next
    case (2 pre k todo s')
    then obtain m' where s': "s' = s\<lparr>mem := m'\<rparr>" and zero: "\<forall>k \<in> set pre. load32 m' (pt_entry_addr pt k) = 0"
      and other: "\<forall>c. drop_bit 12 c \<noteq> drop_bit 12 pt \<longrightarrow> m' c = mem s c" by auto
    have pre: "j < 1024" if "j \<in> set pre" for j using 2(1) mem [of j] that by simp
    have k: "k < 1024" using 2(1) mem [of k] by simp
    let ?m = "store32 (pt_entry_addr pt k) 0 m'"
    have "load32 ?m (pt_entry_addr pt j) = 0" if "j \<in> set (pre @ [k])" for j
      using that zero pre k by (cases "j = k") (auto simp: load_store32_apart pt_entry_apart [OF al al])
    moreover have "?m c = mem s c" if "drop_bit 12 c \<noteq> drop_bit 12 pt" for c
      using that other by (simp add: store_entry_other_page [OF al k])
    ultimately show ?case using pid pde
      by (auto simp: s' rmv_ptbl_entry_def pdir_bounded_def pt [symmetric] intro!: exI [of _ ?m])
  qed
  then show ?thesis by (auto simp: cleared_page_def mem elim!: returnsE)
qed

section \<open>Taking a page\<close>

lemma ct_took_simps [simp]:
  "PDirPool (ct_took i p s) = PDirPool s" "mem (ct_took i p s) = mem s" "IDPTbl_addr (ct_took i p s) = IDPTbl_addr s"
  "at_allocated (AT (ct_took i p s) q) = (if q = p then 1 else at_allocated (AT s q))"
  "ct_is_used (ct_took i p s) j = ct_is_used s j"
  by (simp_all add: ct_took_def ct_is_used_def)

lemma use_page_frame [simp]:
  "use_page (ct_took i p s) u = use_page s u"
  by (cases u) (simp_all add: use_page_def pte_at_def ct_took_def)

lemma layout_frame [simp]:
  "layout_ok (ct_took i p s) = layout_ok s" "layout_ok (s\<lparr>mem := m\<rparr>) = layout_ok s"
  "layout_ok (s\<lparr>PDirPool := d\<rparr>) = layout_ok s"
  by (simp_all add: layout_ok_def ct_took_def)

lemma cpu_mpt_frame [simp]:
  "on_cpu (s\<lparr>PDirPool := d\<rparr>) = on_cpu s"
  by (simp add: on_cpu_def this_cpu_def this_kstack_def split: kstack_ref.split)

lemma cont_mpt_frame [simp]:
  "cont_ok (s\<lparr>mem := m\<rparr>) = cont_ok s" "cont_ok (s\<lparr>PDirPool := d\<rparr>) = cont_ok s"
  by (auto simp: cont_ok_def mat_ok_def page_norm_def page_free_def ct_tree_def ct_quotas_def ct_total_def
      ct_slack_def ct_is_used_def num_free_def)

lemma pdes_frame [simp]: "pdes_ok (ct_took i p s) = pdes_ok s" "pdes_ok (s\<lparr>mem := m\<rparr>) = pdes_ok s"
  by (simp_all add: pdes_ok_def)

lemma or7_and7: "(x OR 7) AND 7 = (7::u32)"
  by (rule bit_word_eqI) (auto simp: bit_simps)

lemma pdes_ok_pdir: "pdes_ok s \<Longrightarrow> pdes_ok (s\<lparr>PDirPool := (PDirPool s)(i := (PDirPool s i)(j := x OR 7))\<rparr>)"
  by (auto simp: pdes_ok_def or7_and7)

lemma ident_frame [simp]: "ident_ok (ct_took i p s) = ident_ok s"
  by (simp add: ident_ok_def idpt_def)

lemma idpt_props:
  assumes "layout_ok s" and "pde < 1024"
  shows "unat (idpt s pde) = unat (IDPTbl_addr s) + unat pde * 4096"
    and "aligned 4096 (idpt s pde)" and "unat (drop_bit 12 (idpt s pde)) < 0x40000"
proof -
  have p: "unat pde < 1024" using assms(2) by (simp add: u32_less_nat)
  have b: "unat (IDPTbl_addr s) + 2 ^ 22 \<le> 0x40000000" using assms(1) by (simp add: layout_ok_def)
  have "unat (pde * 4096) = unat pde * 4096" using p by (simp add: unat_word_ariths)
  then show u: "unat (idpt s pde) = unat (IDPTbl_addr s) + unat pde * 4096"
    using p b by (simp add: idpt_def unat_word_ariths)
  show "aligned 4096 (idpt s pde)" using assms(1) by (auto simp: layout_ok_def aligned_def u)
  show "unat (drop_bit 12 (idpt s pde)) < 0x40000" using p b by (simp add: unat_drop12 u)
qed

text \<open>The identity map survives every write to user pages and to user directory entries.\<close>

lemma ident_ok_mem:
  assumes "layout_ok s" and "ident_ok s" and "\<And>c. unat (drop_bit 12 c) < 0x40000 \<Longrightarrow> m' c = mem s c"
  shows "ident_ok (s\<lparr>mem := m'\<rparr>)"
proof -
  have "load32 m' (pt_entry_addr (idpt s pde) pte) = load32 (mem s) (pt_entry_addr (idpt s pde) pte)"
    if "pde < 1024" "pte < 1024" for pde pte
  proof (rule load32_cong)
    fix i :: u32
    assume "i \<in> {0, 1, 2, 3}"
    with idpt_props [OF assms(1) that(1)] that(2) show "m' (pt_entry_addr (idpt s pde) pte + i) = mem s (pt_entry_addr (idpt s pde) pte + i)"
      by (intro assms(3)) (simp add: page_of_entry)
  qed
  with assms(2) show ?thesis by (simp add: ident_ok_def idpt_def)
qed

lemma ident_ok_pdir:
  assumes "ident_ok s" and "user_pde i j"
  shows "ident_ok (s\<lparr>PDirPool := (PDirPool s)(i := (PDirPool s i)(j := v))\<rparr>)"
  using assms by (auto simp: ident_ok_def idpt_def)

text \<open>A free page has no use, and taking it keeps the other uses.\<close>

lemma free_page_unused:
  assumes "uses_ok s" and "page_free s p"
  shows "use_page s u \<noteq> Some p"
  using assms by (auto simp: uses_ok_def page_free_def)

lemma uses_ok_took:
  assumes "uses_ok s"
  shows "uses_ok (ct_took i p s)"
  using assms by (auto simp: uses_ok_def)

lemma ct_slack_took:
  assumes "cont_ok s" and "ct_is_used s i" and "0 < ct_slack s i"
  shows "Suc (ct_slack (ct_took i p s) i) = ct_slack s i"
  using usage_plus_one_sle(2) [OF assms] assms(3) by (simp add: ct_slack_def ct_took_def)

text \<open>How \<^verbatim>\<open>container_alloc\<close> looks from the page tables.\<close>

lemma container_alloc_mpt:
  assumes ok: "mpt_ok s" and i: "ct_is_used s i"
  obtains (full) "ct_slack s i = 0" and "container_alloc i s = Ret (0, s)"
  | (page) p where "0 < ct_slack s i" and "first_free s p" and "container_alloc i s = Ret (p, ct_took i p s)"
      and "mpt_ok (ct_took i p s)"
proof (cases "0 < ct_slack s i")
  case True
  from ok have c: "cont_ok s" by (simp add: mpt_ok_def)
  then obtain p where p: "first_free s p" "container_alloc i s = Ret (p, ct_took i p s)"
    using container_alloc_page [OF c i True] by blast
  have "cont_ok (ct_took i p s)" using container_alloc_ok [OF c i] by (simp add: p(2))
  with ok uses_ok_took [of s i p] have "mpt_ok (ct_took i p s)" by (simp add: mpt_ok_def)
  with p True that(2) show thesis by blast
next
  case False
  with ok i container_alloc_full [of s i] that(1) show thesis by (simp add: mpt_ok_def)
qed

section \<open>A new page table\<close>

definition new_ptab :: "u32 \<Rightarrow> u32 \<Rightarrow> u32 \<Rightarrow> 'a mpt_scheme \<Rightarrow> 'a mpt_scheme \<Rightarrow> bool" where
  "new_ptab pid pde p s t \<longleftrightarrow> (\<exists>m'. cleared_page (push_bit 12 p) (mem s) m' \<and>
     t = s\<lparr>PDirPool := (PDirPool s)(pid := (PDirPool s pid)(pde := push_bit 12 p OR 7)), mem := m'\<rparr>)"

lemma new_ptab_entries:
  assumes ok: "uses_ok s" and u: "user_pde pid pde" and none: "PDirPool s pid pde = 0"
    and p: "user_page p" "\<And>v. use_page s v \<noteq> Some p" and t: "new_ptab pid pde p s t"
  shows "PDirPool t i j = (if i = pid \<and> j = pde then push_bit 12 p OR 7 else PDirPool s i j)"
    and "k < 1024 \<Longrightarrow> pte_at t pid pde k = 0"
    and "\<lbrakk>user_pde i j; PDirPool s i j \<noteq> 0; k < 1024\<rbrakk> \<Longrightarrow> pte_at t i j k = pte_at s i j k"
proof -
  note p20 = user_page_20 [OF p(1)]
  from t obtain m' where clr: "cleared_page (push_bit 12 p) (mem s) m'" and
    t: "t = s\<lparr>PDirPool := (PDirPool s)(pid := (PDirPool s pid)(pde := push_bit 12 p OR 7)), mem := m'\<rparr>"
    by (auto simp: new_ptab_def)
  have e: "ADDR_MASK (push_bit 12 p OR 7) = push_bit 12 p" "drop_bit 12 (push_bit 12 p :: u32) = p"
    using entry_fields(2) [of p 7] entry_fields(1) [of p 0] p20 by simp_all
  show "PDirPool t i j = (if i = pid \<and> j = pde then push_bit 12 p OR 7 else PDirPool s i j)"
    by (simp add: t)
  show "pte_at t pid pde k = 0" if "k < 1024"
    using clr that by (simp add: pte_at_def t e cleared_page_def)
  assume ij: "user_pde i j" "PDirPool s i j \<noteq> 0" "k < 1024"
  let ?pt = "ADDR_MASK (PDirPool s i j)"
  have "drop_bit 12 (PDirPool s i j) \<noteq> p" using p(2) [of "PTab i j"] ij by (simp add: use_page_def)
  then have "drop_bit 12 ?pt \<noteq> p"
    using entry_fields(1) [OF drop12_less, of 0 "PDirPool s i j"] by (simp add: ADDR_MASK_eq)
  then have "load32 m' (pt_entry_addr ?pt k) = load32 (mem s) (pt_entry_addr ?pt k)"
    using clr by (intro load_entry_other_page [OF aligned_ADDR_MASK ij(3)]) (auto simp: cleared_page_def e)
  then show "pte_at t i j k = pte_at s i j k" using ij(2) none by (auto simp: pte_at_def t)
qed

lemma use_page_new_ptab:
  assumes ok: "uses_ok s" and u: "user_pde pid pde" and none: "PDirPool s pid pde = 0"
    and p: "user_page p" "\<And>v. use_page s v \<noteq> Some p" and t: "new_ptab pid pde p s t"
  shows "use_page t v = (if v = PTab pid pde then Some p else use_page s v)"
proof -
  note e = new_ptab_entries [OF assms]
  have nz: "drop_bit 12 (push_bit 12 p OR 7 :: u32) = p" "(push_bit 12 p OR 7 :: u32) \<noteq> 0"
    using entry_fields(1) [of p 7] perm_or_nonzero [of p 7] user_page_20 [OF p(1)] by simp_all
  show ?thesis
  proof (cases v)
    case (PTab i j)
    then show ?thesis using u nz none by (auto simp: use_page_def e(1))
  next
    case (Frame i j k)
    then show ?thesis using e(2,3) none by (auto simp: use_page_def e(1))
  qed
qed

lemma alloc_ptbl_mpt:
  assumes ok: "mpt_ok s" and pid: "ct_is_used s pid" and u: "user_pde pid (PDE_ADDR va)"
    and none: "PDirPool s pid (PDE_ADDR va) = 0"
  obtains (full) "ct_slack s pid = 0" and "alloc_ptbl pid va s = Ret (0, s)"
  | (page) p t where "0 < ct_slack s pid" and "first_free s p" and "alloc_ptbl pid va s = Ret (p, t)"
      and "new_ptab pid (PDE_ADDR va) p (ct_took pid p s) t" and "mpt_ok t" and "mpt_ok (ct_took pid p s)"
  using ok pid
proof (cases rule: container_alloc_mpt)
  case full
  then show thesis by (intro that(1)) (simp_all add: alloc_ptbl_def)
next
  case (page p)
  let ?s1 = "ct_took pid p s" and ?pde = "PDE_ADDR va"
  let ?s2 = "?s1\<lparr>PDirPool := (PDirPool ?s1)(pid := (PDirPool ?s1 pid)(?pde := push_bit 12 p OR 7))\<rparr>"
  have b: "pid < NUM_IDS" "?pde < 1024" using u PDE_less by (auto simp: user_pde_def)
  have up: "user_page p" using page(2) by (rule first_free_user)
  note p20 = user_page_20 [OF up]
  have e: "ADDR_MASK (push_bit 12 p OR 7) = push_bit 12 p" using entry_fields(2) [of p 7] p20 by simp
  obtain m' where loop: "forM (range32 0 1024) (\<lambda>pte s. rmv_ptbl_entry pid ?pde pte s) ?s2 = Ret (?s2\<lparr>mem := m'\<rparr>)"
    and clr: "cleared_page (push_bit 12 p) (mem ?s1) m'"
    using clear_ptbl_loop [OF b, of "push_bit 12 p" ?s2] by (auto simp: e)
  define t where "t = ?s2\<lparr>mem := m'\<rparr>"
  have call: "alloc_ptbl pid va s = Ret (p, t)"
    using page(3) p20 b loop
    by (simp add: alloc_ptbl_def set_pdir_entry_by_va_def set_pdir_entry_def put_pdir_def pdir_bounded_def t_def)
  have new: "new_ptab pid ?pde p ?s1 t" using clr by (auto simp: new_ptab_def t_def)
  have unused: "use_page ?s1 v \<noteq> Some p" for v
    using ok page(2) by (simp add: mpt_ok_def free_page_unused first_free_free)
  have uses: "use_page t v = (if v = PTab pid ?pde then Some p else use_page s v)" for v
    using use_page_new_ptab [OF _ u _ up unused new] page(4) none by (simp add: mpt_ok_def)
  have "uses_ok t"
    using page(4) unused up unfolding uses_ok_def mpt_ok_def uses by (auto simp: t_def split: if_splits)
  moreover have "ident_ok t"
    unfolding t_def
  proof (rule ident_ok_mem)
    show "layout_ok ?s2" using page(4) by (simp add: mpt_ok_def)
    show "ident_ok ?s2" using page(4) u by (intro ident_ok_pdir) (simp_all add: mpt_ok_def)
    fix c :: u32
    assume "unat (drop_bit 12 c) < 0x40000"
    then have "drop_bit 12 c \<noteq> drop_bit 12 (push_bit 12 p :: u32)"
      using entry_fields(1) [of p 0] p20 by auto
    then show "m' c = mem ?s2 c" using clr by (simp add: cleared_page_def)
  qed
  moreover have "pdes_ok ?s2" using page(4) by (intro pdes_ok_pdir) (simp add: mpt_ok_def)
  ultimately have "mpt_ok t" using page(4) by (simp add: mpt_ok_def t_def)
  with page call new that(2) show thesis by blast
qed

section \<open>Mapping\<close>

text \<open>A page that is allocated but has no use yet can be mapped.\<close>

definition spare :: "'a mpt_scheme \<Rightarrow> u32 \<Rightarrow> bool" where
  "spare s p \<longleftrightarrow> user_page p \<and> at_allocated (AT s p) \<noteq> 0 \<and> (\<forall>v. use_page s v \<noteq> Some p)"

lemma spare_took:
  assumes "mpt_ok s" and "first_free s p"
  shows "spare (ct_took i p s) p" and "spare s q \<Longrightarrow> spare (ct_took i p s) q \<and> q \<noteq> p"
  using assms free_page_unused [OF _ first_free_free [OF assms(2)]] first_free_user [OF assms(2)]
    first_free_free [OF assms(2)]
  by (auto simp: spare_def mpt_ok_def page_free_def)

text \<open>The state after entry \<open>(pid, pde, pte)\<close> was pointed to page \<open>p\<close>.\<close>

definition mapped :: "u32 \<Rightarrow> u32 \<Rightarrow> u32 \<Rightarrow> u32 \<Rightarrow> u32 \<Rightarrow> 'a mpt_scheme \<Rightarrow> 'a mpt_scheme" where
  "mapped pid pde pte p perm s =
     s\<lparr>mem := store32 (pt_entry_addr (ADDR_MASK (PDirPool s pid pde)) pte) (push_bit 12 p OR perm) (mem s)\<rparr>"

lemma mapped_mpt:
  assumes ok: "mpt_ok s" and u: "user_pde pid pde" and pt: "PDirPool s pid pde \<noteq> 0" and pte: "pte < 1024"
    and p: "spare s p" and perm: "unat perm < 4096"
  shows "mpt_ok (mapped pid pde pte p perm s)"
    and "use_page (mapped pid pde pte p perm s) v = (if v = Frame pid pde pte then Some p else use_page s v)"
proof -
  have us: "uses_ok s" and lay: "layout_ok s" and idt: "ident_ok s" using ok by (simp_all add: mpt_ok_def)
  have p20: "unat p < 2 ^ 20" "p \<noteq> 0" using p user_page_20 [of p] by (simp_all add: spare_def)
  show use: "use_page (mapped pid pde pte p perm s) v = (if v = Frame pid pde pte then Some p else use_page s v)" for v
    using use_page_store [OF us u pt pte, of "push_bit 12 p OR perm" v] entry_fields(1) [OF p20(1) perm]
      perm_or_nonzero [OF p20 perm] by (simp add: mapped_def)
  have "uses_ok (mapped pid pde pte p perm s)"
    using us p unfolding uses_ok_def use by (auto simp: mapped_def spare_def split: if_splits)
  moreover have "ident_ok (mapped pid pde pte p perm s)"
    unfolding mapped_def
  proof (rule ident_ok_mem [OF lay idt])
    fix c :: u32
    assume c: "unat (drop_bit 12 c) < 0x40000"
    let ?pt = "ADDR_MASK (PDirPool s pid pde)"
    have "0x40000 \<le> unat (drop_bit 12 ?pt)"
      using PTab_entry(1) [OF us u pt] entry_fields(1) [OF drop12_less, of 0 "PDirPool s pid pde"]
      by (simp add: ADDR_MASK_eq user_page_def u32_le_nat)
    with c have "drop_bit 12 c \<noteq> drop_bit 12 ?pt" by auto
    then show "store32 (pt_entry_addr ?pt pte) (push_bit 12 p OR perm) (mem s) c = mem s c"
      by (rule store_entry_other_page [OF aligned_ADDR_MASK pte])
  qed
  ultimately show "mpt_ok (mapped pid pde pte p perm s)"
    using ok by (simp add: mpt_ok_def mapped_def)
qed

lemma map_page_mpt:
  assumes ok: "mpt_ok s" and pid: "ct_is_used s pid" and u: "user_pde pid (PDE_ADDR va)"
    and p: "spare s p" and perm: "unat perm < 4096"
  obtains (full) "PDirPool s pid (PDE_ADDR va) = 0" and "ct_slack s pid = 0"
      and "map_page pid va p perm s = Ret (MagicNumber, s)"
  | (old) "PDirPool s pid (PDE_ADDR va) \<noteq> 0" and "map_page pid va p perm s =
      Ret (drop_bit 12 (PDirPool s pid (PDE_ADDR va)), mapped pid (PDE_ADDR va) (PTE_ADDR va) p perm s)"
  | (new) q t where "PDirPool s pid (PDE_ADDR va) = 0" and "0 < ct_slack s pid" and "first_free s q"
      and "new_ptab pid (PDE_ADDR va) q (ct_took pid q s) t" and "mpt_ok t" and "spare t p"
      and "mpt_ok (ct_took pid q s)"
      and "map_page pid va p perm s = Ret (q, mapped pid (PDE_ADDR va) (PTE_ADDR va) p perm t)"
proof (cases "PDirPool s pid (PDE_ADDR va) = 0")
  case False
  have "pid < NUM_IDS" "PDE_ADDR va < 1024" using u PDE_less by (auto simp: user_pde_def)
  with False show thesis
    by (intro that(2)) (simp_all add: map_page_def get_pdir_entry_by_va_def get_pdir_entry_def pdir_bounded_def
        set_ptbl_entry_by_va_def set_ptbl_entry_def mapped_def)
next
  case True
  have b: "pid < NUM_IDS" "PDE_ADDR va < 1024" using u PDE_less by (auto simp: user_pde_def)
  from ok pid u True show thesis
  proof (cases rule: alloc_ptbl_mpt)
    case full
    with True b show thesis
      by (intro that(1)) (simp_all add: map_page_def get_pdir_entry_by_va_def get_pdir_entry_def pdir_bounded_def)
  next
    case (page q t)
    have up: "user_page q" using page(2) by (rule first_free_user)
    have un: "use_page (ct_took pid q s) v \<noteq> Some q" for v
      using ok page(2) by (simp add: mpt_ok_def free_page_unused first_free_free)
    have "uses_ok (ct_took pid q s)" using ok by (simp add: mpt_ok_def uses_ok_took)
    from use_page_new_ptab [OF this u _ up un page(4)] True
    have uses: "use_page t v = (if v = PTab pid (PDE_ADDR va) then Some q else use_page s v)" for v by simp
    have "spare t p"
      using spare_took(2) [OF ok page(2) p] page(4) unfolding spare_def uses by (auto simp: new_ptab_def)
    moreover have "q \<noteq> 0" using user_page_20 [OF up] by simp
    then have "map_page pid va p perm s = Ret (q, mapped pid (PDE_ADDR va) (PTE_ADDR va) p perm t)"
      using True b page(3) by (simp add: map_page_def get_pdir_entry_by_va_def get_pdir_entry_def pdir_bounded_def
        set_ptbl_entry_by_va_def set_ptbl_entry_def mapped_def)
    ultimately show thesis using True page by (intro that(3))
  qed
qed

section \<open>The page walk\<close>

text \<open>
  What the memory management unit makes of a virtual address when the directory of process
  \<open>pid\<close> is loaded: the physical address, or a page fault.
\<close>

definition walk :: "'a mpt_scheme \<Rightarrow> u32 \<Rightarrow> u32 \<Rightarrow> u32 option" where
  "walk s pid va =
     (let pde = PDirPool s pid (PDE_ADDR va);
          pte = load32 (mem s) (pt_entry_addr (ADDR_MASK pde) (PTE_ADDR va))
      in if pde AND PTE_P = 0 \<or> pte AND PTE_P = 0 then None else Some (ADDR_MASK pte OR (va AND 0xfff)))"

lemma and_fff: "va AND 0xfff = take_bit 12 (va::u32)"
  by (simp add: take_bit_eq_mask mask_eq_exp_minus_1)

lemma unat_take12: "unat (take_bit 12 (va::u32)) = unat va mod 4096"
  by (simp add: take_bit_eq_mod unat_mod)

lemma walk_page: "drop_bit 12 (ADDR_MASK pte OR (va AND 0xfff)) = drop_bit 12 (pte::u32)"
proof -
  have "unat (va AND 0xfff) < 4096" unfolding and_fff unat_take12 by simp
  then show ?thesis unfolding ADDR_MASK_eq by (rule entry_fields(1) [OF drop12_less])
qed

lemma walk_offset: "take_bit 12 (ADDR_MASK pte OR (va AND 0xfff)) = take_bit 12 (va::u32)"
  unfolding ADDR_MASK_eq and_fff by (rule bit_word_eqI) (auto simp: bit_simps)

text \<open>A physical address is determined by its page and offset.\<close>

lemma page_offset_eq: "drop_bit 12 a = drop_bit 12 b \<Longrightarrow> take_bit 12 a = take_bit 12 b \<Longrightarrow> a = (b::u32)"
  by (metis bits_ident)

lemma and1_imp:
  assumes "x AND 7 = (7::u32)"
  shows "x AND 1 \<noteq> 0"
proof -
  have "x AND 1 = (x AND 7) AND 1" by (simp add: and.assoc)
  then show ?thesis by (simp add: assms)
qed

lemma walk_user:
  assumes ok: "mpt_ok s" and u: "user_pde pid (PDE_ADDR va)"
  shows "walk s pid va = Some pa \<longleftrightarrow> PDirPool s pid (PDE_ADDR va) \<noteq> 0 \<and>
    pte_at s pid (PDE_ADDR va) (PTE_ADDR va) AND PTE_P \<noteq> 0 \<and>
    pa = ADDR_MASK (pte_at s pid (PDE_ADDR va) (PTE_ADDR va)) OR (va AND 0xfff)"
proof -
  have "PDirPool s pid (PDE_ADDR va) AND 1 = 0 \<longleftrightarrow> PDirPool s pid (PDE_ADDR va) = 0"
    using ok u and1_imp [of "PDirPool s pid (PDE_ADDR va)"] by (auto simp: mpt_ok_def pdes_ok_def)
  then show ?thesis by (auto simp: walk_def pte_at_def Let_def)
qed

lemma walk_use:
  assumes "mpt_ok s" and "user_pde pid (PDE_ADDR va)" and "walk s pid va = Some pa"
  shows "use_page s (Frame pid (PDE_ADDR va) (PTE_ADDR va)) = Some (drop_bit 12 pa)"
proof -
  have "pte_at s pid (PDE_ADDR va) (PTE_ADDR va) \<noteq> 0 \<and> drop_bit 12 pa = drop_bit 12 (pte_at s pid (PDE_ADDR va) (PTE_ADDR va))"
    using assms(3) walk_page [of "pte_at s pid (PDE_ADDR va) (PTE_ADDR va)" va]
    unfolding walk_user [OF assms(1,2)] by auto
  then show ?thesis using assms(2) assms(3) by (simp add: use_page_def walk_user [OF assms(1,2)] PTE_less)
qed

lemma user_pde_va:
  assumes "0 < pid" and "pid < NUM_IDS"
  shows "user_pde pid (PDE_ADDR va) \<longleftrightarrow> VM_USERLO \<le> va \<and> va < VM_USERHI"
proof -
  have "0x100 \<le> unat va div 2 ^ 22 \<longleftrightarrow> 0x40000000 \<le> unat va" "unat va div 2 ^ 22 < 0x3c0 \<longleftrightarrow> unat va < 0xF0000000"
    by (simp_all add: div_less_iff_less_mult less_eq_div_iff_mult_less_eq)
  with assms show ?thesis by (simp add: user_pde_def u32_le_nat u32_less_nat unat_PDE)
qed

lemma id_entry_addr: "ADDR_MASK (id_entry pde pte) = push_bit 22 pde OR push_bit 12 pte"
proof -
  have "ADDR_MASK (x OR y) = ADDR_MASK x OR ADDR_MASK y" for x y
    by (simp add: ADDR_MASK_def bit.conj_disj_distrib2)
  moreover have "ADDR_MASK (push_bit 22 pde) = push_bit 22 pde" "ADDR_MASK (push_bit 12 pte) = push_bit 12 pte"
    unfolding ADDR_MASK_eq by (rule bit_word_eqI; auto simp: bit_simps)+
  moreover have "ADDR_MASK (idptbl_perm pde) = 0" by (simp add: ADDR_MASK_def idptbl_perm_def)
  ultimately show ?thesis by (simp add: id_entry_def)
qed

lemma id_entry_present: "id_entry pde pte AND 1 \<noteq> 0"
proof -
  have "bit (id_entry pde pte) 0" by (simp add: id_entry_def bit_simps idptbl_perm_def)
  then show ?thesis by (simp add: and_one_eq bit_0 odd_iff_mod_2_eq_one)
qed

lemma va_recompose: "push_bit 22 (PDE_ADDR va) OR push_bit 12 (PTE_ADDR va) OR (va AND 0xfff) = va"
proof -
  have m: "(0xfff::u32) = mask 12" "(0x3ff::u32) = mask 10" by (simp_all add: mask_eq_exp_minus_1)
  show ?thesis
    unfolding PDE_ADDR_def PTE_ADDR_def m
  proof (rule bit_word_eqI)
    fix n
    assume "n < LENGTH(32)"
    then show "bit (push_bit 22 (drop_bit 22 va) OR push_bit 12 (drop_bit 12 va AND mask 10) OR va AND mask 12) n = bit va n"
      by (cases "22 \<le> n") (auto simp: bit_simps)
  qed
qed

text \<open>The kernel's part of every address space, and all of process 0's, is the identity.\<close>

lemma identity_entries:
  assumes ok: "mpt_ok s" and pid: "pid < NUM_IDS" and n: "\<not> user_pde pid (PDE_ADDR va)"
  shows "load32 (mem s) (pt_entry_addr (ADDR_MASK (PDirPool s pid (PDE_ADDR va))) (PTE_ADDR va)) = id_entry (PDE_ADDR va) (PTE_ADDR va)"
    and "PDirPool s pid (PDE_ADDR va) AND PTE_P \<noteq> 0"
proof -
  let ?d = "PDE_ADDR va" and ?e = "PTE_ADDR va"
  have "aligned 4096 (idpt s ?d)" using ok by (simp add: mpt_ok_def idpt_props PDE_less)
  then have "unat (idpt s ?d) = unat (drop_bit 12 (idpt s ?d)) * 4096"
    by (simp add: unat_drop12 aligned_def dvd_div_mult_self)
  then have i: "idpt s ?d = push_bit 12 (drop_bit 12 (idpt s ?d))"
    by (simp add: word_unat_eq_iff unat_push12 [OF drop12_less])
  have pde: "PDirPool s pid ?d = push_bit 12 (drop_bit 12 (idpt s ?d)) OR 7"
    using ok pid n PDE_less [of va] i by (simp add: mpt_ok_def ident_ok_def)
  have m: "ADDR_MASK (push_bit 12 (drop_bit 12 x) OR 7) = push_bit 12 (drop_bit 12 x)" for x
    by (rule entry_fields(2) [OF drop12_less]) simp
  have "ADDR_MASK (PDirPool s pid ?d) = idpt s ?d" unfolding pde m by (rule i [symmetric])
  then show "load32 (mem s) (pt_entry_addr (ADDR_MASK (PDirPool s pid ?d)) ?e) = id_entry ?d ?e"
    using ok PDE_less PTE_less by (simp add: mpt_ok_def ident_ok_def)
  show "PDirPool s pid ?d AND 1 \<noteq> 0" unfolding pde by (rule and1_imp) (rule or7_and7)
qed

lemma walk_identity:
  assumes "mpt_ok s" and "pid < NUM_IDS" and "\<not> user_pde pid (PDE_ADDR va)"
  shows "walk s pid va = Some va"
  using identity_entries [OF assms] by (simp add: walk_def Let_def id_entry_present id_entry_addr va_recompose or.assoc)

lemma same_page: "drop_bit 12 a = drop_bit 12 b \<longleftrightarrow> PDE_ADDR a = PDE_ADDR b \<and> PTE_ADDR a = PTE_ADDR b"
proof -
  have "x = y \<longleftrightarrow> x div 1024 = y div 1024 \<and> x mod 1024 = y mod 1024" for x y :: nat
    by (metis div_mult_mod_eq)
  from this [of "unat a div 4096" "unat b div 4096"] show ?thesis
    by (simp add: word_unat_eq_iff unat_drop12 unat_PDE unat_PTE div_mult2_eq [symmetric])
qed

lemma present_or: "(push_bit 12 p OR perm) AND 1 = perm AND (1::u32)"
  by (rule bit_word_eqI) (auto simp: bit_simps)

text \<open>The walks after a new table and after a new mapping.\<close>

lemma walk_new_ptab:
  assumes ok: "mpt_ok s" and u: "user_pde pid pde" and none: "PDirPool s pid pde = 0"
    and p: "user_page p" "\<And>v. use_page s v \<noteq> Some p" and t: "new_ptab pid pde p s t" and okt: "mpt_ok t"
    and i: "i < NUM_IDS"
  shows "walk t i va = walk s i va"
proof (cases "user_pde i (PDE_ADDR va)")
  case False
  then show ?thesis using walk_identity [OF ok i] walk_identity [OF okt i] by simp
next
  case True
  have us: "uses_ok s" using ok by (simp add: mpt_ok_def)
  note e = new_ptab_entries [OF us u none p t]
  have "walk t i va = Some pa \<longleftrightarrow> walk s i va = Some pa" for pa
    unfolding walk_user [OF ok True] walk_user [OF okt True]
    using none e(2) [OF PTE_less [of va]] e(3) [OF True _ PTE_less [of va]]
    by (auto simp: e(1))
  then show ?thesis by (cases "walk s i va"; cases "walk t i va") auto
qed

lemma walk_mapped:
  assumes ok: "mpt_ok s" and u: "user_pde pid (PDE_ADDR va)" and pt: "PDirPool s pid (PDE_ADDR va) \<noteq> 0"
    and p: "spare s p" and perm: "unat perm < 4096" "perm AND 1 \<noteq> 0" and i: "i < NUM_IDS"
  shows "walk (mapped pid (PDE_ADDR va) (PTE_ADDR va) p perm s) i vb =
    (if i = pid \<and> drop_bit 12 vb = drop_bit 12 va then Some (push_bit 12 p OR (vb AND 0xfff)) else walk s i vb)"
proof -
  let ?t = "mapped pid (PDE_ADDR va) (PTE_ADDR va) p perm s"
  have okt: "mpt_ok ?t" by (rule mapped_mpt(1) [OF ok u pt PTE_less p perm(1)])
  note same = same_page [of vb va]
  show ?thesis
  proof (cases "user_pde i (PDE_ADDR vb)")
    case False
    moreover have "\<not> (i = pid \<and> drop_bit 12 vb = drop_bit 12 va)" using False u same by auto
    ultimately show ?thesis using walk_identity [OF ok i] walk_identity [OF okt i] by auto
  next
    case True
    have us: "uses_ok s" using ok by (simp add: mpt_ok_def)
    have dir: "PDirPool ?t = PDirPool s" by (simp add: mapped_def)
    have e: "ADDR_MASK (push_bit 12 p OR perm) = push_bit 12 p"
      using entry_fields(2) [of p perm] user_page_20 [of p] p perm(1) by (simp add: spare_def)
    have pr: "(push_bit 12 p OR perm) AND 1 \<noteq> 0" using perm(2) by (simp add: present_or)
    have "walk ?t i vb = Some pa \<longleftrightarrow> (if i = pid \<and> drop_bit 12 vb = drop_bit 12 va then Some (push_bit 12 p OR (vb AND 0xfff)) else walk s i vb) = Some pa" for pa
    proof (cases "PDirPool s i (PDE_ADDR vb) = 0")
      case True
      then show ?thesis using pt walk_user [OF ok \<open>user_pde i (PDE_ADDR vb)\<close>]
          walk_user [OF okt \<open>user_pde i (PDE_ADDR vb)\<close>] by (auto simp: dir same)
    next
      case False
      have "pte_at ?t i (PDE_ADDR vb) (PTE_ADDR vb) = (if pid = i \<and> PDE_ADDR va = PDE_ADDR vb \<and> PTE_ADDR va = PTE_ADDR vb
          then push_bit 12 p OR perm else pte_at s i (PDE_ADDR vb) (PTE_ADDR vb))"
        unfolding mapped_def by (rule pte_at_store [OF us u pt True False PTE_less PTE_less])
      then show ?thesis using False e pr unfolding walk_user [OF okt True] same
        by (auto simp: walk_user [OF ok True] dir)
    qed
    then show ?thesis by (metis option.exhaust)
  qed
qed

section \<open>Allocating and mapping a page\<close>

text \<open>
  The uses of pages after \<^verbatim>\<open>alloc_page\<close> mapped page \<open>p\<close>: the one new frame, possibly a new page
  table, and nothing else.
\<close>

lemma alloc_page_mpt:
  assumes ok: "mpt_ok s" and pid: "ct_is_used s pid" and u: "user_pde pid (PDE_ADDR va)" and perm: "unat perm < 4096"
  obtains (none) t where "ct_slack s pid < (if PDirPool s pid (PDE_ADDR va) = 0 then 2 else 1)"
      and "alloc_page pid va perm s = Ret (MagicNumber, t)" and "mpt_ok t"
      and "\<And>v. use_page t v = use_page s v" and "PDirPool t = PDirPool s" and "mem t = mem s"
  | (page) r p s1 where "(if PDirPool s pid (PDE_ADDR va) = 0 then 2 else 1) \<le> ct_slack s pid"
      and "alloc_page pid va perm s = Ret (r, mapped pid (PDE_ADDR va) (PTE_ADDR va) p perm s1)"
      and "unat r < 2 ^ 20" and "page_free s p" and "user_page p" and "mpt_ok s1" and "spare s1 p"
      and "PDirPool s1 pid (PDE_ADDR va) \<noteq> 0"
      and "\<And>v. v \<noteq> PTab pid (PDE_ADDR va) \<Longrightarrow> use_page s1 v = use_page s v"
      and "\<And>i vb. i < NUM_IDS \<Longrightarrow> walk s1 i vb = walk s i vb"
      and "ct_slack s pid = ct_slack s1 pid + (if PDirPool s pid (PDE_ADDR va) = 0 then 2 else 1)"
      and "ct_is_used s1 pid"
      and "\<And>c. use_page s1 (PTab pid (PDE_ADDR va)) \<noteq> Some (drop_bit 12 c) \<Longrightarrow> mem s1 c = mem s c"
  using ok pid
proof (cases rule: container_alloc_mpt)
  case full
  then have "alloc_page pid va perm s = Ret (MagicNumber, s)" by (simp add: alloc_page_def)
  with full ok that(1) show thesis by auto
next
  case (page p)
  let ?s = "ct_took pid p s"
  have p: "page_free s p" "user_page p" "p \<noteq> 0"
    using first_free_free [OF page(2)] first_free_user [OF page(2)] user_page_20 [of p] by auto
  have call: "alloc_page pid va perm s = map_page pid va p perm ?s" using page(3) p(3) by (simp add: alloc_page_def)
  have sp: "spare ?s p" by (rule spare_took(1) [OF ok page(2)])
  have sl: "Suc (ct_slack ?s pid) = ct_slack s pid"
    using container_alloc_ok [of s pid] ok pid page(1,3) by (simp add: mpt_ok_def)
  have w: "walk (ct_took k q s') = walk s'" for k q and s' :: "'a mpt_scheme"
    by (simp add: fun_eq_iff walk_def)
  have used: "ct_is_used ?s pid" using pid by simp
  from page(4) used u sp perm show thesis
  proof (cases rule: map_page_mpt)
    case full
    with page(4) sl show thesis by (intro that(1) [of ?s]) (simp_all add: call)
  next
    case old
    with page(4) sp p sl pid show thesis
      by (intro that(2) [of "drop_bit 12 (PDirPool s pid (PDE_ADDR va))" p ?s]) (simp_all add: call drop12_less [simplified] w)
  next
    case (new q t)
    have q: "user_page q" using new(3) by (rule first_free_user)
    have un: "use_page (ct_took pid q ?s) v \<noteq> Some q" for v
      using free_page_unused [of ?s q v] page(4) first_free_free [OF new(3)] by (simp add: mpt_ok_def)
    have uses: "use_page t v = (if v = PTab pid (PDE_ADDR va) then Some q else use_page s v)" for v
      using use_page_new_ptab [OF _ u _ q un new(4), of v] ok new(1) by (simp add: mpt_ok_def uses_ok_took)
    have "PDirPool t pid (PDE_ADDR va) \<noteq> 0"
      using new(4) perm_or_nonzero [of q 7] user_page_20 [OF q] by (auto simp: new_ptab_def)
    moreover have "walk t i vb = walk s i vb" if "i < NUM_IDS" for i vb
      using walk_new_ptab [OF new(7) u _ q un new(4,5) that] new(1) by (simp add: w)
    moreover have "Suc (ct_slack (ct_took pid q ?s) pid) = ct_slack ?s pid"
      using ct_slack_took [OF _ used new(2)] page(4) by (simp add: mpt_ok_def)
    then have "ct_slack s pid = ct_slack t pid + 2" "ct_is_used t pid"
      using sl used new(4) by (auto simp: new_ptab_def ct_slack_def ct_is_used_def ct_took_def)
    moreover have "mem t c = mem s c" if "use_page t (PTab pid (PDE_ADDR va)) \<noteq> Some (drop_bit 12 c)" for c
      using that new(4) user_page_20 [OF q] entry_fields(1) [of q 0] by (auto simp: uses new_ptab_def cleared_page_def)
    ultimately show thesis using page(4) new p sl uses q
      by (intro that(2) [of q p t]) (use user_page_20 [OF q] in \<open>auto simp: call\<close>)
  qed
qed

section \<open>Initialisation\<close>

lemma mem_range1024: "k \<in> set (range32 0 1024) \<longleftrightarrow> k < (1024 :: u32)"
  by (simp add: set_range32 u32_less_nat)

lemma idpt_inj: "layout_ok s \<Longrightarrow> i < 1024 \<Longrightarrow> j < 1024 \<Longrightarrow> idpt s i = idpt s j \<Longrightarrow> i = j"
  using idpt_props(1) [of s i] idpt_props(1) [of s j] by (simp add: word_unat_eq_iff)

text \<open>The identity tables after the entries in \<open>D\<close> have been written.\<close>

definition id_written :: "(u32 \<times> u32) set \<Rightarrow> 'a mpt_scheme \<Rightarrow> 'a mpt_scheme \<Rightarrow> bool" where
  "id_written D s t \<longleftrightarrow> (\<exists>m. t = s\<lparr>mem := m\<rparr> \<and>
     (\<forall>(d, e) \<in> D. d < 1024 \<and> e < 1024 \<and> load32 m (pt_entry_addr (idpt s d) e) = id_entry d e))"

lemma id_written_step:
  assumes lay: "layout_ok s" and t: "id_written D s t" and d: "d < 1024" and e: "e < 1024"
  shows "returns (set_ptbl_entry_identity d e (idptbl_perm d) t) (id_written (insert (d, e) D) s)"
proof -
  from t obtain m where m: "t = s\<lparr>mem := m\<rparr>" and
    D: "\<And>a b. (a, b) \<in> D \<Longrightarrow> a < 1024 \<and> b < 1024 \<and> load32 m (pt_entry_addr (idpt s a) b) = id_entry a b"
    by (auto simp: id_written_def)
  let ?m = "store32 (pt_entry_addr (idpt s d) e) (id_entry d e) m"
  have "load32 ?m (pt_entry_addr (idpt s a) b) = id_entry a b \<and> a < 1024 \<and> b < 1024" if "(a, b) \<in> insert (d, e) D" for a b
  proof (cases "(a, b) = (d, e)")
    case True
    then show ?thesis using d e by simp
  next
    case False
    with that have ab: "a < 1024" "b < 1024" "load32 m (pt_entry_addr (idpt s a) b) = id_entry a b" using D by auto
    have "apart32 (pt_entry_addr (idpt s d) e) (pt_entry_addr (idpt s a) b)"
      using ab d e False idpt_inj [OF lay d ab(1)] by (intro pt_entry_apart idpt_props(2) [OF lay]) auto
    with ab show ?thesis by (simp add: load_store32_apart)
  qed
  then have "id_written (insert (d, e) D) s (s\<lparr>mem := ?m\<rparr>)"
    unfolding id_written_def by (intro exI [of _ ?m]) auto
  then show ?thesis using d e by (simp add: set_ptbl_entry_identity_def m id_entry_def idpt_def)
qed

lemma idptbl_loop:
  assumes lay: "layout_ok s"
  shows "returns (forM (range32 0 1024) (\<lambda>d s. forM (range32 0 1024) (\<lambda>e s.
      set_ptbl_entry_identity d e (idptbl_perm d) s) s) s)
    (id_written ({d. d < 1024} \<times> {e. e < 1024}) s)"
proof -
  have inner: "returns (forM (range32 0 1024) (\<lambda>e s. set_ptbl_entry_identity d e (idptbl_perm d) s) t)
      (id_written (D \<union> {d} \<times> set (range32 0 1024)) s)" if d: "d < 1024" and t: "id_written D s t" for d D t
  proof (rule returns_forM [where I = "\<lambda>pre. id_written (D \<union> {d} \<times> set pre) s"], goal_cases)
    case 1
    show ?case using t by simp
  next
    case (2 pre e todo t)
    have "e < 1024" using 2(1) mem_range1024 [of e] by simp
    moreover have "D \<union> {d} \<times> set (pre @ [e]) = insert (d, e) (D \<union> {d} \<times> set pre)" by auto
    ultimately show ?case using id_written_step [OF lay 2(2) d] by simp
  qed
  have "returns (forM (range32 0 1024) (\<lambda>d s. forM (range32 0 1024) (\<lambda>e s.
      set_ptbl_entry_identity d e (idptbl_perm d) s) s) s)
    (id_written (set (range32 0 1024) \<times> set (range32 0 1024)) s)"
  proof (rule returns_forM [where I = "\<lambda>pre. id_written (set pre \<times> set (range32 0 1024)) s"], goal_cases)
    case 1
    show ?case by (auto simp: id_written_def intro!: exI [of _ "mem s"])
  next
    case (2 pre d todo t)
    have "d < 1024" using 2(1) mem_range1024 [of d] by simp
    moreover have "set (pre @ [d]) \<times> A = (set pre \<times> A) \<union> {d} \<times> A" for A :: "u32 set" by auto
    ultimately show ?case using inner [OF _ 2(2), of d] by simp
  qed
  moreover have "set (range32 0 1024) = {d :: u32. d < 1024}" by (auto simp: mem_range1024)
  ultimately show ?thesis by simp
qed

text \<open>A loop that sets directory entries one by one.\<close>

lemma pdir_loop:
  assumes "i < NUM_IDS" and "\<forall>j \<in> set js. j < 1024"
    and "\<And>j t. IDPTbl_addr t = IDPTbl_addr s \<Longrightarrow> j \<in> set js \<Longrightarrow> f j t = put_pdir i j (v j) t"
  shows "forM js f s = Ret (s\<lparr>PDirPool := (\<lambda>a b. if a = i \<and> b \<in> set js then v b else PDirPool s a b)\<rparr>)"
  using assms
proof (induction js arbitrary: s)
  case (Cons j js)
  let ?s = "s\<lparr>PDirPool := (PDirPool s)(i := (PDirPool s i)(j := v j))\<rparr>"
  have "f j s = Ret ?s" using Cons.prems by (simp add: put_pdir_def pdir_bounded_def)
  moreover have "forM js f ?s = Ret (?s\<lparr>PDirPool := (\<lambda>a b. if a = i \<and> b \<in> set js then v b else PDirPool ?s a b)\<rparr>)"
    by (rule Cons.IH) (use Cons.prems in auto)
  moreover have "(\<lambda>a b. if a = i \<and> b \<in> set js then v b else PDirPool ?s a b) =
      (\<lambda>a b. if a = i \<and> b \<in> set (j # js) then v b else PDirPool s a b)"
    by (auto simp: fun_eq_iff)
  ultimately show ?case by simp
qed simp

definition boot_pde :: "'a mpt_scheme \<Rightarrow> u32 \<Rightarrow> u32" where
  "boot_pde s j = (if j < VM_USERLO_PDE \<or> VM_USERHI_PDE \<le> j then idpt s j OR 7 else 0)"

lemma pdir_init_loop:
  "forM (range32 0 64) (\<lambda>i s. forM (range32 0 1024) (\<lambda>j s.
       if j < VM_USERLO_PDE \<or> VM_USERHI_PDE \<le> j then set_pdir_entry_identity i j s else rmv_pdir_entry i j s) s) s =
   Ret (s\<lparr>PDirPool := (\<lambda>a b. if a < NUM_IDS \<and> b < 1024 then boot_pde s b else PDirPool s a b)\<rparr>)"
  (is "forM _ ?f s = _")
proof -
  have row: "?f i t = Ret (t\<lparr>PDirPool := (\<lambda>a b. if a = i \<and> b \<in> set (range32 0 1024) then boot_pde s b else PDirPool t a b)\<rparr>)"
    if "i < NUM_IDS" "IDPTbl_addr t = IDPTbl_addr s" for i t
    by (rule pdir_loop [OF that(1)])
      (auto simp: mem_range1024 set_pdir_entry_identity_def rmv_pdir_entry_def boot_pde_def idpt_def that(2))
  have "forM is ?f s = Ret (s\<lparr>PDirPool := (\<lambda>a b. if a \<in> set is \<and> b < 1024 then boot_pde s b else PDirPool s a b)\<rparr>)"
    if "set is \<subseteq> {i. i < NUM_IDS}" for "is"
    using that
  proof (induction "is" rule: rev_induct)
    case (snoc i "is")
    let ?d = "\<lambda>a b. if a \<in> set is \<and> b < 1024 then boot_pde s b else PDirPool s a b"
    have "forM (is @ [i]) ?f s = ?f i (s\<lparr>PDirPool := ?d\<rparr>)" using snoc by (simp add: forM_append)
    also have "\<dots> = Ret (s\<lparr>PDirPool := (\<lambda>a b. if a = i \<and> b \<in> set (range32 0 1024) then boot_pde s b else ?d a b)\<rparr>)"
      by (subst row) (use snoc.prems in \<open>simp_all cong: if_cong\<close>)
    also have "(\<lambda>a b. if a = i \<and> b \<in> set (range32 0 1024) then boot_pde s b else ?d a b) =
        (\<lambda>a b. if a \<in> set (is @ [i]) \<and> b < 1024 then boot_pde s b else PDirPool s a b)"
      by (auto simp: fun_eq_iff mem_range1024)
    finally show ?case .
  qed simp
  from this [of "range32 0 64"] show ?thesis by (auto simp: set_range32 u32_less_nat)
qed

lemma pdir_kern_loop:
  "forM (range32 256 960) (\<lambda>j s. set_pdir_entry_identity 0 j s) s =
   Ret (s\<lparr>PDirPool := (\<lambda>a b. if a = 0 \<and> VM_USERLO_PDE \<le> b \<and> b < VM_USERHI_PDE then idpt s b OR 7 else PDirPool s a b)\<rparr>)"
proof -
  have mem: "b \<in> set (range32 256 960) \<longleftrightarrow> 256 \<le> b \<and> b < (960 :: u32)" for b
    by (auto simp: set_range32 u32_less_nat u32_le_nat)
  have "forM (range32 256 960) (\<lambda>j s. set_pdir_entry_identity 0 j s) s =
     Ret (s\<lparr>PDirPool := (\<lambda>a b. if a = 0 \<and> b \<in> set (range32 256 960) then idpt s b OR 7 else PDirPool s a b)\<rparr>)"
    by (rule pdir_loop) (auto simp: mem u32_less_nat set_pdir_entry_identity_def idpt_def)
  then show ?thesis by (simp add: mem)
qed

lemma mpt_control_frame [simp]:
  "mpt_ok (s\<lparr>cr3 := c\<rparr>) = mpt_ok s" "mpt_ok (s\<lparr>cr4 := c\<rparr>) = mpt_ok s" "mpt_ok (s\<lparr>cr0 := c\<rparr>) = mpt_ok s"
  by (auto simp: mpt_ok_def cont_ok_def mat_ok_def page_norm_def page_free_def ct_tree_def ct_quotas_def ct_total_def
      ct_slack_def ct_is_used_def num_free_def layout_ok_def ident_ok_def idpt_def pdes_ok_def uses_ok_def use_page_def
      pte_at_def split: page_use.splits)

lemma paging_init_ok:
  assumes init: "returns (container_init devinit mbi s) (\<lambda>t. cont_ok t \<and> layout_ok t)"
  shows "returns (paging_init devinit mbi s) (\<lambda>t. mpt_ok t \<and> cr3 t = PDirPool_addr t \<and>
    cr0 t AND 0x80000000 \<noteq> 0 \<and> (\<forall>u. use_page t u = None) \<and>
    (\<exists>s0. container_init devinit mbi s = Ret s0 \<and> CONTAINER t = CONTAINER s0 \<and> AT t = AT s0))"
proof -
  from init obtain s0 where s0: "container_init devinit mbi s = Ret s0" "cont_ok s0" "layout_ok s0"
    by (auto elim!: returnsE)
  from idptbl_loop [OF s0(3)] obtain m where
    loop: "forM (range32 0 1024) (\<lambda>d s. forM (range32 0 1024) (\<lambda>e s.
      set_ptbl_entry_identity d e (idptbl_perm d) s) s) s0 = Ret (s0\<lparr>mem := m\<rparr>)" and
    m: "\<And>d e. d < 1024 \<Longrightarrow> e < 1024 \<Longrightarrow> load32 m (pt_entry_addr (idpt s0 d) e) = id_entry d e"
    by (auto simp: id_written_def elim!: returnsE)
  define s1 where "s1 = s0\<lparr>mem := m, PDirPool := (\<lambda>a b.
    if a = 0 \<and> VM_USERLO_PDE \<le> b \<and> b < VM_USERHI_PDE then idpt s0 b OR 7
    else if a < NUM_IDS \<and> b < 1024 then boot_pde s0 b else PDirPool s0 a b)\<rparr>"
  have idpt1: "idpt (s0\<lparr>mem := m\<rparr>) = idpt s0" "idpt (s0\<lparr>mem := m, PDirPool := d\<rparr>) = idpt s0" for d
    by (simp_all add: fun_eq_iff idpt_def)
  have kern: "pdir_init_kern devinit mbi s = Ret s1"
    by (simp add: pdir_init_kern_def pdir_init_def idptbl_init_def s0(1) loop pdir_init_loop pdir_kern_loop s1_def
        boot_pde_def idpt1 cong: if_cong)
  have zero: "PDirPool s1 a b = 0" if "user_pde a b" for a b
    using that by (auto simp: s1_def user_pde_def boot_pde_def u32_less_nat u32_le_nat)
  then have none: "use_page s1 u = None" for u by (cases u) (auto simp: use_page_def)
  have "pdes_ok s1" by (simp add: pdes_ok_def zero)
  moreover have "ident_ok s1"
    using m by (auto simp: ident_ok_def s1_def user_pde_def boot_pde_def idpt1 word_gt_0 not_less)
  moreover have "uses_ok s1" by (simp add: uses_ok_def none)
  moreover have "cont_ok s1" "layout_ok s1" using s0(2,3) by (simp_all add: s1_def)
  ultimately have ok: "mpt_ok s1" by (simp add: mpt_ok_def)
  have cr0: "((c OR (0x1 OR 0x80000000 OR 0x40000 OR 0x10000 OR 0x20 OR 0x2)) AND NOT (0x4 OR 0x8)) AND 0x80000000 \<noteq> 0"
    (is "?x \<noteq> 0") for c :: u32
  proof
    assume "?x = 0"
    moreover have "bit ?x 31" by (simp add: bit_simps)
    ultimately show False by (simp only: bit_0_eq bot_fun_def bot_bool_def)
  qed
  let ?t = "enable_paging (set_cr3 (PDirPool_addr s1) s1)"
  have "paging_init devinit mbi s = Ret ?t"
    by (simp add: paging_init_def kern set_pdir_base_def)
  moreover have "mpt_ok ?t" using ok by (simp add: enable_paging_def set_cr3_def Let_def)
  moreover have "use_page ?t u = use_page s1 u" for u
    by (cases u) (simp_all add: use_page_def pte_at_def enable_paging_def set_cr3_def Let_def)
  moreover have "cr3 ?t = PDirPool_addr ?t" by (simp add: enable_paging_def set_cr3_def Let_def)
  moreover have "cr0 ?t AND 0x80000000 \<noteq> 0"
    using cr0 [of "cr0 s1"] by (simp add: enable_paging_def set_cr3_def Let_def)
  moreover have "CONTAINER ?t = CONTAINER s0" "AT ?t = AT s0"
    by (simp_all add: enable_paging_def set_cr3_def Let_def s1_def)
  ultimately show ?thesis by (simp add: none s0(1))
qed

text \<open>Containers that split do not touch the page tables.\<close>

lemma mpt_ok_gave:
  assumes ok: "mpt_ok s" and i: "ct_is_used s i" and n: "ct_nchildren (CONTAINER s i) < MAX_CHILDREN"
    and c: "ct_child i s < NUM_IDS" and q: "unat q \<le> ct_slack s i"
  shows "mpt_ok (ct_gave i q s)" and "walk (ct_gave i q s) = walk s"
proof -
  have cont: "cont_ok s" and id: "i < NUM_IDS" using ok i by (simp_all add: mpt_ok_def ct_is_used_def)
  have "cont_ok (ct_gave i q s)"
    using container_split_ok [OF cont i n c q] by (simp add: container_split_eq [OF cont id n c])
  moreover have use: "use_page (ct_gave i q s) u = use_page s u" for u
    by (cases u) (simp_all add: use_page_def pte_at_def ct_gave_def)
  have "uses_ok (ct_gave i q s) = uses_ok s" unfolding uses_ok_def use by (simp add: ct_gave_def)
  moreover have "layout_ok (ct_gave i q s) = layout_ok s" "ident_ok (ct_gave i q s) = ident_ok s"
    "pdes_ok (ct_gave i q s) = pdes_ok s"
    by (simp_all add: layout_ok_def ident_ok_def pdes_ok_def idpt_def ct_gave_def)
  ultimately show "mpt_ok (ct_gave i q s)" using ok by (simp add: mpt_ok_def)
  show "walk (ct_gave i q s) = walk s" by (intro ext) (simp add: walk_def ct_gave_def)
qed

section \<open>A concrete system\<close>

text \<open>
  The machine of \<open>cont_boot\<close> is started with paging, and the root container hands its two pages
  to process 1.
\<close>

definition mpt_boot :: mpt where
  "mpt_boot = mcont.extend cont_boot (mpt.fields unlocked (\<lambda>_ _. 0) 0x200000 0x400000)"

definition clear_AT :: "u32 \<Rightarrow> 'a mat_scheme \<Rightarrow> 'a mat_scheme outcome" where
  "clear_AT mbi s = Ret (s\<lparr>AT := (\<lambda>_. \<lparr>at_perm = 0, at_allocated = 0\<rparr>)\<rparr>)"

definition mpt_run :: "mpt outcome" where
  "mpt_run = andThen (paging_init clear_AT 0 mpt_boot) (\<lambda>s. andThen (container_split 0 2 s) (\<lambda>(_, s). Ret s))"

lemma mpt_boot_simps:
  "pmmap_list mpt_boot = [\<lparr>pm_start = 0x40001000, pm_end = 0x40003000, pm_type = MEM_RAM\<rparr>]"
  "pmmap_nentries mpt_boot = 1" "on_cpu mpt_boot" "last_palloc_index mpt_boot = VM_USERLO_PI"
  "i \<noteq> 0 \<Longrightarrow> ct_used (CONTAINER mpt_boot i) = 0" "IDPTbl_addr mpt_boot = 0x400000"
  by (simp_all add: mpt_boot_def mpt.defs cont_boot_def mcont.defs mat_boot_defs on_cpu_def this_cpu_def
      this_kstack_def bsp_kstack_boot_def pcpu_zero_def)

lemma mpt_boot_pages:
  "{i. i < num_pages (pmmap_list mpt_boot) \<and> 1 < page_perm (pmmap_list mpt_boot) i} = {0x40001, 0x40002}"
proof -
  have n: "num_pages (pmmap_list mpt_boot) = 0x40003"
    by (simp add: mpt_boot_simps num_pages_def pm_highest_def rounddown_def)
  have "i = 0x40001 \<or> i = 0x40002" if "i < 0x40003" "user_page i" "0x40001000 \<le> unat i * 4096" for i :: u32
    using that by (auto simp: user_page_def u32_less_nat u32_le_nat word_unat_eq_iff)
  moreover have "1 < page_perm (pmmap_list mpt_boot) i \<longleftrightarrow> user_page i \<and> 0x40001000 \<le> unat i * 4096 \<and> (unat i + 1) * 4096 \<le> 0x40003000" for i
    by (auto simp: mpt_boot_simps page_perm_def contains_page_def)
  ultimately show ?thesis by (auto simp: n user_page_def)
qed

lemma mpt_boot_ok:
  obtains s where "paging_init clear_AT 0 mpt_boot = Ret s" and "mpt_ok s" and "\<forall>u. use_page s u = None"
    and "ct_is_used s 0" and "ct_nchildren (CONTAINER s 0) = 0" and "ct_slack s 0 = 2"
proof -
  define s' where "s' = mpt_boot\<lparr>AT := (\<lambda>_. \<lparr>at_perm = 0, at_allocated = 0\<rparr>)\<rparr>"
  have dev: "clear_AT 0 mpt_boot = Ret s'" by (simp add: clear_AT_def s'_def)
  have "returns (container_init clear_AT 0 mpt_boot) (\<lambda>t. cont_ok t \<and> ct_is_used t 0 \<and>
    unat (ct_quota (CONTAINER t 0)) = num_free t \<and> ct_usage (CONTAINER t 0) = 0 \<and> ct_nchildren (CONTAINER t 0) = 0 \<and>
    {i. page_free t i} = {i. i < num_pages (pmmap_list s') \<and> 1 < page_perm (pmmap_list s') i} \<and>
    (\<exists>n a c l. t = s'\<lparr>mem_lk := unlocked, NUM_PAGES := n, AT := a, CONTAINER := c, container_lks := l\<rparr>))"
    by (rule container_init_ok [of clear_AT, OF dev])
      (simp_all add: s'_def pmmap_ok_def mpt_boot_simps user_page_def)
  then obtain t where t: "container_init clear_AT 0 mpt_boot = Ret t" "cont_ok t" "ct_is_used t 0"
    "unat (ct_quota (CONTAINER t 0)) = num_free t" "ct_usage (CONTAINER t 0) = 0" "ct_nchildren (CONTAINER t 0) = 0"
    "{i. page_free t i} = {0x40001, 0x40002}" "layout_ok t"
    using mpt_boot_pages by (auto simp: s'_def layout_ok_def mpt_boot_simps aligned_def elim!: returnsE)
  then have free: "num_free t = 2" by (simp add: num_free_def)
  from paging_init_ok [of clear_AT 0 mpt_boot] t obtain s where s: "paging_init clear_AT 0 mpt_boot = Ret s"
    "mpt_ok s" "\<forall>u. use_page s u = None" "CONTAINER s = CONTAINER t" by (auto elim!: returnsE)
  have "ct_is_used s 0" "ct_nchildren (CONTAINER s 0) = 0" "ct_slack s 0 = 2"
    using t free by (simp_all add: s(4) ct_is_used_def ct_slack_def)
  with s that show thesis by blast
qed

lemma mpt_run_ok:
  "returns mpt_run (\<lambda>s. mpt_ok s \<and> ct_is_used s 1 \<and> ct_slack s 1 = 2 \<and> PDirPool s 1 256 = 0)"
proof -
  obtain s where s: "paging_init clear_AT 0 mpt_boot = Ret s" "mpt_ok s" "\<forall>u. use_page s u = None"
    and c: "ct_is_used s 0" "ct_nchildren (CONTAINER s 0) = 0" "ct_slack s 0 = 2" by (rule mpt_boot_ok)
  have c4: "ct_child 0 s = 1" using c by (simp add: ct_child_def)
  have "container_split 0 2 s = Ret (1, ct_gave 0 2 s)"
    using container_split_eq [of s 0 2] s(2) c c4 by (simp add: mpt_ok_def)
  moreover have "mpt_ok (ct_gave 0 2 s)" using mpt_ok_gave(1) [OF s(2) c(1), of 2] c c4 by simp
  moreover have "ct_is_used (ct_gave 0 2 s) 1" "ct_slack (ct_gave 0 2 s) 1 = 2"
    using c4 by (simp_all add: ct_is_used_def ct_slack_def ct_gave_def)
  moreover have "PDirPool (ct_gave 0 2 s) 1 256 = 0"
    using s(3) [rule_format, of "PTab 1 256"] by (auto simp: use_page_def user_pde_def ct_gave_def split: if_splits)
  ultimately show ?thesis by (simp add: mpt_run_def s(1))
qed

text \<open>What \<^verbatim>\<open>alloc_page\<close> does to the walks.\<close>

lemma alloc_page_walks:
  assumes "mpt_ok s" and "ct_is_used s pid" and "0 < pid" and "VM_USERLO \<le> va" and "va < VM_USERHI"
    and "unat perm < 4096" and "perm AND PTE_P \<noteq> 0"
  shows "returns (alloc_page pid va perm s) (\<lambda>(r, t). mpt_ok t \<and>
    (if (if PDirPool s pid (PDE_ADDR va) = 0 then 2 else 1) \<le> ct_slack s pid
     then r \<noteq> MagicNumber \<and> (\<exists>p. page_free s p \<and> walk t pid va = Some (push_bit 12 p OR (va AND 0xfff)))
     else r = MagicNumber \<and> walk t pid va = walk s pid va) \<and>
    (\<forall>i vb. i < NUM_IDS \<longrightarrow> \<not> (i = pid \<and> drop_bit 12 vb = drop_bit 12 va) \<longrightarrow> walk t i vb = walk s i vb))"
proof -
  have pid: "pid < NUM_IDS" using assms(2) by (simp add: ct_is_used_def)
  have u: "user_pde pid (PDE_ADDR va)" using assms(3-5) pid by (simp add: user_pde_va)
  from assms(1,2) u assms(6) show ?thesis
  proof (cases rule: alloc_page_mpt)
    case (none t)
    then have "walk t = walk s" by (intro ext) (simp add: walk_def)
    with none show ?thesis by simp
  next
    case (page r p s1)
    have "walk (mapped pid (PDE_ADDR va) (PTE_ADDR va) p perm s1) i vb =
      (if i = pid \<and> drop_bit 12 vb = drop_bit 12 va then Some (push_bit 12 p OR (vb AND 0xfff)) else walk s i vb)"
      if "i < NUM_IDS" for i vb
      using walk_mapped [OF page(6) u page(8,7) assms(6,7) that] page(10) [OF that] by simp
    moreover have "r \<noteq> MagicNumber" using page(3) by auto
    moreover have "mpt_ok (mapped pid (PDE_ADDR va) (PTE_ADDR va) p perm s1)"
      by (rule mapped_mpt(1) [OF page(6) u page(8) PTE_less page(7) assms(6)])
    ultimately show ?thesis using page(1,2,4) pid by auto
  qed
qed

lemma alloc_page_maps:
  assumes "mpt_ok s" and "ct_is_used s pid" and "0 < pid" and "VM_USERLO \<le> va" and "va < VM_USERHI"
    and "unat perm < 4096" and "perm AND PTE_P \<noteq> 0" and "2 \<le> ct_slack s pid"
  shows "returns (alloc_page pid va perm s) (\<lambda>(r, t). mpt_ok t \<and> (\<exists>pa. walk t pid va = Some pa))"
  using alloc_page_walks [OF assms(1-7)] assms(8) by (auto elim!: returns_mono split: if_splits)

text \<open>
  User addresses that walk to one physical page are those of one virtual page of one process, and the
  physical page is an allocated user page and no page table.
\<close>

lemma walk_isolated:
  assumes "mpt_ok s" and "0 < i" and "i < NUM_IDS" and "VM_USERLO \<le> va" and "va < VM_USERHI"
    and "0 < j" and "j < NUM_IDS" and "VM_USERLO \<le> vb" and "vb < VM_USERHI"
    and "walk s i va = Some pa" and "walk s j vb = Some pb" and "drop_bit 12 pa = drop_bit 12 pb"
  shows "i = j \<and> drop_bit 12 va = drop_bit 12 vb \<and> user_page (drop_bit 12 pa) \<and>
    at_allocated (AT s (drop_bit 12 pa)) \<noteq> 0 \<and>
    (\<forall>k pde. user_pde k pde \<longrightarrow> PDirPool s k pde \<noteq> 0 \<longrightarrow> drop_bit 12 pa \<noteq> drop_bit 12 (PDirPool s k pde))"
proof -
  have u: "user_pde i (PDE_ADDR va)" "user_pde j (PDE_ADDR vb)" using assms(2-9) by (simp_all add: user_pde_va)
  have us: "uses_ok s" using assms(1) by (simp add: mpt_ok_def)
  have a: "use_page s (Frame i (PDE_ADDR va) (PTE_ADDR va)) = Some (drop_bit 12 pa)"
    by (rule walk_use [OF assms(1) u(1) assms(10)])
  have b: "use_page s (Frame j (PDE_ADDR vb) (PTE_ADDR vb)) = Some (drop_bit 12 pa)"
    unfolding assms(12) by (rule walk_use [OF assms(1) u(2) assms(11)])
  from us a b have "Frame i (PDE_ADDR va) (PTE_ADDR va) = Frame j (PDE_ADDR vb) (PTE_ADDR vb)"
    unfolding uses_ok_def by blast
  moreover have "drop_bit 12 pa \<noteq> drop_bit 12 (PDirPool s k pde)" if "user_pde k pde" "PDirPool s k pde \<noteq> 0" for k pde
  proof
    assume "drop_bit 12 pa = drop_bit 12 (PDirPool s k pde)"
    with that have "use_page s (PTab k pde) = Some (drop_bit 12 pa)" by (simp add: use_page_def)
    with us a have "PTab k pde = Frame i (PDE_ADDR va) (PTE_ADDR va)" unfolding uses_ok_def by blast
    then show False by simp
  qed
  ultimately show ?thesis using us a by (auto simp: same_page uses_ok_def)
qed

text \<open>The start of paging from a clear state.\<close>

lemma paging_init_mpt:
  assumes "devinit mbi s = Ret s'" and "pmmap_ok s'" and "on_cpu s'"
    and "user_page (last_palloc_index s')" and "\<forall>i. AT s' i = \<lparr>at_perm = 0, at_allocated = 0\<rparr>"
    and "\<forall>i. i \<noteq> 0 \<longrightarrow> ct_used (CONTAINER s' i) = 0" and "layout_ok s'"
  shows "returns (paging_init devinit mbi s) (\<lambda>t. mpt_ok t \<and> cr3 t = PDirPool_addr t \<and>
    cr0 t AND 0x80000000 \<noteq> 0 \<and> (\<forall>u. use_page t u = None))"
proof -
  have "returns (container_init devinit mbi s) (\<lambda>t. cont_ok t \<and> layout_ok t)"
  proof (rule returns_mono [OF container_init_ok [of devinit, OF assms(1-6)]], elim conjE exE, intro conjI)
    fix t n a c l
    assume "t = s'\<lparr>mem_lk := unlocked, NUM_PAGES := n, AT := a, CONTAINER := c, container_lks := l\<rparr>"
    then show "layout_ok t" using assms(7) by (simp add: layout_ok_def)
  qed
  from paging_init_ok [of devinit, OF this] show ?thesis by (auto elim!: returns_mono)
qed

section \<open>Properties\<close>

text \<open>
  (C3) \<^verbatim>\<open>alloc_page\<close> keeps the invariant and maps a page that was free: if the process has quota for
  the page (and for a page table, when there is none yet), the address now walks to that page, which
  is no longer free, and otherwise the result is \<^verbatim>\<open>MagicNumber\<close>; every other virtual page of every
  process walks to where it did before.
\<close>

theorem alloc_page_correct:
  assumes "mpt_ok s" and "ct_is_used s pid" and "0 < pid" and "VM_USERLO \<le> va" and "va < VM_USERHI"
    and "unat perm < 4096" and "perm AND PTE_P \<noteq> 0"
  shows "returns (alloc_page pid va perm s) (\<lambda>(r, t). mpt_ok t \<and>
    (if (if PDirPool s pid (PDE_ADDR va) = 0 then 2 else 1) \<le> ct_slack s pid
     then r \<noteq> MagicNumber \<and> (\<exists>p. page_free s p \<and> walk t pid va = Some (push_bit 12 p OR (va AND 0xfff)))
     else r = MagicNumber \<and> walk t pid va = walk s pid va) \<and>
    (\<forall>i vb. i < NUM_IDS \<longrightarrow> \<not> (i = pid \<and> drop_bit 12 vb = drop_bit 12 va) \<longrightarrow> walk t i vb = walk s i vb))"
  by (rule alloc_page_walks [OF assms])

theorem alloc_page_correct_witness:
  "returns mpt_run (\<lambda>s. returns (alloc_page 1 0x40000000 7 s) (\<lambda>(r, t). mpt_ok t \<and> r \<noteq> MagicNumber \<and>
     (\<exists>p. page_free s p \<and> walk t 1 0x40000000 = Some (push_bit 12 p))))"
proof (rule returns_mono [OF mpt_run_ok])
  fix s :: mpt
  assume s: "mpt_ok s \<and> ct_is_used s 1 \<and> ct_slack s 1 = 2 \<and> PDirPool s 1 256 = 0"
  with alloc_page_correct [of s 1 "0x40000000" 7]
  show "returns (alloc_page 1 0x40000000 7 s) (\<lambda>(r, t). mpt_ok t \<and> r \<noteq> MagicNumber \<and>
     (\<exists>p. page_free s p \<and> walk t 1 0x40000000 = Some (push_bit 12 p)))"
    by (auto simp: PDE_ADDR_def elim!: returns_mono)
qed

text \<open>
  (C19) \<^verbatim>\<open>paging_init\<close>, from a clear state and a well-formed memory map, comes back with paging
  on and the directory of process 0 loaded, with the whole invariant established and no page in
  use by any process.
\<close>

theorem paging_init_correct:
  assumes "devinit mbi s = Ret s'" and "pmmap_ok s'" and "on_cpu s'"
    and "user_page (last_palloc_index s')" and "\<forall>i. AT s' i = \<lparr>at_perm = 0, at_allocated = 0\<rparr>"
    and "\<forall>i. i \<noteq> 0 \<longrightarrow> ct_used (CONTAINER s' i) = 0" and "layout_ok s'"
  shows "returns (paging_init devinit mbi s) (\<lambda>t. mpt_ok t \<and> cr3 t = PDirPool_addr t \<and>
    cr0 t AND 0x80000000 \<noteq> 0 \<and> (\<forall>u. use_page t u = None))"
  by (rule paging_init_mpt [of devinit, OF assms])

theorem paging_init_correct_witness: "returns (paging_init clear_AT 0 mpt_boot) mpt_ok"
  by (rule returns_mono [OF paging_init_correct [of clear_AT 0 mpt_boot
        "mpt_boot\<lparr>AT := (\<lambda>_. \<lparr>at_perm = 0, at_allocated = 0\<rparr>)\<rparr>"]])
    (auto simp: clear_AT_def pmmap_ok_def mpt_boot_simps user_page_def layout_ok_def aligned_def)

end
