(* ===== verification/KString.thy ===== *)
theory KString
  imports Phys_Mem
begin

unbundle bit_operations_syntax

text \<open>
  The memory and string routines of \<^verbatim>\<open>kern/lib/string.c\<close>. The string instructions of the x86 that
  \<^verbatim>\<open>memset\<close> and \<^verbatim>\<open>memmove\<close> are written with are recursive functions of the repeat count; both
  routines choose between a byte-wise and a word-wise instruction and, for overlapping blocks,
  between the two directions, and are shown to do the same whatever they choose.
\<close>

section \<open>String instructions\<close>

primrec rep_stosb :: "nat \<Rightarrow> u32 \<Rightarrow> u8 \<Rightarrow> memory \<Rightarrow> memory" where
  "rep_stosb 0 edi al m = m"
| "rep_stosb (Suc ecx) edi al m = rep_stosb ecx (edi + 1) al (m(edi := al))"

primrec rep_stosl :: "nat \<Rightarrow> u32 \<Rightarrow> u32 \<Rightarrow> memory \<Rightarrow> memory" where
  "rep_stosl 0 edi eax m = m"
| "rep_stosl (Suc ecx) edi eax m = rep_stosl ecx (edi + 4) eax (store32 edi eax m)"

text \<open>\<open>rep movs\<close> with the direction flag clear (\<^verbatim>\<open>cld\<close>) and set (\<^verbatim>\<open>std\<close>).\<close>

primrec rep_movsb :: "nat \<Rightarrow> u32 \<Rightarrow> u32 \<Rightarrow> memory \<Rightarrow> memory" where
  "rep_movsb 0 edi esi m = m"
| "rep_movsb (Suc ecx) edi esi m = rep_movsb ecx (edi + 1) (esi + 1) (m(edi := m esi))"

primrec rep_movsl :: "nat \<Rightarrow> u32 \<Rightarrow> u32 \<Rightarrow> memory \<Rightarrow> memory" where
  "rep_movsl 0 edi esi m = m"
| "rep_movsl (Suc ecx) edi esi m = rep_movsl ecx (edi + 4) (esi + 4) (store32 edi (load32 m esi) m)"

primrec rep_movsb_std :: "nat \<Rightarrow> u32 \<Rightarrow> u32 \<Rightarrow> memory \<Rightarrow> memory" where
  "rep_movsb_std 0 edi esi m = m"
| "rep_movsb_std (Suc ecx) edi esi m = rep_movsb_std ecx (edi - 1) (esi - 1) (m(edi := m esi))"

primrec rep_movsl_std :: "nat \<Rightarrow> u32 \<Rightarrow> u32 \<Rightarrow> memory \<Rightarrow> memory" where
  "rep_movsl_std 0 edi esi m = m"
| "rep_movsl_std (Suc ecx) edi esi m = rep_movsl_std ecx (edi - 4) (esi - 4) (store32 edi (load32 m esi) m)"

section \<open>Blocks of memory\<close>

text \<open>The routines return their first argument; the model returns the memory they leave.\<close>

definition memset :: "u32 \<Rightarrow> u32 \<Rightarrow> u32 \<Rightarrow> memory \<Rightarrow> memory" where
  "memset v c n m =
     (if n = 0 then m
      else if v mod 4 = 0 \<and> n mod 4 = 0 then
        let c = c AND 0xFF; c = push_bit 24 c OR push_bit 16 c OR push_bit 8 c OR c
        in rep_stosl (unat (n div 4)) v c m
      else rep_stosb (unat n) v (ucast c) m)"

definition memmove :: "u32 \<Rightarrow> u32 \<Rightarrow> u32 \<Rightarrow> memory \<Rightarrow> memory" where
  "memmove dst src n m =
     (let s = src; d = dst in
      if s < d \<and> s + n > d then
        let s = s + n; d = d + n in
        if s mod 4 = 0 \<and> d mod 4 = 0 \<and> n mod 4 = 0
        then rep_movsl_std (unat (n div 4)) (d - 4) (s - 4) m
        else rep_movsb_std (unat n) (d - 1) (s - 1) m
      else
        if s mod 4 = 0 \<and> d mod 4 = 0 \<and> n mod 4 = 0
        then rep_movsl (unat (n div 4)) d s m
        else rep_movsb (unat n) d s m)"

definition memcpy :: "u32 \<Rightarrow> u32 \<Rightarrow> u32 \<Rightarrow> memory \<Rightarrow> memory" where
  "memcpy dst src n m = memmove dst src n m"

definition memzero :: "u32 \<Rightarrow> u32 \<Rightarrow> memory \<Rightarrow> memory" where
  "memzero v n m = memset v 0 n m"

section \<open>Strings\<close>

text \<open>
  \<^verbatim>\<open>size_t\<close> counts are natural numbers below \<open>2\<^sup>3\<^sup>2\<close>; characters are compared as unsigned bytes, as in
  the source. \<open>strcmp\<close> and \<open>strchr\<close> have no bound and run until they meet a null byte.
\<close>

primrec strncmp :: "nat \<Rightarrow> u32 \<Rightarrow> u32 \<Rightarrow> memory \<Rightarrow> int" where
  "strncmp 0 p q m = 0"
| "strncmp (Suc n) p q m =
     (if m p \<noteq> 0 \<and> m p = m q then strncmp n (p + 1) (q + 1) m else uint (m p) - uint (m q))"

primrec strnlen :: "u32 \<Rightarrow> nat \<Rightarrow> memory \<Rightarrow> nat" where
  "strnlen s 0 m = 0"
| "strnlen s (Suc n) m = (if m s \<noteq> 0 then Suc (strnlen (s + 1) n m) else 0)"

definition strcmp :: "u32 \<Rightarrow> u32 \<Rightarrow> memory \<Rightarrow> int outcome" where
  "strcmp p q m =
     andThen (whileM (\<lambda>(p, q). m p \<noteq> 0 \<and> m p = m q) (\<lambda>(p, q). Ret (p + 1, q + 1)) (p, q))
       (\<lambda>(p, q). Ret (uint (m p) - uint (m q)))"

definition strchr :: "u32 \<Rightarrow> u8 \<Rightarrow> memory \<Rightarrow> u32 outcome" where
  "strchr s c m =
     andThen (whileM (\<lambda>s. m s \<noteq> 0 \<and> m s \<noteq> c) (\<lambda>s. Ret (s + 1)) s)
       (\<lambda>s. Ret (if m s \<noteq> 0 then s else 0))"

primrec memcmp :: "nat \<Rightarrow> u32 \<Rightarrow> u32 \<Rightarrow> memory \<Rightarrow> int" where
  "memcmp 0 s1 s2 m = 0"
| "memcmp (Suc n) s1 s2 m =
     (if m s1 \<noteq> m s2 then uint (m s1) - uint (m s2) else memcmp n (s1 + 1) (s2 + 1) m)"

text \<open>
  The count of \<open>strncpy\<close> is an \<^verbatim>\<open>int\<close>; a count that is not positive copies nothing. The first loop ends
  at the null byte it has copied, or when the count is used up; the second one pads with null bytes.
\<close>

primrec strncpy_pad :: "nat \<Rightarrow> u32 \<Rightarrow> memory \<Rightarrow> memory" where
  "strncpy_pad 0 s m = m"
| "strncpy_pad (Suc n) s m = strncpy_pad n (s + 1) (m(s := 0))"

primrec strncpy_loop :: "nat \<Rightarrow> u32 \<Rightarrow> u32 \<Rightarrow> memory \<Rightarrow> memory" where
  "strncpy_loop 0 s t m = m"
| "strncpy_loop (Suc n) s t m =
     (let m' = m(s := m t) in
      if m' s \<noteq> 0 then strncpy_loop n (s + 1) (t + 1) m' else strncpy_pad n (s + 1) m')"

definition strncpy :: "u32 \<Rightarrow> u32 \<Rightarrow> int \<Rightarrow> memory \<Rightarrow> memory" where
  "strncpy s t n m = strncpy_loop (nat n) s t m"

section \<open>Specification of block writes\<close>

text \<open>A block of \<open>n\<close> bytes at \<open>d\<close>, in the circle of 32-bit addresses.\<close>

definition in_block :: "u32 \<Rightarrow> nat \<Rightarrow> u32 \<Rightarrow> bool" where
  "in_block d n a \<longleftrightarrow> unat (a - d) < n"

definition filled :: "u32 \<Rightarrow> nat \<Rightarrow> u8 \<Rightarrow> memory \<Rightarrow> memory" where
  "filled d n b m = (\<lambda>a. if in_block d n a then b else m a)"

definition copied_block :: "u32 \<Rightarrow> u32 \<Rightarrow> nat \<Rightarrow> memory \<Rightarrow> memory" where
  "copied_block d s n m = (\<lambda>a. if in_block d n a then m (s + (a - d)) else m a)"

lemma unat_minus_of_nat:
  assumes "k < 2 ^ 32"
  shows "unat (x - of_nat k :: u32) = (if k \<le> unat x then unat x - k else unat x + 2 ^ 32 - k)"
  using assms by (simp add: unat_sub_if' unat_of_nat word_le_nat_alt)

lemma in_block_add:
  assumes "k + n \<le> 2 ^ 32" and "k < 2 ^ 32"
  shows "in_block d k a \<or> in_block (d + of_nat k) n a \<longleftrightarrow> in_block d (k + n) a"
    and "\<not> (in_block d k a \<and> in_block (d + of_nat k) n a)"
proof -
  have "unat (a - (d + of_nat k)) = unat ((a - d) - of_nat k)" by (simp only: diff_diff_eq)
  then show "in_block d k a \<or> in_block (d + of_nat k) n a \<longleftrightarrow> in_block d (k + n) a"
    and "\<not> (in_block d k a \<and> in_block (d + of_nat k) n a)"
    using assms unat_u32_less [of "a - d"] by (auto simp: in_block_def unat_minus_of_nat)
qed

lemma filled_add:
  assumes "k + n \<le> 2 ^ 32" and "k < 2 ^ 32"
  shows "filled (d + of_nat k) n b (filled d k b m) = filled d (k + n) b m"
  using in_block_add(1) [OF assms, of d] by (auto simp: filled_def fun_eq_iff)

lemma in_block_small: "in_block d 1 a \<longleftrightarrow> a = d" "in_block d 4 a \<longleftrightarrow> a = d \<or> a = d + 1 \<or> a = d + 2 \<or> a = d + 3"
proof -
  have "unat x < 1 \<longleftrightarrow> x = 0" "unat x < 4 \<longleftrightarrow> x = 0 \<or> x = 1 \<or> x = 2 \<or> x = 3" for x :: u32
    by (auto simp: word_unat_eq_iff)
  from this [of "a - d"] show "in_block d 1 a \<longleftrightarrow> a = d"
    "in_block d 4 a \<longleftrightarrow> a = d \<or> a = d + 1 \<or> a = d + 2 \<or> a = d + 3"
    by (auto simp: in_block_def algebra_simps)
qed

lemma rep_stosb_filled: "n \<le> 2 ^ 32 \<Longrightarrow> rep_stosb n d b m = filled d n b m"
proof (induction n arbitrary: d m)
  case 0
  show ?case by (simp add: filled_def in_block_def)
next
  case (Suc n)
  have "m(d := b) = filled d 1 b m" unfolding filled_def in_block_small by auto
  then show ?case using Suc filled_add [of 1 n d b m] by simp
qed

lemma store32_filled:
  assumes "v = push_bit 24 (ucast b) OR push_bit 16 (ucast b) OR push_bit 8 (ucast b) OR (ucast b :: u32)"
  shows "store32 d v m = filled d 4 b m"
proof -
  have "ucast v = b" "ucast (drop_bit 8 v) = b" "ucast (drop_bit 16 v) = b" "ucast (drop_bit 24 v) = b"
    unfolding assms by (rule bit_word_eqI; auto simp: bit_simps dest: bit_imp_le_length)+
  then show ?thesis unfolding filled_def in_block_small by (auto simp: store32_def fun_eq_iff)
qed

lemma rep_stosl_filled:
  assumes "v = push_bit 24 (ucast b) OR push_bit 16 (ucast b) OR push_bit 8 (ucast b) OR (ucast b :: u32)"
  shows "4 * n \<le> 2 ^ 32 \<Longrightarrow> rep_stosl n d v m = filled d (4 * n) b m"
proof (induction n arbitrary: d m)
  case 0
  show ?case by (simp add: filled_def in_block_def)
next
  case (Suc n)
  then show ?case using filled_add [of 4 "4 * n" d b m] by (simp add: store32_filled [OF assms])
qed

lemma quarters: "n mod 4 = 0 \<Longrightarrow> 4 * unat (n div 4) = unat n" for n :: u32
  by (simp add: unat_div word_unat_eq_iff unat_mod) (metis mult_div_mod_eq add.right_neutral)

lemma memset_filled: "memset v c n m = filled v (unat n) (ucast c) m"
proof (cases "n = 0")
  case True
  then show ?thesis by (simp add: memset_def filled_def in_block_def)
next
  case False
  have "c AND 0xFF = ucast (ucast c :: u8)"
  proof -
    have mask8: "(0xFF::u32) = mask 8" by (simp add: mask_eq_exp_minus_1)
    show ?thesis unfolding mask8 by (rule bit_word_eqI) (auto simp: bit_simps)
  qed
  moreover have "4 * unat (n div 4) = unat n" if "n mod 4 = 0"
    using that by (rule quarters)
  moreover have "unat n \<le> 2 ^ 32" using unat_u32_less [of n] by simp
  ultimately show ?thesis using False
    by (simp add: memset_def rep_stosb_filled rep_stosl_filled [where b = "ucast c"] Let_def)
qed

section \<open>Copies\<close>

lemma copied_add:
  assumes "k + n \<le> 2 ^ 32" and "k < 2 ^ 32" and "d = s \<or> k + n \<le> unat (d - s)"
  shows "copied_block (d + of_nat k) (s + of_nat k) n (copied_block d s k m) = copied_block d s (k + n) m"
proof
  fix a
  have off: "s + of_nat k + (a - (d + of_nat k)) = s + (a - d)" by simp
  have "\<not> in_block d k (s + (a - d))" if "in_block (d + of_nat k) n a"
  proof -
    have "unat (a - d) < k + n" "k \<le> unat (a - d)"
      using that in_block_add [OF assms(1,2), of d a] by (auto simp: in_block_def not_less)
    moreover have eq: "s + (a - d) - d = (a - d) - (d - s)" by simp
    moreover note unat_sub_if' [of "a - d" "d - s"] unat_u32_less [of "a - d"] unat_u32_less [of "d - s"]
    ultimately show ?thesis using assms unfolding in_block_def eq
      by (auto simp del: diff_diff_eq2 diff_diff_add split: if_splits)
  qed
  then show "copied_block (d + of_nat k) (s + of_nat k) n (copied_block d s k m) a = copied_block d s (k + n) m a"
    using in_block_add [OF assms(1,2), of d a] unfolding copied_block_def off by auto
qed

lemma copied_add_top:
  assumes "n + k \<le> 2 ^ 32" and "n < 2 ^ 32" and "d = s \<or> n + k \<le> unat (s - d)"
  shows "copied_block d s n (copied_block (d + of_nat n) (s + of_nat n) k m) = copied_block d s (n + k) m"
proof
  fix a
  have off: "s + of_nat n + (a - (d + of_nat n)) = s + (a - d)" for a by simp
  have "\<not> in_block (d + of_nat n) k (s + (a - d))" if "in_block d n a"
  proof -
    have "unat (a - d) < n" using that by (simp add: in_block_def)
    moreover have eq: "s + (a - d) - d = (a - d) + (s - d)" by simp
    moreover note unat_plus_if' [of "a - d" "s - d"] unat_u32_less [of "a - d"] unat_u32_less [of "s - d"]
    ultimately have "\<not> (in_block d (n + k) (s + (a - d)) \<and> \<not> in_block d n (s + (a - d)))"
      using assms unfolding in_block_def eq
      by (auto simp del: add_diff_eq diff_add_eq split: if_splits)
    then show ?thesis using in_block_add [OF assms(1,2), of d "s + (a - d)"] by blast
  qed
  then show "copied_block d s n (copied_block (d + of_nat n) (s + of_nat n) k m) a = copied_block d s (n + k) m a"
    using in_block_add [OF assms(1,2), of d a] unfolding copied_block_def off by auto
qed

lemma load32_byte:
  "ucast (load32 m s) = m s" "ucast (drop_bit 8 (load32 m s)) = m (s + 1)"
  "ucast (drop_bit 16 (load32 m s)) = m (s + 2)" "ucast (drop_bit 24 (load32 m s)) = m (s + 3)"
  unfolding load32_def
  by (rule bit_word_eqI; auto simp: bit_simps dest: bit_imp_le_length)+

lemma copied_1: "m(d := m s) = copied_block d s 1 m"
  unfolding copied_block_def in_block_small by auto

lemma copied_4: "store32 d (load32 m s) m = copied_block d s 4 m"
  unfolding copied_block_def in_block_small by (auto simp: store32_def load32_byte fun_eq_iff)

lemma copied_0: "copied_block d s 0 m = m"
  by (simp add: copied_block_def in_block_def)

lemma rep_movsb_copied:
  "n \<le> 2 ^ 32 \<Longrightarrow> d = s \<or> n \<le> unat (d - s) \<Longrightarrow> rep_movsb n d s m = copied_block d s n m"
proof (induction n arbitrary: d s m)
  case (Suc n)
  then show ?case using copied_add [of 1 n d s m] by (auto simp: copied_1)
qed (simp add: copied_0)

lemma rep_movsl_copied:
  "4 * n \<le> 2 ^ 32 \<Longrightarrow> d = s \<or> 4 * n \<le> unat (d - s) \<Longrightarrow> rep_movsl n d s m = copied_block d s (4 * n) m"
proof (induction n arbitrary: d s m)
  case (Suc n)
  then show ?case using copied_add [of 4 "4 * n" d s m] by (auto simp: copied_4)
qed (simp add: copied_0)

lemma rep_movsb_std_copied:
  "n < 2 ^ 32 \<Longrightarrow> d = s \<or> n \<le> unat (s - d) \<Longrightarrow>
   rep_movsb_std n (d + of_nat n - 1) (s + of_nat n - 1) m = copied_block d s n m"
proof (induction n arbitrary: m)
  case (Suc n)
  then show ?case using copied_add_top [of n 1 d s m] by (auto simp: copied_1 algebra_simps)
qed (simp add: copied_0)

lemma rep_movsl_std_copied:
  "4 * n < 2 ^ 32 \<Longrightarrow> d = s \<or> 4 * n \<le> unat (s - d) \<Longrightarrow>
   rep_movsl_std n (d + of_nat (4 * n) - 4) (s + of_nat (4 * n) - 4) m = copied_block d s (4 * n) m"
proof (induction n arbitrary: m)
  case (Suc n)
  then show ?case using copied_add_top [of "4 * n" 4 d s m] by (auto simp: copied_4 algebra_simps)
qed (simp add: copied_0)

lemma copy_directions:
  fixes d s n :: u32
  assumes "unat d + unat n \<le> 2 ^ 32" and "unat s + unat n < 2 ^ 32"
  shows "s < d \<and> s + n > d \<Longrightarrow> unat n \<le> unat (s - d)"
    and "\<not> (s < d \<and> s + n > d) \<Longrightarrow> d = s \<or> unat n \<le> unat (d - s)"
  using assms by (auto simp: unat_sub_if' word_less_nat_alt word_le_nat_alt unat_plus_if' not_less word_unat_eq_iff)

lemma memmove_copied:
  assumes "unat d + unat n \<le> 2 ^ 32" and "unat s + unat n < 2 ^ 32"
  shows "memmove d s n m = copied_block d s (unat n) m"
proof (cases "s < d \<and> s + n > d")
  case True
  note dir = copy_directions(1) [OF assms True]
  have "rep_movsl_std (unat (n div 4)) (d + n - 4) (s + n - 4) m = copied_block d s (unat n) m" if "n mod 4 = 0"
    using rep_movsl_std_copied [of "unat (n div 4)" d s m] dir unat_u32_less [of n]
    unfolding quarters [OF that] by simp
  then show ?thesis
    using True dir rep_movsb_std_copied [of "unat n" d s m] unat_u32_less [of n]
    by (simp add: memmove_def Let_def)
next
  case False
  note dir = copy_directions(2) [OF assms False]
  have "rep_movsl (unat (n div 4)) d s m = copied_block d s (unat n) m" if "n mod 4 = 0"
    using rep_movsl_copied [of "unat (n div 4)" d s m] dir unat_u32_less [of n]
    unfolding quarters [OF that] by simp
  moreover have "rep_movsb (unat n) d s m = copied_block d s (unat n) m"
    using dir unat_u32_less [of n] by (intro rep_movsb_copied) auto
  ultimately show ?thesis unfolding memmove_def Let_def if_not_P [OF False] by simp
qed

section \<open>Strings in memory\<close>

text \<open>The first \<open>n\<close> characters of the C string at \<open>p\<close>, without the null byte that ends it.\<close>

primrec cstr :: "nat \<Rightarrow> u32 \<Rightarrow> memory \<Rightarrow> u8 list" where
  "cstr 0 p m = []"
| "cstr (Suc n) p m = (if m p = 0 then [] else m p # cstr n (p + 1) m)"

lemma strnlen_cstr: "strnlen p n m = length (cstr n p m)"
  by (induction n arbitrary: p) auto

lemma strncmp_cstr: "strncmp n p q m = 0 \<longleftrightarrow> cstr n p m = cstr n q m"
  by (induction n arbitrary: p q) (auto simp: word_uint_eq_iff)

lemma cstr_bounds: "length (cstr n p m) \<le> n" "0 \<notin> set (cstr n p m)"
  by (induction n arbitrary: p) auto

lemma cstr_unique:
  assumes "length bs \<le> n" and "0 \<notin> set bs" and "\<forall>i < length bs. m (p + of_nat i) = bs ! i"
    and "length bs < n \<longrightarrow> m (p + of_nat (length bs)) = 0"
  shows "cstr n p m = bs"
  using assms
proof (induction n arbitrary: p bs)
  case (Suc n)
  show ?case
  proof (cases bs)
    case Nil
    with Suc.prems show ?thesis by simp
  next
    case (Cons b cs)
    have "cstr n (p + 1) m = cs"
    proof (rule Suc.IH)
      show "\<forall>i < length cs. m (p + 1 + of_nat i) = cs ! i"
      proof (intro allI impI)
        fix i assume "i < length cs"
        with Suc.prems(3) [rule_format, of "Suc i"] Cons show "m (p + 1 + of_nat i) = cs ! i"
          by (simp add: add.assoc)
      qed
    qed (use Suc.prems Cons in \<open>auto simp: add.assoc\<close>)
    moreover have "m p = b" using Suc.prems(3) [rule_format, of 0] Cons by simp
    ultimately show ?thesis using Suc.prems(2) Cons by auto
  qed
qed simp

lemma cstr_nth: "i < length (cstr n p m) \<Longrightarrow> cstr n p m ! i = m (p + of_nat i)"
proof (induction n arbitrary: p i)
  case (Suc n)
  then show ?case by (cases i) (auto simp: add.assoc split: if_splits)
qed simp

lemma strcmp_cstr:
  assumes "length (cstr n p m) < n"
  shows "\<exists>r. strcmp p q m = Ret r \<and> (r = 0 \<longleftrightarrow> cstr n p m = cstr n q m)"
  using assms
proof (induction n arbitrary: p q)
  case (Suc n)
  show ?case
  proof (cases "m p \<noteq> 0 \<and> m p = m q")
    case True
    then have "strcmp p q m = strcmp (p + 1) (q + 1) m"
      unfolding strcmp_def by (subst whileM_unfold) auto
    then show ?thesis using Suc.IH [of "p + 1" "q + 1"] Suc.prems True by auto
  next
    case False
    then have "strcmp p q m = Ret (uint (m p) - uint (m q))" 
      unfolding strcmp_def by (subst whileM_unfold) auto
    then show ?thesis using False by (auto simp: word_uint_eq_iff)
  qed
qed simp

lemma memcmp_zero: "memcmp n p q m = 0 \<longleftrightarrow> (\<forall>i < n. m (p + of_nat i) = m (q + of_nat i))"
proof (induction n arbitrary: p q)
  case (Suc n)
  show ?case unfolding less_Suc_eq_0_disj
    using Suc [of "p + 1" "q + 1"] by (auto simp: word_uint_eq_iff add.assoc)
qed simp

lemma strncpy_pad_filled: "n \<le> 2 ^ 32 \<Longrightarrow> strncpy_pad n s m = filled s n 0 m"
proof -
  have "strncpy_pad n s m = rep_stosb n s 0 m" by (induction n arbitrary: s m) simp_all
  then show "n \<le> 2 ^ 32 \<Longrightarrow> ?thesis" by (simp add: rep_stosb_filled)
qed

text \<open>Byte \<open>i\<close> of what \<open>strncpy\<close> leaves: the character of the source string, and a null byte after its end.\<close>

lemma cstr_cong: "(\<And>i. i < n \<Longrightarrow> m (p + of_nat i) = m' (p + of_nat i)) \<Longrightarrow> cstr n p m = cstr n p m'"
proof (induction n arbitrary: p)
  case (Suc n)
  have "m (p + 1 + of_nat i) = m' (p + 1 + of_nat i)" if "i < n" for i
    using Suc.prems [of "Suc i"] that by (simp add: add.assoc)
  with Suc.IH [of "p + 1"] Suc.prems [of 0] show ?case by simp
qed simp

lemma unat_of_nat_small: "i < 2 ^ 32 \<Longrightarrow> unat (of_nat i :: u32) = i"
  by (simp add: unat_of_nat)

lemma strncpy_loop_correct:
  assumes "n \<le> 2 ^ 32" and "n \<le> unat (s - t)"
  shows "strncpy_loop n s t m =
    (\<lambda>a. if in_block s n a
         then if unat (a - s) < length (cstr n t m) then m (t + (a - s)) else 0
         else m a)"
  using assms
proof (induction n arbitrary: s t m)
  case 0
  show ?case by (simp add: in_block_def)
next
  case (Suc n)
  show ?case
  proof (cases "m t = 0")
    case True
    have one: "m(s := 0) = filled s 1 0 m" unfolding filled_def in_block_small by auto
    have "strncpy_loop (Suc n) s t m = strncpy_pad n (s + 1) (m(s := 0))" using True by (simp add: Let_def)
    also have "\<dots> = filled s (Suc n) 0 m"
      unfolding one using Suc.prems filled_add [of 1 n s 0 m] by (simp add: strncpy_pad_filled)
    finally have "strncpy_loop (Suc n) s t m = filled s (Suc n) 0 m" .
    moreover have "cstr (Suc n) t m = []" using True by simp
    ultimately show ?thesis by (simp only: filled_def list.size not_less0 if_False)
  next
    case False
    let ?m = "m(s := m t)"
    have away: "t + x \<noteq> s" if "unat x \<le> n" for x
      using that Suc.prems by auto
    have "cstr n (t + 1) ?m = cstr n (t + 1) m"
    proof (rule cstr_cong)
      fix i assume "i < n"
      then have "t + of_nat (Suc i) \<noteq> s" using Suc.prems(1) by (intro away) (simp add: unat_of_nat_small del: of_nat_Suc)
      then show "?m (t + 1 + of_nat i) = m (t + 1 + of_nat i)" by (simp add: add.assoc)
    qed
    moreover have "strncpy_loop (Suc n) s t m = strncpy_loop n (s + 1) (t + 1) ?m" using False by (simp add: Let_def)
    moreover have "n \<le> 2 ^ 32" "n \<le> unat (s + 1 - (t + 1))" using Suc.prems by simp_all
    note Suc.IH [OF this, of ?m]
    ultimately have eq: "strncpy_loop (Suc n) s t m =
      (\<lambda>a. if in_block (s + 1) n a
           then if unat (a - (s + 1)) < length (cstr n (t + 1) m) then ?m (t + 1 + (a - (s + 1))) else 0
           else ?m a)"
      by (simp only:)
    show ?thesis
    proof
      fix a
      show "strncpy_loop (Suc n) s t m a =
        (if in_block s (Suc n) a
         then if unat (a - s) < length (cstr (Suc n) t m) then m (t + (a - s)) else 0
         else m a)"
      proof (cases "a = s")
        case True
        moreover have "unat (- 1 :: u32) = 2 ^ 32 - 1" using unat_sub_if' [of "0 :: u32" 1] by simp
        ultimately show ?thesis using False Suc.prems(1) unfolding eq by (simp add: in_block_def)
      next
        case ne: False
        have "unat (a - (s + 1)) = unat (a - s) - 1" "0 < unat (a - s)"
          using ne unat_minus_one [of "a - s"] by (simp_all add: algebra_simps unat_gt_0)
        moreover have "t + 1 + (a - (s + 1)) = t + (a - s)" by simp
        ultimately show ?thesis
          using False ne away [of "a - s"] unfolding eq in_block_def by auto
      qed
    qed
  qed
qed

section \<open>Correctness\<close>

text \<open>
  (C21) \<^verbatim>\<open>memmove\<close>, and \<^verbatim>\<open>memcpy\<close> that is written with it, copy the \<open>n\<close> bytes of the source block as it was
  before the call, and change nothing else: for overlapping blocks as well, in both directions, and
  whether the bytes or the words are copied.
\<close>

theorem memmove_correct:
  assumes "unat dst + unat n \<le> 2 ^ 32" and "unat src + unat n < 2 ^ 32"
  shows "(i < unat n \<longrightarrow> memmove dst src n m (dst + of_nat i) = m (src + of_nat i)) \<and>
    (\<not> in_block dst (unat n) a \<longrightarrow> memmove dst src n m a = m a) \<and>
    memcpy dst src n m = memmove dst src n m"
  using memmove_copied [OF assms] unat_u32_less [of n]
  by (simp_all add: copied_block_def in_block_def unat_of_nat_small memcpy_def)

theorem memmove_correct_witness:
  "memmove 0x1004 0x1000 8 (\<lambda>a. ucast a) (0x1004 + of_nat 6) = 6 \<and>
   memmove 0x1004 0x1000 8 (\<lambda>a. ucast a) 0x100C = 0xC"
  using memmove_correct [of "0x1004" 8 "0x1000" 6 "\<lambda>a. ucast a" "0x100C"]
  by (simp add: in_block_def)

text \<open>
  \<^verbatim>\<open>strncpy\<close> of a string into a buffer of \<open>n\<close> bytes that does not overlap it: the buffer compares equal
  to the source by \<^verbatim>\<open>strncmp\<close> with the same bound, holds a null byte everywhere behind the copied
  characters, and no byte outside the buffer changes.
\<close>

theorem strncpy_strncmp:
  assumes "n < 2 ^ 31" and "nat n \<le> unat (s - t)" and "nat n \<le> unat (t - s)"
  shows "strncmp (nat n) s t (strncpy s t n m) = 0 \<and>
    (strnlen t (nat n) m \<le> i \<and> i < nat n \<longrightarrow> strncpy s t n m (s + of_nat i) = 0) \<and>
    (\<not> in_block s (nat n) a \<longrightarrow> strncpy s t n m a = m a)"
proof -
  define k where "k = nat n"
  have k: "k \<le> 2 ^ 32" "k \<le> unat (s - t)" "k \<le> unat (t - s)" using assms by (simp_all add: k_def)
  define m' where "m' = strncpy s t n m"
  have m': "m' = (\<lambda>a. if in_block s k a
         then if unat (a - s) < length (cstr k t m) then m (t + (a - s)) else 0 else m a)"
    unfolding m'_def strncpy_def k_def [symmetric] by (rule strncpy_loop_correct [OF k(1,2)])
  have "\<not> in_block s k (t + of_nat i)" if "i < k" for i
  proof
    assume "in_block s k (t + of_nat i)"
    moreover have "t + of_nat i - s = (t - s) + of_nat i" by simp
    ultimately have "unat ((t - s) + of_nat i) < k" by (simp only: in_block_def)
    moreover have "unat (s - t) = (if s = t then 0 else 2 ^ 32 - unat (t - s))"
      using unat_sub_if' [of 0 "t - s"] by (auto simp: unat_eq_0 split: if_splits)
    ultimately show False using that k unat_plus_if' [of "t - s" "of_nat i"]
      by (auto simp: unat_of_nat_small split: if_splits)
  qed
  then have "cstr k t m' = cstr k t m" by (intro cstr_cong) (simp add: m')
  moreover have "cstr k s m' = cstr k t m"
    using k(1) cstr_bounds [of k t m]
    by (intro cstr_unique) (auto simp: m' in_block_def unat_of_nat_small cstr_nth)
  ultimately show ?thesis
    using k(1) unfolding m'_def [symmetric] k_def [symmetric]
    by (simp add: strncmp_cstr strnlen_cstr) (simp add: m' in_block_def unat_of_nat_small)
qed

theorem strncpy_strncmp_witness:
  "strncmp (nat 4) 0x2000 0x1000 (strncpy 0x2000 0x1000 4 ((\<lambda>a. 7)(0x1000 := 46, 0x1001 := 0))) = 0 \<and>
   strncpy 0x2000 0x1000 4 ((\<lambda>a. 7)(0x1000 := 46, 0x1001 := 0)) (0x2000 + of_nat 3) = 0 \<and>
   strncpy 0x2000 0x1000 4 ((\<lambda>a. 7)(0x1000 := 46, 0x1001 := 0)) 0x2004 = 7"
proof -
  let ?m = "(\<lambda>a. 7)(0x1000 := 46, 0x1001 := 0) :: memory"
  have "nat 4 = Suc (Suc (Suc (Suc 0)))" by simp
  then have "strnlen 0x1000 (nat 4) ?m \<le> 3" by (simp only: strnlen.simps) simp
  then show ?thesis using strncpy_strncmp [of 4 "0x2000" "0x1000" ?m 3 "0x2004"] by (simp add: in_block_def)
qed

end
