(* ===== verification/Pmap.thy ===== *)
theory Pmap
  imports Page_Tables KString
begin

unbundle bit_operations_syntax

text \<open>
  Copies between the kernel and the address space of a process, \<^verbatim>\<open>kern/lib/pmap.c\<close>. The routines look
  the page of the user address up in the page tables of the process, map a page there if there is
  none, and copy page by page through the kernel's identity map.
\<close>

section \<open>Routines\<close>

text \<open>The first part of the three loop bodies: the physical address behind a user address.\<close>

definition pt_resolve :: "u32 \<Rightarrow> u32 \<Rightarrow> 'a mpt_scheme \<Rightarrow> (u32 \<times> 'a mpt_scheme) outcome" where
  "pt_resolve pmap_id uva s =
     andThen (get_ptbl_entry_by_va pmap_id uva s) (\<lambda>uva_pa.
     andThen (if uva_pa AND PTE_P = 0
              then andThen (alloc_page pmap_id uva (PTE_P OR PTE_U OR PTE_W) s) (\<lambda>(_, s).
                   andThen (get_ptbl_entry_by_va pmap_id uva s) (\<lambda>uva_pa. Ret (uva_pa, s)))
              else Ret (uva_pa, s)) (\<lambda>(uva_pa, s).
     Ret ((uva_pa AND 0xfffff000) + uva mod PAGESIZE, s)))"

definition pt_chunk :: "u32 \<Rightarrow> u32 \<Rightarrow> u32" where
  "pt_chunk len pa = (if len < PAGESIZE - pa mod PAGESIZE then len else PAGESIZE - pa mod PAGESIZE)"

definition pt_copyin :: "u32 \<Rightarrow> u32 \<Rightarrow> u32 \<Rightarrow> u32 \<Rightarrow> 'a mpt_scheme \<Rightarrow> (u32 \<times> 'a mpt_scheme) outcome" where
  "pt_copyin pmap_id uva kva len s =
     (if \<not> (VM_USERLO \<le> uva \<and> uva + len \<le> VM_USERHI) then Ret (0, s)
      else if kva + len > VM_USERHI then Ret (0, s)
      else
        andThen (whileM (\<lambda>(len, uva, kva, copied, s). len \<noteq> 0)
          (\<lambda>(len, uva, kva, copied, s).
             andThen (pt_resolve pmap_id uva s) (\<lambda>(uva_pa, s).
             let size = pt_chunk len uva_pa; s = s\<lparr>mem := memcpy kva uva_pa size (mem s)\<rparr> in
             Ret (len - size, uva + size, kva + size, copied + size, s)))
          (len, uva, kva, 0, s)) (\<lambda>(len, uva, kva, copied, s). Ret (copied, s)))"

text \<open>One round of \<open>pt_copyout\<close>: a page is found or mapped, and a chunk of it is written.\<close>

definition copyout_step :: "u32 \<Rightarrow> u32 \<times> u32 \<times> u32 \<times> u32 \<times> 'a mpt_scheme \<Rightarrow> (u32 \<times> u32 \<times> u32 \<times> u32 \<times> 'a mpt_scheme) outcome" where
  "copyout_step pmap_id = (\<lambda>(len, uva, kva, copied, s).
     andThen (pt_resolve pmap_id uva s) (\<lambda>(uva_pa, s).
     let size = pt_chunk len uva_pa; s = s\<lparr>mem := memcpy uva_pa kva size (mem s)\<rparr> in
     Ret (len - size, uva + size, kva + size, copied + size, s)))"

definition pt_copyout :: "u32 \<Rightarrow> u32 \<Rightarrow> u32 \<Rightarrow> u32 \<Rightarrow> 'a mpt_scheme \<Rightarrow> (u32 \<times> 'a mpt_scheme) outcome" where
  "pt_copyout kva pmap_id uva len s =
     (if \<not> (VM_USERLO \<le> uva \<and> uva + len \<le> VM_USERHI) then Ret (0, s)
      else if kva + len > VM_USERHI then Ret (0, s)
      else
        andThen (whileM (\<lambda>(len, uva, kva, copied, s). len \<noteq> 0) (copyout_step pmap_id) (len, uva, kva, 0, s)) (\<lambda>(len, uva, kva, copied, s). Ret (copied, s)))"

definition pt_memset :: "u32 \<Rightarrow> u32 \<Rightarrow> u8 \<Rightarrow> u32 \<Rightarrow> 'a mpt_scheme \<Rightarrow> (u32 \<times> 'a mpt_scheme) outcome" where
  "pt_memset pmap_id va c len s =
     andThen (whileM (\<lambda>(len, va, set, s). len \<noteq> 0)
       (\<lambda>(len, va, set, s).
          andThen (pt_resolve pmap_id va s) (\<lambda>(pa, s).
          let size = pt_chunk len pa; s = s\<lparr>mem := memset pa (scast c) size (mem s)\<rparr> in
          Ret (len - size, va + size, set + size, s)))
       (len, va, 0, s)) (\<lambda>(len, va, set, s). Ret (set, s))"

section \<open>Chunks\<close>

lemma unat_mod4096: "unat (x mod 4096 :: u32) = unat x mod 4096"
  by (simp add: unat_mod)

lemma pt_chunk_bounds:
  assumes "len \<noteq> 0"
  shows "0 < unat (pt_chunk len pa)" and "unat (pt_chunk len pa) \<le> unat len"
    and "unat pa mod 4096 + unat (pt_chunk len pa) \<le> 4096"
proof -
  have r: "unat (4096 - pa mod 4096) = 4096 - unat pa mod 4096"
    by (simp add: unat_sub_if' unat_mod4096 word_le_nat_alt)
  have m: "unat pa mod 4096 < 4096" by simp
  from assms have "0 < unat len" by (simp add: unat_gt_0)
  with r m show "0 < unat (pt_chunk len pa)" "unat (pt_chunk len pa) \<le> unat len"
    "unat pa mod 4096 + unat (pt_chunk len pa) \<le> 4096"
    by (auto simp: pt_chunk_def word_less_nat_alt)
qed

lemma page_mod: "ADDR_MASK pte + va mod 4096 = ADDR_MASK pte OR (va AND 0xfff)"
proof -
  have "ADDR_MASK pte AND (va AND 0xfff) = 0"
    unfolding ADDR_MASK_eq and_fff by (rule bit_word_eqI) (auto simp: bit_simps)
  then have "ADDR_MASK pte + (va AND 0xfff) = ADDR_MASK pte OR (va AND 0xfff)"
    by (rule disjunctive_add_eq_or)
  moreover have "va mod 4096 = va AND 0xfff" by (simp add: and_fff take_bit_eq_mod)
  ultimately show ?thesis by simp
qed

section \<open>Resolving a user address\<close>

text \<open>The entry that the lookup reads, and the walk, in terms of the invariant.\<close>

lemma get_ptbl_entry_by_va_user:
  assumes "user_pde pid (PDE_ADDR va)"
  shows "get_ptbl_entry_by_va pid va s =
    Ret (if PDirPool s pid (PDE_ADDR va) \<noteq> 0 then pte_at s pid (PDE_ADDR va) (PTE_ADDR va) else 0)"
  using assms PDE_less [of va]
  by (auto simp: get_ptbl_entry_by_va_def get_pdir_entry_def get_ptbl_entry_def pdir_bounded_def user_pde_def
      pte_at_def Let_def)

lemma entry_walk:
  assumes "mpt_ok s" and "user_pde pid (PDE_ADDR va)"
  shows "\<exists>e. get_ptbl_entry_by_va pid va s = Ret e \<and>
    walk s pid va = (if e AND PTE_P = 0 then None else Some ((e AND 0xfffff000) + va mod PAGESIZE))"
proof -
  let ?e = "if PDirPool s pid (PDE_ADDR va) \<noteq> 0 then pte_at s pid (PDE_ADDR va) (PTE_ADDR va) else 0"
  have "walk s pid va = (if ?e AND 1 = 0 then None else Some (ADDR_MASK ?e + va mod 4096))"
    using walk_user [OF assms] by (cases "walk s pid va") (auto simp: page_mod split: if_splits)
  then show ?thesis unfolding get_ptbl_entry_by_va_user [OF assms(2)] by (simp add: ADDR_MASK_def)
qed

lemma walk_same_page:
  assumes "mpt_ok s" and "user_pde pid (PDE_ADDR va)" and "drop_bit 12 vb = drop_bit 12 va" and "walk s pid va = Some pa"
  shows "walk s pid vb = Some (ADDR_MASK pa OR (vb AND 0xfff))"
proof -
  have sp: "PDE_ADDR vb = PDE_ADDR va" "PTE_ADDR vb = PTE_ADDR va" using assms(3) by (simp_all add: same_page)
  let ?e = "pte_at s pid (PDE_ADDR va) (PTE_ADDR va)"
  have w: "PDirPool s pid (PDE_ADDR va) \<noteq> 0" "?e AND 1 \<noteq> 0" "pa = ADDR_MASK ?e OR (va AND 0xfff)"
    using assms(4) unfolding walk_user [OF assms(1,2)] by auto
  have "ADDR_MASK pa = ADDR_MASK ?e" using walk_page [of ?e va] w(3) by (simp add: ADDR_MASK_eq)
  moreover have u: "user_pde pid (PDE_ADDR vb)" using assms(2) sp by simp
  ultimately show ?thesis using w unfolding walk_user [OF assms(1) u] sp by simp
qed

text \<open>
  What the processes and the kernel see is kept: every user address that was mapped is
  mapped to the same byte with the same contents, and so is the kernel's memory.
\<close>

definition kern_mem_kept :: "'a mpt_scheme \<Rightarrow> 'b mpt_scheme \<Rightarrow> bool" where
  "kern_mem_kept s t \<longleftrightarrow> (\<forall>c. unat (drop_bit 12 c) < 0x40000 \<longrightarrow> mem t c = mem s c)"

definition user_mem_kept :: "(u32 \<Rightarrow> u32 \<Rightarrow> bool) \<Rightarrow> 'a mpt_scheme \<Rightarrow> 'b mpt_scheme \<Rightarrow> bool" where
  "user_mem_kept K s t \<longleftrightarrow> (\<forall>j vb pb. user_pde j (PDE_ADDR vb) \<longrightarrow> walk s j vb = Some pb \<longrightarrow>
     walk t j vb = Some pb \<and> (K j vb \<longrightarrow> mem t pb = mem s pb))"

lemma kept_refl [simp]: "kern_mem_kept s s" "user_mem_kept K s s"
  by (simp_all add: kern_mem_kept_def user_mem_kept_def)

lemma kern_mem_kept_trans: "kern_mem_kept s t \<Longrightarrow> kern_mem_kept t u \<Longrightarrow> kern_mem_kept s u"
  by (simp add: kern_mem_kept_def)

lemma kern_mem_kept_byte:
  fixes len :: u32
  assumes "kern_mem_kept s t" and "unat kva + unat len \<le> 0x40000000" and "i < unat len"
  shows "mem t (kva + of_nat i) = mem s (kva + of_nat i)"
proof -
  have "unat (kva + of_nat i) < 0x40000000"
    using assms(2,3) unat_u32_less [of len] by (simp add: unat_word_ariths unat_of_nat)
  then have "unat (drop_bit 12 (kva + of_nat i)) < 0x40000" by (simp add: unat_drop12 div_less_iff_less_mult)
  then show ?thesis using assms(1) by (simp add: kern_mem_kept_def)
qed

lemma user_mem_kept_trans: "user_mem_kept K s t \<Longrightarrow> user_mem_kept K t u \<Longrightarrow> user_mem_kept K s u"
  unfolding user_mem_kept_def by metis

lemma user_mem_kept_mono: "user_mem_kept K s t \<Longrightarrow> (\<And>j vb. L j vb \<Longrightarrow> K j vb) \<Longrightarrow> user_mem_kept L s t"
  unfolding user_mem_kept_def by metis

lemma alloc_page_kept:
  assumes ok: "mpt_ok s" and pid: "ct_is_used s pid" and u: "user_pde pid (PDE_ADDR va)"
    and none: "walk s pid va = None" and sl: "2 \<le> ct_slack s pid"
  shows "\<exists>r t. alloc_page pid va 7 s = Ret (r, t) \<and> mpt_ok t \<and> ct_is_used t pid \<and> walk t pid va \<noteq> None \<and>
    kern_mem_kept s t \<and> user_mem_kept (\<lambda>_ _. True) s t \<and>
    (\<forall>vb. drop_bit 12 vb \<noteq> drop_bit 12 va \<longrightarrow> walk t pid vb = walk s pid vb) \<and> ct_slack s pid \<le> ct_slack t pid + 2"
  using ok pid u
proof (rule alloc_page_mpt [where perm = 7])
  show "unat (7::u32) < 4096" by simp
next
  fix t assume "ct_slack s pid < (if PDirPool s pid (PDE_ADDR va) = 0 then 2 else 1)"
  with sl show ?thesis by (auto split: if_splits)
next
  fix r p s1
  assume call: "alloc_page pid va 7 s = Ret (r, mapped pid (PDE_ADDR va) (PTE_ADDR va) p 7 s1)"
    and ok1: "mpt_ok s1" and sp: "spare s1 p" and pt: "PDirPool s1 pid (PDE_ADDR va) \<noteq> 0"
    and uses: "\<And>v. v \<noteq> PTab pid (PDE_ADDR va) \<Longrightarrow> use_page s1 v = use_page s v"
    and walks: "\<And>i vb. i < NUM_IDS \<Longrightarrow> walk s1 i vb = walk s i vb"
    and slack: "ct_slack s pid = ct_slack s1 pid + (if PDirPool s pid (PDE_ADDR va) = 0 then 2 else 1)"
    and used: "ct_is_used s1 pid"
    and mem: "\<And>c. use_page s1 (PTab pid (PDE_ADDR va)) \<noteq> Some (drop_bit 12 c) \<Longrightarrow> mem s1 c = mem s c"
  let ?t = "mapped pid (PDE_ADDR va) (PTE_ADDR va) p 7 s1"
  have np: "pid < NUM_IDS" using u by (simp add: user_pde_def)
  have w: "i < NUM_IDS \<Longrightarrow> walk ?t i vb =
    (if i = pid \<and> drop_bit 12 vb = drop_bit 12 va then Some (push_bit 12 p OR (vb AND 0xfff)) else walk s i vb)" for i vb
    using walk_mapped [OF ok1 u pt sp, of 7 i vb] walks by simp
  have PT: "use_page s1 (PTab pid (PDE_ADDR va)) = Some (drop_bit 12 (PDirPool s1 pid (PDE_ADDR va)))"
    using u pt by (simp add: use_page_def)
  have other: "mem ?t c = mem s c" if c: "drop_bit 12 c \<noteq> drop_bit 12 (PDirPool s1 pid (PDE_ADDR va))" for c
  proof -
    have "drop_bit 12 (ADDR_MASK (PDirPool s1 pid (PDE_ADDR va))) = drop_bit 12 (PDirPool s1 pid (PDE_ADDR va))"
      unfolding ADDR_MASK_eq using entry_fields(1) [OF drop12_less, of 0] by simp
    then have "mem ?t c = mem s1 c"
      using c by (simp add: mapped_def store_entry_other_page [OF aligned_ADDR_MASK PTE_less])
    then show ?thesis using mem [of c] c PT by simp
  qed
  have us: "uses_ok s1" using ok1 by (simp add: mpt_ok_def)
  have "user_page (drop_bit 12 (PDirPool s1 pid (PDE_ADDR va)))" using PT us unfolding uses_ok_def by blast
  then have "kern_mem_kept s ?t" using user_page_20 other unfolding kern_mem_kept_def by (metis not_le)
  moreover have "user_mem_kept (\<lambda>_ _. True) s ?t"
    unfolding user_mem_kept_def
  proof (intro allI impI conjI)
    fix j vb pb assume j: "user_pde j (PDE_ADDR vb)" and wj: "walk s j vb = Some pb"
    have "\<not> (j = pid \<and> drop_bit 12 vb = drop_bit 12 va)"
      using wj none walk_same_page [OF ok j, of va pb] by auto
    then show "walk ?t j vb = Some pb" using w [of j vb] wj j by (auto simp: user_pde_def)
    have "use_page s1 (Frame j (PDE_ADDR vb) (PTE_ADDR vb)) = Some (drop_bit 12 pb)"
      using walk_use [OF ok j wj] uses by simp
    with us PT have "drop_bit 12 pb \<noteq> drop_bit 12 (PDirPool s1 pid (PDE_ADDR va))" unfolding uses_ok_def by fastforce
    then show "mem ?t pb = mem s pb" by (rule other)
  qed
  moreover have "mpt_ok ?t" by (rule mapped_mpt(1) [OF ok1 u pt PTE_less sp]) simp
  moreover have "ct_is_used ?t pid" "ct_slack s pid \<le> ct_slack ?t pid + 2"
    using used slack by (simp_all add: mapped_def ct_is_used_def ct_slack_def)
  ultimately show ?thesis using call w [OF np] by (intro exI [of _ r] exI [of _ ?t]) auto
qed

lemma pt_resolve_ok:
  assumes ok: "mpt_ok s" and pid: "ct_is_used s pid" and u: "user_pde pid (PDE_ADDR va)"
    and sl: "walk s pid va = None \<Longrightarrow> 2 \<le> ct_slack s pid"
  shows "\<exists>pa t. pt_resolve pid va s = Ret (pa, t) \<and> mpt_ok t \<and> ct_is_used t pid \<and> walk t pid va = Some pa \<and>
    kern_mem_kept s t \<and> user_mem_kept (\<lambda>_ _. True) s t \<and>
    (\<forall>vb. drop_bit 12 vb \<noteq> drop_bit 12 va \<longrightarrow> walk t pid vb = walk s pid vb) \<and>
    ct_slack s pid \<le> ct_slack t pid + (if walk s pid va = None then 2 else 0)"
proof (cases "walk s pid va")
  case (Some pa)
  then show ?thesis using entry_walk [OF ok u] ok pid by (auto simp: pt_resolve_def split: if_splits)
next
  case None
  obtain r t where t: "alloc_page pid va 7 s = Ret (r, t)" "mpt_ok t" "ct_is_used t pid" "walk t pid va \<noteq> None"
    "kern_mem_kept s t" "user_mem_kept (\<lambda>_ _. True) s t"
    "\<forall>vb. drop_bit 12 vb \<noteq> drop_bit 12 va \<longrightarrow> walk t pid vb = walk s pid vb" "ct_slack s pid \<le> ct_slack t pid + 2"
    using alloc_page_kept [OF ok pid u None sl [OF None]] by auto
  obtain e where e: "get_ptbl_entry_by_va pid va s = Ret e" "e AND 1 = 0"
    using entry_walk [OF ok u] None by (auto split: if_splits)
  obtain f where f: "get_ptbl_entry_by_va pid va t = Ret f" "walk t pid va = Some ((f AND 0xfffff000) + va mod 4096)"
    using entry_walk [OF t(2) u] t(4) by (auto split: if_splits)
  have "pt_resolve pid va s = Ret ((f AND 0xfffff000) + va mod 4096, t)"
    using e f t(1) by (simp add: pt_resolve_def)
  with t f None show ?thesis by auto
qed

section \<open>Writing to a mapped page\<close>

lemma write_frame:
  assumes ok: "mpt_ok s" and u: "user_pde pid (PDE_ADDR va)" and w: "walk s pid va = Some pa"
    and m': "\<And>c. drop_bit 12 c \<noteq> drop_bit 12 pa \<Longrightarrow> m' c = mem s c"
  shows "mpt_ok (s\<lparr>mem := m'\<rparr>)" and "i < NUM_IDS \<Longrightarrow> walk (s\<lparr>mem := m'\<rparr>) i vb = walk s i vb"
    and "kern_mem_kept s (s\<lparr>mem := m'\<rparr>)"
proof -
  have us: "uses_ok s" using ok by (simp add: mpt_ok_def)
  have fr: "use_page s (Frame pid (PDE_ADDR va) (PTE_ADDR va)) = Some (drop_bit 12 pa)" by (rule walk_use [OF ok u w])
  have pte: "pte_at (s\<lparr>mem := m'\<rparr>) k l n = pte_at s k l n"
    if "user_pde k l" "PDirPool s k l \<noteq> 0" "n < 1024" for k l n
  proof -
    have "use_page s (PTab k l) = Some (drop_bit 12 (PDirPool s k l))" using that by (simp add: use_page_def)
    with us fr have "drop_bit 12 (PDirPool s k l) \<noteq> drop_bit 12 pa" unfolding uses_ok_def by fastforce
    then have "drop_bit 12 (ADDR_MASK (PDirPool s k l)) \<noteq> drop_bit 12 pa"
      unfolding ADDR_MASK_eq using entry_fields(1) [OF drop12_less, of 0] by simp
    then show ?thesis using m'
      by (simp add: pte_at_def) (rule load_entry_other_page [OF aligned_ADDR_MASK that(3)], auto)
  qed
  have use: "use_page (s\<lparr>mem := m'\<rparr>) v = use_page s v" for v
    using pte by (cases v) (auto simp: use_page_def)
  have up: "user_page (drop_bit 12 pa)" using us fr unfolding uses_ok_def by blast
  then have low: "m' c = mem s c" if "unat (drop_bit 12 c) < 0x40000" for c
    using user_page_20 [OF up] that m' [of c] by (metis not_le)
  then show "kern_mem_kept s (s\<lparr>mem := m'\<rparr>)" by (simp add: kern_mem_kept_def)
  have "ident_ok (s\<lparr>mem := m'\<rparr>)" using ok low by (intro ident_ok_mem) (simp_all add: mpt_ok_def)
  then show ok': "mpt_ok (s\<lparr>mem := m'\<rparr>)"
    using ok us unfolding mpt_ok_def uses_ok_def use by simp
  show "walk (s\<lparr>mem := m'\<rparr>) i vb = walk s i vb" if "i < NUM_IDS"
  proof (cases "user_pde i (PDE_ADDR vb)")
    case False
    then show ?thesis using walk_identity [OF ok that] walk_identity [OF ok' that] by simp
  next
    case True
    have "walk (s\<lparr>mem := m'\<rparr>) i vb = Some pb \<longleftrightarrow> walk s i vb = Some pb" for pb
      unfolding walk_user [OF ok True] walk_user [OF ok' True] using pte [OF True _ PTE_less] by auto
    then show ?thesis by (metis not_None_eq)
  qed
qed

section \<open>Bytes of a page\<close>

lemma page_add:
  assumes "unat x mod 4096 + i < 4096"
  shows "unat (x + of_nat i :: u32) = unat x + i" and "drop_bit 12 (x + of_nat i :: u32) = drop_bit 12 x"
    and "take_bit 12 (x + of_nat i :: u32) = take_bit 12 x + of_nat i"
proof -
  have b: "unat x < 2 ^ 32" using unat_u32_less [of x] by simp
  have "unat x div 4096 < 2 ^ 20" using b by simp
  moreover have "q * 4096 + r + i < 2 ^ 32" if "q < 2 ^ 20" "r + i < 4096" for q r :: nat using that by simp
  ultimately have "unat x + i < 2 ^ 32" using assms by (metis div_mult_mod_eq)
  then show add: "unat (x + of_nat i) = unat x + i" by (simp add: unat_word_ariths unat_of_nat)
  have eq: "(a + k) div n = a div n \<and> (a + k) mod n = a mod n + k" if "a mod n + k < n" for a k n :: nat
    using that div_mult_mod_eq [of a n] by (metis add.assoc div_mult_self3 div_less add.right_neutral mod_less mod_mult_self3 gr_implies_not_zero)
  show "drop_bit 12 (x + of_nat i) = drop_bit 12 x"
    using eq [OF assms] add by (simp add: word_unat_eq_iff unat_drop12)
  have "unat (take_bit 12 x + of_nat i) = unat x mod 4096 + i"
    using assms by (simp add: unat_word_ariths unat_of_nat unat_take12)
  then show "take_bit 12 (x + of_nat i) = take_bit 12 x + of_nat i"
    using eq [OF assms] add by (simp add: word_unat_eq_iff unat_take12)
qed

lemma chunk_walk:
  assumes ok: "mpt_ok s" and u: "user_pde pid (PDE_ADDR va)" and w: "walk s pid va = Some pa"
  shows "unat pa mod 4096 = unat va mod 4096"
    and "unat va mod 4096 + i < 4096 \<Longrightarrow> walk s pid (va + of_nat i) = Some (pa + of_nat i)"
proof -
  have "pa = ADDR_MASK pa OR (va AND 0xfff)" using walk_same_page [OF ok u refl w] w by simp
  then have t: "take_bit 12 pa = take_bit 12 va" using walk_offset [of pa va] by metis
  then show m: "unat pa mod 4096 = unat va mod 4096" using unat_take12 by metis
  assume i: "unat va mod 4096 + i < 4096"
  note a = page_add [OF i]
  from i m have i': "unat pa mod 4096 + i < 4096" by simp
  note b = page_add [OF i']
  have "ADDR_MASK pa OR ((va + of_nat i) AND 0xfff) = pa + of_nat i"
    by (rule page_offset_eq) (simp_all only: walk_page walk_offset a(3) b(2,3) t)
  then show "walk s pid (va + of_nat i) = Some (pa + of_nat i)" using walk_same_page [OF ok u a(2) w] by simp
qed

lemma block_in_page:
  assumes "unat pa mod 4096 + n \<le> 4096" and "in_block pa n c"
  shows "drop_bit 12 c = drop_bit 12 pa" and "\<exists>i < n. c = pa + of_nat i"
proof -
  have i: "unat (c - pa) < n" using assms(2) by (simp add: in_block_def)
  have c: "c = pa + of_nat (unat (c - pa))" by simp
  show "drop_bit 12 c = drop_bit 12 pa" using page_add(2) [of pa "unat (c - pa)"] i assms(1) c by simp
  show "\<exists>i < n. c = pa + of_nat i" using i c by blast
qed

text \<open>The user addresses of all processes are mapped injectively.\<close>

lemma walk_inj:
  assumes ok: "mpt_ok s" and u: "user_pde i (PDE_ADDR va)" "user_pde j (PDE_ADDR vb)"
    and w: "walk s i va = Some pa" "walk s j vb = Some pa"
  shows "i = j \<and> va = vb"
proof -
  have "use_page s (Frame i (PDE_ADDR va) (PTE_ADDR va)) = Some (drop_bit 12 pa)"
    "use_page s (Frame j (PDE_ADDR vb) (PTE_ADDR vb)) = Some (drop_bit 12 pa)"
    by (rule walk_use [OF ok u(1) w(1)], rule walk_use [OF ok u(2) w(2)])
  then have "Frame i (PDE_ADDR va) (PTE_ADDR va) = Frame j (PDE_ADDR vb) (PTE_ADDR vb)"
    using ok unfolding mpt_ok_def uses_ok_def by blast
  then have p: "i = j" "drop_bit 12 va = drop_bit 12 vb" by (simp_all add: same_page)
  have "unat va mod 4096 = unat vb mod 4096" using chunk_walk(1) [OF ok u(1) w(1)] chunk_walk(1) [OF ok u(2) w(2)] by simp
  then have "take_bit 12 va = take_bit 12 vb" by (simp add: word_unat_eq_iff unat_take12)
  with p show ?thesis by (simp add: page_offset_eq)
qed

section \<open>Quota for a range of user addresses\<close>

definition unmapped :: "'a mpt_scheme \<Rightarrow> u32 \<Rightarrow> u32 \<Rightarrow> nat \<Rightarrow> u32 set" where
  "unmapped s pid va n = {drop_bit 12 (va + of_nat i) | i. i < n \<and> walk s pid (va + of_nat i) = None}"

lemma finite_unmapped [simp]: "finite (unmapped s pid va n)"
  unfolding unmapped_def by (rule finite_subset [of _ "(\<lambda>i. drop_bit 12 (va + of_nat i)) ` {..<n}"]) auto

lemma unmapped_step:
  assumes kept: "\<And>vb. walk t pid vb = None \<Longrightarrow> walk s pid vb = None" and va: "\<And>vb. drop_bit 12 vb = drop_bit 12 va \<Longrightarrow> walk t pid vb \<noteq> None"
    and n: "k \<le> n" "0 < n"
  shows "card (unmapped t pid (va + of_nat k) (n - k)) + (if walk s pid va = None then 1 else 0) \<le> card (unmapped s pid va n)"
proof -
  let ?U = "unmapped s pid va n" and ?V = "unmapped t pid (va + of_nat k) (n - k)"
  have sub: "?V \<subseteq> ?U - {drop_bit 12 va}"
  proof
    fix p assume "p \<in> ?V"
    then obtain i where i: "i < n - k" "p = drop_bit 12 (va + of_nat k + of_nat i)" "walk t pid (va + of_nat k + of_nat i) = None"
      by (auto simp: unmapped_def)
    have "va + of_nat k + of_nat i = va + of_nat (k + i)" by simp
    with i kept have "p \<in> ?U" unfolding unmapped_def by (intro CollectI exI [of _ "k + i"]) (auto simp: add.assoc)
    moreover have "p \<noteq> drop_bit 12 va" using i(2,3) va by metis
    ultimately show "p \<in> ?U - {drop_bit 12 va}" by simp
  qed
  have "drop_bit 12 va \<in> ?U" if "walk s pid va = None"
    unfolding unmapped_def using that n(2) by (intro CollectI exI [of _ 0]) auto
  then have "card (?U - {drop_bit 12 va}) + (if walk s pid va = None then 1 else 0) \<le> card ?U"
    using card_Suc_Diff1 [of ?U "drop_bit 12 va"] card_Diff1_le [of ?U "drop_bit 12 va"] by (auto split: if_splits)
  moreover have "card ?V \<le> card (?U - {drop_bit 12 va})" using sub by (intro card_mono) auto
  ultimately show ?thesis by linarith
qed

section \<open>Copying out\<close>

definition user_range :: "u32 \<Rightarrow> u32 \<Rightarrow> bool" where
  "user_range va n \<longleftrightarrow> 0x40000000 \<le> unat va \<and> unat va + unat n \<le> 0xF0000000"

lemma user_range_pde:
  assumes "user_range va n" and "n \<noteq> 0" and "0 < pid" and "pid < NUM_IDS"
  shows "user_pde pid (PDE_ADDR va)"
  using assms unat_gt_0 [of n] by (auto simp: user_pde_va user_range_def word_le_nat_alt word_less_nat_alt)

lemma copyout_step_ok:
  assumes ok: "mpt_ok s" and pid: "ct_is_used s pid" "0 < pid" and len: "len \<noteq> 0" and r: "user_range uva len"
    and k: "unat kva + unat len \<le> 0x40000000" and q: "2 * card (unmapped s pid uva (unat len)) \<le> ct_slack s pid"
  shows "\<exists>n t. copyout_step pid (len, uva, kva, c, s) = Ret (len - n, uva + n, kva + n, c + n, t) \<and>
    0 < unat n \<and> unat n \<le> unat len \<and> mpt_ok t \<and> ct_is_used t pid \<and> kern_mem_kept s t \<and>
    user_mem_kept (\<lambda>j vb. \<not> (j = pid \<and> in_block uva (unat n) vb)) s t \<and>
    2 * card (unmapped t pid (uva + n) (unat (len - n))) \<le> ct_slack t pid \<and>
    (\<forall>i < unat n. \<exists>pa. walk t pid (uva + of_nat i) = Some pa \<and> mem t pa = mem s (kva + of_nat i))"
proof -
  have np: "pid < NUM_IDS" using pid by (simp add: ct_is_used_def)
  have u: "user_pde pid (PDE_ADDR uva)" by (rule user_range_pde [OF r len pid(2) np])
  have sl: "2 \<le> ct_slack s pid" if "walk s pid uva = None"
  proof -
    have "drop_bit 12 uva \<in> unmapped s pid uva (unat len)"
      using that len by (auto simp: unmapped_def unat_gt_0 intro!: exI [of _ 0])
    then have "0 < card (unmapped s pid uva (unat len))" by (auto simp: card_gt_0_iff)
    with q show ?thesis by simp
  qed
  obtain pa s1 where s1: "pt_resolve pid uva s = Ret (pa, s1)" "mpt_ok s1" "ct_is_used s1 pid" "walk s1 pid uva = Some pa"
    "kern_mem_kept s s1" "user_mem_kept (\<lambda>_ _. True) s s1"
    "\<forall>vb. drop_bit 12 vb \<noteq> drop_bit 12 uva \<longrightarrow> walk s1 pid vb = walk s pid vb"
    "ct_slack s pid \<le> ct_slack s1 pid + (if walk s pid uva = None then 2 else 0)"
    using pt_resolve_ok [OF ok pid(1) u sl] by auto
  define n where "n = pt_chunk len pa"
  note ch = chunk_walk [OF s1(2) u s1(4)]
  have n: "0 < unat n" "unat n \<le> unat len" "unat pa mod 4096 + unat n \<le> 4096"
    unfolding n_def by (rule pt_chunk_bounds [OF len])+
  define m' where "m' = memcpy pa kva n (mem s1)"
  have "unat pa + unat n \<le> 2 ^ 32" using page_add(1) [of pa "unat n - 1"] n unat_u32_less [of "pa + of_nat (unat n - 1)"] by simp
  then have m': "m' = copied_block pa kva (unat n) (mem s1)"
    using k n(2) unfolding m'_def memcpy_def by (intro memmove_copied) simp_all
  have out: "m' c = mem s1 c" if "drop_bit 12 c \<noteq> drop_bit 12 pa" for c
    using that block_in_page(1) [OF n(3), of c] by (auto simp: m' copied_block_def)
  let ?t = "s1\<lparr>mem := m'\<rparr>"
  have wf: "mpt_ok ?t" "i < NUM_IDS \<Longrightarrow> walk ?t i vb = walk s1 i vb" "kern_mem_kept s1 ?t" for i vb
    using write_frame [OF s1(2) u s1(4), of m'] out by blast+
  have call: "copyout_step pid (len, uva, kva, c, s) = Ret (len - n, uva + n, kva + n, c + n, ?t)"
    by (simp add: copyout_step_def s1(1) n_def m'_def Let_def)
  have "user_mem_kept (\<lambda>j vb. \<not> (j = pid \<and> in_block uva (unat n) vb)) s1 ?t"
    unfolding user_mem_kept_def
  proof (intro allI impI conjI)
    fix j vb pb assume j: "user_pde j (PDE_ADDR vb)" and wj: "walk s1 j vb = Some pb"
    then show "walk ?t j vb = Some pb" using wf(2) [of j vb] by (simp add: user_pde_def)
    assume nb: "\<not> (j = pid \<and> in_block uva (unat n) vb)"
    have "\<not> in_block pa (unat n) pb"
    proof
      assume "in_block pa (unat n) pb"
      then obtain i where i: "i < unat n" "pb = pa + of_nat i" using block_in_page(2) [OF n(3)] by blast
      have b: "unat uva mod 4096 + i < 4096" using ch(1) n(3) i(1) by simp
      have "user_pde pid (PDE_ADDR (uva + of_nat i))" using page_add(2) [OF b] u same_page [of "uva + of_nat i" uva] by simp
      from walk_inj [OF s1(2) j this wj] ch(2) [OF b] i(2) have "j = pid \<and> vb = uva + of_nat i" by simp
      with nb i(1) unat_u32_less [of n] show False by (simp add: in_block_def unat_of_nat_small)
    qed
    then show "mem ?t pb = mem s1 pb" by (simp add: m' copied_block_def)
  qed
  then have um: "user_mem_kept (\<lambda>j vb. \<not> (j = pid \<and> in_block uva (unat n) vb)) s ?t"
    using user_mem_kept_mono [OF s1(6)] by (blast intro: user_mem_kept_trans)
  have "card (unmapped ?t pid (uva + of_nat (unat n)) (unat len - unat n)) + (if walk s pid uva = None then 1 else 0)
    \<le> card (unmapped s pid uva (unat len))"
  proof (rule unmapped_step)
    fix vb
    show "walk ?t pid vb = None \<Longrightarrow> walk s pid vb = None"
      using wf(2) [OF np, of vb] s1(7) walk_same_page [OF s1(2) u, of vb] s1(4) by (cases "drop_bit 12 vb = drop_bit 12 uva") auto
    show "drop_bit 12 vb = drop_bit 12 uva \<Longrightarrow> walk ?t pid vb \<noteq> None"
      using wf(2) [OF np, of vb] walk_same_page [OF s1(2) u _ s1(4), of vb] by simp
  qed (use n in auto)
  moreover have "unat (len - n) = unat len - unat n" using n(2) by (simp add: unat_sub_if')
  ultimately have q': "2 * card (unmapped ?t pid (uva + n) (unat (len - n))) \<le> ct_slack ?t pid"
    using q s1(8) by (auto simp: ct_slack_def split: if_splits)
  have bytes: "\<exists>pa. walk ?t pid (uva + of_nat i) = Some pa \<and> mem ?t pa = mem s (kva + of_nat i)" if i: "i < unat n" for i
  proof -
    have b: "unat uva mod 4096 + i < 4096" using ch(1) n(3) i by simp
    have i32: "i < 2 ^ 32" using i unat_u32_less [of n] by simp
    have "mem s1 (kva + of_nat i) = mem s (kva + of_nat i)" using kern_mem_kept_byte [OF s1(5) k] n(2) i by simp
    then show ?thesis using wf(2) [OF np] ch(2) [OF b] i i32 by (simp add: m' copied_block_def in_block_def unat_of_nat_small)
  qed
  have "ct_is_used ?t pid" using s1(3) by (simp add: ct_is_used_def)
  moreover have "kern_mem_kept s ?t" by (rule kern_mem_kept_trans [OF s1(5) wf(3)])
  ultimately show ?thesis using call n wf(1) um q' bytes by blast
qed

text \<open>The loop: after \<open>copied\<close> bytes, these are at the user addresses, and the rest is still to do.\<close>

definition copyout_inv :: "u32 \<Rightarrow> u32 \<Rightarrow> u32 \<Rightarrow> u32 \<Rightarrow> 'a mpt_scheme \<Rightarrow> u32 \<times> u32 \<times> u32 \<times> u32 \<times> 'a mpt_scheme \<Rightarrow> bool" where
  "copyout_inv pid len0 uva0 kva0 s0 = (\<lambda>(len, uva, kva, copied, s).
     unat copied + unat len = unat len0 \<and> uva = uva0 + copied \<and> kva = kva0 + copied \<and>
     mpt_ok s \<and> ct_is_used s pid \<and> kern_mem_kept s0 s \<and>
     user_mem_kept (\<lambda>j vb. \<not> (j = pid \<and> in_block uva0 (unat copied) vb)) s0 s \<and>
     2 * card (unmapped s pid uva (unat len)) \<le> ct_slack s pid \<and>
     (\<forall>i < unat copied. \<exists>pa. walk s pid (uva0 + of_nat i) = Some pa \<and> mem s pa = mem s0 (kva0 + of_nat i)))"

lemma copyout_inv_step:
  assumes inv: "copyout_inv pid len0 uva0 kva0 s0 (len, uva, kva, c, s)" and len: "len \<noteq> 0" and pid: "0 < pid"
    and r: "user_range uva0 len0" and k: "unat kva0 + unat len0 \<le> 0x40000000"
  shows "returns (copyout_step pid (len, uva, kva, c, s))
    (\<lambda>st. copyout_inv pid len0 uva0 kva0 s0 st \<and> unat (fst st) < unat len)"
proof -
  have sum: "unat c + unat len = unat len0" and uva: "uva = uva0 + c" and kva: "kva = kva0 + c"
    using inv by (simp_all add: copyout_inv_def)
  have le: "unat c \<le> unat len0" using sum by simp
  have add: "unat uva = unat uva0 + unat c" "unat kva = unat kva0 + unat c"
    using r k le by (simp_all add: uva kva user_range_def unat_word_ariths)
  have r': "user_range uva len" "unat kva + unat len \<le> 0x40000000"
    using r k sum add by (simp_all add: user_range_def)
  obtain n t where t: "copyout_step pid (len, uva, kva, c, s) = Ret (len - n, uva + n, kva + n, c + n, t)"
    "0 < unat n" "unat n \<le> unat len" "mpt_ok t" "ct_is_used t pid" "kern_mem_kept s t"
    "user_mem_kept (\<lambda>j vb. \<not> (j = pid \<and> in_block uva (unat n) vb)) s t"
    "2 * card (unmapped t pid (uva + n) (unat (len - n))) \<le> ct_slack t pid"
    "\<forall>i < unat n. \<exists>pa. walk t pid (uva + of_nat i) = Some pa \<and> mem t pa = mem s (kva + of_nat i)"
    using inv copyout_step_ok [of s pid len uva kva c, OF _ _ pid len r'] by (auto simp: copyout_inv_def)
  have n: "unat (c + n) = unat c + unat n" using sum t(3) unat_u32_less [of len0] by (simp add: unat_word_ariths)
  have blk: "in_block uva0 (unat c) vb \<or> in_block uva (unat n) vb \<longleftrightarrow> in_block uva0 (unat (c + n)) vb" for vb
    using in_block_add(1) [of "unat c" "unat n" uva0 vb] n unat_u32_less [of "c + n"] unat_u32_less [of c]
    by (simp add: uva)
  have um: "user_mem_kept (\<lambda>j vb. \<not> (j = pid \<and> in_block uva0 (unat (c + n)) vb)) s0 t"
  proof (rule user_mem_kept_trans)
    show "user_mem_kept (\<lambda>j vb. \<not> (j = pid \<and> in_block uva0 (unat (c + n)) vb)) s0 s"
      by (rule user_mem_kept_mono [where K = "\<lambda>j vb. \<not> (j = pid \<and> in_block uva0 (unat c) vb)"])
        (use inv blk in \<open>auto simp: copyout_inv_def\<close>)
    show "user_mem_kept (\<lambda>j vb. \<not> (j = pid \<and> in_block uva0 (unat (c + n)) vb)) s t"
      by (rule user_mem_kept_mono [OF t(7)]) (use blk in auto)
  qed
  have "\<exists>pa. walk t pid (uva0 + of_nat i) = Some pa \<and> mem t pa = mem s0 (kva0 + of_nat i)" if i: "i < unat (c + n)" for i
  proof (cases "i < unat c")
    case True
    then obtain pa where pa: "walk s pid (uva0 + of_nat i) = Some pa" "mem s pa = mem s0 (kva0 + of_nat i)"
      using inv by (auto simp: copyout_inv_def)
    have "unat (uva0 + of_nat i) = unat uva0 + i"
      using r True le unat_u32_less [of c] by (simp add: user_range_def unat_word_ariths unat_of_nat)
    then have "user_pde pid (PDE_ADDR (uva0 + of_nat i))"
      using r le True pid inv by (simp add: user_pde_va copyout_inv_def ct_is_used_def user_range_def word_le_nat_alt word_less_nat_alt)
    moreover have "in_block uva0 (unat c) (uva0 + of_nat i)"
      using True unat_u32_less [of c] by (simp add: in_block_def unat_of_nat_small)
    then have "\<not> in_block uva (unat n) (uva0 + of_nat i)"
      using in_block_add(2) [of "unat c" "unat n" uva0] n unat_u32_less [of "c + n"] unat_u32_less [of c] by (auto simp: uva)
    ultimately show ?thesis using t(7) pa unfolding user_mem_kept_def by metis
  next
    case False
    then have j: "i - unat c < unat n" "of_nat i = c + (of_nat (i - unat c) :: u32)" using i n by simp_all
    with t(9) obtain pa where "walk t pid (uva + of_nat (i - unat c)) = Some pa" "mem t pa = mem s (kva + of_nat (i - unat c))"
      by blast
    moreover have "mem s (kva0 + of_nat i) = mem s0 (kva0 + of_nat i)"
    proof (rule kern_mem_kept_byte [OF _ k])
      show "kern_mem_kept s0 s" using inv by (simp add: copyout_inv_def)
      show "i < unat len0" using i n t(3) sum by linarith
    qed
    ultimately show ?thesis by (simp add: j(2) uva kva add.assoc)
  qed
  then show ?thesis using t um n sum uva kva inv
    by (auto simp: copyout_inv_def unat_sub_if' add.assoc intro: kern_mem_kept_trans)
qed

section \<open>Properties\<close>

text \<open>
  (C30) \<^verbatim>\<open>pt_copyout\<close> with quota for the pages that are still missing (two pages for each one: the frame
  and possibly its table) copies the whole buffer: every byte is afterwards found behind its user
  address by the page walk of the process, the page-table invariant holds, and no byte changes that
  another process or the kernel can see, nor any byte of the process outside the range.
\<close>

theorem pt_copyout_correct:
  assumes "mpt_ok s" and "ct_is_used s pid" and "0 < pid" and "user_range uva len"
    and "unat kva + unat len \<le> 0x40000000" and "2 * card (unmapped s pid uva (unat len)) \<le> ct_slack s pid"
  shows "returns (pt_copyout kva pid uva len s) (\<lambda>(n, t). n = len \<and> mpt_ok t \<and>
    (\<forall>i < unat len. \<exists>pa. walk t pid (uva + of_nat i) = Some pa \<and> mem t pa = mem s (kva + of_nat i)) \<and>
    kern_mem_kept s t \<and> user_mem_kept (\<lambda>j vb. \<not> (j = pid \<and> in_block uva (unat len) vb)) s t)"
proof -
  have guards: "VM_USERLO \<le> uva" "uva + len \<le> VM_USERHI" "\<not> kva + len > VM_USERHI"
    using assms(4,5) by (simp_all add: user_range_def word_le_nat_alt word_less_nat_alt unat_word_ariths)
  have "returns (whileM (\<lambda>(len, uva, kva, copied, s). len \<noteq> 0) (copyout_step pid) (len, uva, kva, 0, s))
    (\<lambda>st. copyout_inv pid len uva kva s st \<and> fst st = 0)"
  proof (rule returns_whileM [where I = "copyout_inv pid len uva kva s" and m = "\<lambda>st. unat (fst st)"])
    show "copyout_inv pid len uva kva s (len, uva, kva, 0, s)" using assms by (simp add: copyout_inv_def)
    fix st assume st: "copyout_inv pid len uva kva s st"
    show "(case st of (len, uva, kva, copied, s) \<Rightarrow> len \<noteq> 0) \<Longrightarrow>
      returns (copyout_step pid st) (\<lambda>st'. copyout_inv pid len uva kva s st' \<and> unat (fst st') < unat (fst st))"
      using copyout_inv_step [OF _ _ assms(3,4,5), of s] st by (cases st) auto
    show "\<not> (case st of (len, uva, kva, copied, s) \<Rightarrow> len \<noteq> 0) \<Longrightarrow> copyout_inv pid len uva kva s st \<and> fst st = 0"
      using st by (cases st) auto
  qed
  then show ?thesis using guards unfolding pt_copyout_def
    by (simp add: returns_andThen) (auto simp: copyout_inv_def word_unat_eq_iff elim!: returns_mono)
qed

theorem pt_copyout_correct_witness:
  "returns mpt_run (\<lambda>s. returns (pt_copyout 0x1000 1 0x40000000 16 s) (\<lambda>(n, t). n = 16 \<and> mpt_ok t \<and> kern_mem_kept s t))"
proof (rule returns_mono [OF mpt_run_ok])
  fix s :: mpt
  assume s: "mpt_ok s \<and> ct_is_used s 1 \<and> ct_slack s 1 = 2 \<and> PDirPool s 1 256 = 0"
  have "drop_bit 12 (0x40000000 + of_nat i :: u32) = drop_bit 12 0x40000000" if "i < unat (16 :: u32)" for i
    using that by (intro page_add(2)) simp
  then have "unmapped s 1 0x40000000 (unat (16 :: u32)) \<subseteq> {drop_bit 12 0x40000000}" by (auto simp: unmapped_def)
  then have "card (unmapped s 1 0x40000000 (unat (16 :: u32))) \<le> 1" by (auto dest: card_mono [rotated])
  then show "returns (pt_copyout 0x1000 1 0x40000000 16 s) (\<lambda>(n, t). n = 16 \<and> mpt_ok t \<and> kern_mem_kept s t)"
    using s by (intro returns_mono [OF pt_copyout_correct]) (auto simp: user_range_def)
qed

text \<open>
  (C34) Without quota, \<^verbatim>\<open>pt_copyout\<close> does not fail: \<^verbatim>\<open>alloc_page\<close> reports \<^verbatim>\<open>MagicNumber\<close>, which is ignored, the
  entry read again is 0, and the user's data is written to physical page 0 while the full length is
  returned.
\<close>

theorem pt_copyout_no_quota:
  assumes "mpt_ok s" and "ct_is_used s pid" and "0 < pid" and "user_range uva len"
    and "kva + len \<le> VM_USERHI" and "ct_slack s pid = 0"
    and "PDirPool s pid (PDE_ADDR uva) = 0" and "len \<noteq> 0" and "unat uva mod 4096 + unat len \<le> 4096"
  shows "pt_copyout kva pid uva len s = Ret (len, s\<lparr>mem := memcpy (uva mod PAGESIZE) kva len (mem s)\<rparr>)"
proof -
  have np: "pid < NUM_IDS" using assms(2) by (simp add: ct_is_used_def)
  have u: "user_pde pid (PDE_ADDR uva)" by (rule user_range_pde [OF assms(4,8,3) np])
  have e: "get_ptbl_entry_by_va pid uva s = Ret 0" by (simp add: get_ptbl_entry_by_va_user [OF u] assms(7))
  have a: "alloc_page pid uva p s = Ret (MagicNumber, s)" for p
    using container_alloc_full [of s pid] assms(1,2,6) by (simp add: alloc_page_def mpt_ok_def)
  have res: "pt_resolve pid uva s = Ret (uva mod 4096, s)" by (simp add: pt_resolve_def e a)
  have ch: "pt_chunk len (uva mod 4096) = len"
    using assms(9) by (auto simp: pt_chunk_def word_less_nat_alt unat_sub_if' unat_mod4096 word_le_nat_alt word_unat_eq_iff)
  have "VM_USERLO \<le> uva" "uva + len \<le> VM_USERHI"
    using assms(4) by (simp_all add: user_range_def word_le_nat_alt unat_word_ariths)
  then show ?thesis using assms(5,8)
    by (simp add: pt_copyout_def whileM_step whileM_exit copyout_step_def res ch Let_def not_less)
qed

theorem pt_copyout_no_quota_witness:
  "returns mpt_run (\<lambda>s. returns (container_alloc 1 s) (\<lambda>(_, s). returns (container_alloc 1 s) (\<lambda>(_, s).
     pt_copyout 0x1000 1 0x40000000 16 s = Ret (16, s\<lparr>mem := memcpy 0 0x1000 16 (mem s)\<rparr>))))"
proof (rule returns_mono [OF mpt_run_ok])
  fix s :: mpt
  assume s: "mpt_ok s \<and> ct_is_used s 1 \<and> ct_slack s 1 = 2 \<and> PDirPool s 1 256 = 0"
  have alloc: "\<exists>p t. container_alloc 1 s = Ret (p, t) \<and> mpt_ok t \<and> ct_is_used t 1 \<and> ct_slack t 1 = k \<and> PDirPool t 1 256 = 0"
    if "mpt_ok s" "ct_is_used s 1" "ct_slack s 1 = Suc k" "PDirPool s 1 256 = 0" for s :: mpt and k
    using that(1,2)
  proof (cases rule: container_alloc_mpt)
    case (page p)
    then show ?thesis using that ct_slack_took [of s 1 p] by (auto simp: mpt_ok_def)
  qed (use that in simp)
  obtain p t where t: "container_alloc 1 s = Ret (p, t)" "mpt_ok t" "ct_is_used t 1" "ct_slack t 1 = 1" "PDirPool t 1 256 = 0"
    using alloc [of s 1] s by auto
  obtain q r where r: "container_alloc 1 t = Ret (q, r)" "mpt_ok r" "ct_is_used r 1" "ct_slack r 1 = 0" "PDirPool r 1 256 = 0"
    using alloc [of t 0] t by auto
  have "pt_copyout 0x1000 1 0x40000000 16 r = Ret (16, r\<lparr>mem := memcpy (0x40000000 mod 4096) 0x1000 16 (mem r)\<rparr>)"
    using r by (intro pt_copyout_no_quota) (simp_all add: user_range_def PDE_ADDR_def)
  then show "returns (container_alloc 1 s) (\<lambda>(_, s). returns (container_alloc 1 s) (\<lambda>(_, s).
     pt_copyout 0x1000 1 0x40000000 16 s = Ret (16, s\<lparr>mem := memcpy 0 0x1000 16 (mem s)\<rparr>)))"
    using t r by simp
qed

end
