(* ===== verification/Isolation.thy ===== *)
theory Isolation
  imports Pmap
begin

unbundle bit_operations_syntax

text \<open>
  Address spaces over a whole run: the states of the memory layer that the kernel reaches from
  \<^verbatim>\<open>paging_init\<close> with the calls that its upper layers make, and with the stores of the processes in between.
\<close>

section \<open>Runs of the memory layer\<close>

text \<open>A byte that process \<open>pid\<close> stores at a virtual address; at an address without a mapping it faults and stores nothing.\<close>

definition user_store :: "u32 \<Rightarrow> u32 \<Rightarrow> u8 \<Rightarrow> 'a mpt_scheme \<Rightarrow> 'a mpt_scheme" where
  "user_store pid va b s = (case walk s pid va of None \<Rightarrow> s | Some pa \<Rightarrow> s\<lparr>mem := (mem s)(pa := b)\<rparr>)"

text \<open>
  The steps are \<^verbatim>\<open>alloc_page\<close>, as the page fault handler, the ELF loader and the copies to user memory call it;
  \<^verbatim>\<open>alloc_mem_quota\<close>, as \<^verbatim>\<open>thread_spawn\<close> calls it for a quota that the parent has; \<^verbatim>\<open>set_pdir_base\<close>, which
  every trap calls; and a store of a process to its user addresses.
\<close>

inductive vm_step :: "'a mpt_scheme \<Rightarrow> 'a mpt_scheme \<Rightarrow> bool" where
  step_alloc_page:
    "ct_is_used s pid \<Longrightarrow> 0 < pid \<Longrightarrow> VM_USERLO \<le> va \<Longrightarrow> va < VM_USERHI \<Longrightarrow> unat perm < 4096 \<Longrightarrow>
     perm AND PTE_P \<noteq> 0 \<Longrightarrow> alloc_page pid va perm s = Ret (r, t) \<Longrightarrow> vm_step s t"
| step_alloc_mem_quota:
    "ct_is_used s i \<Longrightarrow> ct_nchildren (CONTAINER s i) < MAX_CHILDREN \<Longrightarrow> ct_child i s < NUM_IDS \<Longrightarrow>
     unat q \<le> ct_slack s i \<Longrightarrow> alloc_mem_quota i q s = Ret (c, t) \<Longrightarrow> vm_step s t"
| step_set_pdir_base: "set_pdir_base i s = Ret t \<Longrightarrow> vm_step s t"
| step_user_store:
    "0 < pid \<Longrightarrow> pid < NUM_IDS \<Longrightarrow> VM_USERLO \<le> va \<Longrightarrow> va < VM_USERHI \<Longrightarrow> vm_step s (user_store pid va b s)"

inductive_cases vm_stepE: "vm_step s t"

inductive vm_reach :: "'a mpt_scheme \<Rightarrow> bool" where
  reach_init:
    "devinit mbi s = Ret s' \<Longrightarrow> pmmap_ok s' \<Longrightarrow> on_cpu s' \<Longrightarrow> user_page (last_palloc_index s') \<Longrightarrow>
     \<forall>i. AT s' i = \<lparr>at_perm = 0, at_allocated = 0\<rparr> \<Longrightarrow> \<forall>i. i \<noteq> 0 \<longrightarrow> ct_used (CONTAINER s' i) = 0 \<Longrightarrow>
     layout_ok s' \<Longrightarrow> paging_init devinit mbi s = Ret t \<Longrightarrow> vm_reach t"
| reach_step: "vm_reach s \<Longrightarrow> vm_step s t \<Longrightarrow> vm_reach t"

section \<open>The invariant of a run\<close>

lemma user_store_mpt:
  assumes ok: "mpt_ok s" and u: "user_pde pid (PDE_ADDR va)"
  shows "mpt_ok (user_store pid va b s)"
proof (cases "walk s pid va")
  case (Some pa)
  from ok u Some have "mpt_ok (s\<lparr>mem := (mem s)(pa := b)\<rparr>)" by (rule write_frame) auto
  with Some show ?thesis by (simp add: user_store_def)
qed (simp add: user_store_def ok)

lemma vm_step_mpt: "vm_step s t \<Longrightarrow> mpt_ok s \<Longrightarrow> mpt_ok t"
proof (induction rule: vm_step.induct)
  case (step_alloc_page s pid va perm r t)
  with alloc_page_walks [of s pid va perm] show ?case by simp
next
  case (step_alloc_mem_quota s i q c t)
  then have "t = ct_gave i q s"
    using container_split_eq [of s i q] by (simp add: alloc_mem_quota_def mpt_ok_def ct_is_used_def)
  with step_alloc_mem_quota show ?case by (simp add: mpt_ok_gave(1))
next
  case (step_set_pdir_base i s t)
  then show ?case by (auto simp: set_pdir_base_def bounded_def set_cr3_def split: if_splits)
next
  case (step_user_store pid va s b)
  then show ?case by (intro user_store_mpt) (simp_all add: user_pde_va)
qed

lemma vm_reach_mpt: "vm_reach s \<Longrightarrow> mpt_ok s"
proof (induction rule: vm_reach.induct)
  case (reach_init devinit mbi s s' t)
  with paging_init_mpt [of devinit, OF reach_init(1-7)] show ?case by simp
next
  case (reach_step s t)
  then show ?case by (blast intro: vm_step_mpt)
qed

text \<open>What a process stores, no other process sees, and neither does the kernel below the user range.\<close>

lemma user_store_private:
  assumes "vm_reach s" and "user_pde pid (PDE_ADDR va)"
  shows "user_mem_kept (\<lambda>j vb. \<not> (j = pid \<and> vb = va)) s (user_store pid va b s)" and "kern_mem_kept s (user_store pid va b s)"
proof -
  note ok = vm_reach_mpt [OF assms(1)]
  have "user_mem_kept (\<lambda>j vb. \<not> (j = pid \<and> vb = va)) s (s\<lparr>mem := (mem s)(pa := b)\<rparr>) \<and> kern_mem_kept s (s\<lparr>mem := (mem s)(pa := b)\<rparr>)"
    if w: "walk s pid va = Some pa" for pa
  proof
    show "kern_mem_kept s (s\<lparr>mem := (mem s)(pa := b)\<rparr>)" by (rule write_frame(3) [OF ok assms(2) w]) auto
    have keep: "walk (s\<lparr>mem := (mem s)(pa := b)\<rparr>) j vb = walk s j vb" if "j < NUM_IDS" for j vb
      by (rule write_frame(2) [OF ok assms(2) w _ that]) auto
    show "user_mem_kept (\<lambda>j vb. \<not> (j = pid \<and> vb = va)) s (s\<lparr>mem := (mem s)(pa := b)\<rparr>)"
      unfolding user_mem_kept_def using keep walk_inj [OF ok assms(2) _ w] by (auto simp: user_pde_def)
  qed
  then show "user_mem_kept (\<lambda>j vb. \<not> (j = pid \<and> vb = va)) s (user_store pid va b s)" "kern_mem_kept s (user_store pid va b s)"
    by (auto simp: user_store_def split: option.splits)
qed

text \<open>The concrete system, after process 1 has got its quota, is reached.\<close>

lemma mpt_run_reach: "returns mpt_run vm_reach"
proof -
  obtain s where s: "paging_init clear_AT 0 mpt_boot = Ret s" "mpt_ok s" "\<forall>u. use_page s u = None"
    and c: "ct_is_used s 0" "ct_nchildren (CONTAINER s 0) = 0" "ct_slack s 0 = 2" by (rule mpt_boot_ok)
  have c4: "ct_child 0 s = 1" using c by (simp add: ct_child_def)
  have "vm_reach s"
    by (rule reach_init [OF _ _ _ _ _ _ _ s(1), of "mpt_boot\<lparr>AT := (\<lambda>_. \<lparr>at_perm = 0, at_allocated = 0\<rparr>)\<rparr>"])
      (simp_all add: clear_AT_def pmmap_ok_def mpt_boot_simps user_page_def layout_ok_def aligned_def)
  moreover have sp: "container_split 0 2 s = Ret (1, ct_gave 0 2 s)"
    using container_split_eq [of s 0 2] s(2) c c4 by (simp add: mpt_ok_def)
  moreover have "vm_step s (ct_gave 0 2 s)"
    by (rule step_alloc_mem_quota [of s 0 2 1]) (simp_all add: c c4 sp alloc_mem_quota_def)
  ultimately show ?thesis by (simp add: mpt_run_def s(1) reach_step)
qed

text \<open>Whether a program in user mode may use an address: the user bit is set in both levels of the page tables.\<close>

definition user_access :: "'a mpt_scheme \<Rightarrow> u32 \<Rightarrow> u32 \<Rightarrow> bool" where
  "user_access s pid va \<longleftrightarrow>
     (let pde = PDirPool s pid (PDE_ADDR va); pte = load32 (mem s) (pt_entry_addr (ADDR_MASK pde) (PTE_ADDR va)) in
      walk s pid va \<noteq> None \<and> pde AND PTE_U \<noteq> 0 \<and> pte AND PTE_U \<noteq> 0)"

lemma id_entry_kernel: "id_entry d e AND PTE_U = 0"
proof -
  have "(4 :: u32) = push_bit 2 1" by simp
  then have four: "bit (4 :: u32) n \<longleftrightarrow> n = 2" for n by (simp only: bit_push_bit_iff bit_1_iff) auto
  have "\<not> bit (259 :: u32) 2" "\<not> bit (3 :: u32) 2" by (simp_all add: bit_iff_odd)
  then have "\<not> bit (id_entry d e) 2" by (simp add: id_entry_def idptbl_perm_def bit_or_iff bit_push_bit_iff)
  then show ?thesis by (intro bit_word_eqI) (simp only: bit_and_iff four, auto)
qed

section \<open>Properties\<close>

text \<open>
  (C1) Isolation of address spaces: in every state that the memory layer reaches from \<^verbatim>\<open>paging_init\<close> by page
  allocations, quota splits, switches of the page directory and stores of the processes, two user addresses
  that the page walk takes to the same physical page belong to the same process and the same
  virtual page; the physical page is an allocated user page and is not a page table of any process.
\<close>

theorem vm_isolation:
  assumes "vm_reach s" and "0 < i" and "i < NUM_IDS" and "VM_USERLO \<le> va" and "va < VM_USERHI"
    and "0 < j" and "j < NUM_IDS" and "VM_USERLO \<le> vb" and "vb < VM_USERHI"
    and "walk s i va = Some pa" and "walk s j vb = Some pb" and "drop_bit 12 pa = drop_bit 12 pb"
  shows "i = j \<and> drop_bit 12 va = drop_bit 12 vb \<and> user_page (drop_bit 12 pa) \<and>
    at_allocated (AT s (drop_bit 12 pa)) \<noteq> 0 \<and>
    (\<forall>k pde. user_pde k pde \<longrightarrow> PDirPool s k pde \<noteq> 0 \<longrightarrow> drop_bit 12 pa \<noteq> drop_bit 12 (PDirPool s k pde))"
  using walk_isolated [OF vm_reach_mpt [OF assms(1)] assms(2-)] .

theorem vm_isolation_witness:
  "returns mpt_run (\<lambda>s. returns (alloc_page 1 0x40000000 7 s) (\<lambda>(_, t). \<exists>pa. walk t 1 0x40000000 = Some pa \<and>
     user_page (drop_bit 12 pa)))"
proof -
  obtain s where s: "mpt_run = Ret s" "vm_reach s" using mpt_run_reach by (rule returnsE)
  have r: "mpt_ok s" "ct_is_used s 1" "ct_slack s 1 = 2" using mpt_run_ok by (simp_all add: s(1))
  have "returns (alloc_page 1 0x40000000 7 s) (\<lambda>(r, t). mpt_ok t \<and> (\<exists>pa. walk t 1 0x40000000 = Some pa))"
    using r by (intro alloc_page_maps) simp_all
  then obtain r t pa where t: "alloc_page 1 0x40000000 7 s = Ret (r, t)" "walk t 1 0x40000000 = Some pa"
    by (auto elim!: returnsE)
  have "vm_step s t" by (rule step_alloc_page [OF _ _ _ _ _ _ t(1)]) (simp_all add: r)
  with s(2) have "vm_reach t" by (rule reach_step)
  from vm_isolation [OF this, of 1 "0x40000000" 1 "0x40000000" pa pa] t(2) have "user_page (drop_bit 12 pa)" by simp
  with t show ?thesis by (simp add: s(1))
qed

text \<open>
  (C20) The kernel sees physical memory and programs do not: in every state that the memory layer reaches from \<^verbatim>\<open>paging_init\<close>, and in
  every address space, an address outside the user range walks to itself, and so does every address of process 0; none of
  them can be used in user mode.
\<close>

theorem kernel_identity_map:
  assumes "vm_reach s" and "pid < NUM_IDS" and "pid = 0 \<or> va < VM_USERLO \<or> VM_USERHI \<le> va"
  shows "walk s pid va = Some va \<and> \<not> user_access s pid va"
proof -
  note ok = vm_reach_mpt [OF assms(1)]
  have "\<not> user_pde pid (PDE_ADDR va)"
  proof (cases "pid = 0")
    case False
    then have "user_pde pid (PDE_ADDR va) \<longleftrightarrow> VM_USERLO \<le> va \<and> va < VM_USERHI"
      using assms(2) by (intro user_pde_va) (simp_all add: word_gt_0)
    with False assms(3) show ?thesis by auto
  qed (simp add: user_pde_def)
  then show ?thesis
    using walk_identity [OF ok assms(2)] identity_entries(1) [OF ok assms(2)] by (simp add: user_access_def Let_def id_entry_kernel)
qed

theorem kernel_identity_map_witness:
  "returns mpt_run (\<lambda>s. walk s 0 0x50000000 = Some 0x50000000 \<and> walk s 1 0x1234 = Some 0x1234 \<and> \<not> user_access s 1 0x1234)"
  by (rule returns_mono [OF mpt_run_reach]) (simp add: kernel_identity_map)

end
