(* ===== verification/Thread.thy ===== *)
theory Thread
  imports MPT
begin

text \<open>
  Threads, \<^verbatim>\<open>kern/thread/PCurID\<close> to \<^verbatim>\<open>kern/thread/PThread\<close>: the current thread of each CPU, kernel
  contexts and the context switch, thread control blocks, the queues linked through them, and the
  scheduler. Index \<open>NUM_IDS\<close> (64) stands for no thread, as in the source.

  A function that ends in a context switch returns the state in which the thread it switches
  to goes on. What \<^verbatim>\<open>thread_sleep\<close> does after the switch, when the sleeper runs again, is a
  function of its own.
\<close>

section \<open>State\<close>

datatype t_state = TSTATE_READY | TSTATE_RUN | TSTATE_SLEEP | TSTATE_DEAD

text \<open>
  A kernel context. The saved stack pointer is an offset from the base of a kernel stack, and
  the stack.
\<close>

record kctx =
  kc_stack :: kstack_ref
  kc_esp :: u32
  kc_edi :: u32
  kc_esi :: u32
  kc_ebx :: u32
  kc_ebp :: u32
  kc_eip :: u32

text \<open>
  Pointers to open files and to inodes are the indices of the static arrays they point into.
\<close>

record TCB =
  tcb_state :: t_state
  tcb_cpuid :: u32
  tcb_prev :: u32
  tcb_next :: u32
  tcb_channel :: u32
  tcb_openfiles :: "u32 \<Rightarrow> u32 option"
  tcb_cwd :: "u32 option"

record TQueue =
  tq_head :: u32
  tq_tail :: u32

record mthr = mpt +
  CURID :: "u32 \<Rightarrow> u32"
  kctx_pool :: "u32 \<Rightarrow> kctx"
  TCBPool :: "u32 \<Rightarrow> TCB"
  TQueuePool :: "u32 \<Rightarrow> TQueue"
  sched_lk :: spinlock
  sched_ticks :: "u32 \<Rightarrow> u32"

abbreviation (input) NOFILE :: u32 where "NOFILE \<equiv> 16"
abbreviation (input) SCHED_SLICE :: u32 where "SCHED_SLICE \<equiv> 5"
abbreviation (input) LAPIC_TIMER_INTR_FREQ :: u32 where "LAPIC_TIMER_INTR_FREQ \<equiv> 1000"

section \<open>Current thread (PCurID)\<close>

definition get_curid :: "'a mthr_scheme \<Rightarrow> u32 outcome" where
  "get_curid s = andThen (get_pcpu_idx s) (\<lambda>i. bounded NUM_CPUS i (Ret (CURID s i)))"

definition set_curid :: "u32 \<Rightarrow> 'a mthr_scheme \<Rightarrow> 'a mthr_scheme outcome" where
  "set_curid curid s = andThen (get_pcpu_idx s) (\<lambda>i.
     bounded NUM_CPUS i (Ret (s\<lparr>CURID := (CURID s)(i := curid)\<rparr>)))"

section \<open>Kernel contexts (PKCtxIntro, PKCtxNew)\<close>

definition kctx_set_esp :: "u32 \<Rightarrow> kstack_ref \<times> u32 \<Rightarrow> 'a mthr_scheme \<Rightarrow> 'a mthr_scheme outcome" where
  "kctx_set_esp pid esp s = bounded NUM_IDS pid
     (Ret (s\<lparr>kctx_pool := (kctx_pool s)(pid := (kctx_pool s pid)\<lparr>kc_stack := fst esp, kc_esp := snd esp\<rparr>)\<rparr>))"

definition kctx_set_eip :: "u32 \<Rightarrow> u32 \<Rightarrow> 'a mthr_scheme \<Rightarrow> 'a mthr_scheme outcome" where
  "kctx_set_eip pid eip s = bounded NUM_IDS pid
     (Ret (s\<lparr>kctx_pool := (kctx_pool s)(pid := (kctx_pool s pid)\<lparr>kc_eip := eip\<rparr>)\<rparr>))"

text \<open>
  \<^verbatim>\<open>cswitch\<close>: the registers in \<open>regs\<close> are those of the caller, with \<open>r_eip\<close> its return address, which
  the call has pushed. The routine stores them in \<open>from\<close> and loads those of \<open>to\<close>; it ends with
  the return address on top of the new stack, and the return pops it.
\<close>

definition cswitch_save :: "'a machine_scheme \<Rightarrow> kctx" where
  "cswitch_save s =
     \<lparr>kc_stack = cur_kstack s, kc_esp = r_esp (regs s) - 4, kc_edi = r_edi (regs s), kc_esi = r_esi (regs s),
      kc_ebx = r_ebx (regs s), kc_ebp = r_ebp (regs s), kc_eip = r_eip (regs s)\<rparr>"

definition cswitch_load :: "kctx \<Rightarrow> 'a machine_scheme \<Rightarrow> 'a machine_scheme" where
  "cswitch_load k s =
     s\<lparr>cur_kstack := kc_stack k,
       regs := \<lparr>r_esp = kc_esp k + 4, r_edi = kc_edi k, r_esi = kc_esi k, r_ebx = kc_ebx k,
                r_ebp = kc_ebp k, r_eip = kc_eip k\<rparr>\<rparr>"

definition kctx_switch :: "u32 \<Rightarrow> u32 \<Rightarrow> 'a mthr_scheme \<Rightarrow> 'a mthr_scheme outcome" where
  "kctx_switch from_pid to_pid s = bounded NUM_IDS from_pid (bounded NUM_IDS to_pid
     (let s = s\<lparr>kctx_pool := (kctx_pool s)(from_pid := cswitch_save s)\<rparr> in
      Ret (cswitch_load (kctx_pool s to_pid) s)))"

definition kctx_new :: "u32 \<Rightarrow> u32 \<Rightarrow> u32 \<Rightarrow> 'a mthr_scheme \<Rightarrow> (u32 \<times> 'a mthr_scheme) outcome" where
  "kctx_new entry id' quota s =
     andThen (container_can_consume id' quota s) (\<lambda>ok.
     if ok then
       andThen (alloc_mem_quota id' quota s) (\<lambda>(pid, s).
       if pid \<noteq> NUM_IDS then
         andThen (kctx_set_esp pid (Proc pid, KSTACK_SIZE) s) (\<lambda>s.
         andThen (kctx_set_eip pid entry s) (\<lambda>s. Ret (pid, s)))
       else Ret (pid, s))
     else Ret (NUM_IDS, s))"

section \<open>Thread control blocks (PTCBIntro, PTCBInit)\<close>

definition tcb_put :: "u32 \<Rightarrow> (TCB \<Rightarrow> TCB) \<Rightarrow> 'a mthr_scheme \<Rightarrow> 'a mthr_scheme outcome" where
  "tcb_put pid f s = bounded NUM_IDS pid (Ret (s\<lparr>TCBPool := (TCBPool s)(pid := f (TCBPool s pid))\<rparr>))"

definition tcb_get_state :: "u32 \<Rightarrow> 'a mthr_scheme \<Rightarrow> t_state outcome" where
  "tcb_get_state pid s = bounded NUM_IDS pid (Ret (tcb_state (TCBPool s pid)))"

definition tcb_set_state :: "u32 \<Rightarrow> t_state \<Rightarrow> 'a mthr_scheme \<Rightarrow> 'a mthr_scheme outcome" where
  "tcb_set_state pid st s = tcb_put pid (\<lambda>t. t\<lparr>tcb_state := st\<rparr>) s"

definition tcb_get_cpu :: "u32 \<Rightarrow> 'a mthr_scheme \<Rightarrow> u32 outcome" where
  "tcb_get_cpu pid s = bounded NUM_IDS pid (Ret (tcb_cpuid (TCBPool s pid)))"

definition tcb_set_cpu :: "u32 \<Rightarrow> u32 \<Rightarrow> 'a mthr_scheme \<Rightarrow> 'a mthr_scheme outcome" where
  "tcb_set_cpu pid cpu s = tcb_put pid (\<lambda>t. t\<lparr>tcb_cpuid := cpu\<rparr>) s"

definition tcb_get_prev :: "u32 \<Rightarrow> 'a mthr_scheme \<Rightarrow> u32 outcome" where
  "tcb_get_prev pid s = bounded NUM_IDS pid (Ret (tcb_prev (TCBPool s pid)))"

definition tcb_set_prev :: "u32 \<Rightarrow> u32 \<Rightarrow> 'a mthr_scheme \<Rightarrow> 'a mthr_scheme outcome" where
  "tcb_set_prev pid prev_pid s = tcb_put pid (\<lambda>t. t\<lparr>tcb_prev := prev_pid\<rparr>) s"

definition tcb_get_next :: "u32 \<Rightarrow> 'a mthr_scheme \<Rightarrow> u32 outcome" where
  "tcb_get_next pid s = bounded NUM_IDS pid (Ret (tcb_next (TCBPool s pid)))"

definition tcb_set_next :: "u32 \<Rightarrow> u32 \<Rightarrow> 'a mthr_scheme \<Rightarrow> 'a mthr_scheme outcome" where
  "tcb_set_next pid next_pid s = tcb_put pid (\<lambda>t. t\<lparr>tcb_next := next_pid\<rparr>) s"

definition tcb_get_chan :: "u32 \<Rightarrow> 'a mthr_scheme \<Rightarrow> u32 outcome" where
  "tcb_get_chan pid s = bounded NUM_IDS pid (Ret (tcb_channel (TCBPool s pid)))"

definition tcb_set_chan :: "u32 \<Rightarrow> u32 \<Rightarrow> 'a mthr_scheme \<Rightarrow> 'a mthr_scheme outcome" where
  "tcb_set_chan pid chan s = tcb_put pid (\<lambda>t. t\<lparr>tcb_channel := chan\<rparr>) s"

definition tcb_get_openfiles :: "u32 \<Rightarrow> 'a mthr_scheme \<Rightarrow> (u32 \<Rightarrow> u32 option) outcome" where
  "tcb_get_openfiles pid s = bounded NUM_IDS pid (Ret (tcb_openfiles (TCBPool s pid)))"

definition tcb_set_openfiles :: "u32 \<Rightarrow> u32 \<Rightarrow> u32 option \<Rightarrow> 'a mthr_scheme \<Rightarrow> 'a mthr_scheme outcome" where
  "tcb_set_openfiles pid fd f s =
     bounded NOFILE fd (tcb_put pid (\<lambda>t. t\<lparr>tcb_openfiles := (tcb_openfiles t)(fd := f)\<rparr>) s)"

definition tcb_get_cwd :: "u32 \<Rightarrow> 'a mthr_scheme \<Rightarrow> u32 option outcome" where
  "tcb_get_cwd pid s = bounded NUM_IDS pid (Ret (tcb_cwd (TCBPool s pid)))"

definition tcb_set_cwd :: "u32 \<Rightarrow> u32 option \<Rightarrow> 'a mthr_scheme \<Rightarrow> 'a mthr_scheme outcome" where
  "tcb_set_cwd pid d s = tcb_put pid (\<lambda>t. t\<lparr>tcb_cwd := d\<rparr>) s"

text \<open>
  \<^verbatim>\<open>sizeof *openfiles\<close> is the size of one pointer, so \<^verbatim>\<open>memzero\<close> clears the first open file only. The
  file system's \<^verbatim>\<open>namei\<close> is an argument, a function of the same state.
\<close>

definition tcb_init_at_id ::
    "(string \<Rightarrow> 'a mthr_scheme \<Rightarrow> (u32 option \<times> 'a mthr_scheme) outcome) \<Rightarrow> u32 \<Rightarrow> 'a mthr_scheme \<Rightarrow>
     'a mthr_scheme outcome" where
  "tcb_init_at_id namei pid s =
     andThen (tcb_put pid (\<lambda>t. t\<lparr>tcb_state := TSTATE_DEAD, tcb_cpuid := NUM_CPUS, tcb_prev := NUM_IDS,
       tcb_next := NUM_IDS, tcb_channel := 0, tcb_openfiles := (tcb_openfiles t)(0 := None)\<rparr>) s) (\<lambda>s.
     andThen (namei ''/'' s) (\<lambda>(ip, s).
     tcb_put pid (\<lambda>t. t\<lparr>tcb_cwd := ip\<rparr>) s))"

definition tcb_init ::
    "(string \<Rightarrow> 'a mthr_scheme \<Rightarrow> (u32 option \<times> 'a mthr_scheme) outcome) \<Rightarrow>
     (u32 \<Rightarrow> 'a mthr_scheme \<Rightarrow> 'a mthr_scheme outcome) \<Rightarrow> u32 \<Rightarrow> 'a mthr_scheme \<Rightarrow> 'a mthr_scheme outcome" where
  "tcb_init namei devinit mbi_addr s =
     andThen (paging_init devinit mbi_addr s) (\<lambda>s.
     forM (range32 0 64) (tcb_init_at_id namei) s)"

section \<open>Thread queues (PTQueueIntro, PTQueueInit)\<close>

text \<open>The pool has a sleep queue for each thread and a ready queue for each CPU: 72 queues.\<close>

abbreviation (input) NUM_QUEUES :: u32 where "NUM_QUEUES \<equiv> 72"

definition tqueue_put :: "u32 \<Rightarrow> (TQueue \<Rightarrow> TQueue) \<Rightarrow> 'a mthr_scheme \<Rightarrow> 'a mthr_scheme outcome" where
  "tqueue_put chid f s = bounded NUM_QUEUES chid
     (Ret (s\<lparr>TQueuePool := (TQueuePool s)(chid := f (TQueuePool s chid))\<rparr>))"

definition tqueue_get_head :: "u32 \<Rightarrow> 'a mthr_scheme \<Rightarrow> u32 outcome" where
  "tqueue_get_head chid s = bounded NUM_QUEUES chid (Ret (tq_head (TQueuePool s chid)))"

definition tqueue_set_head :: "u32 \<Rightarrow> u32 \<Rightarrow> 'a mthr_scheme \<Rightarrow> 'a mthr_scheme outcome" where
  "tqueue_set_head chid head s = tqueue_put chid (\<lambda>q. q\<lparr>tq_head := head\<rparr>) s"

definition tqueue_get_tail :: "u32 \<Rightarrow> 'a mthr_scheme \<Rightarrow> u32 outcome" where
  "tqueue_get_tail chid s = bounded NUM_QUEUES chid (Ret (tq_tail (TQueuePool s chid)))"

definition tqueue_set_tail :: "u32 \<Rightarrow> u32 \<Rightarrow> 'a mthr_scheme \<Rightarrow> 'a mthr_scheme outcome" where
  "tqueue_set_tail chid tail s = tqueue_put chid (\<lambda>q. q\<lparr>tq_tail := tail\<rparr>) s"

definition tqueue_init_at_id :: "u32 \<Rightarrow> 'a mthr_scheme \<Rightarrow> 'a mthr_scheme outcome" where
  "tqueue_init_at_id chid s = tqueue_put chid (\<lambda>q. q\<lparr>tq_head := NUM_IDS, tq_tail := NUM_IDS\<rparr>) s"

definition tqueue_init ::
    "(string \<Rightarrow> 'a mthr_scheme \<Rightarrow> (u32 option \<times> 'a mthr_scheme) outcome) \<Rightarrow>
     (u32 \<Rightarrow> 'a mthr_scheme \<Rightarrow> 'a mthr_scheme outcome) \<Rightarrow> u32 \<Rightarrow> 'a mthr_scheme \<Rightarrow> 'a mthr_scheme outcome" where
  "tqueue_init namei devinit mbi_addr s =
     andThen (tcb_init namei devinit mbi_addr s) (\<lambda>s.
     forM (range32 0 72) tqueue_init_at_id s)"

definition tqueue_enqueue :: "u32 \<Rightarrow> u32 \<Rightarrow> 'a mthr_scheme \<Rightarrow> 'a mthr_scheme outcome" where
  "tqueue_enqueue chid pid s =
     andThen (tqueue_get_tail chid s) (\<lambda>tail.
     if tail = NUM_IDS then
       andThen (tcb_set_prev pid NUM_IDS s) (\<lambda>s.
       andThen (tcb_set_next pid NUM_IDS s) (\<lambda>s.
       andThen (tqueue_set_head chid pid s) (\<lambda>s.
       tqueue_set_tail chid pid s)))
     else
       andThen (tcb_set_next tail pid s) (\<lambda>s.
       andThen (tcb_set_prev pid tail s) (\<lambda>s.
       andThen (tcb_set_next pid NUM_IDS s) (\<lambda>s.
       tqueue_set_tail chid pid s))))"

definition tqueue_dequeue :: "u32 \<Rightarrow> 'a mthr_scheme \<Rightarrow> (u32 \<times> 'a mthr_scheme) outcome" where
  "tqueue_dequeue chid s =
     andThen (tqueue_get_head chid s) (\<lambda>head.
     if head \<noteq> NUM_IDS then
       andThen (tcb_get_next head s) (\<lambda>next_id.
       andThen
         (if next_id = NUM_IDS then
            andThen (tqueue_set_head chid NUM_IDS s) (\<lambda>s.
            tqueue_set_tail chid NUM_IDS s)
          else
            andThen (tcb_set_prev next_id NUM_IDS s) (\<lambda>s.
            tqueue_set_head chid next_id s)) (\<lambda>s.
       andThen (tcb_set_prev head NUM_IDS s) (\<lambda>s.
       andThen (tcb_set_next head NUM_IDS s) (\<lambda>s.
       Ret (head, s)))))
     else Ret (NUM_IDS, s))"

definition tqueue_remove :: "u32 \<Rightarrow> u32 \<Rightarrow> 'a mthr_scheme \<Rightarrow> 'a mthr_scheme outcome" where
  "tqueue_remove chid pid s =
     andThen (tcb_get_prev pid s) (\<lambda>prev.
     andThen (tcb_get_next pid s) (\<lambda>next_id.
     andThen
       (if prev = NUM_IDS then
          if next_id = NUM_IDS then
            andThen (tqueue_set_head chid NUM_IDS s) (\<lambda>s.
            tqueue_set_tail chid NUM_IDS s)
          else
            andThen (tcb_set_prev next_id NUM_IDS s) (\<lambda>s.
            tqueue_set_head chid next_id s)
        else
          if next_id = NUM_IDS then
            andThen (tcb_set_next prev NUM_IDS s) (\<lambda>s.
            tqueue_set_tail chid prev s)
          else
            andThen (if prev \<noteq> next_id then tcb_set_next prev next_id s else Ret s) (\<lambda>s.
            tcb_set_prev next_id prev s)) (\<lambda>s.
     andThen (tcb_set_prev pid NUM_IDS s) (\<lambda>s.
     tcb_set_next pid NUM_IDS s))))"

section \<open>Scheduler (PThread)\<close>

definition sched_acquire :: "'a mthr_scheme \<Rightarrow> 'a mthr_scheme outcome" where
  "sched_acquire s = andThen (spinlock_acquire s (sched_lk s)) (\<lambda>lk. Ret (s\<lparr>sched_lk := lk\<rparr>))"

definition sched_release :: "'a mthr_scheme \<Rightarrow> 'a mthr_scheme" where
  "sched_release s = s\<lparr>sched_lk := spinlock_release (sched_lk s)\<rparr>"

definition thread_init ::
    "(string \<Rightarrow> 'a mthr_scheme \<Rightarrow> (u32 option \<times> 'a mthr_scheme) outcome) \<Rightarrow>
     (u32 \<Rightarrow> 'a mthr_scheme \<Rightarrow> 'a mthr_scheme outcome) \<Rightarrow> u32 \<Rightarrow> 'a mthr_scheme \<Rightarrow> 'a mthr_scheme outcome" where
  "thread_init namei devinit mbi_addr s =
     andThen (forM (range32 0 8) (\<lambda>i s. Ret (s\<lparr>sched_ticks := (sched_ticks s)(i := 0)\<rparr>)) s) (\<lambda>s.
     andThen (tqueue_init namei devinit mbi_addr (s\<lparr>sched_lk := spinlock_init (sched_lk s)\<rparr>)) (\<lambda>s.
     andThen (set_curid 0 s) (\<lambda>s.
     tcb_set_state 0 TSTATE_RUN s)))"

definition thread_spawn :: "u32 \<Rightarrow> u32 \<Rightarrow> u32 \<Rightarrow> 'a mthr_scheme \<Rightarrow> (u32 \<times> 'a mthr_scheme) outcome" where
  "thread_spawn entry id' quota s =
     andThen (sched_acquire s) (\<lambda>s.
     andThen (kctx_new entry id' quota s) (\<lambda>(pid, s).
     andThen
       (if pid \<noteq> NUM_IDS then
          andThen (tcb_set_state pid TSTATE_READY s) (\<lambda>s.
          tqueue_enqueue NUM_IDS pid s)
        else Ret s) (\<lambda>s.
     Ret (pid, sched_release s))))"

definition thread_yield :: "'a mthr_scheme \<Rightarrow> 'a mthr_scheme outcome" where
  "thread_yield s =
     andThen (sched_acquire s) (\<lambda>s.
     andThen (get_curid s) (\<lambda>old_cur_pid.
     andThen (tcb_set_state old_cur_pid TSTATE_READY s) (\<lambda>s.
     andThen (tqueue_enqueue NUM_IDS old_cur_pid s) (\<lambda>s.
     andThen (tqueue_dequeue NUM_IDS s) (\<lambda>(new_cur_pid, s).
     andThen (tcb_set_state new_cur_pid TSTATE_RUN s) (\<lambda>s.
     andThen (set_curid new_cur_pid s) (\<lambda>s.
     if old_cur_pid \<noteq> new_cur_pid
     then kctx_switch old_cur_pid new_cur_pid (sched_release s)
     else Ret (sched_release s))))))))"

definition sched_update :: "'a mthr_scheme \<Rightarrow> 'a mthr_scheme outcome" where
  "sched_update s =
     andThen (sched_acquire s) (\<lambda>s.
     andThen (get_pcpu_idx s) (\<lambda>i. bounded NUM_CPUS i (
     let s = s\<lparr>sched_ticks := (sched_ticks s)(i := sched_ticks s i + 1000 div LAPIC_TIMER_INTR_FREQ)\<rparr> in
     if sched_ticks s i \<ge> SCHED_SLICE then
       thread_yield (sched_release (s\<lparr>sched_ticks := (sched_ticks s)(i := 0)\<rparr>))
     else Ret (sched_release s))))"

text \<open>
  The lock that \<^verbatim>\<open>thread_sleep\<close> gives up is passed by reference: a null pointer, or how to read
  and write it in the state. The sleeper's own code before and after the switch are two functions.
\<close>

type_synonym 's lock_ref = "(('s \<Rightarrow> spinlock) \<times> (spinlock \<Rightarrow> 's \<Rightarrow> 's)) option"

definition thread_sleep :: "u32 \<Rightarrow> 'a mthr_scheme lock_ref \<Rightarrow> 'a mthr_scheme \<Rightarrow> 'a mthr_scheme outcome" where
  "thread_sleep chan lk s =
     andThen (get_curid s) (\<lambda>curid.
     case lk of
       None \<Rightarrow> Panic ''sleep without lock''
     | Some (get_lk, put_lk) \<Rightarrow>
         andThen (sched_acquire s) (\<lambda>s.
         andThen (tcb_set_state curid TSTATE_SLEEP s) (\<lambda>s.
         andThen (tcb_set_chan curid chan s) (\<lambda>s.
         let s = sched_release (put_lk (spinlock_release (get_lk s)) s) in
         andThen (tqueue_dequeue NUM_IDS s) (\<lambda>(nextid, s).
         let nextid = (if nextid = NUM_IDS then curid else nextid) in
         kctx_switch curid nextid s)))))"

definition thread_sleep_resume ::
    "u32 \<Rightarrow> 'a mthr_scheme lock_ref \<Rightarrow> 'a mthr_scheme \<Rightarrow> 'a mthr_scheme outcome" where
  "thread_sleep_resume curid lk s =
     (case lk of
        None \<Rightarrow> Panic ''sleep without lock''
      | Some (get_lk, put_lk) \<Rightarrow>
          andThen (sched_acquire s) (\<lambda>s.
          andThen (tcb_set_chan curid 0 s) (\<lambda>s.
          andThen (spinlock_acquire s (get_lk s)) (\<lambda>l.
          Ret (sched_release (put_lk l s))))))"

definition thread_wakeup :: "u32 \<Rightarrow> 'a mthr_scheme \<Rightarrow> 'a mthr_scheme outcome" where
  "thread_wakeup chan s =
     andThen (sched_acquire s) (\<lambda>s.
     andThen (forM (range32 0 64) (\<lambda>i s.
       andThen (tcb_get_state i s) (\<lambda>st.
       andThen (tcb_get_chan i s) (\<lambda>ch.
       if st = TSTATE_SLEEP \<and> ch = chan then
         andThen (tcb_set_state i TSTATE_READY s) (\<lambda>s.
         andThen (tcb_set_chan i 0 s) (\<lambda>s.
         tqueue_enqueue NUM_IDS i s))
       else Ret s))) s) (\<lambda>s.
     Ret (sched_release s)))"

end
