(* ===== verification/Ports.thy ===== *)
theory Ports
  imports Thread
begin

text \<open>
  Input and output of the kernel: the port instructions of \<^verbatim>\<open>kern/lib/x86.c\<close>, memory-mapped device
  registers, and the record of everything that is not part of the program.

  The devices are not part of the program. What the kernel does to them is a trace of events in the
  state, newest first, and what a device answers is a function of the trace before, in the record
  \<open>world\<close> that the drivers take as an argument. The record also holds the addresses that the linker and
  the compiler choose for objects whose address the code uses, and what other threads and other CPUs
  do while the running thread is switched away.
\<close>

text \<open>A sector of 512 bytes.\<close>

type_synonym block = "9 word \<Rightarrow> u8"

text \<open>
  One event is one instruction: \<^verbatim>\<open>insl\<close> and \<^verbatim>\<open>outsl\<close> move one sector, 128 long words. \<open>Store\<close> and
  \<open>Load\<close> are accesses to a device register in memory.
\<close>

datatype io = Outb u16 u8 | Inb u16 | Outsl u16 block | Insl u16 | Store u32 u32 | Load u32 | Rdtsc | Wrmsr u32 u64

record 's world =
  w_inb :: "io list \<Rightarrow> u16 \<Rightarrow> u8"
  w_insl :: "io list \<Rightarrow> u16 \<Rightarrow> block"
  w_load :: "io list \<Rightarrow> u32 \<Rightarrow> u32"
  w_tsc :: "io list \<Rightarrow> u64"
  w_cpuid :: "u32 \<Rightarrow> u32 \<Rightarrow> u32 \<times> u32 \<times> u32 \<times> u32"
  w_cga :: bool
  w_others :: "'s \<Rightarrow> 's outcome"
  w_buf :: "u32 \<Rightarrow> u32"
  w_log :: u32
  w_inode :: "u32 \<Rightarrow> u32"
  w_local :: "string \<Rightarrow> u32"

record mio = mthr +
  io :: "io list"

definition outb :: "u16 \<Rightarrow> u8 \<Rightarrow> 'a mio_scheme \<Rightarrow> 'a mio_scheme" where
  "outb port data s = s\<lparr>io := Outb port data # io s\<rparr>"

definition inb :: "('s, 'b) world_scheme \<Rightarrow> u16 \<Rightarrow> 'a mio_scheme \<Rightarrow> u8 \<times> 'a mio_scheme" where
  "inb w port s = (w_inb w (io s) port, s\<lparr>io := Inb port # io s\<rparr>)"

definition outsl :: "u16 \<Rightarrow> block \<Rightarrow> 'a mio_scheme \<Rightarrow> 'a mio_scheme" where
  "outsl port data s = s\<lparr>io := Outsl port data # io s\<rparr>"

definition insl :: "('s, 'b) world_scheme \<Rightarrow> u16 \<Rightarrow> 'a mio_scheme \<Rightarrow> block \<times> 'a mio_scheme" where
  "insl w port s = (w_insl w (io s) port, s\<lparr>io := Insl port # io s\<rparr>)"

definition mmio_write :: "u32 \<Rightarrow> u32 \<Rightarrow> 'a mio_scheme \<Rightarrow> 'a mio_scheme" where
  "mmio_write a v s = s\<lparr>io := Store a v # io s\<rparr>"

definition mmio_read :: "('s, 'b) world_scheme \<Rightarrow> u32 \<Rightarrow> 'a mio_scheme \<Rightarrow> u32 \<times> 'a mio_scheme" where
  "mmio_read w a s = (w_load w (io s) a, s\<lparr>io := Load a # io s\<rparr>)"

definition wrmsr :: "u32 \<Rightarrow> u64 \<Rightarrow> 'a mio_scheme \<Rightarrow> 'a mio_scheme" where
  "wrmsr msr v s = s\<lparr>io := Wrmsr msr v # io s\<rparr>"

text \<open>\<^verbatim>\<open>cpuid\<close> answers with \<^verbatim>\<open>eax\<close>, \<^verbatim>\<open>ebx\<close>, \<^verbatim>\<open>ecx\<close> and \<^verbatim>\<open>edx\<close>; leaves without a subleaf are asked with subleaf 0.\<close>

definition cpuid :: "('s, 'b) world_scheme \<Rightarrow> u32 \<Rightarrow> u32 \<times> u32 \<times> u32 \<times> u32" where
  "cpuid w info = w_cpuid w info 0"

definition rdtsc :: "('s, 'b) world_scheme \<Rightarrow> 'a mio_scheme \<Rightarrow> u64 \<times> 'a mio_scheme" where
  "rdtsc w s = (w_tsc w (io s), s\<lparr>io := Rdtsc # io s\<rparr>)"

text \<open>
  \<^verbatim>\<open>thread_sleep\<close> from the point of view of the thread that calls it: it gives up the CPU, others run,
  and it goes on.
\<close>

definition sleep_on ::
    "('a mthr_scheme, 'b) world_scheme \<Rightarrow> u32 \<Rightarrow> 'a mthr_scheme lock_ref \<Rightarrow> 'a mthr_scheme \<Rightarrow> 'a mthr_scheme outcome" where
  "sleep_on w chan lk s =
     andThen (get_curid s) (\<lambda>curid.
     andThen (thread_sleep chan lk s) (\<lambda>s.
     andThen (w_others w s) (\<lambda>s.
     thread_sleep_resume curid lk s)))"

end
