(* ===== verification/Console.thy ===== *)
theory Console
  imports Ports KString "HOL-Library.Char_ord"
begin

unbundle bit_operations_syntax

text \<open>
  The console: the text display (\<^verbatim>\<open>kern/dev/video.c\<close>), the serial line (\<^verbatim>\<open>kern/dev/serial.c\<close>), formatted
  output (\<^verbatim>\<open>kern/lib/printfmt.c\<close>, \<^verbatim>\<open>kern/lib/dprintf.c\<close>, \<^verbatim>\<open>kern/lib/debug.c\<close>), the keyboard
  (\<^verbatim>\<open>kern/dev/keyboard.c\<close>) and the input ring buffer with \<^verbatim>\<open>readline\<close> (\<^verbatim>\<open>kern/dev/console.c\<close>).
\<close>

section \<open>State\<close>

record video =
  crt_buf :: u32
  crt_pos :: u16
  active_console :: u32

record cons_t =
  cons_buf :: "u32 \<Rightarrow> u8"
  cons_rpos :: u32
  cons_wpos :: u32

record mcons = mio +
  addr_6845 :: u16
  terminal :: video
  serial_exists :: bool
  cons :: cons_t
  cons_lk :: spinlock
  linebuf :: "u32 \<Rightarrow> u8"
  kbd_shift :: u32
  debug_lk :: reentrantlock

section \<open>Text display (video.c)\<close>

abbreviation (input) CRT_COLS :: u16 where "CRT_COLS \<equiv> 80"
abbreviation (input) CRT_SIZE :: u16 where "CRT_SIZE \<equiv> 2000"
abbreviation (input) CGA_BUF :: u32 where "CGA_BUF \<equiv> 0xB8000"
abbreviation (input) CGA_BASE :: u16 where "CGA_BASE \<equiv> 0x3D4"
abbreviation (input) MONO_BUF :: u32 where "MONO_BUF \<equiv> 0xB0000"
abbreviation (input) MONO_BASE :: u16 where "MONO_BASE \<equiv> 0x3B4"

definition store16 :: "u32 \<Rightarrow> u16 \<Rightarrow> memory \<Rightarrow> memory" where
  "store16 a v m = m(a := ucast v, a + 1 := ucast (drop_bit 8 v))"

definition load16 :: "memory \<Rightarrow> u32 \<Rightarrow> u16" where
  "load16 m a = ucast (m a) OR push_bit 8 (ucast (m (a + 1)))"

text \<open>\<^verbatim>\<open>terminal.crt_buf[i] = v\<close>\<close>

definition crt_store :: "u16 \<Rightarrow> u16 \<Rightarrow> 'a mcons_scheme \<Rightarrow> 'a mcons_scheme" where
  "crt_store i v s = s\<lparr>mem := store16 (crt_buf (terminal s) + 2 * ucast i) v (mem s)\<rparr>"

definition crt_set_pos :: "u16 \<Rightarrow> 'a mcons_scheme \<Rightarrow> 'a mcons_scheme" where
  "crt_set_pos p s = s\<lparr>terminal := (terminal s)\<lparr>crt_pos := p\<rparr>\<rparr>"

text \<open>The part of \<^verbatim>\<open>video_putc\<close> after the switch: scrolling by one line and moving the cursor.\<close>

definition video_scroll :: "'a mcons_scheme \<Rightarrow> 'a mcons_scheme" where
  "video_scroll s =
     (if crt_pos (terminal s) \<ge> CRT_SIZE then
        let b = crt_buf (terminal s);
            s = s\<lparr>mem := memmove b (b + 2 * 80) ((2000 - 80) * 2) (mem s)\<rparr>;
            s = fold (\<lambda>i s. crt_store i (0x0700 OR 0x20) s) (map of_nat [1920..<2000]) s
        in crt_set_pos (crt_pos (terminal s) - CRT_COLS) s
      else s)"

definition video_cursor :: "'a mcons_scheme \<Rightarrow> 'a mcons_scheme" where
  "video_cursor s =
     (let a = addr_6845 s; p = crt_pos (terminal s);
          s = outb a 14 s;
          s = outb (a + 1) (ucast (drop_bit 8 p)) s;
          s = outb a 15 s
      in outb (a + 1) (ucast p) s)"

definition video_attr :: "u32 \<Rightarrow> u32" where
  "video_attr c = (if c AND NOT 0xFF = 0 then c OR 0x0700 else c)"

text \<open>\<^verbatim>\<open>video_putc\<close> of a character other than a tab, which is five spaces.\<close>

definition video_char :: "u32 \<Rightarrow> 'a mcons_scheme \<Rightarrow> 'a mcons_scheme" where
  "video_char c s =
     (let ch = c AND 0xff; p = crt_pos (terminal s) in
      if ch = 0x08 then
        if p > 0 then crt_store (p - 1) (ucast ((c AND NOT 0xff) OR 0x20)) (crt_set_pos (p - 1) s) else s
      else if ch = 0x0A then let p = p + CRT_COLS in crt_set_pos (p - p mod CRT_COLS) s
      else if ch = 0x0D then crt_set_pos (p - p mod CRT_COLS) s
      else crt_set_pos (p + 1) (crt_store p (ucast c) s))"

definition video_putc :: "u32 \<Rightarrow> 'a mcons_scheme \<Rightarrow> 'a mcons_scheme" where
  "video_putc c s =
     (let c = video_attr c;
          blank = (\<lambda>s. video_cursor (video_scroll (video_char (video_attr 0x20) s)));
          s = (if c AND 0xff = 0x09 then blank (blank (blank (blank (blank s)))) else video_char c s)
      in video_cursor (video_scroll s))"

definition video_set_cursor :: "u32 \<Rightarrow> u32 \<Rightarrow> 'a mcons_scheme \<Rightarrow> 'a mcons_scheme" where
  "video_set_cursor x y s = crt_set_pos (ucast (x * 80 + y)) s"

definition video_clear_screen :: "'a mcons_scheme \<Rightarrow> 'a mcons_scheme" where
  "video_clear_screen s = fold (\<lambda>i s. crt_store i 0x20 s) (map of_nat [0..<2000]) s"

section \<open>Serial line (serial.c)\<close>

abbreviation (input) COM1 :: u16 where "COM1 \<equiv> 0x3F8"
abbreviation (input) COM_LSR :: u16 where "COM_LSR \<equiv> 5"

definition serial_delay :: "('s, 'b) world_scheme \<Rightarrow> 'a mio_scheme \<Rightarrow> 'a mio_scheme" where
  "serial_delay w s = snd (inb w 0x84 (snd (inb w 0x84 (snd (inb w 0x84 (snd (inb w 0x84 s)))))))"

definition serial_proc_data :: "('s, 'b) world_scheme \<Rightarrow> 'a mio_scheme \<Rightarrow> (int \<times> 'a mio_scheme) outcome" where
  "serial_proc_data w s =
     (let (lsr, s) = inb w (COM1 + COM_LSR) s in
      if lsr AND 0x01 = 0 then Ret (-1, s)
      else let (c, s) = inb w COM1 s in Ret (uint c, s))"

definition serial_reformatnewline :: "u8 \<Rightarrow> u16 \<Rightarrow> 'a mio_scheme \<Rightarrow> bool \<times> 'a mio_scheme" where
  "serial_reformatnewline c p s = (if c = 0x0A then (True, outb p 0x0A (outb p 0x0D s)) else (False, s))"

definition serial_putc :: "('s, 'b) world_scheme \<Rightarrow> u8 \<Rightarrow> 'a mcons_scheme \<Rightarrow> 'a mcons_scheme outcome" where
  "serial_putc w c s =
     (if \<not> serial_exists s then Ret s
      else
        let (lsr, s) = inb w (COM1 + COM_LSR) s in
        andThen (whileM (\<lambda>(i, lsr, s). lsr AND 0x20 = 0 \<and> i < (12800::nat))
          (\<lambda>(i, lsr, s). let s = serial_delay w s; (lsr, s) = inb w (COM1 + COM_LSR) s in Ret (i + 1, lsr, s))
          (0, lsr, s)) (\<lambda>(_, _, s).
        let (done_nl, s) = serial_reformatnewline c COM1 s in
        Ret (if done_nl then s else outb COM1 c s)))"

definition serial_init :: "('s, 'b) world_scheme \<Rightarrow> 'a mcons_scheme \<Rightarrow> 'a mcons_scheme" where
  "serial_init w s =
     (let s = outb (COM1 + 1) 0 s;
          s = outb (COM1 + 3) 0x80 s;
          s = outb COM1 1 s;
          s = outb (COM1 + 1) 0 s;
          s = outb (COM1 + 3) 0x03 s;
          s = outb (COM1 + 2) 0xc7 s;
          s = outb (COM1 + 4) 0x0b s;
          (lsr, s) = inb w (COM1 + COM_LSR) s;
          s = s\<lparr>serial_exists := (lsr \<noteq> 0xFF)\<rparr>;
          (_, s) = inb w (COM1 + 2) s;
          (_, s) = inb w COM1 s
      in s)"

section \<open>Formatted output (printfmt.c)\<close>

text \<open>
  The arguments of a format are 32-bit integers, 64-bit integers or strings (a null pointer is
  \<open>None\<close>); reading an argument at another type is undefined. A C string is the list of its characters
  up to the null byte.
\<close>

datatype va_arg = VInt u32 | VLong u64 | VStr "string option"

text \<open>Characters are put one by one, into whatever \<^verbatim>\<open>putdat\<close> is.\<close>

primrec put_all :: "(char \<Rightarrow> 'd \<Rightarrow> 'd outcome) \<Rightarrow> string \<Rightarrow> 'd \<Rightarrow> 'd outcome" where
  "put_all putch [] d = Ret d"
| "put_all putch (c # cs) d = andThen (putch c d) (put_all putch cs)"

definition digit :: "u64 \<Rightarrow> char" where
  "digit n = ''0123456789abcdef'' ! unat n"

text \<open>
  The recursion of \<^verbatim>\<open>printnum\<close> ends for every base that the callers use, 10 and 16; it would not end for
  base 1, and base 0 divides by zero.
\<close>

function printnum :: "(char \<Rightarrow> 'd \<Rightarrow> 'd outcome) \<Rightarrow> u64 \<Rightarrow> u64 \<Rightarrow> int \<Rightarrow> char \<Rightarrow> 'd \<Rightarrow> 'd outcome" where
  "printnum putch num base width padc d =
     (if base < 2 then Undef
      else
        andThen
          (if num \<ge> base then printnum putch (num div base) base (width - 1) padc d
           else put_all putch (replicate (nat (width - 1)) padc) d) (\<lambda>d.
        putch (digit (num mod base)) d))"
  by pat_completeness auto

termination printnum
proof (relation "measure (\<lambda>(putch, num, base, width, padc, d). unat num)", simp, clarsimp)
  fix num base :: u64
  assume "\<not> base < 2" "base \<le> num"
  then have "2 \<le> unat base" "unat base \<le> unat num" by (auto simp: word_less_nat_alt word_le_nat_alt)
  then show "unat (num div base) < unat num" by (simp add: unat_div)
qed

declare printnum.simps [simp del]

record fspec =
  fs_padc :: char
  fs_width :: int
  fs_precision :: int
  fs_lflag :: nat
  fs_altflag :: bool

definition is_digit :: "char \<Rightarrow> bool" where
  "is_digit c \<longleftrightarrow> CHR ''0'' \<le> c \<and> c \<le> CHR ''9''"

primrec fmt_digits :: "int \<Rightarrow> string \<Rightarrow> int \<times> string" where
  "fmt_digits n [] = (n, [])"
| "fmt_digits n (c # cs) = (if is_digit c then fmt_digits (n * 10 + of_char c - 48) cs else (n, c # cs))"

lemma fmt_digits_length: "length (snd (fmt_digits n cs)) \<le> length cs"
  by (induction cs arbitrary: n) (auto simp: le_SucI)

text \<open>The label \<^verbatim>\<open>process_precision\<close>.\<close>

definition process_precision :: "int \<Rightarrow> fspec \<Rightarrow> fspec" where
  "process_precision p f =
     (if fs_width f < 0 then f\<lparr>fs_width := p, fs_precision := -1\<rparr> else f\<lparr>fs_precision := p\<rparr>)"

text \<open>
  From the label \<^verbatim>\<open>reswitch\<close> on, while the character is a flag: the flags read, the arguments left and the
  format from the conversion character on.
\<close>

function (sequential) fmt_spec :: "fspec \<Rightarrow> va_arg list \<Rightarrow> string \<Rightarrow> (fspec \<times> va_arg list \<times> string) outcome" where
  "fmt_spec f ap [] = Ret (f, ap, [])"
| "fmt_spec f ap (c # cs) =
     (if c = CHR ''-'' \<or> c = CHR ''0'' then fmt_spec (f\<lparr>fs_padc := c\<rparr>) ap cs
      else if is_digit c then
        let (n, rest) = fmt_digits (of_char c - 48) cs in fmt_spec (process_precision n f) ap rest
      else if c = CHR ''*'' then
        case ap of VInt n # ap \<Rightarrow> fmt_spec (process_precision (sint n) f) ap cs | _ \<Rightarrow> Undef
      else if c = CHR ''.'' then fmt_spec (if fs_width f < 0 then f\<lparr>fs_width := 0\<rparr> else f) ap cs
      else if c = CHR ''#'' then fmt_spec (f\<lparr>fs_altflag := True\<rparr>) ap cs
      else if c = CHR ''l'' then fmt_spec (f\<lparr>fs_lflag := fs_lflag f + 1\<rparr>) ap cs
      else Ret (f, ap, c # cs))"
  by pat_completeness auto

termination fmt_spec
  by (relation "measure (\<lambda>(f, ap, cs). length cs)") (auto simp: less_Suc_eq_le, metis fmt_digits_length snd_conv)

definition getuint :: "nat \<Rightarrow> va_arg list \<Rightarrow> (u64 \<times> va_arg list) outcome" where
  "getuint lflag ap =
     (case ap of
        VInt n # ap \<Rightarrow> if lflag \<ge> 2 then Undef else Ret (ucast n, ap)
      | VLong n # ap \<Rightarrow> if lflag \<ge> 2 then Ret (n, ap) else Undef
      | _ \<Rightarrow> Undef)"

definition getint :: "nat \<Rightarrow> va_arg list \<Rightarrow> (u64 \<times> va_arg list) outcome" where
  "getint lflag ap =
     (case ap of
        VInt n # ap \<Rightarrow> if lflag \<ge> 2 then Undef else Ret (scast n, ap)
      | VLong n # ap \<Rightarrow> if lflag \<ge> 2 then Ret (n, ap) else Undef
      | _ \<Rightarrow> Undef)"

text \<open>The conversion \<^verbatim>\<open>%s\<close>: what is printed of the string, with its padding.\<close>

definition fmt_string :: "fspec \<Rightarrow> string \<Rightarrow> string" where
  "fmt_string f p =
     (let len = (if fs_precision f < 0 then length p else min (length p) (nat (fs_precision f)));
          shown = map (\<lambda>c. if fs_altflag f \<and> (c < CHR '' '' \<or> CHR ''~'' < c) then CHR ''?'' else c) (take len p)
      in if fs_width f > 0 \<and> fs_padc f \<noteq> CHR ''-''
         then replicate (nat (fs_width f - int len)) (fs_padc f) @ shown
         else shown @ replicate (nat (fs_width f - int len)) (CHR '' ''))"

text \<open>
  One conversion: the character \<open>c\<close> that ends the specification. An unknown one prints the percent sign,
  and the loop goes on with the character after it (\<open>None\<close>). The case \<^verbatim>\<open>%o\<close> falls through to \<^verbatim>\<open>%p\<close>.
\<close>

definition fmt_conv ::
    "(char \<Rightarrow> 'd \<Rightarrow> 'd outcome) \<Rightarrow> fspec \<Rightarrow> char \<Rightarrow> va_arg list \<Rightarrow> 'd \<Rightarrow> (va_arg list option \<times> 'd) outcome" where
  "fmt_conv putch f c ap d =
     (let number = (\<lambda>num base ap d.
        andThen (printnum putch num base (fs_width f) (fs_padc f) d) (\<lambda>d. Ret (Some ap, d))) in
      if c = CHR ''c'' then
        case ap of VInt n # ap \<Rightarrow> andThen (putch (char_of (unat n)) d) (\<lambda>d. Ret (Some ap, d)) | _ \<Rightarrow> Undef
      else if c = CHR ''s'' then
        case ap of
          VStr p # ap \<Rightarrow>
            andThen (put_all putch (fmt_string f (case p of None \<Rightarrow> ''(null)'' | Some q \<Rightarrow> q)) d) (\<lambda>d. Ret (Some ap, d))
        | _ \<Rightarrow> Undef
      else if c = CHR ''d'' then
        andThen (getint (fs_lflag f) ap) (\<lambda>(num, ap).
        if num <s 0 then andThen (putch (CHR ''-'') d) (number (- num) 10 ap) else number num 10 ap d)
      else if c = CHR ''u'' then andThen (getuint (fs_lflag f) ap) (\<lambda>(num, ap). number num 10 ap d)
      else if c = CHR ''o'' \<or> c = CHR ''p'' then
        case ap of VInt n # ap \<Rightarrow> andThen (put_all putch ''0x'' d) (number (ucast n) 16 ap) | _ \<Rightarrow> Undef
      else if c = CHR ''x'' then andThen (getuint (fs_lflag f) ap) (\<lambda>(num, ap). number num 16 ap d)
      else if c = CHR ''%'' then andThen (putch c d) (\<lambda>d. Ret (Some ap, d))
      else andThen (putch (CHR ''%'') d) (\<lambda>d. Ret (None, d)))"

lemma fmt_spec_length: "fmt_spec f ap cs = Ret (f', ap', rest) \<Longrightarrow> length rest \<le> length cs"
proof (induction f ap cs rule: fmt_spec.induct)
  case (2 f ap c cs)
  have "length (snd (fmt_digits n cs)) \<le> length cs" for n by (rule fmt_digits_length)
  with 2 show ?case
    by (auto split: if_splits prod.splits list.splits va_arg.splits) (metis le_Suc_eq le_trans snd_conv)+
qed simp

definition fspec_init :: fspec where
  "fspec_init = \<lparr>fs_padc = CHR '' '', fs_width = -1, fs_precision = -1, fs_lflag = 0, fs_altflag = False\<rparr>"

text \<open>
  The rest of the format and the arguments are arguments of the recursion. A format that ends inside a
  specification prints the percent sign and what follows it.
\<close>

function vprintfmt :: "(char \<Rightarrow> 'd \<Rightarrow> 'd outcome) \<Rightarrow> 'd \<Rightarrow> string \<Rightarrow> va_arg list \<Rightarrow> 'd outcome" where
  "vprintfmt putch d [] ap = Ret d"
| "vprintfmt putch d (c # cs) ap =
     (if c \<noteq> CHR ''%'' then andThen (putch c d) (\<lambda>d. vprintfmt putch d cs ap)
      else
        andThen (fmt_spec fspec_init ap cs) (\<lambda>(f, ap', rest).
        case rest of
          [] \<Rightarrow> andThen (putch (CHR ''%'') d) (\<lambda>d. vprintfmt putch d cs ap')
        | conv # rest' \<Rightarrow>
            andThen (fmt_conv putch f conv ap' d) (\<lambda>(r, d).
            case r of
              None \<Rightarrow> vprintfmt putch d cs ap'
            | Some ap'' \<Rightarrow> vprintfmt putch d rest' ap'')))"
  by pat_completeness auto

termination vprintfmt
  by (relation "measure (\<lambda>(putch, d, cs, ap). length cs)") (auto dest!: fmt_spec_length)

section \<open>Kernel messages (dprintf.c, debug.c)\<close>

definition cons_putc :: "('s, 'b) world_scheme \<Rightarrow> u8 \<Rightarrow> 'a mcons_scheme \<Rightarrow> 'a mcons_scheme outcome" where
  "cons_putc w c s = andThen (serial_putc w c s) (\<lambda>s. Ret (video_putc (scast c) s))"

record dprintbuf =
  dp_idx :: u32
  dp_cnt :: u32
  dp_buf :: "u32 \<Rightarrow> u8"

definition cputs :: "('s, 'b) world_scheme \<Rightarrow> (u32 \<Rightarrow> u8) \<Rightarrow> 'a mcons_scheme \<Rightarrow> 'a mcons_scheme outcome" where
  "cputs w str s =
     andThen (whileM (\<lambda>(i, s). str i \<noteq> 0) (\<lambda>(i, s). andThen (cons_putc w (str i) s) (\<lambda>s. Ret (i + 1, s))) (0, s))
       (\<lambda>(_, s). Ret s)"

abbreviation (input) CONSOLE_BUFFER_SIZE :: u32 where "CONSOLE_BUFFER_SIZE \<equiv> 512"

definition putch ::
    "('s, 'b) world_scheme \<Rightarrow> char \<Rightarrow> dprintbuf \<times> 'a mcons_scheme \<Rightarrow> (dprintbuf \<times> 'a mcons_scheme) outcome" where
  "putch w ch = (\<lambda>(b, s).
     bounded CONSOLE_BUFFER_SIZE (dp_idx b) (
     let b = b\<lparr>dp_buf := (dp_buf b)(dp_idx b := of_char ch), dp_idx := dp_idx b + 1\<rparr> in
     if dp_idx b = CONSOLE_BUFFER_SIZE - 1 then
       let b = b\<lparr>dp_buf := (dp_buf b)(dp_idx b := 0)\<rparr> in
       andThen (cputs w (dp_buf b) s) (\<lambda>s. Ret (b\<lparr>dp_idx := 0, dp_cnt := dp_cnt b + 1\<rparr>, s))
     else Ret (b\<lparr>dp_cnt := dp_cnt b + 1\<rparr>, s)))"

definition debug_init :: "'a mcons_scheme \<Rightarrow> 'a mcons_scheme" where
  "debug_init s = s\<lparr>debug_lk := reentrantlock_init (debug_lk s)\<rparr>"

definition debug_lock :: "'a mcons_scheme \<Rightarrow> 'a mcons_scheme outcome" where
  "debug_lock s = andThen (reentrantlock_acquire s (debug_lk s)) (\<lambda>l. Ret (s\<lparr>debug_lk := l\<rparr>))"

definition debug_unlock :: "'a mcons_scheme \<Rightarrow> 'a mcons_scheme" where
  "debug_unlock s = s\<lparr>debug_lk := reentrantlock_release (debug_lk s)\<rparr>"

text \<open>The buffer is on the stack; what it holds before the first character is never read.\<close>

definition vdprintf ::
    "('s, 'b) world_scheme \<Rightarrow> string \<Rightarrow> va_arg list \<Rightarrow> 'a mcons_scheme \<Rightarrow> (u32 \<times> 'a mcons_scheme) outcome" where
  "vdprintf w fmt ap s =
     andThen (debug_lock s) (\<lambda>s.
     andThen (vprintfmt (putch w) (\<lparr>dp_idx = 0, dp_cnt = 0, dp_buf = (\<lambda>_. 0)\<rparr>, s) fmt ap) (\<lambda>(b, s).
     andThen (cputs w ((dp_buf b)(dp_idx b := 0)) s) (\<lambda>s.
     Ret (dp_cnt b, debug_unlock s))))"

definition dprintf ::
    "('s, 'b) world_scheme \<Rightarrow> string \<Rightarrow> va_arg list \<Rightarrow> 'a mcons_scheme \<Rightarrow> (u32 \<times> 'a mcons_scheme) outcome" where
  "dprintf w fmt ap s = vdprintf w fmt ap s"

definition debug_info :: "('s, 'b) world_scheme \<Rightarrow> string \<Rightarrow> va_arg list \<Rightarrow> 'a mcons_scheme \<Rightarrow> 'a mcons_scheme outcome" where
  "debug_info w fmt ap s =
     andThen (debug_lock s) (\<lambda>s.
     andThen (vdprintf w fmt ap s) (\<lambda>(_, s).
     Ret (debug_unlock s)))"

definition debug_msg ::
    "string \<Rightarrow> ('s, 'b) world_scheme \<Rightarrow> string \<Rightarrow> u32 \<Rightarrow> string \<Rightarrow> va_arg list \<Rightarrow> 'a mcons_scheme \<Rightarrow> 'a mcons_scheme outcome" where
  "debug_msg tag w file_name line fmt ap s =
     andThen (debug_lock s) (\<lambda>s.
     andThen (dprintf w (tag @ '' %s:%d: '') [VStr (Some file_name), VInt line] s) (\<lambda>(_, s).
     andThen (vdprintf w fmt ap s) (\<lambda>(_, s).
     Ret (debug_unlock s))))"

definition debug_normal ::
    "('s, 'b) world_scheme \<Rightarrow> string \<Rightarrow> u32 \<Rightarrow> string \<Rightarrow> va_arg list \<Rightarrow> 'a mcons_scheme \<Rightarrow> 'a mcons_scheme outcome" where
  "debug_normal w file_name line fmt ap s = debug_msg ''[D]'' w file_name line fmt ap s"

definition debug_warn ::
    "('s, 'b) world_scheme \<Rightarrow> string \<Rightarrow> u32 \<Rightarrow> string \<Rightarrow> va_arg list \<Rightarrow> 'a mcons_scheme \<Rightarrow> 'a mcons_scheme outcome" where
  "debug_warn w file_name line fmt ap s = debug_msg ''[W]'' w file_name line fmt ap s"

text \<open>The saved return addresses of the callers, at most ten, read through the chain of frame pointers.\<close>

primrec debug_trace :: "nat \<Rightarrow> u32 \<Rightarrow> memory \<Rightarrow> u32 list" where
  "debug_trace 0 frame m = []"
| "debug_trace (Suc n) frame m =
     (if frame \<noteq> 0 then load32 m (frame + 4) # debug_trace n (load32 m frame) m else replicate (Suc n) 0)"

section \<open>Keyboard (keyboard.c)\<close>

text \<open>A table of 256 codes: the first ones listed, some given by index, the others zero.\<close>

definition key_table :: "u8 list \<Rightarrow> (u8 \<times> u8) list \<Rightarrow> u8 \<Rightarrow> u8" where
  "key_table xs ys i =
     (case map_of ys i of Some v \<Rightarrow> v | None \<Rightarrow> if unat i < length xs then xs ! unat i else 0)"

abbreviation (input) KBD_SHIFT :: u32 where "KBD_SHIFT \<equiv> 1"
abbreviation (input) KBD_CTL :: u32 where "KBD_CTL \<equiv> 2"
abbreviation (input) KBD_ALT :: u32 where "KBD_ALT \<equiv> 4"
abbreviation (input) CAPSLOCK :: u32 where "CAPSLOCK \<equiv> 8"
abbreviation (input) E0ESC :: u32 where "E0ESC \<equiv> 64"
abbreviation (input) KEY_DEL :: u8 where "KEY_DEL \<equiv> 0xE9"

definition shiftcode :: "u8 \<Rightarrow> u8" where
  "shiftcode = key_table [] [(0x1D, 2), (0x2A, 1), (0x36, 1), (0x38, 4), (0x9D, 2), (0xB8, 4)]"

definition togglecode :: "u8 \<Rightarrow> u8" where
  "togglecode = key_table [] [(0x3A, 8), (0x45, 16), (0x46, 32)]"

definition normalmap :: "u8 \<Rightarrow> u8" where
  "normalmap = key_table
    [0, 27, 49, 50, 51, 52, 53, 54, 55, 56, 57, 48, 45, 61, 8, 9,
     113, 119, 101, 114, 116, 121, 117, 105, 111, 112, 91, 93, 10, 0, 97, 115,
     100, 102, 103, 104, 106, 107, 108, 59, 39, 96, 0, 92, 122, 120, 99, 118,
     98, 110, 109, 44, 46, 47, 0, 42, 0, 32, 0, 0, 0, 0, 0, 0,
     0, 0, 0, 0, 0, 0, 0, 55, 56, 57, 45, 52, 53, 54, 43, 49,
     50, 51, 48, 46, 0, 0, 0, 0]
    [(0xC7, 0xE0), (0x9C, 0xA), (0xB5, 0x2F), (0xC8, 0xE2), (0xC9, 0xE6), (0xCB, 0xE4), (0xCD, 0xE5), (0xCF, 0xE1), (0xD0, 0xE3), (0xD1, 0xE7), (0xD2, 0xE8), (0xD3, 0xE9)]"

definition shiftmap :: "u8 \<Rightarrow> u8" where
  "shiftmap = key_table
    [0, 27, 33, 64, 35, 36, 37, 94, 38, 42, 40, 41, 95, 43, 8, 9,
     81, 87, 69, 82, 84, 89, 85, 73, 79, 80, 123, 125, 10, 0, 65, 83,
     68, 70, 71, 72, 74, 75, 76, 58, 34, 126, 0, 124, 90, 88, 67, 86,
     66, 78, 77, 60, 62, 63, 0, 42, 0, 32, 0, 0, 0, 0, 0, 0,
     0, 0, 0, 0, 0, 0, 0, 55, 56, 57, 45, 52, 53, 54, 43, 49,
     50, 51, 48, 46, 0, 0, 0, 0]
    [(0xC7, 0xE0), (0x9C, 0xA), (0xB5, 0x2F), (0xC8, 0xE2), (0xC9, 0xE6), (0xCB, 0xE4), (0xCD, 0xE5), (0xCF, 0xE1), (0xD0, 0xE3), (0xD1, 0xE7), (0xD2, 0xE8), (0xD3, 0xE9)]"

definition ctlmap :: "u8 \<Rightarrow> u8" where
  "ctlmap = key_table
    [0, 0, 0, 0, 0, 0, 0, 0, 0, 0, 0, 0, 0, 0, 0, 0,
     17, 23, 5, 18, 20, 25, 21, 9, 15, 16, 0, 0, 13, 0, 1, 19,
     4, 6, 7, 8, 10, 11, 12, 0, 0, 0, 0, 28, 26, 24, 3, 22,
     2, 14, 13, 0, 0, 239, 0, 0]
    [(0x97, 0xE0), (0xB5, 0xEF), (0xC8, 0xE2), (0xC9, 0xE6), (0xCB, 0xE4), (0xCD, 0xE5), (0xCF, 0xE1), (0xD0, 0xE3), (0xD1, 0xE7), (0xD2, 0xE8), (0xD3, 0xE9)]"

definition charcode :: "u32 \<Rightarrow> u8 \<Rightarrow> u8" where
  "charcode i = (if i = 0 then normalmap else if i = 1 then shiftmap else ctlmap)"

text \<open>What a scan code that is not a release or an escape does: the new shift state and the character.\<close>

definition kbd_press :: "u32 \<Rightarrow> u8 \<Rightarrow> u32 \<times> u8" where
  "kbd_press shift data =
     (let shift = (shift OR ucast (shiftcode data)) XOR ucast (togglecode data);
          c = charcode (shift AND (KBD_CTL OR KBD_SHIFT)) data;
          c = (if shift AND CAPSLOCK \<noteq> 0 then
                 if 0x61 \<le> c \<and> c \<le> 0x7A then c - 0x20
                 else if 0x41 \<le> c \<and> c \<le> 0x5A then c + 0x20 else c
               else c)
      in (shift, c))"

definition kbd_proc_data :: "('s, 'b) world_scheme \<Rightarrow> 'a mcons_scheme \<Rightarrow> (int \<times> 'a mcons_scheme) outcome" where
  "kbd_proc_data w s =
     (let (st, s) = inb w 0x64 s in
      if st AND 0x01 = 0 then Ret (-1, s)
      else
        let (data, s) = inb w 0x60 s; shift = kbd_shift s in
        if data = 0xE0 then Ret (0, s\<lparr>kbd_shift := shift OR E0ESC\<rparr>)
        else if data AND 0x80 \<noteq> 0 then
          let data = (if shift AND E0ESC \<noteq> 0 then data else data AND 0x7F) in
          Ret (0, s\<lparr>kbd_shift := shift AND NOT (ucast (shiftcode data) OR E0ESC)\<rparr>)
        else
          let (data, shift) =
                (if shift AND E0ESC \<noteq> 0 then (data OR 0x80, shift AND NOT E0ESC) else (data, shift));
              (shift, c) = kbd_press shift data;
              s = s\<lparr>kbd_shift := shift\<rparr>
          in
          if NOT shift AND (KBD_CTL OR KBD_ALT) = 0 \<and> c = KEY_DEL then
            andThen (dprintf w (''Rebooting!'' @ [CHR 0x0A]) [] s) (\<lambda>(_, s).
            Ret (uint c, outb 0x92 0x3 s))
          else Ret (uint c, s))"

section \<open>Start of the display (video.c)\<close>

text \<open>
  The probe writes a pattern to the colour display and reads it back, which tells whether there is such
  a display (\<open>w_cga\<close>); the word is restored. The message comes before the display has its buffer: in the cleared state of the
  start, where \<^verbatim>\<open>crt_buf\<close> is 0, its characters go to the first bytes of physical memory.
\<close>

definition video_init :: "('s, 'b) world_scheme \<Rightarrow> 'a mcons_scheme \<Rightarrow> 'a mcons_scheme outcome" where
  "video_init w s =
     (let (cp, base) = (if w_cga w then (CGA_BUF, CGA_BASE) else (MONO_BUF, MONO_BASE));
          s = s\<lparr>addr_6845 := base\<rparr> in
      andThen (dprintf w (''addr_6845:%x'' @ [CHR 0x0A]) [VInt (ucast base)] s) (\<lambda>(_, s).
      let s = outb base 14 s;
          (hi, s) = inb w (base + 1) s;
          s = outb base 15 s;
          (lo, s) = inb w (base + 1) s
      in Ret (s\<lparr>terminal := \<lparr>crt_buf = cp, crt_pos = push_bit 8 (ucast hi) OR ucast lo, active_console = 0\<rparr>\<rparr>)))"

section \<open>Input (console.c)\<close>

definition cons_acquire :: "'a mcons_scheme \<Rightarrow> 'a mcons_scheme outcome" where
  "cons_acquire s = andThen (spinlock_acquire s (cons_lk s)) (\<lambda>l. Ret (s\<lparr>cons_lk := l\<rparr>))"

definition cons_release :: "'a mcons_scheme \<Rightarrow> 'a mcons_scheme" where
  "cons_release s = s\<lparr>cons_lk := spinlock_release (cons_lk s)\<rparr>"

definition cons_init :: "('s, 'b) world_scheme \<Rightarrow> 'a mcons_scheme \<Rightarrow> 'a mcons_scheme outcome" where
  "cons_init w s =
     (let s = s\<lparr>cons := \<lparr>cons_buf = (\<lambda>_. 0), cons_rpos = 0, cons_wpos = 0\<rparr>\<rparr> in
      andThen (video_init w (serial_init w s)) (\<lambda>s.
      Ret (s\<lparr>cons_lk := spinlock_init (cons_lk s)\<rparr>)))"

text \<open>One character into the ring buffer.\<close>

definition cons_push :: "u8 \<Rightarrow> cons_t \<Rightarrow> cons_t outcome" where
  "cons_push c q =
     bounded CONSOLE_BUFFER_SIZE (cons_wpos q) (
     let q = q\<lparr>cons_buf := (cons_buf q)(cons_wpos q := c), cons_wpos := cons_wpos q + 1\<rparr> in
     Ret (if cons_wpos q = CONSOLE_BUFFER_SIZE then q\<lparr>cons_wpos := 0\<rparr> else q))"

definition cons_intr ::
    "('a mcons_scheme \<Rightarrow> (int \<times> 'a mcons_scheme) outcome) \<Rightarrow> 'a mcons_scheme \<Rightarrow> 'a mcons_scheme outcome" where
  "cons_intr proc_data s =
     andThen (cons_acquire s) (\<lambda>s.
     andThen (proc_data s) (\<lambda>cs.
     andThen (whileM (\<lambda>(c, s). c \<noteq> -1)
       (\<lambda>(c, s). if c = 0 then proc_data s
          else andThen (cons_push (word_of_int c) (cons s)) (\<lambda>q. proc_data (s\<lparr>cons := q\<rparr>))) cs) (\<lambda>(_, s).
     Ret (cons_release s))))"

definition serial_intr :: "('s, 'b) world_scheme \<Rightarrow> 'a mcons_scheme \<Rightarrow> 'a mcons_scheme outcome" where
  "serial_intr w s = (if serial_exists s then cons_intr (serial_proc_data w) s else Ret s)"

definition serial_intenable :: "('s, 'b) world_scheme \<Rightarrow> 'a mcons_scheme \<Rightarrow> 'a mcons_scheme outcome" where
  "serial_intenable w s = (if serial_exists s then serial_intr w (outb (COM1 + 1) 1 s) else Ret s)"

definition keyboard_intr :: "('s, 'b) world_scheme \<Rightarrow> 'a mcons_scheme \<Rightarrow> 'a mcons_scheme outcome" where
  "keyboard_intr w s = cons_intr (kbd_proc_data w) s"

text \<open>One character out of the ring buffer, or zero.\<close>

definition cons_pop :: "cons_t \<Rightarrow> (u8 \<times> cons_t) outcome" where
  "cons_pop q =
     (if cons_rpos q \<noteq> cons_wpos q then
        bounded CONSOLE_BUFFER_SIZE (cons_rpos q) (
        let c = cons_buf q (cons_rpos q); q = q\<lparr>cons_rpos := cons_rpos q + 1\<rparr> in
        Ret (c, if cons_rpos q = CONSOLE_BUFFER_SIZE then q\<lparr>cons_rpos := 0\<rparr> else q))
      else Ret (0, q))"

definition cons_getc :: "('s, 'b) world_scheme \<Rightarrow> 'a mcons_scheme \<Rightarrow> (u8 \<times> 'a mcons_scheme) outcome" where
  "cons_getc w s =
     andThen (serial_intr w s) (\<lambda>s.
     andThen (keyboard_intr w s) (\<lambda>s.
     andThen (cons_acquire s) (\<lambda>s.
     andThen (cons_pop (cons s)) (\<lambda>(c, q).
     Ret (c, cons_release (s\<lparr>cons := q\<rparr>))))))"

definition getchar :: "('s, 'b) world_scheme \<Rightarrow> 'a mcons_scheme \<Rightarrow> (u8 \<times> 'a mcons_scheme) outcome" where
  "getchar w s =
     andThen (cons_getc w s) (\<lambda>cs.
     whileM (\<lambda>(c, s). c = 0) (\<lambda>(c, s). cons_getc w s) cs)"

definition putchar :: "('s, 'b) world_scheme \<Rightarrow> u8 \<Rightarrow> 'a mcons_scheme \<Rightarrow> 'a mcons_scheme outcome" where
  "putchar w c s = cons_putc w c s"

abbreviation (input) BUFLEN :: u32 where "BUFLEN \<equiv> 1024"

text \<open>
  One round of the loop of \<^verbatim>\<open>readline\<close> on the character read; \<^verbatim>\<open>char\<close> is signed. The result is the line
  (\<open>Some True\<close>), an error (\<open>Some False\<close>) or to go on.
\<close>

definition readline_step ::
    "('s, 'b) world_scheme \<Rightarrow> u8 \<Rightarrow> u32 \<Rightarrow> 'a mcons_scheme \<Rightarrow> (bool option \<times> u32 \<times> 'a mcons_scheme) outcome" where
  "readline_step w c i s =
     (if c <s 0 then
        andThen (dprintf w (''read error: %e'' @ [CHR 0x0A]) [VInt (scast c)] s) (\<lambda>(_, s). Ret (Some False, i, s))
      else if (c = 0x08 \<or> c = 0x7F) \<and> 0 <s i then
        andThen (putchar w 0x08 s) (\<lambda>s. Ret (None, i - 1, s))
      else if 0x20 \<le>s c \<and> i <s BUFLEN - 1 then
        andThen (putchar w c s) (\<lambda>s. Ret (None, i + 1, s\<lparr>linebuf := (linebuf s)(i := c)\<rparr>))
      else if c = 0x0A \<or> c = 0x0D then
        andThen (putchar w 0x0A s) (\<lambda>s. Ret (Some True, i, s\<lparr>linebuf := (linebuf s)(i := 0)\<rparr>))
      else Ret (None, i, s))"

definition readline :: "('s, 'b) world_scheme \<Rightarrow> string option \<Rightarrow> 'a mcons_scheme \<Rightarrow> (bool \<times> 'a mcons_scheme) outcome" where
  "readline w prompt s =
     andThen (case prompt of None \<Rightarrow> Ret s | Some p \<Rightarrow>
       andThen (dprintf w ''%s'' [VStr (Some p)] s) (\<lambda>(_, s). Ret s)) (\<lambda>s.
     andThen (whileM (\<lambda>(r, i, s). r = None)
       (\<lambda>(r, i, s). andThen (getchar w s) (\<lambda>(c, s). readline_step w c i s)) (None, 0, s)) (\<lambda>(r, _, s).
     Ret (r = Some True, s)))"

end
