(* ===== verification/Interrupts.thy ===== *)
theory Interrupts
  imports Console
begin

unbundle bit_operations_syntax

text \<open>
  Interrupt controllers and timers: the 8259A (\<^verbatim>\<open>kern/dev/pic.c\<close>, \<^verbatim>\<open>kern/dev/disk/picirq.c\<close>), the I/O APIC
  (\<^verbatim>\<open>kern/dev/ioapic.c\<close>, \<^verbatim>\<open>kern/dev/disk/ioapic.c\<close>), the local APIC (\<^verbatim>\<open>kern/dev/lapic.c\<close>), the timer and
  the time-stamp counter (\<^verbatim>\<open>kern/dev/timer.c\<close>, \<^verbatim>\<open>kern/dev/tsc.c\<close>, \<^verbatim>\<open>kern/dev/kvm.c\<close>), the interrupt
  descriptor table (\<^verbatim>\<open>kern/dev/intr.c\<close>) and the CPU numbering that \<^verbatim>\<open>kern/dev/pcpu_mp.c\<close> keeps.
\<close>

section \<open>State\<close>

record gatedesc =
  gd_off_15_0 :: u16
  gd_ss :: u16
  gd_args :: "5 word"
  gd_rsv1 :: "3 word"
  gd_type :: "4 word"
  gd_s :: "1 word"
  gd_dpl :: "2 word"
  gd_p :: "1 word"
  gd_off_31_16 :: u16

text \<open>
  What \<^verbatim>\<open>pcpu_mp.c\<close> keeps about a processor, \<^verbatim>\<open>kern/dev/pcpu_mp_intro.h\<close>; the twelve characters of the vendor
  are the three words that \<^verbatim>\<open>cpuid\<close> returns.
\<close>

datatype cpu_vendor = UNKNOWN_CPU | INTEL | AMD

record pcpuinfo =
  pi_lapicid :: u32
  pi_bsp :: bool
  pi_cpuid_high :: u32
  pi_vendor :: "u32 \<times> u32 \<times> u32"
  pi_cpu_vendor :: cpu_vendor
  pi_family :: u8
  pi_model :: u8
  pi_step :: u8
  pi_ext_family :: u8
  pi_ext_model :: u8
  pi_brand_idx :: u8
  pi_clflush_size :: u8
  pi_max_cpu_id :: u8
  pi_apic_id :: u8
  pi_feature1 :: u32
  pi_feature2 :: u32
  pi_l1_cache_size :: u32
  pi_l1_cache_line_size :: u32
  pi_cpuid_exthigh :: u32

text \<open>
  The two copies of \<^verbatim>\<open>irqmask\<close> are static variables of \<^verbatim>\<open>pic.c\<close> and \<^verbatim>\<open>picirq.c\<close>; \<open>disk_ioapic\<close> is the
  pointer \<^verbatim>\<open>ioapic\<close> of \<^verbatim>\<open>disk/ioapic.c\<close>.
\<close>

record mintr = mcons +
  irqmask :: u16
  pic_inited :: bool
  lapic :: u32
  ioapics :: "u32 \<Rightarrow> u32"
  ioapicid :: "u32 \<Rightarrow> u8"
  gsi :: "u32 \<Rightarrow> u32"
  ioapic_num :: u32
  disk_irqmask :: u16
  disk_ioapic :: u32
  using_apic :: bool
  idt :: "u8 \<Rightarrow> gatedesc"
  idt_loaded :: bool
  tsc_per_ms :: u64
  ncpu :: u32
  ismp :: bool
  mp_inited :: bool
  arch_info :: "u32 \<Rightarrow> pcpuinfo"

abbreviation (input) T_IRQ0 :: u32 where "T_IRQ0 \<equiv> 32"
abbreviation (input) IRQ_TIMER :: u32 where "IRQ_TIMER \<equiv> 0"
abbreviation (input) IRQ_KBD :: u32 where "IRQ_KBD \<equiv> 1"
abbreviation (input) IRQ_SERIAL13 :: u32 where "IRQ_SERIAL13 \<equiv> 4"
abbreviation (input) IRQ_SPURIOUS :: u32 where "IRQ_SPURIOUS \<equiv> 7"
abbreviation (input) IRQ_IDE1 :: u32 where "IRQ_IDE1 \<equiv> 14"
abbreviation (input) IRQ_IDE2 :: u32 where "IRQ_IDE2 \<equiv> 15"
abbreviation (input) T_SYSCALL :: u32 where "T_SYSCALL \<equiv> 48"

section \<open>8259A (pic.c, disk/picirq.c)\<close>

definition pic_init :: "'a mintr_scheme \<Rightarrow> 'a mintr_scheme" where
  "pic_init s =
     (if pic_inited s then s
      else
        let s = s\<lparr>pic_inited := True\<rparr>;
            s = outb 0x21 0xff s;
            s = outb 0xA1 0xff s;
            s = outb 0x20 0x11 s;
            s = outb 0x21 32 s;
            s = outb 0x21 4 s;
            s = outb 0x21 0x1 s;
            s = outb 0xA0 0x11 s;
            s = outb 0xA1 40 s;
            s = outb 0xA1 2 s;
            s = outb 0xA1 0x01 s;
            s = outb 0x20 0x68 s;
            s = outb 0x20 0x0a s;
            s = outb 0xA0 0x68 s;
            s = outb 0xA0 0x0a s;
            s = outb 0x21 0xFF s
        in outb 0xA1 0xFF s)"

definition pic_setmask :: "u16 \<Rightarrow> 'a mintr_scheme \<Rightarrow> 'a mintr_scheme" where
  "pic_setmask m s = outb 0xA1 (ucast (drop_bit 8 m)) (outb 0x21 (ucast m) (s\<lparr>irqmask := m\<rparr>))"

definition pic_enable :: "u32 \<Rightarrow> 'a mintr_scheme \<Rightarrow> 'a mintr_scheme" where
  "pic_enable irq s = pic_setmask (irqmask s AND NOT (push_bit (unat irq) 1)) s"

definition pic_eoi :: "'a mio_scheme \<Rightarrow> 'a mio_scheme" where
  "pic_eoi s = outb 0xA0 0x20 (outb 0x20 0x20 s)"

definition pic_reset :: "'a mio_scheme \<Rightarrow> 'a mio_scheme" where
  "pic_reset s =
     (let s = outb 0x21 0x00 s;
          s = outb 0xA1 0x00 s;
          s = outb 0x20 0x11 s;
          s = outb 0x21 32 s;
          s = outb 0x21 4 s;
          s = outb 0x21 0x3 s;
          s = outb 0xA0 0x11 s;
          s = outb 0xA1 40 s;
          s = outb 0xA1 2 s;
          s = outb 0xA1 0x01 s;
          s = outb 0x20 0x68 s;
          s = outb 0x20 0x0a s;
          s = outb 0xA0 0x68 s
      in outb 0xA0 0x0a s)"

definition picsetmask :: "u16 \<Rightarrow> 'a mintr_scheme \<Rightarrow> 'a mintr_scheme" where
  "picsetmask m s = outb 0xA1 (ucast (drop_bit 8 m)) (outb 0x21 (ucast m) (s\<lparr>disk_irqmask := m\<rparr>))"

definition picenable :: "u32 \<Rightarrow> 'a mintr_scheme \<Rightarrow> 'a mintr_scheme" where
  "picenable irq s = picsetmask (disk_irqmask s AND NOT (push_bit (unat irq) 1)) s"

definition picinit :: "'a mintr_scheme \<Rightarrow> 'a mintr_scheme" where
  "picinit s =
     (let s = outb 0x21 0xFF s;
          s = outb 0xA1 0xFF s;
          s = outb 0x20 0x11 s;
          s = outb 0x21 32 s;
          s = outb 0x21 4 s;
          s = outb 0x21 0x3 s;
          s = outb 0xA0 0x11 s;
          s = outb 0xA1 40 s;
          s = outb 0xA1 2 s;
          s = outb 0xA1 0x3 s;
          s = outb 0x20 0x68 s;
          s = outb 0x20 0x0a s;
          s = outb 0xA0 0x68 s;
          s = outb 0xA0 0x0a s
      in if disk_irqmask s \<noteq> 0xFFFF then picsetmask (disk_irqmask s) s else s)"

section \<open>I/O APIC (ioapic.c, disk/ioapic.c)\<close>

text \<open>The registers are selected by a word at the base address and read or written at offset 16.\<close>

definition ioapic_read :: "('s, 'b) world_scheme \<Rightarrow> u32 \<Rightarrow> u32 \<Rightarrow> 'a mio_scheme \<Rightarrow> u32 \<times> 'a mio_scheme" where
  "ioapic_read w base reg s = mmio_read w (base + 16) (mmio_write base reg s)"

definition ioapic_write :: "u32 \<Rightarrow> u32 \<Rightarrow> u32 \<Rightarrow> 'a mio_scheme \<Rightarrow> 'a mio_scheme" where
  "ioapic_write base reg data s = mmio_write (base + 16) data (mmio_write base reg s)"

definition ioapic_register :: "u32 \<Rightarrow> u8 \<Rightarrow> u32 \<Rightarrow> 'a mintr_scheme \<Rightarrow> 'a mintr_scheme" where
  "ioapic_register addr id' g s =
     (if 16 \<le>s ioapic_num s then s
      else
        let n = ioapic_num s in
        s\<lparr>ioapics := (ioapics s)(n := addr), ioapicid := (ioapicid s)(n := id'), gsi := (gsi s)(n := g),
          ioapic_num := n + 1\<rparr>)"

definition ioapic_maxintr :: "('s, 'b) world_scheme \<Rightarrow> u32 \<Rightarrow> 'a mio_scheme \<Rightarrow> u32 \<times> 'a mio_scheme" where
  "ioapic_maxintr w base s = (let (v, s) = ioapic_read w base 1 s in (drop_bit 16 v AND 0xFF, s))"

definition ioapic_mask_all :: "u32 \<Rightarrow> u32 \<Rightarrow> 'a mio_scheme \<Rightarrow> 'a mio_scheme" where
  "ioapic_mask_all base maxintr s =
     fold (\<lambda>j s. ioapic_write base (0x10 + 2 * j + 1) 0 (ioapic_write base (0x10 + 2 * j) (0x00010000 OR (T_IRQ0 + j)) s))
       (range32 0 (Suc (unat maxintr))) s"

definition ioapic_init :: "('s, 'b) world_scheme \<Rightarrow> 'a mintr_scheme \<Rightarrow> 'a mintr_scheme outcome" where
  "ioapic_init w s = forM (range32 0 (unat (ioapic_num s))) (\<lambda>i s.
     let base = ioapics s i in
     kern_assert (base \<noteq> 0) (
     let (v, s) = ioapic_read w base 0 s;
         s = (if drop_bit 24 v = 0 then ioapic_write base 0 (push_bit 24 (ucast (ioapicid s i))) s else s);
         (maxintr, s) = ioapic_maxintr w base s
     in Ret (ioapic_mask_all base maxintr s))) s"

text \<open>The loop of \<^verbatim>\<open>ioapic_enable\<close> over the controllers from \<open>i\<close> on; none of them serving the line is a panic.\<close>

primrec ioapic_enable_from ::
    "u32 list \<Rightarrow> ('s, 'b) world_scheme \<Rightarrow> u32 \<Rightarrow> u8 \<Rightarrow> u32 \<Rightarrow> u32 \<Rightarrow> 'a mintr_scheme \<Rightarrow> 'a mintr_scheme outcome" where
  "ioapic_enable_from [] w irq apicid trigger_mode polarity s = Panic ''Cannot enable IRQ %d on IOAPIC.''"
| "ioapic_enable_from (i # is) w irq apicid trigger_mode polarity s =
     (let base = ioapics s i; (maxintr, s) = ioapic_maxintr w base s in
      if gsi s i \<le>s irq \<and> irq \<le>s gsi s i + maxintr then
        let reg = 0x10 + 2 * (irq - gsi s i);
            s = ioapic_write base reg (push_bit 15 trigger_mode OR push_bit 13 polarity OR (T_IRQ0 + irq)) s
        in Ret (ioapic_write base (reg + 1) (push_bit 24 (ucast apicid)) s)
      else ioapic_enable_from is w irq apicid trigger_mode polarity s)"

definition ioapic_enable ::
    "('s, 'b) world_scheme \<Rightarrow> u32 \<Rightarrow> u8 \<Rightarrow> u32 \<Rightarrow> u32 \<Rightarrow> 'a mintr_scheme \<Rightarrow> 'a mintr_scheme outcome" where
  "ioapic_enable w irq apicid trigger_mode polarity s =
     ioapic_enable_from (range32 0 (unat (ioapic_num s))) w irq apicid trigger_mode polarity s"

definition ioapic_number :: "'a mintr_scheme \<Rightarrow> u32" where
  "ioapic_number s = ioapic_num s"

definition ioapic_get :: "u32 \<Rightarrow> 'a mintr_scheme \<Rightarrow> u32 option" where
  "ioapic_get idx s = (if idx \<ge> ioapic_num s then None else Some (ioapics s idx))"

text \<open>
  \<^verbatim>\<open>disk/ioapic.c\<close> accesses the controller through its own pointer. Through a null pointer the stores go to
  the first page of memory, which the kernel maps to itself.
\<close>

definition ioapicwrite :: "u32 \<Rightarrow> u32 \<Rightarrow> 'a mintr_scheme \<Rightarrow> 'a mintr_scheme" where
  "ioapicwrite reg data s =
     (if disk_ioapic s = 0 then s\<lparr>mem := store32 16 data (store32 0 reg (mem s))\<rparr>
      else ioapic_write (disk_ioapic s) reg data s)"

definition ioapicread :: "('s, 'b) world_scheme \<Rightarrow> u32 \<Rightarrow> 'a mintr_scheme \<Rightarrow> u32 \<times> 'a mintr_scheme" where
  "ioapicread w reg s =
     (if disk_ioapic s = 0 then (let s = s\<lparr>mem := store32 0 reg (mem s)\<rparr> in (load32 (mem s) 16, s))
      else ioapic_read w (disk_ioapic s) reg s)"

definition ioapicinit :: "('s, 'b) world_scheme \<Rightarrow> 'a mintr_scheme \<Rightarrow> 'a mintr_scheme" where
  "ioapicinit w s =
     (let s = s\<lparr>disk_ioapic := 0xFEC00000\<rparr>;
          (v, s) = ioapicread w 1 s;
          maxintr = drop_bit 16 v AND 0xFF;
          (_, s) = ioapicread w 0 s
      in fold (\<lambda>i s. ioapicwrite (0x10 + 2 * i + 1) 0 (ioapicwrite (0x10 + 2 * i) (0x00010000 OR (T_IRQ0 + i)) s))
           (range32 0 (Suc (unat maxintr))) s)"

definition ioapicenable :: "u32 \<Rightarrow> u32 \<Rightarrow> 'a mintr_scheme \<Rightarrow> 'a mintr_scheme" where
  "ioapicenable irq cpunum s =
     ioapicwrite (0x10 + 2 * irq + 1) (push_bit 24 cpunum) (ioapicwrite (0x10 + 2 * irq) (T_IRQ0 + irq) s)"

section \<open>Local APIC (lapic.c)\<close>

abbreviation (input) LAPIC_ID :: u32 where "LAPIC_ID \<equiv> 0x20"
abbreviation (input) LAPIC_VER :: u32 where "LAPIC_VER \<equiv> 0x30"
abbreviation (input) LAPIC_EOI :: u32 where "LAPIC_EOI \<equiv> 0xB0"
abbreviation (input) LAPIC_ICRLO :: u32 where "LAPIC_ICRLO \<equiv> 0x300"
abbreviation (input) LAPIC_ICRHI :: u32 where "LAPIC_ICRHI \<equiv> 0x310"
abbreviation (input) LAPIC_TICR :: u32 where "LAPIC_TICR \<equiv> 0x380"
abbreviation (input) LAPIC_TCCR :: u32 where "LAPIC_TCCR \<equiv> 0x390"
abbreviation (input) LAPIC_ICRLO_DELIVS :: u32 where "LAPIC_ICRLO_DELIVS \<equiv> 0x1000"

text \<open>Registers are named by their byte offset; the source divides it by four to index words.\<close>

definition lapic_read :: "('s, 'b) world_scheme \<Rightarrow> u32 \<Rightarrow> 'a mintr_scheme \<Rightarrow> u32 \<times> 'a mintr_scheme" where
  "lapic_read w reg s = mmio_read w (lapic s + reg) s"

definition lapic_write :: "('s, 'b) world_scheme \<Rightarrow> u32 \<Rightarrow> u32 \<Rightarrow> 'a mintr_scheme \<Rightarrow> 'a mintr_scheme" where
  "lapic_write w reg v s = snd (lapic_read w LAPIC_ID (mmio_write (lapic s + reg) v s))"

definition lapic_register :: "u32 \<Rightarrow> 'a mintr_scheme \<Rightarrow> 'a mintr_scheme" where
  "lapic_register addr s = s\<lparr>lapic := addr\<rparr>"

text \<open>Programming channel 2 of the timer for the two calibrations: \<^verbatim>\<open>CAL_LATCH\<close> is 11931.\<close>

definition pit_gate :: "('s, 'b) world_scheme \<Rightarrow> u32 \<Rightarrow> 'a mio_scheme \<Rightarrow> 'a mio_scheme" where
  "pit_gate w latch s =
     (let (v, s) = inb w 0x61 s;
          s = outb 0x61 ((v AND NOT 0x02) OR 0x01) s;
          s = outb 0x43 0xb0 s;
          s = outb 0x42 (ucast (latch AND 0xff)) s
      in outb 0x42 (ucast (drop_bit 8 latch)) s)"

definition lapic_calibrate_timer ::
    "('s, 'b) world_scheme \<Rightarrow> u32 \<Rightarrow> u32 \<Rightarrow> u32 \<Rightarrow> 'a mintr_scheme \<Rightarrow> (u32 \<times> 'a mintr_scheme) outcome" where
  "lapic_calibrate_timer w latch ms loopmin s =
     (let s = pit_gate w latch (lapic_write w LAPIC_TICR (NOT 0) s);
          (timer1, s) = lapic_read w LAPIC_TCCR s;
          (st, s) = inb w 0x61 s
      in
      andThen (whileM (\<lambda>(st, timer, tmin, tmax, cnt, s). st AND 0x20 = 0)
        (\<lambda>(st, timer, tmin, tmax, cnt, s).
           let (timer2, s) = lapic_read w LAPIC_TCCR s;
               delta = timer - timer2;
               tmin = (if delta < tmin then delta else tmin);
               tmax = (if delta > tmax then delta else tmax);
               (st, s) = inb w 0x61 s
           in Ret (st, timer2, tmin, tmax, cnt + 1, s))
        (st, timer1, NOT 0, 0, (0::u32), s)) (\<lambda>(st, timer2, tmin, tmax, cnt, s).
      Ret (if cnt <s loopmin \<or> tmax > 10 * tmin then NOT 0 else (timer1 - timer2) div ms, s)))"

definition lapic_wait :: "('s, 'b) world_scheme \<Rightarrow> 'a mintr_scheme \<Rightarrow> 'a mintr_scheme outcome" where
  "lapic_wait w s =
     andThen (whileM (\<lambda>(v, s). v AND LAPIC_ICRLO_DELIVS \<noteq> 0) (\<lambda>(v, s). Ret (lapic_read w LAPIC_ICRLO s))
       (lapic_read w LAPIC_ICRLO s)) (\<lambda>(_, s). Ret s)"

text \<open>Up to \<open>n\<close> attempts to calibrate; the messages of the failed ones are left out.\<close>

primrec lapic_calibrate :: "nat \<Rightarrow> ('s, 'b) world_scheme \<Rightarrow> 'a mintr_scheme \<Rightarrow> (u32 \<times> 'a mintr_scheme) outcome" where
  "lapic_calibrate 0 w s = Ret (NOT 0, s)"
| "lapic_calibrate (Suc n) w s =
     andThen (lapic_calibrate_timer w 11931 10 1000 s) (\<lambda>(t, s).
     if t \<noteq> NOT 0 then Ret (t, s) else lapic_calibrate n w s)"

definition lapic_init :: "('s, 'b) world_scheme \<Rightarrow> 'a mintr_scheme \<Rightarrow> 'a mintr_scheme outcome" where
  "lapic_init w s =
     (if lapic s = 0 then Panic ''NO LAPIC''
      else
        let s = lapic_write w 0xF0 (0x100 OR (T_IRQ0 + IRQ_SPURIOUS)) s;
            s = lapic_write w 0x3E0 0x0B s;
            s = lapic_write w 0x320 (0x20000 OR (T_IRQ0 + IRQ_TIMER)) s
        in
        andThen (lapic_calibrate 5 w s) (\<lambda>(ticks, s).
        let ticks = (if ticks = NOT 0 then 500000 else ticks);
            s = lapic_write w LAPIC_TICR (ticks * 1000 div LAPIC_TIMER_INTR_FREQ) s;
            s = lapic_write w 0x350 0x10000 s;
            s = lapic_write w 0x360 0x10000 s;
            (ver, s) = lapic_read w LAPIC_VER s;
            s = (if drop_bit 16 ver AND 0xFF \<ge> 4 then lapic_write w 0x340 0x10000 s else s);
            s = lapic_write w 0xE0 0xF0000000 s;
            s = lapic_write w 0xD0 0 s;
            s = lapic_write w 0x370 50 s;
            s = lapic_write w 0x280 0 s;
            s = lapic_write w 0x280 0 s;
            s = lapic_write w LAPIC_EOI 0 s;
            s = lapic_write w LAPIC_ICRHI 0 s;
            s = lapic_write w LAPIC_ICRLO (0x80000 OR 0x500 OR 0x8000) s
        in
        andThen (lapic_wait w s) (\<lambda>s.
        Ret (lapic_write w 0x80 0 s))))"

definition lapic_eoi :: "('s, 'b) world_scheme \<Rightarrow> 'a mintr_scheme \<Rightarrow> 'a mintr_scheme" where
  "lapic_eoi w s = (if lapic s \<noteq> 0 then lapic_write w LAPIC_EOI 0 s else s)"

definition lapic_startcpu :: "('s, 'b) world_scheme \<Rightarrow> u8 \<Rightarrow> u32 \<Rightarrow> 'a mintr_scheme \<Rightarrow> 'a mintr_scheme" where
  "lapic_startcpu w apicid addr s =
     (let s = outb 0x71 0x0A (outb 0x70 0xF s);
          s = s\<lparr>mem := store16 0x469 (ucast (drop_bit 4 addr)) (store16 0x467 0 (mem s))\<rparr>;
          dest = push_bit 24 (ucast apicid);
          s = lapic_write w LAPIC_ICRHI dest s;
          s = lapic_write w LAPIC_ICRLO (0x500 OR 0x8000 OR 0x4000) s;
          s = lapic_write w LAPIC_ICRLO (0x500 OR 0x8000) s;
          s = lapic_write w LAPIC_ICRHI dest s;
          s = lapic_write w LAPIC_ICRLO (0x600 OR drop_bit 12 addr) s;
          s = lapic_write w LAPIC_ICRHI dest s
      in lapic_write w LAPIC_ICRLO (0x600 OR drop_bit 12 addr) s)"

definition lapic_read_debug :: "('s, 'b) world_scheme \<Rightarrow> u32 \<Rightarrow> 'a mintr_scheme \<Rightarrow> u32 \<times> 'a mintr_scheme" where
  "lapic_read_debug w reg s = lapic_read w reg s"

definition lapic_send_ipi ::
    "('s, 'b) world_scheme \<Rightarrow> u8 \<Rightarrow> u8 \<Rightarrow> u32 \<Rightarrow> u32 \<Rightarrow> 'a mintr_scheme \<Rightarrow> 'a mintr_scheme outcome" where
  "lapic_send_ipi w apicid vector deliver_mode shorthand_mode s =
     kern_assert (deliver_mode \<noteq> 0x500 \<and> deliver_mode \<noteq> 0x600) (
     kern_assert (vector \<ge> 63) (
     andThen (lapic_wait w s) (\<lambda>s.
     let s = (if shorthand_mode = 0
              then lapic_write w LAPIC_ICRHI (push_bit 24 (ucast apicid) AND 0xFF000000) s else s) in
     Ret (lapic_write w LAPIC_ICRLO (shorthand_mode OR deliver_mode OR (ucast vector AND 0xFF)) s))))"

section \<open>Timers (timer.c, kvm.c, tsc.c)\<close>

text \<open>\<^verbatim>\<open>LATCH\<close> is 11932 = 0x2E9C.\<close>

definition timer_hw_init :: "'a mio_scheme \<Rightarrow> 'a mio_scheme" where
  "timer_hw_init s = outb 0x40 0x2E (outb 0x40 0x9C (outb 0x43 0x34 s))"

definition cpu_has :: "('s, 'b) world_scheme \<Rightarrow> u32 \<Rightarrow> bool" where
  "cpu_has w flag =
     (let leaf = (if flag AND 0x100 \<noteq> 0 then 7 else if flag AND 0x20 \<noteq> 0 then 0x80000001 else 1);
          (eax, ebx, ecx, edx) = cpuid w leaf;
          r = (if flag AND 0x100 \<noteq> 0 then ebx else if flag AND 0x80 \<noteq> 0 then ecx else edx)
      in drop_bit (unat (flag AND 31)) r AND 1 = 1)"

text \<open>The nine characters \<^verbatim>\<open>KVMKVMKVM\<close> as the three registers hold them; of the last only one byte counts.\<close>

definition detect_kvm :: "('s, 'b) world_scheme \<Rightarrow> bool" where
  "detect_kvm w =
     (cpu_has w 0x80000000 \<and>
      (let (eax, ebx, ecx, edx) = cpuid w 0x40000000 in
       ebx = 0x4B4D564B \<and> ecx = 0x564B4D56 \<and> edx AND 0xFF = 0x4D))"

definition kvm_has_feature :: "('s, 'b) world_scheme \<Rightarrow> u32 \<Rightarrow> bool" where
  "kvm_has_feature w feature = (fst (cpuid w 0x40000001) AND feature \<noteq> 0)"

definition kvm_enable_feature :: "('s, 'b) world_scheme \<Rightarrow> u32 \<Rightarrow> bool" where
  "kvm_enable_feature w feature = (let (eax, ebx, ecx, edx) = cpuid w 0x40000001 in ebx = 0)"

text \<open>The field of \<^verbatim>\<open>pvclock\<close> that the hypervisor fills is read from memory at \<^verbatim>\<open>&pvclock\<close> + 24.\<close>

definition kvm_get_tsc_hz :: "('s, 'b) world_scheme \<Rightarrow> 'a mintr_scheme \<Rightarrow> u64 \<times> 'a mintr_scheme" where
  "kvm_get_tsc_hz w s =
     (let pv = w_local w ''pvclock'' in
      if kvm_has_feature w 3 \<or> kvm_has_feature w 0 then
        let msr = (if kvm_has_feature w 3 then 0x4b564d01 else 0x12);
            s = wrmsr msr (ucast pv OR 1) s;
            (hz, s) = mmio_read w (pv + 24) s
        in (ucast hz, wrmsr msr (ucast pv) s)
      else (0, s))"

definition tsc_calibrate ::
    "('s, 'b) world_scheme \<Rightarrow> u32 \<Rightarrow> u32 \<Rightarrow> u32 \<Rightarrow> 'a mintr_scheme \<Rightarrow> (u64 \<times> 'a mintr_scheme) outcome" where
  "tsc_calibrate w latch ms loopmin s =
     (let s = pit_gate w latch s;
          (t1, s) = rdtsc w s;
          (st, s) = inb w 0x61 s
      in
      andThen (whileM (\<lambda>(st, tsc, tmin, tmax, cnt, s). st AND 0x20 = 0)
        (\<lambda>(st, tsc, tmin, tmax, cnt, s).
           let (t2, s) = rdtsc w s;
               delta = t2 - tsc;
               tmin = (if delta < tmin then delta else tmin);
               tmax = (if delta > tmax then delta else tmax);
               (st, s) = inb w 0x61 s
           in Ret (st, t2, tmin, tmax, cnt + 1, s))
        (st, t1, NOT 0, 0, (0::u32), s)) (\<lambda>(st, t2, tmin, tmax, cnt, s).
      Ret (if cnt <s loopmin \<or> tmax > 10 * tmin then NOT 0 else (t2 - t1) div ucast ms, s)))"

primrec tsc_retry :: "nat \<Rightarrow> ('s, 'b) world_scheme \<Rightarrow> 'a mintr_scheme \<Rightarrow> (u64 \<times> 'a mintr_scheme) outcome" where
  "tsc_retry 0 w s = Ret (NOT 0, s)"
| "tsc_retry (Suc n) w s =
     andThen (tsc_calibrate w 11931 10 1000 s) (\<lambda>(t, s).
     if t \<noteq> NOT 0 then Ret (t, s) else tsc_retry n w s)"

definition tsc_init :: "('s, 'b) world_scheme \<Rightarrow> 'a mintr_scheme \<Rightarrow> (u32 \<times> 'a mintr_scheme) outcome" where
  "tsc_init w s =
     (let s = (timer_hw_init s)\<lparr>tsc_per_ms := 0\<rparr> in
      if detect_kvm w then
        let (hz, s) = kvm_get_tsc_hz w s in Ret (0, s\<lparr>tsc_per_ms := hz div 1000\<rparr>)
      else
        andThen (tsc_retry 10 w s) (\<lambda>(t, s).
        if t = NOT 0 then Ret (1, timer_hw_init (s\<lparr>tsc_per_ms := 1000000\<rparr>))
        else Ret (0, timer_hw_init (s\<lparr>tsc_per_ms := t\<rparr>))))"

definition tsc_wait :: "('s, 'b) world_scheme \<Rightarrow> u64 \<Rightarrow> 'a mintr_scheme \<Rightarrow> 'a mintr_scheme outcome" where
  "tsc_wait w ticks s =
     (let (start, s) = rdtsc w s in
      andThen (whileM (\<lambda>(t, s). t < start + ticks) (\<lambda>(t, s). Ret (rdtsc w s)) (rdtsc w s)) (\<lambda>(_, s). Ret s))"

definition delay :: "('s, 'b) world_scheme \<Rightarrow> u32 \<Rightarrow> 'a mintr_scheme \<Rightarrow> 'a mintr_scheme outcome" where
  "delay w ms s = tsc_wait w (tsc_per_ms s * ucast ms) s"

definition udelay :: "('s, 'b) world_scheme \<Rightarrow> u32 \<Rightarrow> 'a mintr_scheme \<Rightarrow> 'a mintr_scheme outcome" where
  "udelay w us s = tsc_wait w (tsc_per_ms s div 1000 * ucast us) s"

section \<open>CPUs (pcpu_mp.c)\<close>

definition pcpu_ncpu :: "'a mintr_scheme \<Rightarrow> u32" where "pcpu_ncpu s = ncpu s"
definition pcpu_is_smp :: "'a mintr_scheme \<Rightarrow> bool" where "pcpu_is_smp s = ismp s"

definition pcpu_onboot :: "'a mintr_scheme \<Rightarrow> bool outcome" where
  "pcpu_onboot s = andThen (get_pcpu_idx s) (\<lambda>i. Ret (if mp_inited s then pi_bsp (arch_info s i) else i = 0))"

definition pcpu_cpu_lapicid :: "u32 \<Rightarrow> 'a mintr_scheme \<Rightarrow> u8 outcome" where
  "pcpu_cpu_lapicid cpu_idx s =
     kern_assert (\<not> cpu_idx <s 0 \<and> cpu_idx < ncpu s) (
     bounded NUM_CPUS cpu_idx (Ret (ucast (pi_lapicid (arch_info s cpu_idx)))))"

section \<open>Interrupt descriptors (intr.c)\<close>

text \<open>\<^verbatim>\<open>SETGATE(gate, istrap, sel, off, dpl)\<close>\<close>

definition SETGATE :: "bool \<Rightarrow> u16 \<Rightarrow> u32 \<Rightarrow> 2 word \<Rightarrow> gatedesc" where
  "SETGATE istrap sel off dpl =
     \<lparr>gd_off_15_0 = ucast (off AND 0xffff), gd_ss = sel, gd_args = 0, gd_rsv1 = 0,
      gd_type = (if istrap then 0xF else 0xE), gd_s = 0, gd_dpl = dpl, gd_p = 1,
      gd_off_31_16 = ucast (drop_bit 16 off)\<rparr>"

text \<open>
  The entry points of \<^verbatim>\<open>kern/dev/idt.S\<close>: name, the trap number that it pushes, and whether it leaves the error code to the
  processor (\<^verbatim>\<open>TRAPHANDLER\<close>) or pushes a zero for it (\<^verbatim>\<open>TRAPHANDLER_NOEC\<close>).
\<close>

definition trap_handlers :: "(string \<times> u8 \<times> bool) list" where
  "trap_handlers =
     [(''Xdivide'', 0, False), (''Xdebug'', 1, False), (''Xnmi'', 2, False), (''Xbrkpt'', 3, False), (''Xoflow'', 4, False),
      (''Xbound'', 5, False), (''Xillop'', 6, False), (''Xdevice'', 7, False), (''Xdblflt'', 8, True), (''Xcoproc'', 9, False),
      (''Xtss'', 10, True), (''Xsegnp'', 11, True), (''Xstack'', 12, True), (''Xgpflt'', 13, True), (''Xpgflt'', 14, True),
      (''Xres'', 15, False), (''Xfperr'', 16, False), (''Xalign'', 17, True), (''Xmchk'', 18, False),
      (''Xirq_timer'', 32 + 0, False), (''Xirq_kbd'', 32 + 1, False), (''Xirq_slave'', 32 + 2, False), (''Xirq_serial2'', 32 + 3, False),
      (''Xirq_serial1'', 32 + 4, False), (''Xirq_lpt'', 32 + 5, False), (''Xirq_floppy'', 32 + 6, False), (''Xirq_spurious'', 32 + 7, False),
      (''Xirq_rtc'', 32 + 8, False), (''Xirq9'', 32 + 9, False), (''Xirq10'', 32 + 10, False), (''Xirq11'', 32 + 11, False),
      (''Xirq_mouse'', 32 + 12, False), (''Xirq_coproc'', 32 + 13, False), (''Xirq_ide1'', 32 + 14, False), (''Xirq_ide2'', 32 + 15, False),
      (''Xsyscall'', 48, False), (''Xdefault'', 254, True)]"

text \<open>The entries that are set after the default one: trap number, entry point and privilege level.\<close>

definition idt_entries :: "(u8 \<times> string \<times> 2 word) list" where
  "idt_entries =
     [(0, ''Xdivide'', 0), (1, ''Xdebug'', 0), (2, ''Xnmi'', 0), (3, ''Xbrkpt'', 3), (4, ''Xoflow'', 3),
      (5, ''Xbound'', 0), (6, ''Xillop'', 0), (7, ''Xdevice'', 0), (8, ''Xdblflt'', 0), (10, ''Xtss'', 0),
      (11, ''Xsegnp'', 0), (12, ''Xstack'', 0), (13, ''Xgpflt'', 0), (14, ''Xpgflt'', 0), (16, ''Xfperr'', 0),
      (17, ''Xalign'', 0), (18, ''Xmchk'', 0),
      (32, ''Xirq_timer'', 0), (33, ''Xirq_kbd'', 0), (34, ''Xirq_slave'', 0), (35, ''Xirq_serial2'', 0),
      (36, ''Xirq_serial1'', 0), (37, ''Xirq_lpt'', 0), (38, ''Xirq_floppy'', 0), (39, ''Xirq_spurious'', 0),
      (40, ''Xirq_rtc'', 0), (41, ''Xirq9'', 0), (42, ''Xirq10'', 0), (43, ''Xirq11'', 0), (44, ''Xirq_mouse'', 0),
      (45, ''Xirq_coproc'', 0), (46, ''Xirq_ide1'', 0), (47, ''Xirq_ide2'', 0),
      (48, ''Xsyscall'', 3), (254, ''Xdefault'', 0)]"

definition intr_init_idt :: "('s, 'b) world_scheme \<Rightarrow> 'a mintr_scheme \<Rightarrow> 'a mintr_scheme outcome" where
  "intr_init_idt w s =
     kern_assert (T_IRQ0 AND 7 = 0) (
     let s = s\<lparr>idt := (\<lambda>_. SETGATE False 0x08 (w_local w ''Xdefault'') 0)\<rparr> in
     Ret (fold (\<lambda>(i, sym, dpl) s. s\<lparr>idt := (idt s)(i := SETGATE False 0x08 (w_local w sym) dpl)\<rparr>) idt_entries s))"

definition intr_init :: "('s, 'b) world_scheme \<Rightarrow> 'a mintr_scheme \<Rightarrow> 'a mintr_scheme outcome" where
  "intr_init w s =
     (let (_, _, _, edx) = cpuid w 1; s = s\<lparr>using_apic := (edx AND 0x200 \<noteq> 0)\<rparr> in
      kern_assert (using_apic s) (
      andThen (pcpu_onboot s) (\<lambda>boot.
      andThen
        (if boot then andThen (ioapic_init w (pic_init s)) (\<lambda>s. intr_init_idt w s)
         else Ret s) (\<lambda>s.
      andThen (lapic_init w s) (\<lambda>s.
      Ret (s\<lparr>idt_loaded := True\<rparr>))))))"

definition intr_enable :: "('s, 'b) world_scheme \<Rightarrow> u32 \<Rightarrow> u32 \<Rightarrow> 'a mintr_scheme \<Rightarrow> 'a mintr_scheme outcome" where
  "intr_enable w irq cpunum s =
     kern_assert (cpunum = 0xff \<or> \<not> cpunum <s 0 \<and> cpunum < pcpu_ncpu s) (
     if irq \<ge> 24 then Ret s
     else if using_apic s then
       andThen (if cpunum = 0xff then Ret 0xff else pcpu_cpu_lapicid cpunum s) (\<lambda>id'.
       ioapic_enable w irq id' 0 0 s)
     else kern_assert (irq < 16) (Ret (pic_enable irq s)))"

definition intr_enable_lapicid :: "('s, 'b) world_scheme \<Rightarrow> u32 \<Rightarrow> u8 \<Rightarrow> 'a mintr_scheme \<Rightarrow> 'a mintr_scheme outcome" where
  "intr_enable_lapicid w irq lapic_id s =
     (if irq > 24 then Ret s
      else if using_apic s then ioapic_enable w irq lapic_id 0 0 s
      else kern_assert (irq < 16) (Ret (pic_enable irq s)))"

definition intr_eoi :: "('s, 'b) world_scheme \<Rightarrow> 'a mintr_scheme \<Rightarrow> 'a mintr_scheme" where
  "intr_eoi w s = (if using_apic s then lapic_eoi w s else pic_eoi s)"

end
