(* ===== verification/Multiproc.thy ===== *)
theory Multiproc
  imports Interrupts
begin

unbundle bit_operations_syntax

text \<open>
  Finding the processors: the tables of the firmware in memory (\<^verbatim>\<open>kern/dev/acpi.c\<close>), and identification and
  start of the processors (\<^verbatim>\<open>kern/dev/pcpu_mp.c\<close>). The messages printed on the way are left out.
\<close>

section \<open>Checksums\<close>

text \<open>Both files have a function \<^verbatim>\<open>sum\<close>: the sum of the bytes, as a byte.\<close>

primrec sum8 :: "nat \<Rightarrow> memory \<Rightarrow> u32 \<Rightarrow> u8" where
  "sum8 0 m a = 0"
| "sum8 (Suc n) m a = m a + sum8 n m (a + 1)"

text \<open>A search in steps of 16 bytes, as the functions that look for the two root structures do.\<close>

definition search16 :: "(u32 \<Rightarrow> bool) \<Rightarrow> u32 \<Rightarrow> u32 \<Rightarrow> u32 option outcome" where
  "search16 found addr len =
     andThen (whileM (\<lambda>p. p < addr + len \<and> \<not> found p) (\<lambda>p. Ret (p + 16)) addr) (\<lambda>p.
     Ret (if p < addr + len then Some p else None))"

section \<open>ACPI tables (acpi.c)\<close>

definition acpi_probe_rsdp_aux :: "memory \<Rightarrow> u32 \<Rightarrow> u32 \<Rightarrow> u32 option outcome" where
  "acpi_probe_rsdp_aux m addr len =
     search16 (\<lambda>p. load32 m p = 0x20445352 \<and> load32 m (p + 4) = 0x20525450 \<and> sum8 36 m p = 0) addr len"

text \<open>The segment of the extended BIOS data area, from the BIOS data area at 0x400.\<close>

definition ebda :: "memory \<Rightarrow> u32" where
  "ebda m = push_bit 4 (push_bit 8 (ucast (m 0x40F)) OR ucast (m 0x40E))"

definition acpi_probe_rsdp :: "memory \<Rightarrow> u32 option outcome" where
  "acpi_probe_rsdp m =
     andThen (if ebda m \<noteq> 0 then acpi_probe_rsdp_aux m (ebda m) 1024 else Ret None) (\<lambda>r.
     if r \<noteq> None then Ret r else acpi_probe_rsdp_aux m 0xE0000 0x1FFFF)"

text \<open>A table with its signature, and a correct checksum over the length it states.\<close>

definition acpi_table_ok :: "memory \<Rightarrow> u32 \<Rightarrow> u32 \<Rightarrow> bool" where
  "acpi_table_ok m sig a \<longleftrightarrow> load32 m a = sig \<and> sum8 (unat (load32 m (a + 4))) m a = 0"

definition acpi_probe_rsdt :: "memory \<Rightarrow> u32 \<Rightarrow> u32 option" where
  "acpi_probe_rsdt m rsdp =
     (let rsdt = load32 m (rsdp + 16) in
      if rsdt = 0 then None else if acpi_table_ok m 0x54445352 rsdt then Some rsdt else None)"

definition acpi_probe_xsdt :: "memory \<Rightarrow> u32 \<Rightarrow> u32 option" where
  "acpi_probe_xsdt m rsdp =
     (let xsdt = load32 m (rsdp + 24) in
      if xsdt = 0 then None else if acpi_table_ok m 0x54445358 xsdt then Some xsdt else None)"

text \<open>The loops over the entries, which are 4 or 8 bytes apart; of 8 bytes the low 4 are the address.\<close>

definition acpi_probe_ent :: "u32 \<Rightarrow> memory \<Rightarrow> u32 \<Rightarrow> u32 \<Rightarrow> u32 option outcome" where
  "acpi_probe_ent width m table sig =
     (let e = table + load32 m (table + 4) in
      andThen (whileM (\<lambda>p. p < e \<and> \<not> acpi_table_ok m sig (load32 m p)) (\<lambda>p. Ret (p + width)) (table + 36)) (\<lambda>p.
      Ret (if p < e then Some (load32 m p) else None)))"

definition acpi_probe_rsdt_ent :: "memory \<Rightarrow> u32 \<Rightarrow> u32 \<Rightarrow> u32 option outcome" where
  "acpi_probe_rsdt_ent m rsdt sig = acpi_probe_ent 4 m rsdt sig"

definition acpi_probe_xsdt_ent :: "memory \<Rightarrow> u32 \<Rightarrow> u32 \<Rightarrow> u32 option outcome" where
  "acpi_probe_xsdt_ent m xsdt sig = acpi_probe_ent 8 m xsdt sig"

section \<open>Identification (pcpu_mp.c)\<close>

definition intel_cache_info :: "u8 \<Rightarrow> (u32 \<times> u32) outcome" where
  "intel_cache_info d =
     (if d = 0xff then Undef
      else Ret (case map_of [(0x0a, (8, 32)), (0x0c, (16, 32)), (0x0d, (16, 64)), (0x0e, (24, 64)), (0x2c, (32, 64)),
                  (0x60, (16, 64)), (0x66, (8, 64)), (0x67, (16, 64)), (0x68, (32, 64))] d of
        None \<Rightarrow> (0, 0) | Some v \<Rightarrow> v))"

definition bytes_of :: "u32 \<Rightarrow> u8 list" where
  "bytes_of v = [ucast v, ucast (drop_bit 8 v), ucast (drop_bit 16 v), ucast (drop_bit 24 v)]"

text \<open>
  The cache size of an Intel processor. The loop over the sixteen descriptors keeps the last one; a
  descriptor 0xff is outside the table, which has 255 entries.
\<close>

definition intel_l1 :: "('s, 'b) world_scheme \<Rightarrow> (u32 \<times> u32) outcome" where
  "intel_l1 w =
     (let (eax, ebx, ecx, edx) = cpuid w 2 in
      andThen (forM (concat (map bytes_of [eax, ebx, ecx, edx])) (\<lambda>d _. intel_cache_info d) (0, 0)) (\<lambda>(size1, line1).
      if size1 \<noteq> 0 \<and> line1 \<noteq> 0 then Ret (size1, line1)
      else
        case List.find (\<lambda>i. let (eax, _) = w_cpuid w 4 i in eax AND 0xf = 1 \<and> drop_bit 5 (eax AND 0xe0) = 1) [0, 1, 2] of
          None \<Rightarrow> Ret (size1, line1)
        | Some i \<Rightarrow>
            let (eax, ebx, ecx, edx) = w_cpuid w 4 i in
            Ret ((drop_bit 22 (ebx AND 0xffc00000) + 1) * (drop_bit 12 (ebx AND 0x003ff000) + 1) *
                   ((ebx AND 0xfff) + 1) * (ecx + 1) div 1024, (ebx AND 0xfff) + 1)))"

definition pcpu_identify :: "('s, 'b) world_scheme \<Rightarrow> 'a mintr_scheme \<Rightarrow> 'a mintr_scheme outcome" where
  "pcpu_identify w s =
     andThen (get_pcpu_idx s) (\<lambda>i. bounded NUM_CPUS i (
     let (high, b0, c0, d0) = cpuid w 0;
         vendor = (if (b0, d0, c0) = (0x756E6547, 0x49656E69, 0x6C65746E) then INTEL
                   else if (b0, d0, c0) = (0x68747541, 0x69746E65, 0x444D4163) then AMD else UNKNOWN_CPU);
         (eax, ebx, ecx, edx) = cpuid w 1
     in
     andThen (case vendor of
         INTEL \<Rightarrow> intel_l1 w
       | AMD \<Rightarrow> (let (_, _, c, _) = cpuid w 0x80000005 in Ret (drop_bit 24 (c AND 0xff000000), c AND 0xff))
       | UNKNOWN_CPU \<Rightarrow> Ret (0, 0)) (\<lambda>(l1, line).
     Ret (s\<lparr>arch_info := (arch_info s)(i := (arch_info s i)\<lparr>
       pi_cpuid_high := high, pi_vendor := (b0, d0, c0), pi_cpu_vendor := vendor,
       pi_family := ucast (drop_bit 8 eax AND 0xf), pi_model := ucast (drop_bit 4 eax AND 0xf), pi_step := ucast (eax AND 0xf),
       pi_ext_family := ucast (drop_bit 20 eax AND 0xff), pi_ext_model := ucast (drop_bit 16 eax AND 0xff),
       pi_brand_idx := ucast (ebx AND 0xff), pi_clflush_size := ucast (drop_bit 8 ebx AND 0xff),
       pi_max_cpu_id := ucast (drop_bit 16 ebx AND 0xff), pi_apic_id := ucast (drop_bit 24 ebx AND 0xff),
       pi_feature1 := ecx, pi_feature2 := edx, pi_l1_cache_size := l1, pi_l1_cache_line_size := line,
       pi_cpuid_exthigh := fst (cpuid w 0x80000000)\<rparr>)\<rparr>))))"

definition pcpu_init_cpu :: "('s, 'b) world_scheme \<Rightarrow> 'a mintr_scheme \<Rightarrow> 'a mintr_scheme outcome" where
  "pcpu_init_cpu w s = pcpu_identify w s"

section \<open>Processor tables (pcpu_mp.c)\<close>

definition pcpu_mp_init_cpu :: "u32 \<Rightarrow> u8 \<Rightarrow> bool \<Rightarrow> 'a mintr_scheme \<Rightarrow> 'a mintr_scheme outcome" where
  "pcpu_mp_init_cpu idx lapic_id is_bsp s =
     kern_assert (is_bsp \<and> idx = 0 \<or> \<not> is_bsp) (
     if idx \<ge> NUM_CPUS then Ret s
     else Ret (s\<lparr>arch_info := (arch_info s)(idx := (arch_info s idx)\<lparr>pi_lapicid := ucast lapic_id, pi_bsp := is_bsp\<rparr>)\<rparr>))"

text \<open>A structure of the multiprocessor specification: the signature \<^verbatim>\<open>_MP_\<close> and a zero checksum.\<close>

definition mpsearch1 :: "memory \<Rightarrow> u32 \<Rightarrow> u32 \<Rightarrow> u32 option outcome" where
  "mpsearch1 m addr len = search16 (\<lambda>p. load32 m p = 0x5F504D5F \<and> sum8 16 m p = 0) addr len"

definition mpsearch :: "memory \<Rightarrow> u32 option outcome" where
  "mpsearch m =
     andThen
       (if ebda m \<noteq> 0 then mpsearch1 m (ebda m) 1024
        else mpsearch1 m ((push_bit 8 (ucast (m 0x414)) OR ucast (m 0x413)) * 1024 - 1024) 1024) (\<lambda>r.
     if r \<noteq> None then Ret r else mpsearch1 m 0xF0000 0x10000)"

text \<open>The configuration table and the floating structure it was found through; the signature is \<^verbatim>\<open>PCMP\<close>.\<close>

definition mpconfig :: "memory \<Rightarrow> (u32 \<times> u32) option outcome" where
  "mpconfig m =
     andThen (mpsearch m) (\<lambda>r.
     Ret (case r of
        None \<Rightarrow> None
      | Some mp \<Rightarrow>
          let conf = load32 m (mp + 4) in
          if conf = 0 then None
          else if load32 m conf \<noteq> 0x504D4350 then None
          else if m (conf + 6) \<noteq> 1 \<and> m (conf + 6) \<noteq> 4 then None
          else if sum8 (unat (load16 m (conf + 4))) m conf \<noteq> 0 then None
          else Some (conf, mp)))"

text \<open>
  One entry of the configuration table: a processor (20 bytes), an I/O APIC (8 bytes), another kind that
  is skipped (8 bytes), or an unknown one, which the loop does not step over.
\<close>

definition mp_entry :: "u32 \<times> u32 \<times> 'a mintr_scheme \<Rightarrow> (u32 \<times> u32 \<times> 'a mintr_scheme) outcome" where
  "mp_entry = (\<lambda>(p, ap_idx, s).
     let m = mem s; kind = m p in
     if kind = 0 then
       if m (p + 3) AND 1 = 0 then Ret (p + 20, ap_idx, s)
       else if m (p + 3) AND 2 \<noteq> 0 then
         andThen (pcpu_mp_init_cpu 0 (m (p + 1)) True s) (\<lambda>s. Ret (p + 20, ap_idx, s\<lparr>ncpu := ncpu s + 1\<rparr>))
       else
         andThen (pcpu_mp_init_cpu ap_idx (m (p + 1)) False s) (\<lambda>s. Ret (p + 20, ap_idx + 1, s\<lparr>ncpu := ncpu s + 1\<rparr>))
     else if kind = 2 then Ret (p + 8, ap_idx, ioapic_register (load32 m (p + 4)) (m (p + 1)) 0 s)
     else if kind = 1 \<or> kind = 3 \<or> kind = 4 then Ret (p + 8, ap_idx, s)
     else Ret (p, ap_idx, s))"

text \<open>Routing of the interrupts to the APIC, and the start code of the other processors at 0x8000.\<close>

definition imcr_apic :: "('s, 'b) world_scheme \<Rightarrow> 'a mio_scheme \<Rightarrow> 'a mio_scheme" where
  "imcr_apic w s = (let s = outb 0x22 0x70 s; (v, s) = inb w 0x23 s in outb 0x23 (v OR 1) s)"

definition mp_copy_boot :: "('s, 'b) world_scheme \<Rightarrow> 'a mintr_scheme \<Rightarrow> 'a mintr_scheme" where
  "mp_copy_boot w s =
     s\<lparr>mem := memmove 0x8000 (w_local w ''boot_ap_start'') (w_local w ''boot_ap_size'') (mem s), mp_inited := True\<rparr>"

definition mp_init_fallback :: "('s, 'b) world_scheme \<Rightarrow> 'a mintr_scheme \<Rightarrow> (bool \<times> 'a mintr_scheme) outcome" where
  "mp_init_fallback w s =
     (if mp_inited s then Ret (True, s)
      else
        andThen (mpconfig (mem s)) (\<lambda>r.
        case r of
          None \<Rightarrow> Ret (False, s)
        | Some (conf, mp) \<Rightarrow>
            let m = mem s; s = lapic_register (load32 m (conf + 36)) (s\<lparr>ismp := True, ncpu := 0\<rparr>);
                e = conf + ucast (load16 m (conf + 4)) in
            andThen (whileM (\<lambda>(p, ap_idx, s). p < e) mp_entry (conf + 44, 1, s)) (\<lambda>(_, _, s).
            let s = (if mem s (mp + 12) \<noteq> 0 then imcr_apic w s else s) in
            Ret (True, mp_copy_boot w s))))"

text \<open>One entry of the MADT: a local APIC, an I/O APIC or another kind; each states its length.\<close>

definition madt_entry :: "u32 \<times> u32 \<times> bool \<times> 'a mintr_scheme \<Rightarrow> (u32 \<times> u32 \<times> bool \<times> 'a mintr_scheme) outcome" where
  "madt_entry = (\<lambda>(p, ap_idx, found_bsp, s).
     let m = mem s; next = p + ucast (m (p + 1)) in
     if m p = 0 then
       if load32 m (p + 4) AND 1 = 0 then Ret (next, ap_idx, found_bsp, s)
       else if \<not> found_bsp then
         andThen (pcpu_mp_init_cpu 0 (m (p + 3)) True s) (\<lambda>s. Ret (next, ap_idx, True, s\<lparr>ncpu := ncpu s + 1\<rparr>))
       else
         andThen (pcpu_mp_init_cpu ap_idx (m (p + 3)) False s) (\<lambda>s. Ret (next, ap_idx + 1, True, s\<lparr>ncpu := ncpu s + 1\<rparr>))
     else if m p = 1 then
       Ret (next, ap_idx, found_bsp, ioapic_register (load32 m (p + 4)) (m (p + 2)) (load32 m (p + 8)) s)
     else Ret (next, ap_idx, found_bsp, s))"

definition find_madt :: "memory \<Rightarrow> u32 option outcome" where
  "find_madt m =
     andThen (acpi_probe_rsdp m) (\<lambda>r.
     case r of
       None \<Rightarrow> Ret None
     | Some rsdp \<Rightarrow>
         (case acpi_probe_xsdt m rsdp of
            Some xsdt \<Rightarrow> acpi_probe_xsdt_ent m xsdt 0x43495041
          | None \<Rightarrow>
              (case acpi_probe_rsdt m rsdp of
                 Some rsdt \<Rightarrow> acpi_probe_rsdt_ent m rsdt 0x43495041
               | None \<Rightarrow> Ret None)))"

definition pcpu_mp_init :: "('s, 'b) world_scheme \<Rightarrow> 'a mintr_scheme \<Rightarrow> (bool \<times> 'a mintr_scheme) outcome" where
  "pcpu_mp_init w s =
     (if mp_inited s then Ret (True, s)
      else
        andThen (find_madt (mem s)) (\<lambda>r.
        case r of
          Some madt \<Rightarrow>
            let m = mem s; s = (lapic_register (load32 m (madt + 36)) (s\<lparr>ismp := True\<rparr>))\<lparr>ncpu := 0\<rparr>;
                e = madt + load32 m (madt + 4) in
            andThen (whileM (\<lambda>(p, ap_idx, found_bsp, s). p < e) madt_entry (madt + 44, 1, False, s)) (\<lambda>(_, _, _, s).
            let s = (if load32 (mem s) (madt + 40) AND 1 = 0 then imcr_apic w s else s) in
            Ret (True, mp_copy_boot w s))
        | None \<Rightarrow>
            andThen (mp_init_fallback w s) (\<lambda>(ok, s).
            if ok then Ret (True, s) else Ret (False, s\<lparr>ismp := False, ncpu := 1\<rparr>))))"

text \<open>
  Starting another processor. Whether it has come up is written by that processor: the loop that waits
  for it reads a flag that only others change.
\<close>

definition pcpu_boot_ap ::
    "('a mintr_scheme, 'b) world_scheme \<Rightarrow> u32 \<Rightarrow> u32 option \<Rightarrow> u32 \<Rightarrow> 'a mintr_scheme \<Rightarrow> (u32 \<times> 'a mintr_scheme) outcome" where
  "pcpu_boot_ap w cpu_idx f stack_addr s =
     kern_assert (cpu_idx > 0 \<and> cpu_idx < pcpu_ncpu s) (
     andThen (get_pcpu_inited_info cpu_idx s) (\<lambda>inited.
     kern_assert inited (
     kern_assert (f \<noteq> None) (
     andThen (pcpu_onboot s) (\<lambda>boot.
     if \<not> boot then Ret (1, s)
     else
       andThen (get_pcpu_boot_info cpu_idx s) (\<lambda>up.
       if up then Ret (0, s)
       else
         let s = s\<lparr>mem := store32 (0x8000 - 12) (w_local w ''kern_init_ap'')
               (store32 (0x8000 - 8) (the f) (store32 (0x8000 - 4) (stack_addr + 4096) (mem s)))\<rparr> in
         andThen (pcpu_cpu_lapicid cpu_idx s) (\<lambda>id'.
         andThen (whileM (\<lambda>s. \<not> pcpu_booted (pcpu_tab s cpu_idx)) (w_others w) (lapic_startcpu w id' 0x8000 s)) (\<lambda>s.
         Ret (0, s)))))))))"

end
