(* ===== verification/Thread_Queues.thy ===== *)
theory Thread_Queues
  imports Thread
begin

text \<open>
  The thread queues are lists: the abstraction of the doubly linked lists in the thread control
  blocks to lists of thread ids, what the queue operations do to the lists, the interface
  that the scheduler uses, and its interpretation on the linked lists.
\<close>

section \<open>Linked lists of thread control blocks\<close>

text \<open>
  The blocks of \<open>xs\<close> are linked in both directions; \<open>p\<close> comes before the first one and \<open>q\<close> after
  the last.
\<close>

fun seg :: "(u32 \<Rightarrow> TCB) \<Rightarrow> u32 \<Rightarrow> u32 list \<Rightarrow> u32 \<Rightarrow> bool" where
  "seg T p [] q = True"
| "seg T p (x # xs) q \<longleftrightarrow> tcb_prev (T x) = p \<and> tcb_next (T x) = hd (xs @ [q]) \<and> seg T x xs q"

lemma seg_append: "seg T p (xs @ ys) q \<longleftrightarrow> seg T p xs (hd (ys @ [q])) \<and> seg T (last (p # xs)) ys q"
  by (induction xs arbitrary: p) auto

lemma seg_cong:
  assumes "\<And>x. x \<in> set xs \<Longrightarrow> tcb_prev (T' x) = tcb_prev (T x) \<and> tcb_next (T' x) = tcb_next (T x)"
  shows "seg T' p xs q = seg T p xs q"
  using assms by (induction xs arbitrary: p) auto

definition queue_is :: "'a mthr_scheme \<Rightarrow> u32 \<Rightarrow> u32 list \<Rightarrow> bool" where
  "queue_is s c xs \<longleftrightarrow>
     tq_head (TQueuePool s c) = hd (xs @ [NUM_IDS]) \<and> tq_tail (TQueuePool s c) = last (NUM_IDS # xs) \<and>
     seg (TCBPool s) NUM_IDS xs NUM_IDS"

text \<open>All queues at once: a thread is in at most one queue, and at most once.\<close>

definition queues :: "'a mthr_scheme \<Rightarrow> (u32 \<Rightarrow> u32 list) \<Rightarrow> bool" where
  "queues s Q \<longleftrightarrow>
     (\<forall>c < NUM_QUEUES. queue_is s c (Q c) \<and> distinct (Q c) \<and> (\<forall>x \<in> set (Q c). x < NUM_IDS)) \<and>
     (\<forall>c d. c < NUM_QUEUES \<longrightarrow> d < NUM_QUEUES \<longrightarrow> c \<noteq> d \<longrightarrow> set (Q c) \<inter> set (Q d) = {})"

definition in_no_queue :: "(u32 \<Rightarrow> u32 list) \<Rightarrow> u32 \<Rightarrow> bool" where
  "in_no_queue Q p \<longleftrightarrow> (\<forall>c < NUM_QUEUES. p \<notin> set (Q c))"

text \<open>A queue is left alone by an update of other blocks and other queues.\<close>

lemma queue_is_frame:
  assumes "queue_is s c xs" and "TQueuePool t c = TQueuePool s c"
    and "\<And>x. x \<in> set xs \<Longrightarrow> tcb_prev (TCBPool t x) = tcb_prev (TCBPool s x) \<and> tcb_next (TCBPool t x) = tcb_next (TCBPool s x)"
  shows "queue_is t c xs"
  using assms seg_cong [of xs "TCBPool t" "TCBPool s"] by (simp add: queue_is_def)

text \<open>The state without the links: what the queue operations do not touch.\<close>

definition unlinked :: "'a mthr_scheme \<Rightarrow> 'a mthr_scheme" where
  "unlinked s = s\<lparr>TCBPool := (\<lambda>p. (TCBPool s p)\<lparr>tcb_prev := 0, tcb_next := 0\<rparr>),
     TQueuePool := (\<lambda>_. \<lparr>tq_head = 0, tq_tail = 0\<rparr>)\<rparr>"

text \<open>A new state of the links of one queue.\<close>

definition relinked :: "u32 \<Rightarrow> (u32 \<Rightarrow> TCB) \<Rightarrow> TQueue \<Rightarrow> 'a mthr_scheme \<Rightarrow> 'a mthr_scheme" where
  "relinked c T q s = s\<lparr>TCBPool := T, TQueuePool := (TQueuePool s)(c := q)\<rparr>"

lemma queues_relinked:
  assumes Q: "queues s Q" and c: "c < NUM_QUEUES"
    and q: "tq_head q = hd (ys @ [NUM_IDS])" "tq_tail q = last (NUM_IDS # ys)"
    and ys: "seg T NUM_IDS ys NUM_IDS" "distinct ys" "\<And>y. y \<in> set ys \<Longrightarrow> y < NUM_IDS"
      "\<And>d y. d < NUM_QUEUES \<Longrightarrow> d \<noteq> c \<Longrightarrow> y \<in> set ys \<Longrightarrow> y \<notin> set (Q d)"
    and T: "\<And>d x. d < NUM_QUEUES \<Longrightarrow> d \<noteq> c \<Longrightarrow> x \<in> set (Q d) \<Longrightarrow> T x = TCBPool s x"
  shows "queues (relinked c T q s) (Q(c := ys))"
proof -
  let ?t = "relinked c T q s" and ?Q = "Q(c := ys)"
  have old: "queue_is s d (Q d)" "distinct (Q d)" "\<forall>x \<in> set (Q d). x < NUM_IDS" if "d < NUM_QUEUES" for d
    using Q that by (simp_all add: queues_def)
  have each: "queue_is ?t d (?Q d) \<and> distinct (?Q d) \<and> (\<forall>x \<in> set (?Q d). x < NUM_IDS)" if d: "d < NUM_QUEUES" for d
  proof (cases "d = c")
    case True
    then show ?thesis using q ys(1-3) by (simp add: queue_is_def relinked_def)
  next
    case False
    have "queue_is ?t d (Q d)"
      by (rule queue_is_frame [OF old(1) [OF d]]) (use T [OF d False] False in \<open>simp_all add: relinked_def\<close>)
    then show ?thesis using False old [OF d] by simp
  qed
  have "set (?Q d) \<inter> set (?Q e) = {}" if "d < NUM_QUEUES" "e < NUM_QUEUES" "d \<noteq> e" for d e
  proof -
    have "set (Q d) \<inter> set (Q e) = {}" using Q that unfolding queues_def by blast
    moreover have "d \<noteq> c \<Longrightarrow> set ys \<inter> set (Q d) = {}" "e \<noteq> c \<Longrightarrow> set ys \<inter> set (Q e) = {}"
      using ys(4) that by blast+
    ultimately show ?thesis using that(3) by (cases "d = c"; cases "e = c") (simp_all add: Int_commute)
  qed
  with each show ?thesis unfolding queues_def by blast
qed

section \<open>The operations\<close>

lemmas tcb_ops = tcb_get_state_def tcb_set_state_def tcb_get_prev_def tcb_set_prev_def tcb_get_next_def
  tcb_set_next_def tcb_get_chan_def tcb_set_chan_def tcb_put_def

lemmas tqueue_ops = tqueue_get_head_def tqueue_set_head_def tqueue_get_tail_def tqueue_set_tail_def tqueue_put_def

lemma unlinked_relinked:
  assumes "\<And>x. (T x)\<lparr>tcb_prev := 0, tcb_next := 0\<rparr> = (TCBPool s x)\<lparr>tcb_prev := 0, tcb_next := 0\<rparr>"
  shows "unlinked (relinked c T q s) = unlinked s"
  using assms by (simp add: unlinked_def relinked_def)

lemma queueD:
  assumes "queues s Q" and "c < NUM_QUEUES"
  shows "tq_head (TQueuePool s c) = hd (Q c @ [NUM_IDS])" and "tq_tail (TQueuePool s c) = last (NUM_IDS # Q c)"
    and "seg (TCBPool s) NUM_IDS (Q c) NUM_IDS" and "distinct (Q c)" and "\<And>x. x \<in> set (Q c) \<Longrightarrow> x < NUM_IDS"
    and "\<And>d x. d < NUM_QUEUES \<Longrightarrow> d \<noteq> c \<Longrightarrow> x \<in> set (Q c) \<Longrightarrow> x \<notin> set (Q d)"
  using assms unfolding queues_def queue_is_def by blast+

definition enq_tcbs :: "u32 \<Rightarrow> u32 \<Rightarrow> (u32 \<Rightarrow> TCB) \<Rightarrow> u32 \<Rightarrow> TCB" where
  "enq_tcbs tail pid T =
     (if tail = NUM_IDS then T(pid := (T pid)\<lparr>tcb_prev := NUM_IDS, tcb_next := NUM_IDS\<rparr>)
      else T(tail := (T tail)\<lparr>tcb_next := pid\<rparr>, pid := (T pid)\<lparr>tcb_prev := tail, tcb_next := NUM_IDS\<rparr>))"

definition enq_queue :: "u32 \<Rightarrow> TQueue \<Rightarrow> TQueue" where
  "enq_queue pid q = (if tq_tail q = NUM_IDS then q\<lparr>tq_head := pid, tq_tail := pid\<rparr> else q\<lparr>tq_tail := pid\<rparr>)"

lemma tqueue_enqueue_eq:
  assumes "c < NUM_QUEUES" and "pid < NUM_IDS" and "tq_tail (TQueuePool s c) = z" and "z = NUM_IDS \<or> z < NUM_IDS" and "pid \<noteq> z"
  shows "tqueue_enqueue c pid s = Ret (relinked c (enq_tcbs z pid (TCBPool s)) (enq_queue pid (TQueuePool s c)) s)"
proof (cases "z = NUM_IDS")
  case True
  with assms show ?thesis
    unfolding relinked_def enq_tcbs_def enq_queue_def by (simp add: tqueue_enqueue_def tcb_ops tqueue_ops)
next
  case False
  with assms have "z < NUM_IDS" by simp
  with False assms(1-3,5) show ?thesis
    unfolding relinked_def enq_tcbs_def enq_queue_def by (simp add: tqueue_enqueue_def tcb_ops tqueue_ops)
qed

lemma tqueue_enqueue_ok:
  assumes Q: "queues s Q" and c: "c < NUM_QUEUES" and pid: "pid < NUM_IDS" and new: "in_no_queue Q pid"
  shows "returns (tqueue_enqueue c pid s) (\<lambda>t. queues t (Q(c := Q c @ [pid])) \<and> unlinked t = unlinked s)"
proof -
  note q = queueD [OF Q c]
  let ?tl = "last (NUM_IDS # Q c)"
  let ?T = "enq_tcbs ?tl pid (TCBPool s)"
  have tl: "?tl = NUM_IDS \<longleftrightarrow> Q c = []" "Q c \<noteq> [] \<Longrightarrow> ?tl \<in> set (Q c)"
    using q(5) by (cases "Q c" rule: rev_cases; auto)+
  have np: "pid \<notin> set (Q d)" if "d < NUM_QUEUES" for d using new that by (simp add: in_no_queue_def)
  have seg: "seg ?T NUM_IDS (Q c @ [pid]) NUM_IDS"
  proof (cases "Q c" rule: rev_cases)
    case Nil
    then show ?thesis by (simp add: enq_tcbs_def)
  next
    case (snoc ys z)
    have "z < NUM_IDS" "z \<noteq> pid" "z \<notin> set ys" "pid \<notin> set ys" using snoc q(4,5) np [OF c] by auto
    moreover have "seg ?T NUM_IDS ys z = seg (TCBPool s) NUM_IDS ys z"
      using calculation snoc by (intro seg_cong) (auto simp: enq_tcbs_def)
    ultimately show ?thesis using q(3) snoc by (auto simp: seg_append enq_tcbs_def)
  qed
  have "queues (relinked c ?T (enq_queue pid (TQueuePool s c)) s) (Q(c := Q c @ [pid]))"
  proof (rule queues_relinked [OF Q c _ _ seg])
    show "distinct (Q c @ [pid])" using q(4) np [OF c] by simp
    show "y \<in> set (Q c @ [pid]) \<Longrightarrow> y < NUM_IDS" for y using q(5) pid by auto
    show "y \<notin> set (Q d)" if "d < NUM_QUEUES" "d \<noteq> c" "y \<in> set (Q c @ [pid])" for d y
      using q(6) [OF that(1,2)] np [OF that(1)] that(3) by auto
    show "?T x = TCBPool s x" if "d < NUM_QUEUES" "d \<noteq> c" "x \<in> set (Q d)" for d x
      using q(6) [OF that(1,2)] tl np [OF that(1)] that(3) by (auto simp: enq_tcbs_def Let_def)
  qed (use q(1,2) tl in \<open>auto simp: hd_append enq_queue_def\<close>)
  moreover have "unlinked (relinked c ?T r s) = unlinked s" for r
    by (rule unlinked_relinked) (simp add: enq_tcbs_def Let_def)
  moreover have "?tl = NUM_IDS \<or> ?tl < NUM_IDS" using tl q(5) by blast
  moreover have "pid \<noteq> ?tl" using tl np [OF c] pid by (cases "Q c = []") auto
  ultimately show ?thesis by (simp only: tqueue_enqueue_eq [OF c pid q(2)] returns_simps simp_thms)
qed

text \<open>Taking a block out of its queue, between \<open>p\<close> and \<open>n\<close>: the common form of dequeue and remove.\<close>

definition del_tcbs :: "u32 \<Rightarrow> u32 \<Rightarrow> u32 \<Rightarrow> (u32 \<Rightarrow> TCB) \<Rightarrow> u32 \<Rightarrow> TCB" where
  "del_tcbs p n pid T =
     (let T1 = (if p = NUM_IDS then T else T(p := (T p)\<lparr>tcb_next := n\<rparr>));
          T2 = (if n = NUM_IDS then T1 else T1(n := (T1 n)\<lparr>tcb_prev := p\<rparr>))
      in T2(pid := (T pid)\<lparr>tcb_prev := NUM_IDS, tcb_next := NUM_IDS\<rparr>))"

definition del_queue :: "u32 \<Rightarrow> u32 \<Rightarrow> TQueue \<Rightarrow> TQueue" where
  "del_queue p n q = \<lparr>tq_head = (if p = NUM_IDS then n else tq_head q), tq_tail = (if n = NUM_IDS then p else tq_tail q)\<rparr>"

lemma del_queue_simps [simp]:
  "q\<lparr>tq_head := NUM_IDS, tq_tail := NUM_IDS\<rparr> = del_queue NUM_IDS NUM_IDS q"
  "n \<noteq> NUM_IDS \<Longrightarrow> q\<lparr>tq_head := n\<rparr> = del_queue NUM_IDS n q"
  "p \<noteq> NUM_IDS \<Longrightarrow> q\<lparr>tq_tail := p\<rparr> = del_queue p NUM_IDS q"
  "p \<noteq> NUM_IDS \<Longrightarrow> n \<noteq> NUM_IDS \<Longrightarrow> del_queue p n q = q"
  by (cases q; simp add: del_queue_def)+

lemma del_tcbs_at:
  assumes "p \<noteq> pid" and "n \<noteq> pid" and "p \<noteq> n"
  shows "p \<noteq> NUM_IDS \<Longrightarrow> del_tcbs p n pid T p = (T p)\<lparr>tcb_next := n\<rparr>"
    and "n \<noteq> NUM_IDS \<Longrightarrow> del_tcbs p n pid T n = (T n)\<lparr>tcb_prev := p\<rparr>"
    and "x \<noteq> p \<Longrightarrow> x \<noteq> n \<Longrightarrow> x \<noteq> pid \<Longrightarrow> del_tcbs p n pid T x = T x"
  using assms by (simp_all add: del_tcbs_def Let_def)

lemma del_tcbs_between:
  assumes "seg T q (us @ pid # vs) r" and "distinct (us @ pid # vs)" and "\<forall>x \<in> set (us @ pid # vs). x < NUM_IDS"
    and "q = NUM_IDS" and "r = NUM_IDS" and "p = last (q # us)" and "n = hd (vs @ [r])"
  shows "seg (del_tcbs p n pid T) q (us @ vs) r"
proof -
  let ?T = "del_tcbs p n pid T"
  have lt: "x \<noteq> NUM_IDS" if "x \<in> set (us @ pid # vs)" for x using assms(3) that by auto
  have s: "seg T q us pid" "seg T pid vs r" "tcb_prev (T pid) = p" using assms(1,6) by (simp_all add: seg_append)
  have us: "seg ?T q us n"
  proof (cases us rule: rev_cases)
    case (snoc ys z)
    with assms(6) have z: "p = z" by simp
    have ne: "p \<noteq> pid" "p \<noteq> NUM_IDS" "p \<notin> set ys" "pid \<notin> set ys" using assms(2) snoc z lt by auto
    have n: "n \<noteq> pid" "p \<noteq> n" "n \<notin> set ys" using assms(2,5,7) snoc z lt by (cases vs; auto)+
    have "seg ?T q ys p = seg T q ys p"
      using ne n by (intro seg_cong) (metis del_tcbs_at(3))
    then show ?thesis using s(1) snoc z del_tcbs_at(1) [of p pid n T] ne n by (simp add: seg_append)
  qed simp
  have vs: "seg ?T p vs r"
  proof (cases vs)
    case (Cons z zs)
    with assms(7) have z: "n = z" by simp
    have ne: "n \<noteq> pid" "n \<noteq> NUM_IDS" "n \<notin> set zs" "pid \<notin> set zs" using assms(2) Cons z lt by auto
    have p: "p \<noteq> pid" "p \<noteq> n" "p \<notin> set zs" using assms(2,4,6) Cons z lt by (cases us rule: rev_cases; auto)+
    have "seg ?T n zs r = seg T n zs r"
      using ne p by (intro seg_cong) (metis del_tcbs_at(3))
    then show ?thesis using s(2) Cons z del_tcbs_at(2) [of p pid n T] ne p by simp
  qed simp
  show ?thesis using us vs assms(6,7) by (simp add: seg_append)
qed

lemma queues_del:
  assumes Q: "queues s Q" and c: "c < NUM_QUEUES" and eq: "Q c = us @ pid # vs"
    and p: "p = last (NUM_IDS # us)" and n: "n = hd (vs @ [NUM_IDS])"
  shows "queues (relinked c (del_tcbs p n pid (TCBPool s)) (del_queue p n (TQueuePool s c)) s) (Q(c := us @ vs))"
    and "unlinked (relinked c (del_tcbs p n pid (TCBPool s)) r s) = unlinked s"
proof -
  note q = queueD [OF Q c, unfolded eq]
  have pn: "p = NUM_IDS \<longleftrightarrow> us = []" "us \<noteq> [] \<Longrightarrow> p \<in> set us" "n = NUM_IDS \<longleftrightarrow> vs = []" "vs \<noteq> [] \<Longrightarrow> n \<in> set vs"
    using q(5) p n by (cases us rule: rev_cases; cases vs; auto)+
  show "queues (relinked c (del_tcbs p n pid (TCBPool s)) (del_queue p n (TQueuePool s c)) s) (Q(c := us @ vs))"
  proof (rule queues_relinked [OF Q c])
    show "seg (del_tcbs p n pid (TCBPool s)) NUM_IDS (us @ vs) NUM_IDS"
      by (rule del_tcbs_between [OF q(3,4)]) (use q(5) p n in auto)
    show "distinct (us @ vs)" using q(4) by simp
    show "y \<in> set (us @ vs) \<Longrightarrow> y < NUM_IDS" for y using q(5) by auto
    show "d < NUM_QUEUES \<Longrightarrow> d \<noteq> c \<Longrightarrow> y \<in> set (us @ vs) \<Longrightarrow> y \<notin> set (Q d)" for d y using q(6) by auto
    show "del_tcbs p n pid (TCBPool s) x = TCBPool s x" if "d < NUM_QUEUES" "d \<noteq> c" "x \<in> set (Q d)" for d x
      using q(6) [OF that(1,2)] that(3) pn by (auto simp: del_tcbs_def Let_def)
    show "tq_head (del_queue p n (TQueuePool s c)) = hd ((us @ vs) @ [NUM_IDS])"
      using q(1) pn n by (cases us) (auto simp: del_queue_def)
    show "tq_tail (del_queue p n (TQueuePool s c)) = last (NUM_IDS # us @ vs)"
      using q(2) pn p by (cases vs rule: rev_cases) (auto simp: del_queue_def)
  qed
  show "unlinked (relinked c (del_tcbs p n pid (TCBPool s)) r s) = unlinked s"
    by (rule unlinked_relinked) (simp add: del_tcbs_def Let_def)
qed

lemma tqueue_dequeue_ok:
  assumes Q: "queues s Q" and c: "c < NUM_QUEUES"
  shows "returns (tqueue_dequeue c s) (\<lambda>(p, t). p = hd (Q c @ [NUM_IDS]) \<and> queues t (Q(c := tl (Q c))) \<and>
    unlinked t = unlinked s)"
proof (cases "Q c")
  case Nil
  then have "tqueue_dequeue c s = Ret (NUM_IDS, s)" using queueD(1) [OF Q c] c by (simp add: tqueue_dequeue_def tqueue_ops)
  moreover have "Q(c := tl (Q c)) = Q" using Nil by (simp add: fun_eq_iff)
  ultimately show ?thesis using Nil Q by simp
next
  case (Cons x xs)
  let ?n = "hd (xs @ [NUM_IDS])"
  note q = queueD [OF Q c, unfolded Cons]
  have x: "x < NUM_IDS" "x \<noteq> NUM_IDS" using q(5) by auto
  have n: "?n \<noteq> NUM_IDS \<Longrightarrow> ?n < NUM_IDS" "?n \<noteq> x" using q(4,5) by (cases xs; auto)+
  have "tqueue_dequeue c s = Ret (x, relinked c (del_tcbs NUM_IDS ?n x (TCBPool s)) (del_queue NUM_IDS ?n (TQueuePool s c)) s)"
    using q(1,3) x n c unfolding relinked_def del_tcbs_def Let_def
    by (cases "?n = NUM_IDS") (simp_all add: tqueue_dequeue_def tcb_ops tqueue_ops)
  with queues_del [OF Q c, of "[]" x xs NUM_IDS ?n] Cons show ?thesis by simp
qed

lemma tqueue_remove_ok:
  assumes Q: "queues s Q" and c: "c < NUM_QUEUES" and pid: "pid \<in> set (Q c)"
  shows "returns (tqueue_remove c pid s) (\<lambda>t. queues t (Q(c := remove1 pid (Q c))) \<and> unlinked t = unlinked s)"
proof -
  obtain us vs where eq: "Q c = us @ pid # vs" using pid by (auto dest: split_list)
  let ?p = "last (NUM_IDS # us)" and ?n = "hd (vs @ [NUM_IDS])"
  note q = queueD [OF Q c, unfolded eq]
  have x: "pid < NUM_IDS" using q(5) by auto
  have pn: "?p \<noteq> NUM_IDS \<Longrightarrow> ?p < NUM_IDS" "?p \<noteq> pid" "?n \<noteq> NUM_IDS \<Longrightarrow> ?n < NUM_IDS" "?n \<noteq> pid" "?p \<noteq> NUM_IDS \<Longrightarrow> ?p \<noteq> ?n"
    using q(4,5) by (cases us rule: rev_cases; cases vs; auto)+
  have links: "tcb_prev (TCBPool s pid) = ?p" "tcb_next (TCBPool s pid) = ?n"
    using q(3) by (simp_all add: seg_append)
  have "tqueue_remove c pid s = Ret (relinked c (del_tcbs ?p ?n pid (TCBPool s)) (del_queue ?p ?n (TQueuePool s c)) s)"
    using links x pn c unfolding relinked_def del_tcbs_def Let_def
    by (cases "?p = NUM_IDS"; cases "?n = NUM_IDS") (simp_all add: tqueue_remove_def tcb_ops tqueue_ops)
  moreover have "remove1 pid (Q c) = us @ vs" using q(4) eq by (simp add: remove1_append)
  ultimately show ?thesis using queues_del [OF Q c eq refl refl] by simp
qed

section \<open>The interface of the queues\<close>

text \<open>
  What the scheduler relies on: \<open>rep s Q\<close> relates the state to the lists, \<open>view\<close> is the part of the state
  that the operations leave alone.
\<close>

primrec deqs :: "('s \<Rightarrow> (u32 \<times> 's) outcome) \<Rightarrow> nat \<Rightarrow> 's \<Rightarrow> (u32 list \<times> 's) outcome" where
  "deqs deq 0 s = Ret ([], s)"
| "deqs deq (Suc n) s = andThen (deq s) (\<lambda>(p, s). andThen (deqs deq n s) (\<lambda>(ps, s). Ret (p # ps, s)))"

locale thread_queues =
  fixes rep :: "'s \<Rightarrow> (u32 \<Rightarrow> u32 list) \<Rightarrow> bool" and view :: "'s \<Rightarrow> 'v"
    and enq :: "u32 \<Rightarrow> u32 \<Rightarrow> 's \<Rightarrow> 's outcome" and deq :: "u32 \<Rightarrow> 's \<Rightarrow> (u32 \<times> 's) outcome"
    and del :: "u32 \<Rightarrow> u32 \<Rightarrow> 's \<Rightarrow> 's outcome"
  assumes enq_law: "\<lbrakk>rep s Q; c < NUM_QUEUES; p < NUM_IDS; in_no_queue Q p\<rbrakk> \<Longrightarrow>
      returns (enq c p s) (\<lambda>t. rep t (Q(c := Q c @ [p])) \<and> view t = view s)"
    and deq_law: "\<lbrakk>rep s Q; c < NUM_QUEUES\<rbrakk> \<Longrightarrow>
      returns (deq c s) (\<lambda>(p, t). p = hd (Q c @ [NUM_IDS]) \<and> rep t (Q(c := tl (Q c))) \<and> view t = view s)"
    and del_law: "\<lbrakk>rep s Q; c < NUM_QUEUES; p \<in> set (Q c)\<rbrakk> \<Longrightarrow>
      returns (del c p s) (\<lambda>t. rep t (Q(c := remove1 p (Q c))) \<and> view t = view s)"
begin

lemma rotate:
  assumes "rep s Q" and "c < NUM_QUEUES" and "p < NUM_IDS" and "in_no_queue Q p"
  shows "returns (andThen (enq c p s) (deq c)) (\<lambda>(x, t). x = hd (Q c @ [p]) \<and>
    rep t (Q(c := tl (Q c @ [p]))) \<and> view t = view s)"
  unfolding returns_andThen
proof (rule returns_mono [OF enq_law [OF assms]])
  fix t assume t: "rep t (Q(c := Q c @ [p])) \<and> view t = view s"
  show "returns (deq c t) (\<lambda>(x, t). x = hd (Q c @ [p]) \<and> rep t (Q(c := tl (Q c @ [p]))) \<and> view t = view s)"
    by (rule returns_mono [OF deq_law [OF _ assms(2)]]) (use t in \<open>auto simp: hd_append\<close>)
qed

lemma enq_all:
  assumes "rep s Q" and "c < NUM_QUEUES" and "distinct ps" and "\<forall>p \<in> set ps. p < NUM_IDS \<and> in_no_queue Q p"
  shows "returns (forM ps (enq c) s) (\<lambda>t. rep t (Q(c := Q c @ ps)) \<and> view t = view s)"
  using assms
proof (induction ps arbitrary: s Q)
  case Nil
  then show ?case by simp
next
  case (Cons p ps)
  show ?case
    unfolding forM.simps returns_andThen
  proof (rule returns_mono [OF enq_law [OF Cons.prems(1,2)]])
    fix t assume t: "rep t (Q(c := Q c @ [p])) \<and> view t = view s"
    let ?Q = "Q(c := Q c @ [p])"
    have new: "\<forall>q \<in> set ps. q < NUM_IDS \<and> in_no_queue ?Q q" using Cons.prems(3,4) by (auto simp: in_no_queue_def)
    have "returns (forM ps (enq c) t) (\<lambda>u. rep u (?Q(c := ?Q c @ ps)) \<and> view u = view t)"
      by (rule Cons.IH [OF conjunct1 [OF t] Cons.prems(2) _ new]) (use Cons.prems(3) in simp)
    with t show "returns (forM ps (enq c) t) (\<lambda>t. rep t (Q(c := Q c @ p # ps)) \<and> view t = view s)" by simp
  qed (use Cons.prems in auto)
qed

lemma deq_all:
  assumes "rep s Q" and "c < NUM_QUEUES"
  shows "returns (deqs (deq c) (length (Q c)) s) (\<lambda>(ps, t). ps = Q c \<and> rep t (Q(c := [])) \<and> view t = view s)"
  using assms
proof (induction "Q c" arbitrary: s Q)
  case Nil
  then show ?case by (simp add: fun_upd_idem)
next
  case (Cons x xs)
  note eq = Cons.hyps(2) [symmetric]
  show ?case
    unfolding eq list.size deqs.simps add_Suc_right add_0_right returns_andThen
  proof (rule returns_mono [OF deq_law [OF Cons.prems]])
    fix r assume r: "case r of (p, t) \<Rightarrow> p = hd (Q c @ [NUM_IDS]) \<and> rep t (Q(c := tl (Q c))) \<and> view t = view s"
    obtain p t where pt: "r = (p, t)" by (cases r)
    have "returns (deqs (deq c) (length ((Q(c := xs)) c)) t)
      (\<lambda>(ps, u). ps = (Q(c := xs)) c \<and> rep u ((Q(c := xs))(c := [])) \<and> view u = view t)"
    proof (rule Cons.hyps(1) [OF _ _ Cons.prems(2)])
      show "rep t (Q(c := xs))" using r by (simp add: pt eq)
    qed simp
    with r show "returns (case r of (p, s) \<Rightarrow> andThen (deqs (deq c) (length xs) s) (\<lambda>(ps, s). Ret (p # ps, s)))
      (\<lambda>(ps, t). ps = x # xs \<and> rep t (Q(c := [])) \<and> view t = view s)"
      by (auto simp: pt eq returns_andThen elim!: returns_mono)
  qed
qed

lemma fifo:
  assumes "rep s Q" and "c < NUM_QUEUES" and "distinct ps" and "\<forall>p \<in> set ps. p < NUM_IDS \<and> in_no_queue Q p"
  shows "returns (andThen (forM ps (enq c) s) (deqs (deq c) (length (Q c) + length ps)))
    (\<lambda>(xs, t). xs = Q c @ ps \<and> rep t (Q(c := [])) \<and> view t = view s)"
  unfolding returns_andThen
proof (rule returns_mono [OF enq_all [OF assms]])
  fix t assume "rep t (Q(c := Q c @ ps)) \<and> view t = view s"
  with deq_all [of t "Q(c := Q c @ ps)", OF _ assms(2)]
  show "returns (deqs (deq c) (length (Q c) + length ps) t) (\<lambda>(xs, t). xs = Q c @ ps \<and> rep t (Q(c := [])) \<and> view t = view s)"
    by simp
qed

end

interpretation tq: thread_queues queues unlinked tqueue_enqueue tqueue_dequeue tqueue_remove
  by unfold_locales (fact tqueue_enqueue_ok, fact tqueue_dequeue_ok, fact tqueue_remove_ok)

end
