(* ===== verification/Scheduler.thy ===== *)
theory Scheduler
  imports Thread_Queues Page_Tables
begin

text \<open>
  The scheduler of \<^verbatim>\<open>kern/thread/PThread\<close> on one CPU: the invariant that relates thread states, the
  ready queue and the current thread, the round-robin specification that \<^verbatim>\<open>thread_yield\<close> refines,
  creation of threads, and what \<^verbatim>\<open>thread_sleep\<close> and \<^verbatim>\<open>thread_wakeup\<close> do to the invariant.
\<close>

section \<open>Frames\<close>

lemma thread_frame [simp]:
  "this_cpu (s\<lparr>CURID := a\<rparr>) = this_cpu s" "on_cpu (s\<lparr>CURID := a\<rparr>) = on_cpu s"
  "this_cpu (s\<lparr>kctx_pool := b\<rparr>) = this_cpu s" "on_cpu (s\<lparr>kctx_pool := b\<rparr>) = on_cpu s"
  "this_cpu (s\<lparr>TCBPool := c\<rparr>) = this_cpu s" "on_cpu (s\<lparr>TCBPool := c\<rparr>) = on_cpu s"
  "this_cpu (s\<lparr>TQueuePool := d\<rparr>) = this_cpu s" "on_cpu (s\<lparr>TQueuePool := d\<rparr>) = on_cpu s"
  "this_cpu (s\<lparr>sched_lk := e\<rparr>) = this_cpu s" "on_cpu (s\<lparr>sched_lk := e\<rparr>) = on_cpu s"
  "this_cpu (s\<lparr>sched_ticks := f\<rparr>) = this_cpu s" "on_cpu (s\<lparr>sched_ticks := f\<rparr>) = on_cpu s"
  by (simp_all add: this_cpu_def on_cpu_def this_kstack_def cong: kstack_ref.case_cong)

lemma queues_frame [simp]:
  "queues (s\<lparr>CURID := a\<rparr>) Q = queues s Q"
  "queues (s\<lparr>kctx_pool := b\<rparr>) Q = queues s Q"
  "queues (s\<lparr>sched_lk := e\<rparr>) Q = queues s Q"
  "queues (s\<lparr>sched_ticks := f\<rparr>) Q = queues s Q"
  "queues (s\<lparr>regs := r, cur_kstack := k\<rparr>) Q = queues s Q"
  "queues (s\<lparr>cur_kstack := k, regs := r\<rparr>) Q = queues s Q"
  by (simp_all add: queues_def queue_is_def)

lemma queues_tcb:
  assumes "\<And>x. tcb_prev (T x) = tcb_prev (TCBPool s x) \<and> tcb_next (T x) = tcb_next (TCBPool s x)"
  shows "queues (s\<lparr>TCBPool := T\<rparr>) Q = queues s Q"
proof -
  have "seg T NUM_IDS xs NUM_IDS = seg (TCBPool s) NUM_IDS xs NUM_IDS" for xs by (rule seg_cong) (rule assms)
  then show ?thesis by (simp add: queues_def queue_is_def)
qed

text \<open>What two states with the same unlinked part have in common.\<close>

lemma unlinked_same:
  assumes "unlinked t = unlinked s"
  shows "CURID t = CURID s" "kctx_pool t = kctx_pool s" "sched_lk t = sched_lk s" "regs t = regs s"
    "cur_kstack t = cur_kstack s" "bsp_kstack t = bsp_kstack s" "proc_kstack t = proc_kstack s" "pcpu_tab t = pcpu_tab s"
    "tcb_state (TCBPool t p) = tcb_state (TCBPool s p)" "tcb_channel (TCBPool t p) = tcb_channel (TCBPool s p)"
    "mem t = mem s" "CONTAINER t = CONTAINER s"
proof -
  have fields: "CURID (unlinked s) = CURID s" "kctx_pool (unlinked s) = kctx_pool s" "sched_lk (unlinked s) = sched_lk s"
    "regs (unlinked s) = regs s" "cur_kstack (unlinked s) = cur_kstack s" "bsp_kstack (unlinked s) = bsp_kstack s"
    "proc_kstack (unlinked s) = proc_kstack s" "pcpu_tab (unlinked s) = pcpu_tab s"
    "tcb_state (TCBPool (unlinked s) p) = tcb_state (TCBPool s p)"
    "tcb_channel (TCBPool (unlinked s) p) = tcb_channel (TCBPool s p)"
    "mem (unlinked s) = mem s" "CONTAINER (unlinked s) = CONTAINER s" for s :: "'a mthr_scheme"
    by (simp_all add: unlinked_def)
  show "CURID t = CURID s" "kctx_pool t = kctx_pool s" "sched_lk t = sched_lk s" "regs t = regs s"
    "cur_kstack t = cur_kstack s" "bsp_kstack t = bsp_kstack s" "proc_kstack t = proc_kstack s" "pcpu_tab t = pcpu_tab s"
    "tcb_state (TCBPool t p) = tcb_state (TCBPool s p)" "tcb_channel (TCBPool t p) = tcb_channel (TCBPool s p)"
    "mem t = mem s" "CONTAINER t = CONTAINER s"
    using fields [of s] fields [of t] by (simp_all add: assms)
qed

lemma unlinked_cpu:
  assumes "unlinked t = unlinked s"
  shows "this_cpu t = this_cpu s" and "on_cpu t = on_cpu s"
  using unlinked_same [OF assms] by (simp_all add: this_cpu_def on_cpu_def this_kstack_def cong: kstack_ref.case_cong)

text \<open>The memory management below is not concerned: it looks at these fields only.\<close>

definition same_vm :: "'a mpt_scheme \<Rightarrow> 'b mpt_scheme \<Rightarrow> bool" where
  "same_vm t s \<longleftrightarrow> AT t = AT s \<and> NUM_PAGES t = NUM_PAGES s \<and> last_palloc_index t = last_palloc_index s \<and> mem_lk t = mem_lk s \<and>
     CONTAINER t = CONTAINER s \<and> container_lks t = container_lks s \<and> mem t = mem s \<and> PDirPool t = PDirPool s \<and>
     IDPTbl_addr t = IDPTbl_addr s"

lemma same_vm_cont:
  assumes "same_vm t s" and "on_cpu t = on_cpu s"
  shows "cont_ok t = cont_ok s"
  using assms by (simp add: same_vm_def cont_ok_def mat_ok_def page_norm_def page_free_def ct_tree_def ct_quotas_def
      ct_total_def ct_slack_def ct_is_used_def num_free_def)

lemma same_vm_mpt:
  assumes "same_vm t s" and "on_cpu t = on_cpu s"
  shows "mpt_ok t = mpt_ok s"
proof -
  have use: "use_page t u = use_page s u" for u
    using assms by (simp add: same_vm_def use_page_def pte_at_def split: page_use.split)
  show ?thesis using assms same_vm_cont [OF assms]
    by (simp add: mpt_ok_def uses_ok_def use same_vm_def layout_ok_def ident_ok_def idpt_def pdes_ok_def)
qed

lemma same_vm_ct:
  assumes "same_vm t s"
  shows "ct_is_used t i = ct_is_used s i" and "ct_slack t i = ct_slack s i" and "ct_child i t = ct_child i s"
  using assms by (simp_all add: same_vm_def ct_is_used_def ct_slack_def ct_child_def)

lemma same_vm_thread [simp]:
  "same_vm (s\<lparr>CURID := a\<rparr>) s" "same_vm (s\<lparr>kctx_pool := b\<rparr>) s" "same_vm (s\<lparr>TCBPool := c\<rparr>) s"
  "same_vm (s\<lparr>TQueuePool := d\<rparr>) s" "same_vm (s\<lparr>sched_lk := e\<rparr>) s" "same_vm (s\<lparr>sched_ticks := f\<rparr>) s" "same_vm s s"
  by (simp_all add: same_vm_def)

lemma same_vm_trans [trans]: "same_vm u t \<Longrightarrow> same_vm t s \<Longrightarrow> same_vm u s"
  by (simp add: same_vm_def)

lemma unlinked_vm:
  assumes "unlinked t = unlinked s"
  shows "same_vm t s"
proof -
  have "same_vm (unlinked s) s" "same_vm s (unlinked s)" for s :: "'a mthr_scheme"
    by (simp_all add: unlinked_def same_vm_def)
  with assms show ?thesis by (metis same_vm_trans)
qed

section \<open>The invariant\<close>

text \<open>The kernel stacks that belong to the running CPU.\<close>

definition stack_of :: "'a machine_scheme \<Rightarrow> kstack_ref \<Rightarrow> kstack" where
  "stack_of s r = (case r of Bsp i \<Rightarrow> bsp_kstack s i | Proc i \<Rightarrow> proc_kstack s i)"

definition our_stack :: "'a machine_scheme \<Rightarrow> kstack_ref \<Rightarrow> bool" where
  "our_stack s r \<longleftrightarrow> (case r of Bsp i \<Rightarrow> i < NUM_CPUS | Proc i \<Rightarrow> i < NUM_IDS) \<and>
     magic (stack_of s r) = KSTACK_MAGIC \<and> kst_cpu_idx (stack_of s r) = this_cpu s"

text \<open>
  The current thread runs and is in no queue; the threads in the ready queue are those in state
  ready, and their saved contexts are on kernel stacks of this CPU.
\<close>

definition sched_ok :: "'a mthr_scheme \<Rightarrow> (u32 \<Rightarrow> u32 list) \<Rightarrow> u32 \<Rightarrow> bool" where
  "sched_ok s Q c \<longleftrightarrow> on_cpu s \<and> sched_lk s = unlocked \<and> queues s Q \<and>
     CURID s (this_cpu s) = c \<and> c < NUM_IDS \<and> in_no_queue Q c \<and>
     (\<forall>p < NUM_IDS. tcb_state (TCBPool s p) = TSTATE_READY \<longleftrightarrow> p \<in> set (Q NUM_IDS)) \<and>
     (\<forall>p < NUM_IDS. tcb_state (TCBPool s p) = TSTATE_RUN \<longleftrightarrow> p = c) \<and>
     (\<forall>p \<in> set (Q NUM_IDS). our_stack s (kc_stack (kctx_pool s p)))"

lemma sched_okD:
  assumes "sched_ok s Q c"
  shows "on_cpu s" "sched_lk s = unlocked" "queues s Q" "CURID s (this_cpu s) = c" "c < NUM_IDS" "in_no_queue Q c"
    "\<And>p. p < NUM_IDS \<Longrightarrow> tcb_state (TCBPool s p) = TSTATE_READY \<longleftrightarrow> p \<in> set (Q NUM_IDS)"
    "\<And>p. p < NUM_IDS \<Longrightarrow> tcb_state (TCBPool s p) = TSTATE_RUN \<longleftrightarrow> p = c"
    "\<And>p. p \<in> set (Q NUM_IDS) \<Longrightarrow> our_stack s (kc_stack (kctx_pool s p))"
  using assms by (simp_all add: sched_ok_def)

lemma sched_acquire_eq: "on_cpu s \<Longrightarrow> sched_lk s = unlocked \<Longrightarrow> sched_acquire s = Ret (s\<lparr>sched_lk := held_by (this_cpu s)\<rparr>)"
  by (simp add: sched_acquire_def locks)

lemma get_curid_eq: "on_cpu s \<Longrightarrow> get_curid s = Ret (CURID s (this_cpu s))"
  by (simp add: get_curid_def get_pcpu_idx_on_cpu this_cpu_less)

lemma set_curid_eq: "on_cpu s \<Longrightarrow> set_curid i s = Ret (s\<lparr>CURID := (CURID s)(this_cpu s := i)\<rparr>)"
  by (simp add: set_curid_def get_pcpu_idx_on_cpu this_cpu_less)

lemma our_stack_current: "on_cpu s \<Longrightarrow> our_stack s (cur_kstack s)"
  by (auto simp: our_stack_def stack_of_def on_cpu_def this_cpu_def this_kstack_def)

lemma cswitch_load_cpu:
  assumes "on_cpu s" and "our_stack s (kc_stack k)"
  shows "on_cpu (cswitch_load k s)" and "this_cpu (cswitch_load k s) = this_cpu s"
  using assms
  by (auto simp: on_cpu_def our_stack_def stack_of_def cswitch_load_def this_cpu_def this_kstack_def
      split: kstack_ref.splits)

lemma cswitch_save_load [simp]: "cswitch_save (cswitch_load k s) = k"
  by (simp add: cswitch_save_def cswitch_load_def)

lemma cswitch_load_save:
  "regs (cswitch_load (cswitch_save s) t) = regs s" "cur_kstack (cswitch_load (cswitch_save s) t) = cur_kstack s"
  by (simp_all add: cswitch_save_def cswitch_load_def)

lemma our_stack_cong:
  assumes "bsp_kstack t = bsp_kstack s" and "proc_kstack t = proc_kstack s" and "this_cpu t = this_cpu s"
  shows "our_stack t r = our_stack s r"
  using assms by (simp add: our_stack_def stack_of_def cong: kstack_ref.case_cong)

section \<open>Round robin\<close>

text \<open>
  The specification of \<^verbatim>\<open>thread_yield\<close>: the current thread with its registers goes to the end of the
  ready queue, and the first of the queue goes on with the registers that were saved for it.
\<close>

record rr_state =
  rr_cur :: u32
  rr_ready :: "u32 list"
  rr_ctx :: "u32 \<Rightarrow> kctx"
  rr_regs :: kctx

definition rr_yield :: "rr_state \<Rightarrow> rr_state" where
  "rr_yield a =
     (case rr_ready a of
        [] \<Rightarrow> a
      | x # xs \<Rightarrow> \<lparr>rr_cur = x, rr_ready = xs @ [rr_cur a], rr_ctx = (rr_ctx a)(rr_cur a := rr_regs a), rr_regs = rr_ctx a x\<rparr>)"

definition rr_abs :: "'a mthr_scheme \<Rightarrow> (u32 \<Rightarrow> u32 list) \<Rightarrow> u32 \<Rightarrow> rr_state" where
  "rr_abs s Q c = \<lparr>rr_cur = c, rr_ready = Q NUM_IDS, rr_ctx = kctx_pool s, rr_regs = cswitch_save s\<rparr>"

definition sched_refines :: "'a mthr_scheme \<Rightarrow> rr_state \<Rightarrow> bool" where
  "sched_refines s a \<longleftrightarrow> (\<exists>Q c. sched_ok s Q c \<and> a = rr_abs s Q c)"

lemma cswitch_save_cong: "regs t = regs s \<Longrightarrow> cur_kstack t = cur_kstack s \<Longrightarrow> cswitch_save t = cswitch_save s"
  by (simp add: cswitch_save_def)

lemma cswitch_load_fields [simp]:
  "CURID (cswitch_load k s) = CURID s" "kctx_pool (cswitch_load k s) = kctx_pool s" "sched_lk (cswitch_load k s) = sched_lk s"
  "TCBPool (cswitch_load k s) = TCBPool s" "queues (cswitch_load k s) Q = queues s Q"
  "bsp_kstack (cswitch_load k s) = bsp_kstack s" "proc_kstack (cswitch_load k s) = proc_kstack s"
  by (simp_all add: cswitch_load_def)

text \<open>The part of \<open>thread_yield\<close> before the context switch: \<open>t\<close> differs from \<open>s\<close> in the thread states and the queues.\<close>

lemma yield_enq_deq:
  assumes ok: "sched_ok s Q c"
  obtains x t where "x = hd (Q NUM_IDS @ [c])" and "x < NUM_IDS"
    and "thread_yield s =
      (if c \<noteq> x then kctx_switch c x t else Ret t)"
    and "on_cpu t" "this_cpu t = this_cpu s" "sched_lk t = unlocked" "queues t (Q(NUM_IDS := tl (Q NUM_IDS @ [c])))"
      "CURID t = (CURID s)(this_cpu s := x)" "kctx_pool t = kctx_pool s" "cswitch_save t = cswitch_save s"
      "bsp_kstack t = bsp_kstack s" "proc_kstack t = proc_kstack s"
      "\<And>p. tcb_state (TCBPool t p) =
         (if p = x then TSTATE_RUN else if p = c then TSTATE_READY else tcb_state (TCBPool s p))"
proof -
  note k = sched_okD [OF ok]
  define s1 where "s1 = s\<lparr>sched_lk := held_by (this_cpu s)\<rparr>"
  define s2 where "s2 = s1\<lparr>TCBPool := (TCBPool s1)(c := (TCBPool s1 c)\<lparr>tcb_state := TSTATE_READY\<rparr>)\<rparr>"
  have q2: "queues s2 Q" unfolding s2_def by (subst queues_tcb) (use k(3) in \<open>simp_all add: s1_def\<close>)
  have "returns (andThen (tqueue_enqueue NUM_IDS c s2) (tqueue_dequeue NUM_IDS)) (\<lambda>(x, t). x = hd (Q NUM_IDS @ [c]) \<and>
    queues t (Q(NUM_IDS := tl (Q NUM_IDS @ [c]))) \<and> unlinked t = unlinked s2)"
    by (rule tq.rotate [OF q2 _ k(5,6)]) simp
  then obtain x s3 where x: "x = hd (Q NUM_IDS @ [c])" and q3: "queues s3 (Q(NUM_IDS := tl (Q NUM_IDS @ [c])))"
    and u3: "unlinked s3 = unlinked s2" and rot: "andThen (tqueue_enqueue NUM_IDS c s2) (tqueue_dequeue NUM_IDS) = Ret (x, s3)"
    by (auto elim!: returnsE)
  have xl: "x < NUM_IDS"
    using x k(5) queueD(5) [OF k(3), of NUM_IDS] by (cases "Q NUM_IDS") auto
  note f = unlinked_same [OF u3] unlinked_cpu [OF u3]
  define s4 where "s4 = s3\<lparr>TCBPool := (TCBPool s3)(x := (TCBPool s3 x)\<lparr>tcb_state := TSTATE_RUN\<rparr>)\<rparr>"
  define s5 where "s5 = s4\<lparr>CURID := (CURID s4)(this_cpu s4 := x)\<rparr>"
  have on: "on_cpu s4" "this_cpu s4 = this_cpu s" using f k(1) by (simp_all add: s4_def s2_def s1_def)
  have "thread_yield s = andThen (andThen (tqueue_enqueue NUM_IDS c s2) (tqueue_dequeue NUM_IDS)) (\<lambda>(x, s).
     andThen (tcb_set_state x TSTATE_RUN s) (\<lambda>s. andThen (set_curid x s) (\<lambda>s.
     if c \<noteq> x then kctx_switch c x (sched_release s) else Ret (sched_release s))))"
    using k(1,2,4,5)
    by (simp add: thread_yield_def sched_acquire_eq get_curid_eq tcb_ops andThen_assoc s1_def s2_def)
  also have "\<dots> = (if c \<noteq> x then kctx_switch c x (sched_release s5) else Ret (sched_release s5))"
    using xl by (simp add: rot tcb_ops s4_def [symmetric] set_curid_eq [OF on(1)] s5_def)
  finally have call: "thread_yield s = (if c \<noteq> x then kctx_switch c x (sched_release s5) else Ret (sched_release s5))" .
  have "queues (sched_release s5) (Q(NUM_IDS := tl (Q NUM_IDS @ [c])))"
    unfolding sched_release_def s5_def s4_def by (simp add: queues_tcb q3)
  moreover have "cswitch_save (sched_release s5) = cswitch_save s"
    using f by (intro cswitch_save_cong) (simp_all add: sched_release_def s5_def s4_def s2_def s1_def)
  moreover have "tcb_state (TCBPool (sched_release s5) p) =
    (if p = x then TSTATE_RUN else if p = c then TSTATE_READY else tcb_state (TCBPool s p))" for p
    using f(9) by (simp add: sched_release_def s5_def s4_def s2_def s1_def)
  ultimately show thesis using f on
    by (intro that [OF x xl call]) (simp_all add: sched_release_def s5_def s4_def s2_def s1_def)
qed

lemma thread_yield_ok:
  assumes ok: "sched_ok s Q c"
  shows "returns (thread_yield s) (\<lambda>t. let x = hd (Q NUM_IDS @ [c]); Q' = Q(NUM_IDS := tl (Q NUM_IDS @ [c])) in
    sched_ok t Q' x \<and> rr_abs t Q' x = rr_yield (rr_abs s Q c))"
proof -
  note k = sched_okD [OF ok]
  from ok obtain x t where x: "x = hd (Q NUM_IDS @ [c])" and xl: "x < NUM_IDS"
    and call: "thread_yield s = (if c \<noteq> x then kctx_switch c x t else Ret t)"
    and t: "on_cpu t" "this_cpu t = this_cpu s" "sched_lk t = unlocked" "queues t (Q(NUM_IDS := tl (Q NUM_IDS @ [c])))"
      "CURID t = (CURID s)(this_cpu s := x)" "kctx_pool t = kctx_pool s" "cswitch_save t = cswitch_save s"
      "bsp_kstack t = bsp_kstack s" "proc_kstack t = proc_kstack s"
      "\<And>p. tcb_state (TCBPool t p) =
         (if p = x then TSTATE_RUN else if p = c then TSTATE_READY else tcb_state (TCBPool s p))"
    by (rule yield_enq_deq) blast
  have nc: "c \<notin> set (Q NUM_IDS)" using k(6) by (simp add: in_no_queue_def)
  show ?thesis
  proof (cases "Q NUM_IDS")
    case Nil
    then have "x = c" "Q(NUM_IDS := tl (Q NUM_IDS @ [c])) = Q" using x by (simp_all add: fun_upd_idem)
    moreover have "sched_ok t Q c" using t k calculation Nil by (auto simp: sched_ok_def)
    moreover have "rr_abs t Q c = rr_yield (rr_abs s Q c)" using t Nil by (simp add: rr_abs_def rr_yield_def)
    ultimately show ?thesis using call x by simp
  next
    case (Cons y ys)
    let ?Q = "Q(NUM_IDS := ys @ [c])"
    have xy: "x = y" "c \<noteq> y" using x Cons nc by auto
    define u where "u = t\<lparr>kctx_pool := (kctx_pool t)(c := cswitch_save t)\<rparr>"
    define v where "v = cswitch_load (kctx_pool s y) u"
    have st: "our_stack u r = our_stack s r" for r using t by (intro our_stack_cong) (simp_all add: u_def)
    have "our_stack u (kc_stack (kctx_pool s y))" using k(9) Cons by (simp add: st)
    then have on: "on_cpu v" "this_cpu v = this_cpu s"
      unfolding v_def using t by (simp_all add: cswitch_load_cpu u_def)
    have sv: "our_stack v r = our_stack s r" for r
      using on t by (intro our_stack_cong) (simp_all add: v_def u_def)
    have "kc_stack (cswitch_save s) = cur_kstack s" "kctx_pool v = (kctx_pool s)(c := cswitch_save s)"
      using t(6,7) by (simp_all add: cswitch_save_def v_def u_def)
    then have stacks: "our_stack v (kc_stack (kctx_pool v p))" if "p \<in> set (ys @ [c])" for p
      using that k(9) [of p] our_stack_current [OF k(1)] Cons by (auto simp: sv)
    have dist: "distinct (y # ys)" "\<And>p. p \<in> set ys \<Longrightarrow> p < NUM_IDS" using queueD(4,5) [OF k(3), of NUM_IDS] Cons by auto
    have "in_no_queue ?Q y"
      using queueD(6) [OF k(3), of NUM_IDS] Cons dist xy by (auto simp: in_no_queue_def)
    moreover have "queues v ?Q" using t(4) Cons by (simp add: v_def u_def)
    moreover have "p \<in> set (y # ys) \<longleftrightarrow> tcb_state (TCBPool s p) = TSTATE_READY" if "p < NUM_IDS" for p
      using k(7) [OF that] Cons by simp
    ultimately have "sched_ok v ?Q y"
      using on t(3,5,10) k(5,8) stacks xy xl dist by (auto simp: sched_ok_def v_def u_def)
    moreover have "rr_abs v ?Q y = rr_yield (rr_abs s Q c)"
      using t(6,7) Cons xy by (simp add: rr_abs_def rr_yield_def v_def u_def)
    moreover have "kctx_switch c y t = Ret v"
      using k(5) xl xy t(6) by (simp add: kctx_switch_def v_def u_def)
    ultimately show ?thesis using call xy x Cons by simp
  qed
qed

lemma rr_round:
  assumes "distinct (rr_cur a # rr_ready a)" and "k < length (rr_ready a)"
  shows "(rr_yield ^^ Suc k) a =
    \<lparr>rr_cur = rr_ready a ! k, rr_ready = drop (Suc k) (rr_ready a) @ rr_cur a # take k (rr_ready a),
     rr_ctx = (rr_ctx a)(rr_cur a := rr_regs a), rr_regs = rr_ctx a (rr_ready a ! k)\<rparr>"
  using assms(2)
proof (induction k)
  case 0
  then show ?case by (cases "rr_ready a") (simp_all add: rr_yield_def fun_upd_def)
next
  case (Suc k)
  let ?xs = "rr_ready a"
  have "drop (Suc k) ?xs = ?xs ! Suc k # drop (Suc (Suc k)) ?xs" using Suc.prems by (simp add: Cons_nth_drop_Suc)
  moreover have "?xs ! k \<noteq> rr_cur a" "?xs ! Suc k \<noteq> rr_cur a" using assms(1) Suc.prems by (auto simp: in_set_conv_nth)
  ultimately show ?case
    using Suc.IH Suc.prems by (simp add: rr_yield_def fun_upd_idem take_Suc_conv_app_nth)
qed

lemma rr_full_round:
  assumes "distinct (rr_cur a # rr_ready a)"
  shows "rr_cur ((rr_yield ^^ Suc (length (rr_ready a))) a) = rr_cur a"
    and "rr_regs ((rr_yield ^^ Suc (length (rr_ready a))) a) = rr_regs a"
    and "rr_ready ((rr_yield ^^ Suc (length (rr_ready a))) a) = rr_ready a"
proof -
  have "rr_cur ((rr_yield ^^ Suc (length (rr_ready a))) a) = rr_cur a \<and>
    rr_regs ((rr_yield ^^ Suc (length (rr_ready a))) a) = rr_regs a \<and>
    rr_ready ((rr_yield ^^ Suc (length (rr_ready a))) a) = rr_ready a"
  proof (cases "rr_ready a" rule: rev_cases)
    case Nil
    then show ?thesis by (simp add: rr_yield_def)
  next
    case (snoc ys y)
    then have "(rr_yield ^^ length (rr_ready a)) a =
      \<lparr>rr_cur = y, rr_ready = rr_cur a # ys, rr_ctx = (rr_ctx a)(rr_cur a := rr_regs a), rr_regs = rr_ctx a y\<rparr>"
      using rr_round [OF assms, of "length ys"] by simp
    then show ?thesis using snoc by (simp add: rr_yield_def)
  qed
  then show "rr_cur ((rr_yield ^^ Suc (length (rr_ready a))) a) = rr_cur a"
    "rr_regs ((rr_yield ^^ Suc (length (rr_ready a))) a) = rr_regs a"
    "rr_ready ((rr_yield ^^ Suc (length (rr_ready a))) a) = rr_ready a" by blast+
qed

text \<open>Successive yields, each by the thread that runs then.\<close>

primrec yields :: "nat \<Rightarrow> 'a mthr_scheme \<Rightarrow> 'a mthr_scheme outcome" where
  "yields 0 s = Ret s"
| "yields (Suc n) s = andThen (yields n s) thread_yield"

lemma thread_yield_step: "sched_refines s a \<Longrightarrow> returns (thread_yield s) (\<lambda>t. sched_refines t (rr_yield a))"
  unfolding sched_refines_def by (elim exE conjE) (rule returns_mono [OF thread_yield_ok], assumption, metis)

lemma yields_refine: "sched_refines s a \<Longrightarrow> returns (yields n s) (\<lambda>t. sched_refines t ((rr_yield ^^ n) a))"
  by (induction n) (auto simp: returns_andThen intro: thread_yield_step elim!: returns_mono)

lemma sched_refines_cur:
  assumes "sched_refines s a"
  shows "CURID s (this_cpu s) = rr_cur a" and "cswitch_save s = rr_regs a" and "kctx_pool s = rr_ctx a"
    and "distinct (rr_cur a # rr_ready a)"
proof -
  obtain Q c where Q: "sched_ok s Q c" and a: "a = rr_abs s Q c" using assms by (auto simp: sched_refines_def)
  note k = sched_okD [OF Q]
  show "CURID s (this_cpu s) = rr_cur a" "cswitch_save s = rr_regs a" "kctx_pool s = rr_ctx a"
    using k by (simp_all add: a rr_abs_def)
  show "distinct (rr_cur a # rr_ready a)"
    using k(6) queueD(4) [OF k(3), of NUM_IDS] by (simp add: a rr_abs_def in_no_queue_def)
qed

lemma regs_cswitch_save:
  assumes "cswitch_save t = cswitch_save s"
  shows "regs t = regs s" and "cur_kstack t = cur_kstack s"
  using assms by (auto simp: cswitch_save_def intro: cpu_regs.equality)

section \<open>Creating threads\<close>

text \<open>
  \<^verbatim>\<open>thread_spawn\<close> under the quota and with a free index for the child: the new thread is at the end of the
  ready queue, its context starts at \<open>entry\<close> with an empty kernel stack, and the quota has moved
  from the parent to it.
\<close>

lemma kctx_new_eq:
  assumes ok: "cont_ok s" and i: "ct_is_used s i" and n: "ct_nchildren (CONTAINER s i) < MAX_CHILDREN"
    and c: "ct_child i s < NUM_IDS" and q: "unat q \<le> ct_slack s i"
  shows "kctx_new entry i q s =
    Ret (ct_child i s, (ct_gave i q s)\<lparr>kctx_pool := (kctx_pool s)(ct_child i s :=
      (kctx_pool s (ct_child i s))\<lparr>kc_stack := Proc (ct_child i s), kc_esp := KSTACK_SIZE, kc_eip := entry\<rparr>)\<rparr>)"
proof -
  have id: "i < NUM_IDS" using i by (simp add: ct_is_used_def)
  have b: "unat (ct_usage (CONTAINER s i)) \<le> unat (ct_quota (CONTAINER s i))" "unat (ct_quota (CONTAINER s i)) \<le> 2 ^ 20"
    using ok i by (auto simp: cont_ok_def ct_quotas_def)
  have "container_can_consume i q s = Ret True"
    using id b q by (simp add: container_can_consume_def ct_slack_def word_le_nat_alt unat_word_ariths)
  then show ?thesis
    using c container_split_eq [OF ok id n c, of q]
    by (auto simp: kctx_new_def alloc_mem_quota_def kctx_set_esp_def kctx_set_eip_def ct_gave_def)
qed

definition threads_used :: "'a mthr_scheme \<Rightarrow> (u32 \<Rightarrow> u32 list) \<Rightarrow> bool" where
  "threads_used s Q \<longleftrightarrow> (\<forall>c < NUM_QUEUES. \<forall>p \<in> set (Q c). ct_is_used s p)"

lemma thread_spawn_ok:
  assumes cpu: "on_cpu s" "sched_lk s = unlocked" and Q: "queues s Q" "threads_used s Q"
    and ok: "cont_ok s" and i: "ct_is_used s i" and n: "ct_nchildren (CONTAINER s i) < MAX_CHILDREN"
    and c: "ct_child i s < NUM_IDS" and q: "unat q \<le> ct_slack s i"
  shows "returns (thread_spawn entry i q s) (\<lambda>(pid, t). pid = ct_child i s \<and> on_cpu t \<and> sched_lk t = unlocked \<and> cont_ok t \<and>
    queues t (Q(NUM_IDS := Q NUM_IDS @ [pid])) \<and> threads_used t (Q(NUM_IDS := Q NUM_IDS @ [pid])) \<and>
    tcb_state (TCBPool t pid) = TSTATE_READY \<and> (\<forall>p. p \<noteq> pid \<longrightarrow> tcb_state (TCBPool t p) = tcb_state (TCBPool s p)) \<and>
    kctx_pool t = (kctx_pool s)(pid := (kctx_pool s pid)\<lparr>kc_stack := Proc pid, kc_esp := KSTACK_SIZE, kc_eip := entry\<rparr>) \<and>
    CONTAINER t = CONTAINER (ct_gave i q s) \<and> CURID t = CURID s \<and> regs t = regs s)"
proof -
  let ?p = "ct_child i s"
  define s1 where "s1 = s\<lparr>sched_lk := held_by (this_cpu s)\<rparr>"
  have vm: "same_vm s1 s" "on_cpu s1" using cpu by (simp_all add: s1_def)
  have ct: "ct_is_used s1 i" "ct_nchildren (CONTAINER s1 i) < MAX_CHILDREN" "ct_child i s1 = ?p" "ct_slack s1 i = ct_slack s i"
    using i n same_vm_ct [OF vm(1)] by (simp_all add: s1_def)
  have ok1: "cont_ok s1" using ok same_vm_cont [OF vm(1)] vm(2) cpu(1) by simp
  define s2 where "s2 = (ct_gave i q s1)\<lparr>kctx_pool := (kctx_pool s1)(?p :=
    (kctx_pool s1 ?p)\<lparr>kc_stack := Proc ?p, kc_esp := KSTACK_SIZE, kc_eip := entry\<rparr>)\<rparr>"
  have new: "kctx_new entry i q s1 = Ret (?p, s2)"
    using kctx_new_eq [OF ok1 ct(1,2)] c q ct by (simp add: s2_def)
  define s3 where "s3 = s2\<lparr>TCBPool := (TCBPool s2)(?p := (TCBPool s2 ?p)\<lparr>tcb_state := TSTATE_READY\<rparr>)\<rparr>"
  have "queues s2 Q" using Q(1) by (simp add: s2_def s1_def ct_gave_def queues_def queue_is_def)
  then have q3: "queues s3 Q" unfolding s3_def by (subst queues_tcb) simp_all
  have fresh: "\<not> ct_is_used s ?p" using ct_child_fresh(1) [OF ok _ n] i by (simp add: ct_is_used_def)
  have "in_no_queue Q ?p" using Q(2) fresh by (auto simp: threads_used_def in_no_queue_def)
  from tq.enq_law [OF q3 _ c this, of NUM_IDS] obtain t where t: "tqueue_enqueue NUM_IDS ?p s3 = Ret t"
    "queues t (Q(NUM_IDS := Q NUM_IDS @ [?p]))" "unlinked t = unlinked s3" by (auto elim!: returnsE)
  have call: "thread_spawn entry i q s = Ret (?p, sched_release t)"
    using c cpu new t(1) by (simp add: thread_spawn_def sched_acquire_eq s1_def [symmetric] tcb_ops s3_def [symmetric])
  let ?u = "sched_release t"
  note f = unlinked_same [OF t(3)] unlinked_cpu [OF t(3)]
  have "same_vm ?u t" by (simp add: sched_release_def)
  also have "same_vm t s3" by (rule unlinked_vm [OF t(3)])
  also have "same_vm s3 (ct_gave i q s1)" by (simp add: s3_def s2_def same_vm_def)
  finally have vmu: "same_vm ?u (ct_gave i q s1)" .
  have onu: "on_cpu ?u" "on_cpu (ct_gave i q s1)"
    using f vm(2) by (simp_all add: sched_release_def s3_def s2_def ct_gave_def)
  have "container_split i q s1 = Ret (?p, ct_gave i q s1)"
    using container_split_eq [OF ok1 _ ct(2), of q] i c ct(3) by (simp add: ct_is_used_def)
  then have "cont_ok (ct_gave i q s1)" using container_split_ok [OF ok1 ct(1,2), of q] c q ct(3,4) by simp
  then have "cont_ok ?u" using same_vm_cont [OF vmu] onu by simp
  moreover have "queues ?u (Q(NUM_IDS := Q NUM_IDS @ [?p]))" using t(2) by (simp add: sched_release_def)
  moreover have cont: "CONTAINER ?u = CONTAINER (ct_gave i q s)"
    using f(12) by (simp add: sched_release_def s3_def s2_def s1_def ct_gave_def ct_child_def)
  have "ct_is_used ?u ?p" "\<And>p. ct_is_used s p \<Longrightarrow> ct_is_used ?u p"
    using c i fresh by (auto simp: ct_is_used_def cont ct_gave_def)
  then have "threads_used ?u (Q(NUM_IDS := Q NUM_IDS @ [?p]))" 
    using Q(2) [unfolded threads_used_def, rule_format, of NUM_IDS] Q(2) by (auto simp: threads_used_def)
  ultimately show ?thesis using call f onu cont
    by (simp add: sched_release_def s3_def s2_def s1_def ct_gave_def)
qed

section \<open>Sleeping and waking up\<close>

text \<open>A lock that is passed by reference lies outside the scheduler's own data.\<close>

definition lock_outside :: "('a mthr_scheme \<Rightarrow> spinlock) \<Rightarrow> (spinlock \<Rightarrow> 'a mthr_scheme \<Rightarrow> 'a mthr_scheme) \<Rightarrow> bool" where
  "lock_outside get_lk put_lk \<longleftrightarrow> (\<forall>l s. on_cpu (put_lk l s) = on_cpu s \<and> this_cpu (put_lk l s) = this_cpu s \<and>
     CURID (put_lk l s) = CURID s \<and> kctx_pool (put_lk l s) = kctx_pool s \<and> TCBPool (put_lk l s) = TCBPool s \<and>
     TQueuePool (put_lk l s) = TQueuePool s \<and> sched_lk (put_lk l s) = sched_lk s \<and> regs (put_lk l s) = regs s \<and>
     cur_kstack (put_lk l s) = cur_kstack s \<and> bsp_kstack (put_lk l s) = bsp_kstack s \<and>
     proc_kstack (put_lk l s) = proc_kstack s \<and> get_lk (put_lk l s) = l)"

lemma thread_sleep_ok:
  assumes ok: "sched_ok s Q c" and lk: "lock_outside get_lk put_lk" and y: "Q NUM_IDS = y # ys"
  shows "returns (thread_sleep chan (Some (get_lk, put_lk)) s) (\<lambda>t.
    cswitch_save t = kctx_pool s y \<and> kctx_pool t = (kctx_pool s)(c := cswitch_save s) \<and>
    queues t (Q(NUM_IDS := ys)) \<and> sched_lk t = unlocked \<and> on_cpu t \<and>
    tcb_state (TCBPool t c) = TSTATE_SLEEP \<and> tcb_channel (TCBPool t c) = chan \<and>
    CURID t (this_cpu t) = c \<and> tcb_state (TCBPool t y) = TSTATE_READY)"
proof -
  note k = sched_okD [OF ok]
  note L = lk [unfolded lock_outside_def, rule_format]
  define s1 where "s1 = s\<lparr>sched_lk := held_by (this_cpu s)\<rparr>"
  define s2 where "s2 = s1\<lparr>TCBPool := (TCBPool s1)(c := (TCBPool s1 c)\<lparr>tcb_state := TSTATE_SLEEP, tcb_channel := chan\<rparr>)\<rparr>"
  define s3 where "s3 = sched_release (put_lk unlocked s2)"
  have "queues s2 Q" unfolding s2_def by (subst queues_tcb) (use k(3) in \<open>simp_all add: s1_def\<close>)
  then have q3: "queues s3 Q" using L by (simp add: s3_def sched_release_def queues_def queue_is_def)
  from tq.deq_law [OF q3, of NUM_IDS] y obtain t where t: "tqueue_dequeue NUM_IDS s3 = Ret (y, t)"
    "queues t (Q(NUM_IDS := ys))" "unlinked t = unlinked s3" by (auto elim!: returnsE)
  note f = unlinked_same [OF t(3)] unlinked_cpu [OF t(3)]
  have yl: "y < NUM_IDS" "y \<noteq> NUM_IDS" "y \<noteq> c" "tcb_state (TCBPool s y) = TSTATE_READY"
    using queueD(5) [OF k(3), of NUM_IDS] k(6) [unfolded in_no_queue_def, rule_format, of NUM_IDS] k(7) y by auto
  have s3: "on_cpu s3" "this_cpu s3 = this_cpu s" "CURID s3 = CURID s" "kctx_pool s3 = kctx_pool s" "TCBPool s3 = TCBPool s2"
    "regs s3 = regs s" "cur_kstack s3 = cur_kstack s" "sched_lk s3 = unlocked"
    "bsp_kstack s3 = bsp_kstack s" "proc_kstack s3 = proc_kstack s"
    using L k(1) by (simp_all add: s3_def sched_release_def s2_def s1_def)
  define u where "u = t\<lparr>kctx_pool := (kctx_pool t)(c := cswitch_save t)\<rparr>"
  have sv: "cswitch_save t = cswitch_save s" using f s3 by (intro cswitch_save_cong) simp_all
  have "thread_sleep chan (Some (get_lk, put_lk)) s = kctx_switch c y t"
    using k(1,2,4,5) t(1) yl
    by (simp add: thread_sleep_def get_curid_eq sched_acquire_eq s1_def [symmetric] tcb_ops s2_def [symmetric] s3_def [symmetric])
  also have "\<dots> = Ret (cswitch_load (kctx_pool s y) u)"
    using k(5) yl f(2) s3(4) by (simp add: kctx_switch_def u_def)
  finally have call: "thread_sleep chan (Some (get_lk, put_lk)) s = Ret (cswitch_load (kctx_pool s y) u)" .
  have "our_stack u (kc_stack (kctx_pool s y))"
    using k(9) [of y] y f s3 our_stack_cong [of u s] by (simp add: u_def)
  then have on: "on_cpu (cswitch_load (kctx_pool s y) u)" "this_cpu (cswitch_load (kctx_pool s y) u) = this_cpu s"
    using cswitch_load_cpu [of u "kctx_pool s y"] f s3 by (simp_all add: u_def)
  show ?thesis using call on t(2) f s3 yl k(4) sv
    by (simp add: u_def s2_def s1_def)
qed

text \<open>The threads that sleep on a channel.\<close>

definition sleeper :: "u32 \<Rightarrow> 'a mthr_scheme \<Rightarrow> u32 \<Rightarrow> bool" where
  "sleeper chan s p \<longleftrightarrow> tcb_state (TCBPool s p) = TSTATE_SLEEP \<and> tcb_channel (TCBPool s p) = chan"

definition woken :: "u32 \<Rightarrow> 'a mthr_scheme \<Rightarrow> u32 set \<Rightarrow> (u32 \<Rightarrow> u32 list) \<Rightarrow> u32 list \<Rightarrow> 'a mthr_scheme \<Rightarrow> bool" where
  "woken chan s P Q xs t \<longleftrightarrow> queues t (Q(NUM_IDS := Q NUM_IDS @ xs)) \<and>
     (\<forall>p. tcb_state (TCBPool t p) = (if p \<in> P \<and> sleeper chan s p then TSTATE_READY else tcb_state (TCBPool s p)) \<and>
          tcb_channel (TCBPool t p) = (if p \<in> P \<and> sleeper chan s p then 0 else tcb_channel (TCBPool s p))) \<and>
     CURID t = CURID s \<and> kctx_pool t = kctx_pool s \<and> regs t = regs s \<and> cur_kstack t = cur_kstack s \<and>
     on_cpu t = on_cpu s \<and> this_cpu t = this_cpu s \<and> same_vm t s"

lemma wake_one:
  assumes w: "woken chan s P Q xs t" and i: "i < NUM_IDS" "i \<notin> P" and none: "sleeper chan s i \<Longrightarrow> in_no_queue Q i"
    and xs: "set xs \<subseteq> P"
  shows "returns (andThen (tcb_get_state i t) (\<lambda>st. andThen (tcb_get_chan i t) (\<lambda>ch.
       if st = TSTATE_SLEEP \<and> ch = chan then
         andThen (tcb_set_state i TSTATE_READY t) (\<lambda>s. andThen (tcb_set_chan i 0 s) (\<lambda>s. tqueue_enqueue NUM_IDS i s))
       else Ret t)))
    (woken chan s (insert i P) Q (if sleeper chan s i then xs @ [i] else xs))"
proof -
  have st: "tcb_state (TCBPool t i) = tcb_state (TCBPool s i)" "tcb_channel (TCBPool t i) = tcb_channel (TCBPool s i)"
    using w i(2) by (simp_all add: woken_def)
  show ?thesis
  proof (cases "sleeper chan s i")
    case False
    then have "woken chan s (insert i P) Q xs t" using w by (auto simp: woken_def)
    with False i st show ?thesis by (simp add: tcb_ops) (auto simp: sleeper_def)
  next
    case True
    define t1 where "t1 = t\<lparr>TCBPool := (TCBPool t)(i := (TCBPool t i)\<lparr>tcb_state := TSTATE_READY, tcb_channel := 0\<rparr>)\<rparr>"
    have q1: "queues t1 (Q(NUM_IDS := Q NUM_IDS @ xs))"
      unfolding t1_def using w by (subst queues_tcb) (simp_all add: woken_def)
    have "in_no_queue (Q(NUM_IDS := Q NUM_IDS @ xs)) i"
      using none [OF True] xs i(2) by (auto simp: in_no_queue_def)
    then have "returns (tqueue_enqueue NUM_IDS i t1) (\<lambda>u. queues u ((Q(NUM_IDS := Q NUM_IDS @ xs))(NUM_IDS :=
      (Q(NUM_IDS := Q NUM_IDS @ xs)) NUM_IDS @ [i])) \<and> unlinked u = unlinked t1)"
      by (intro tq.enq_law [OF q1 _ i(1)]) simp
    then have "returns (tqueue_enqueue NUM_IDS i t1) (woken chan s (insert i P) Q (xs @ [i]))"
    proof (rule returns_mono)
      fix u assume u: "queues u ((Q(NUM_IDS := Q NUM_IDS @ xs))(NUM_IDS := (Q(NUM_IDS := Q NUM_IDS @ xs)) NUM_IDS @ [i])) \<and>
        unlinked u = unlinked t1"
      then have f: "unlinked u = unlinked t1" by simp
      have "same_vm u t1" by (rule unlinked_vm [OF f])
      also have "same_vm t1 t" by (simp add: t1_def)
      also have "same_vm t s" using w by (simp add: woken_def)
      finally show "woken chan s (insert i P) Q (xs @ [i]) u"
        using u w True unlinked_same [OF f] unlinked_cpu [OF f] by (auto simp: woken_def t1_def)
    qed
    with True st i(1) show ?thesis by (simp add: tcb_ops sleeper_def t1_def)
  qed
qed

lemma thread_wakeup_ok:
  assumes cpu: "on_cpu s" "sched_lk s = unlocked" and Q: "queues s Q"
    and none: "\<And>p. p < NUM_IDS \<Longrightarrow> sleeper chan s p \<Longrightarrow> in_no_queue Q p"
  shows "returns (thread_wakeup chan s) (\<lambda>t. sched_lk t = unlocked \<and>
    woken chan s {p. p < NUM_IDS} Q (filter (sleeper chan s) (range32 0 64)) t)"
proof -
  define s1 where "s1 = s\<lparr>sched_lk := held_by (this_cpu s)\<rparr>"
  have sl: "sleeper chan s1 = sleeper chan s" by (simp add: s1_def sleeper_def fun_eq_iff)
  have s1: "TCBPool s1 = TCBPool s" "CURID s1 = CURID s" "kctx_pool s1 = kctx_pool s" "regs s1 = regs s"
    "cur_kstack s1 = cur_kstack s" "on_cpu s1 = on_cpu s" "this_cpu s1 = this_cpu s" "same_vm s1 s" by (simp_all add: s1_def)
  have rel: "same_vm (sched_release t) s" if "same_vm t s1" for t :: "'a mthr_scheme"
    using that s1(8) by (simp add: same_vm_def sched_release_def)
  let ?f = "\<lambda>i s. andThen (tcb_get_state i s) (\<lambda>st. andThen (tcb_get_chan i s) (\<lambda>ch.
       if st = TSTATE_SLEEP \<and> ch = chan then
         andThen (tcb_set_state i TSTATE_READY s) (\<lambda>s. andThen (tcb_set_chan i 0 s) (\<lambda>s. tqueue_enqueue NUM_IDS i s))
       else Ret s))"
  have d: "distinct (range32 0 64)" "set (range32 0 64) = {p. p < NUM_IDS}"
    by (rule distinct_range32, simp) (auto simp: set_range32 u32_less_nat)
  have "returns (forM (range32 0 64) ?f s1)
    (\<lambda>t. woken chan s1 (set (range32 0 64)) Q (filter (sleeper chan s1) (range32 0 64)) t)"
  proof (rule returns_forM [where I = "\<lambda>pre t. woken chan s1 (set pre) Q (filter (sleeper chan s1) pre) t"])
    show "woken chan s1 (set []) Q (filter (sleeper chan s1) []) s1"
      using Q by (simp add: woken_def s1_def)
    fix pre i todo t
    assume eq: "range32 0 64 = pre @ i # todo" and w: "woken chan s1 (set pre) Q (filter (sleeper chan s1) pre) t"
    have "i \<in> set (range32 0 64)" "i \<notin> set pre" using d(1) eq by auto
    then have "returns (?f i t) (woken chan s1 (insert i (set pre)) Q
      (if sleeper chan s1 i then filter (sleeper chan s1) pre @ [i] else filter (sleeper chan s1) pre))"
      using none d(2) by (intro wake_one [OF w]) (auto simp: sl)
    then show "returns (?f i t) (\<lambda>t. woken chan s1 (set (pre @ [i])) Q (filter (sleeper chan s1) (pre @ [i])) t)"
      by (simp split: if_splits)
  qed
  then have "returns (forM (range32 0 64) ?f s1) (\<lambda>t. woken chan s {p. p < NUM_IDS} Q (filter (sleeper chan s) (range32 0 64)) (sched_release t))"
    by (rule returns_mono) (use rel in \<open>simp add: woken_def d(2) sl s1 cong: if_cong\<close>, simp add: sched_release_def)
  then show ?thesis
    using cpu by (simp add: thread_wakeup_def sched_acquire_eq s1_def [symmetric] returns_andThen)
      (auto simp: sched_release_def elim!: returns_mono)
qed

section \<open>A kernel with a few threads\<close>

text \<open>
  Concrete states for runs: thread 0 runs alone, and thread 0 runs while 1 and 2 are ready and 3
  sleeps on channel 5.
\<close>

definition tcb_dead :: TCB where
  "tcb_dead = \<lparr>tcb_state = TSTATE_DEAD, tcb_cpuid = NUM_CPUS, tcb_prev = NUM_IDS, tcb_next = NUM_IDS, tcb_channel = 0,
     tcb_openfiles = (\<lambda>_. None), tcb_cwd = None\<rparr>"

definition thr_idle :: mthr where
  "thr_idle = mpt.extend mpt_boot (mthr.fields (\<lambda>_. 0)
     (\<lambda>p. \<lparr>kc_stack = Proc p, kc_esp = 4096, kc_edi = 0, kc_esi = 0, kc_ebx = 0, kc_ebp = 0, kc_eip = p\<rparr>)
     ((\<lambda>_. tcb_dead)(0 := tcb_dead\<lparr>tcb_state := TSTATE_RUN\<rparr>)) (\<lambda>_. \<lparr>tq_head = NUM_IDS, tq_tail = NUM_IDS\<rparr>) unlocked (\<lambda>_. 0))"

definition thr_busy :: mthr where
  "thr_busy = thr_idle\<lparr>TCBPool := (TCBPool thr_idle)(
       1 := tcb_dead\<lparr>tcb_state := TSTATE_READY, tcb_next := 2\<rparr>,
       2 := tcb_dead\<lparr>tcb_state := TSTATE_READY, tcb_prev := 1\<rparr>,
       3 := tcb_dead\<lparr>tcb_state := TSTATE_SLEEP, tcb_channel := 5\<rparr>),
     TQueuePool := (TQueuePool thr_idle)(NUM_IDS := \<lparr>tq_head = 1, tq_tail = 2\<rparr>)\<rparr>"

definition busy_queues :: "u32 \<Rightarrow> u32 list" where
  "busy_queues = (\<lambda>_. [])(NUM_IDS := [1, 2])"

lemma mpt_boot_cpu: "this_cpu mpt_boot = 0" "proc_kstack mpt_boot = (\<lambda>_. bsp_kstack_boot)"
  by (simp_all add: mpt_boot_def mpt.defs cont_boot_def mcont.defs mat_boot_defs this_cpu_def this_kstack_def bsp_kstack_boot_def)

lemma mpt_boot_cont: "cont_ok mpt_boot" "CONTAINER mpt_boot = CONTAINER cont_boot"
proof -
  have eqs: "AT mpt_boot = AT cont_boot" "NUM_PAGES mpt_boot = NUM_PAGES cont_boot" "mem_lk mpt_boot = mem_lk cont_boot"
    "last_palloc_index mpt_boot = last_palloc_index cont_boot" "container_lks mpt_boot = container_lks cont_boot"
    "on_cpu mpt_boot = on_cpu cont_boot"
    by (simp_all add: mpt_boot_def mpt.defs cont_boot_def mcont.defs mat_boot_defs on_cpu_def this_cpu_def this_kstack_def)
  show ct: "CONTAINER mpt_boot = CONTAINER cont_boot"
    by (simp add: mpt_boot_def mpt.defs cont_boot_def mcont.defs mat_boot_defs)
  show "cont_ok mpt_boot"
    using cont_boot_ok
    unfolding cont_ok_def mat_ok_def page_norm_def page_free_def ct_tree_def ct_quotas_def ct_total_def ct_slack_def
      ct_is_used_def num_free_def eqs ct .
qed

lemma thr_idle_vm: "same_vm thr_idle mpt_boot" "on_cpu thr_idle = on_cpu mpt_boot" "this_cpu thr_idle = this_cpu mpt_boot"
  "proc_kstack thr_idle = proc_kstack mpt_boot"
  by (simp_all add: thr_idle_def mpt.defs mthr.defs same_vm_def on_cpu_def this_cpu_def this_kstack_def cong: kstack_ref.case_cong)

lemma thr_idle_simps:
  "sched_lk thr_idle = unlocked" "CURID thr_idle i = 0" "kc_stack (kctx_pool thr_idle p) = Proc p"
  "TCBPool thr_idle = (\<lambda>_. tcb_dead)(0 := tcb_dead\<lparr>tcb_state := TSTATE_RUN\<rparr>)"
  "TQueuePool thr_idle = (\<lambda>_. \<lparr>tq_head = NUM_IDS, tq_tail = NUM_IDS\<rparr>)"
  "on_cpu thr_idle" "this_cpu thr_idle = 0"
  using thr_idle_vm mpt_boot_simps(3) mpt_boot_cpu by (simp_all add: thr_idle_def mpt.defs mthr.defs)

lemma thr_idle_queues: "queues thr_idle (\<lambda>_. [])"
  by (simp add: queues_def queue_is_def thr_idle_simps)

lemma thr_busy_ok: "sched_ok thr_busy busy_queues 0"
proof -
  have "queues thr_busy busy_queues"
    by (auto simp: queues_def queue_is_def thr_busy_def thr_idle_simps busy_queues_def tcb_dead_def)
  moreover have "our_stack thr_busy (Proc p)" if "p < NUM_IDS" for p
    using that thr_idle_vm(4)
    by (simp add: our_stack_def stack_of_def thr_busy_def thr_idle_simps mpt_boot_cpu bsp_kstack_boot_def)
  ultimately show ?thesis
    by (auto simp: sched_ok_def in_no_queue_def thr_busy_def busy_queues_def thr_idle_simps tcb_dead_def)
qed

section \<open>Properties\<close>

text \<open>
  (C29) The thread queues are first in, first out: threads entered one after another, none of which
  is in a queue yet, leave in the order in which they came, behind those that were there before.
  Nothing but the links of the queues has changed then.
\<close>

theorem tqueue_fifo:
  assumes "queues s Q" and "c < NUM_QUEUES" and "distinct ps" and "\<forall>p \<in> set ps. p < NUM_IDS \<and> in_no_queue Q p"
  shows "returns (andThen (forM ps (tqueue_enqueue c) s) (deqs (tqueue_dequeue c) (length (Q c) + length ps)))
    (\<lambda>(xs, t). xs = Q c @ ps \<and> queues t (Q(c := [])) \<and> unlinked t = unlinked s)"
  by (rule tq.fifo [OF assms])

theorem tqueue_fifo_witness:
  "returns (andThen (forM [3, 5] (tqueue_enqueue 64) thr_idle) (deqs (tqueue_dequeue 64) (Suc (Suc 0)))) (\<lambda>(xs, t). xs = [3, 5])"
  using tqueue_fifo [OF thr_idle_queues, of 64 "[3, 5]"] by (auto simp: in_no_queue_def elim!: returns_mono)

text \<open>
  \<^verbatim>\<open>tqueue_remove\<close> takes a thread out of the middle, the head or the tail of its queue and leaves the
  order of the others and all other queues as they are.
\<close>

theorem tqueue_remove_correct:
  assumes "queues s Q" and "c < NUM_QUEUES" and "p \<in> set (Q c)"
  shows "returns (tqueue_remove c p s) (\<lambda>t. queues t (Q(c := remove1 p (Q c))) \<and> unlinked t = unlinked s)"
  by (rule tq.del_law [OF assms])

theorem tqueue_remove_correct_witness:
  "returns (tqueue_remove 64 1 thr_busy) (\<lambda>t. queues t (busy_queues(64 := [2])))"
  using tqueue_remove_correct [OF sched_okD(3) [OF thr_busy_ok], of 64 1]
  by (auto simp: busy_queues_def elim!: returns_mono)

text \<open>
  (C25) \<^verbatim>\<open>thread_yield\<close> implements round robin: under the scheduler's invariant it comes back, keeps the
  invariant, and does to the current thread, the ready queue, the saved contexts and the registers
  what the specification does.
\<close>

theorem thread_yield_refines:
  assumes "sched_refines s a"
  shows "returns (thread_yield s) (\<lambda>t. sched_refines t (rr_yield a))"
  by (rule thread_yield_step [OF assms])

theorem thread_yield_refines_witness:
  "returns (thread_yield thr_busy) (\<lambda>t. sched_refines t (rr_yield (rr_abs thr_busy busy_queues 0)))"
  by (rule thread_yield_refines) (use thr_busy_ok in \<open>auto simp: sched_refines_def\<close>)

text \<open>
  (C26) Round robin is fair, and a context switch is invisible: the thread at position \<open>k\<close> of the ready
  queue runs after \<open>k + 1\<close> yields, with the context that was saved for it, and after a whole
  round the first thread runs again with its registers and on its kernel stack.
\<close>

theorem thread_yield_fair:
  assumes "sched_ok s Q c"
  shows "(\<forall>k < length (Q NUM_IDS). returns (yields (Suc k) s) (\<lambda>t. CURID t (this_cpu t) = Q NUM_IDS ! k \<and>
      cswitch_save t = kctx_pool s (Q NUM_IDS ! k))) \<and>
    returns (yields (Suc (length (Q NUM_IDS))) s) (\<lambda>t. CURID t (this_cpu t) = c \<and> regs t = regs s \<and> cur_kstack t = cur_kstack s)"
proof -
  let ?a = "rr_abs s Q c"
  have a: "sched_refines s ?a" using assms by (auto simp: sched_refines_def)
  note d = sched_refines_cur(4) [OF a]
  have r: "rr_ready ?a = Q NUM_IDS" "rr_cur ?a = c" "rr_ctx ?a = kctx_pool s" "rr_regs ?a = cswitch_save s"
    by (simp_all add: rr_abs_def)
  have "returns (yields (Suc k) s) (\<lambda>t. CURID t (this_cpu t) = Q NUM_IDS ! k \<and> cswitch_save t = kctx_pool s (Q NUM_IDS ! k))"
    if "k < length (Q NUM_IDS)" for k
    by (rule returns_mono [OF yields_refine [OF a]])
      (use rr_round [OF d, of k] that in \<open>auto simp: r simp del: funpow.simps dest: sched_refines_cur(1,2)\<close>)
  moreover have "returns (yields (Suc (length (Q NUM_IDS))) s) (\<lambda>t. CURID t (this_cpu t) = c \<and> regs t = regs s \<and> cur_kstack t = cur_kstack s)"
  proof (rule returns_mono [OF yields_refine [OF a]])
    fix t :: "'a mthr_scheme"
    assume "sched_refines t ((rr_yield ^^ Suc (length (Q NUM_IDS))) ?a)"
    note t = sched_refines_cur [OF this, unfolded rr_full_round [OF d, unfolded r] r]
    show "CURID t (this_cpu t) = c \<and> regs t = regs s \<and> cur_kstack t = cur_kstack s"
      using t(1) regs_cswitch_save [OF t(2)] by simp
  qed
  ultimately show ?thesis by blast
qed

theorem thread_yield_fair_witness:
  "returns (yields (Suc (Suc 0)) thr_busy) (\<lambda>t. CURID t (this_cpu t) = 2) \<and>
   returns (yields (Suc (Suc (Suc 0))) thr_busy) (\<lambda>t. CURID t (this_cpu t) = 0 \<and> regs t = regs thr_busy)"
proof -
  have q: "busy_queues NUM_IDS = [1, 2]" by (simp add: busy_queues_def)
  note fair = thread_yield_fair [OF thr_busy_ok, unfolded q]
  have "returns (yields (Suc 1) thr_busy) (\<lambda>t. CURID t (this_cpu t) = [1, 2] ! 1)"
    by (rule returns_mono [OF conjunct1 [OF fair, rule_format, of 1]]) auto
  moreover have "returns (yields (Suc (length [1 :: u32, 2])) thr_busy) (\<lambda>t. CURID t (this_cpu t) = 0 \<and> regs t = regs thr_busy)"
    by (rule returns_mono [OF conjunct2 [OF fair]]) auto
  ultimately show ?thesis by simp
qed

text \<open>
  (C27) \<^verbatim>\<open>thread_spawn\<close> gives a process within its quota a child: the child is ready and the last of the ready
  queue, it will start at \<open>entry\<close> on its own empty kernel stack, it owns exactly the quota taken from the
  parent, and the quota invariant holds.
\<close>

theorem thread_spawn_correct:
  assumes "on_cpu s" and "sched_lk s = unlocked" and "queues s Q" and "threads_used s Q" and "cont_ok s"
    and "ct_is_used s i" and "ct_nchildren (CONTAINER s i) < MAX_CHILDREN" and "ct_child i s < NUM_IDS" and "unat q \<le> ct_slack s i"
  shows "returns (thread_spawn entry i q s) (\<lambda>(pid, t). pid \<noteq> NUM_IDS \<and> \<not> ct_is_used s pid \<and>
    queues t (Q(NUM_IDS := Q NUM_IDS @ [pid])) \<and> threads_used t (Q(NUM_IDS := Q NUM_IDS @ [pid])) \<and>
    tcb_state (TCBPool t pid) = TSTATE_READY \<and> kc_eip (kctx_pool t pid) = entry \<and>
    kc_stack (kctx_pool t pid) = Proc pid \<and> kc_esp (kctx_pool t pid) = KSTACK_SIZE \<and>
    cont_ok t \<and> ct_slack t pid = unat q \<and> ct_slack t i + unat q = ct_slack s i \<and> sched_lk t = unlocked)"
proof -
  have id: "i < NUM_IDS" using assms(6) by (simp add: ct_is_used_def)
  have call: "container_split i q s = Ret (ct_child i s, ct_gave i q s)" by (rule container_split_eq [OF assms(5) id assms(7,8)])
  have g: "\<not> ct_is_used s (ct_child i s)" "ct_slack (ct_gave i q s) (ct_child i s) = unat q"
    "ct_slack (ct_gave i q s) i + unat q = ct_slack s i"
    using container_split_ok [OF assms(5-9)] by (simp_all add: call)
  show ?thesis
  proof (rule returns_mono [OF thread_spawn_ok [OF assms]], goal_cases)
    case (1 r)
    obtain pid t where r: "r = (pid, t)" by (cases r)
    have pid: "pid = ct_child i s" and ct: "CONTAINER t = CONTAINER (ct_gave i q s)" using 1 by (simp_all add: r)
    have "ct_slack t p = ct_slack (ct_gave i q s) p" for p unfolding ct_slack_def ct ..
    then have "ct_slack t pid = unat q" "ct_slack t i + unat q = ct_slack s i" using g(2,3) pid by simp_all
    with 1 g(1) pid assms(8) show ?case by (simp add: r)
  qed
qed

theorem thread_spawn_correct_witness:
  "returns (thread_spawn 0x1234 0 1 thr_idle) (\<lambda>(pid, t). pid \<noteq> NUM_IDS \<and> kc_eip (kctx_pool t pid) = 0x1234 \<and> cont_ok t)"
proof -
  have "cont_ok thr_idle" using same_vm_cont [OF thr_idle_vm(1,2)] mpt_boot_cont(1) by simp
  moreover have ct: "CONTAINER thr_idle = CONTAINER cont_boot" using thr_idle_vm(1) mpt_boot_cont(2) by (simp add: same_vm_def)
  ultimately show ?thesis
    by (intro returns_mono [OF thread_spawn_correct [OF thr_idle_simps(6,1) thr_idle_queues]])
      (auto simp: threads_used_def ct_is_used_def ct_child_def ct_slack_def ct)
qed

text \<open>
  (C28) \<^verbatim>\<open>thread_wakeup\<close> makes exactly the threads that sleep on the channel ready, enters them in the ready
  queue in the order of their ids, and changes no other thread.
\<close>

theorem thread_wakeup_correct:
  assumes "on_cpu s" and "sched_lk s = unlocked" and "queues s Q"
    and "\<And>p. p < NUM_IDS \<Longrightarrow> sleeper chan s p \<Longrightarrow> in_no_queue Q p"
  shows "returns (thread_wakeup chan s) (\<lambda>t. sched_lk t = unlocked \<and>
    queues t (Q(NUM_IDS := Q NUM_IDS @ filter (sleeper chan s) (range32 0 64))) \<and>
    (\<forall>p < NUM_IDS. tcb_state (TCBPool t p) = (if sleeper chan s p then TSTATE_READY else tcb_state (TCBPool s p)) \<and>
      tcb_channel (TCBPool t p) = (if sleeper chan s p then 0 else tcb_channel (TCBPool s p))))"
  by (rule returns_mono [OF thread_wakeup_ok [OF assms]]) (auto simp: woken_def)

theorem thread_wakeup_correct_witness:
  "returns (thread_wakeup 5 thr_busy) (\<lambda>t. tcb_state (TCBPool t 3) = TSTATE_READY \<and> tcb_channel (TCBPool t 3) = 0)"
proof -
  have s: "sleeper 5 thr_busy p \<longleftrightarrow> p = 3" for p
    by (simp add: sleeper_def thr_busy_def thr_idle_simps tcb_dead_def)
  have "in_no_queue busy_queues 3" by (auto simp: in_no_queue_def busy_queues_def)
  then show ?thesis
    by (intro returns_mono [OF thread_wakeup_correct [OF sched_okD(1-3) [OF thr_busy_ok]]]) (auto simp: s)
qed

text \<open>
  (C35) \<^verbatim>\<open>thread_sleep\<close> does not tell the scheduler whom it switches to: thread \<open>y\<close> goes on with its registers, but
  the current thread id is still that of the sleeper, and \<open>y\<close>, now in no queue, is still marked ready. The
  scheduler's invariant does not hold then, whatever the queues are taken to be.
\<close>

theorem thread_sleep_keeps_curid:
  assumes "sched_ok s Q c" and "lock_outside get_lk put_lk" and "Q NUM_IDS = y # ys"
  shows "returns (thread_sleep chan (Some (get_lk, put_lk)) s) (\<lambda>t. cswitch_save t = kctx_pool s y \<and>
    CURID t (this_cpu t) = c \<and> c \<noteq> y \<and> tcb_state (TCBPool t c) = TSTATE_SLEEP \<and> tcb_state (TCBPool t y) = TSTATE_READY \<and>
    (\<nexists>R. sched_ok t R (CURID t (this_cpu t))))"
proof -
  have c: "c < NUM_IDS" "c \<noteq> y"
    using sched_okD(5) [OF assms(1)] sched_okD(6) [OF assms(1), unfolded in_no_queue_def, rule_format, of NUM_IDS] assms(3) by auto
  show ?thesis
    by (rule returns_mono [OF thread_sleep_ok [OF assms]]) (use c sched_okD(8) in fastforce)
qed

theorem thread_sleep_keeps_curid_witness:
  "returns (thread_sleep 7 (Some (pt_lk, \<lambda>l s. s\<lparr>pt_lk := l\<rparr>)) thr_busy)
     (\<lambda>t. CURID t (this_cpu t) = 0 \<and> cswitch_save t = kctx_pool thr_busy 1)"
proof -
  have "lock_outside pt_lk (\<lambda>l s. s\<lparr>pt_lk := l\<rparr>)"
    by (simp add: lock_outside_def on_cpu_def this_cpu_def this_kstack_def cong: kstack_ref.case_cong)
  from thread_sleep_keeps_curid [OF thr_busy_ok this, of 1 "[2]" 7] show ?thesis
    by (auto simp: busy_queues_def elim!: returns_mono)
qed

end
