(* ===== verification/Ide.thy ===== *)
theory Ide
  imports Interrupts Scheduler
begin

unbundle bit_operations_syntax

text \<open>
  The IDE disk driver, \<^verbatim>\<open>kern/dev/disk/ide.c\<close>: a queue of buffers, the first of which is being
  transferred; a thread that asks for a transfer sleeps until the interrupt of the disk.
\<close>

section \<open>Buffers (lib/buf.h)\<close>

text \<open>
  Pointers to buffers are indices: 0 to 9 for the elements of \<^verbatim>\<open>bcache.buf\<close>, 10 (\<^verbatim>\<open>NBUF\<close>) for
  \<^verbatim>\<open>bcache.head\<close>; a null pointer is \<open>None\<close>.
\<close>

record buf =
  b_flags :: u32
  b_dev :: u32
  b_sector :: u32
  b_prev :: u32
  b_next :: u32
  b_qnext :: "u32 option"
  b_data :: block

record mbuf = mintr +
  ide_lk :: spinlock
  idequeue :: "u32 option"
  havedisk1 :: bool
  bcache_lock :: spinlock
  bufs :: "u32 \<Rightarrow> buf"

abbreviation (input) B_BUSY :: u32 where "B_BUSY \<equiv> 1"
abbreviation (input) B_VALID :: u32 where "B_VALID \<equiv> 2"
abbreviation (input) B_DIRTY :: u32 where "B_DIRTY \<equiv> 4"

definition buf_put :: "u32 \<Rightarrow> (buf \<Rightarrow> buf) \<Rightarrow> 'a mbuf_scheme \<Rightarrow> 'a mbuf_scheme" where
  "buf_put b f s = s\<lparr>bufs := (bufs s)(b := f (bufs s b))\<rparr>"

section \<open>The driver\<close>

abbreviation (input) IDE_BSY :: u8 where "IDE_BSY \<equiv> 0x80"
abbreviation (input) IDE_DRDY :: u8 where "IDE_DRDY \<equiv> 0x40"
abbreviation (input) IDE_DF :: u8 where "IDE_DF \<equiv> 0x20"
abbreviation (input) IDE_ERR :: u8 where "IDE_ERR \<equiv> 0x01"
abbreviation (input) IDE_CMD_READ :: u8 where "IDE_CMD_READ \<equiv> 0x20"
abbreviation (input) IDE_CMD_WRITE :: u8 where "IDE_CMD_WRITE \<equiv> 0x30"

definition ide_wait :: "('s, 'b) world_scheme \<Rightarrow> bool \<Rightarrow> 'a mio_scheme \<Rightarrow> (int \<times> 'a mio_scheme) outcome" where
  "ide_wait w checkerr s =
     andThen (whileM (\<lambda>(r, s). r AND (IDE_BSY OR IDE_DRDY) \<noteq> IDE_DRDY) (\<lambda>(r, s). Ret (inb w 0x1f7 s))
       (inb w 0x1f7 s)) (\<lambda>(r, s).
     Ret (if checkerr \<and> r AND (IDE_DF OR IDE_ERR) \<noteq> 0 then -1 else 0, s))"

text \<open>The 1000 attempts to find the second disk stop at the first answer that is not zero.\<close>

primrec ide_probe :: "nat \<Rightarrow> ('s, 'b) world_scheme \<Rightarrow> 'a mbuf_scheme \<Rightarrow> 'a mbuf_scheme" where
  "ide_probe 0 w s = s"
| "ide_probe (Suc n) w s =
     (let (v, s) = inb w 0x1f7 s in if v \<noteq> 0 then s\<lparr>havedisk1 := True\<rparr> else ide_probe n w s)"

definition ide_init :: "('s, 'b) world_scheme \<Rightarrow> 'a mbuf_scheme \<Rightarrow> 'a mbuf_scheme outcome" where
  "ide_init w s =
     (let s = s\<lparr>ide_lk := spinlock_init (ide_lk s)\<rparr>;
          s = picenable IRQ_IDE1 s;
          s = ioapicenable IRQ_IDE1 (pcpu_ncpu s - 1) s
      in
      andThen (ide_wait w False s) (\<lambda>(_, s).
      Ret (outb 0x1f6 0xe0 (ide_probe 1000 w (outb 0x1f6 0xf0 s)))))"

definition ide_start :: "('s, 'b) world_scheme \<Rightarrow> u32 option \<Rightarrow> 'a mbuf_scheme \<Rightarrow> 'a mbuf_scheme outcome" where
  "ide_start w b s =
     (case b of
        None \<Rightarrow> Panic ''ide_start''
      | Some b \<Rightarrow>
          andThen (ide_wait w False s) (\<lambda>(_, s).
          let dev = b_dev (bufs s b); sector = b_sector (bufs s b);
              s = outb 0x3f6 0 s;
              s = outb 0x1f2 1 s;
              s = outb 0x1f3 (ucast (sector AND 0xff)) s;
              s = outb 0x1f4 (ucast (drop_bit 8 sector AND 0xff)) s;
              s = outb 0x1f5 (ucast (drop_bit 16 sector AND 0xff)) s;
              s = outb 0x1f6 (ucast (0xe0 OR push_bit 4 (dev AND 1) OR (drop_bit 24 sector AND 0x0f))) s
          in if b_flags (bufs s b) AND B_DIRTY \<noteq> 0
             then Ret (outsl 0x1f0 (b_data (bufs s b)) (outb 0x1f7 IDE_CMD_WRITE s))
             else Ret (outb 0x1f7 IDE_CMD_READ s)))"

definition ide_acquire :: "'a mbuf_scheme \<Rightarrow> 'a mbuf_scheme outcome" where
  "ide_acquire s = andThen (spinlock_acquire s (ide_lk s)) (\<lambda>lk. Ret (s\<lparr>ide_lk := lk\<rparr>))"

definition ide_release :: "'a mbuf_scheme \<Rightarrow> 'a mbuf_scheme" where
  "ide_release s = s\<lparr>ide_lk := spinlock_release (ide_lk s)\<rparr>"

definition ide_intr :: "('s, 'b) world_scheme \<Rightarrow> 'a mbuf_scheme \<Rightarrow> 'a mbuf_scheme outcome" where
  "ide_intr w s =
     andThen (ide_acquire s) (\<lambda>s.
     case idequeue s of
       None \<Rightarrow> debug_info w (''spurious IDE interrupt'' @ [CHR 0x0A]) [] (ide_release s)
     | Some b \<Rightarrow>
         let s = s\<lparr>idequeue := b_qnext (bufs s b)\<rparr> in
         andThen
           (if b_flags (bufs s b) AND B_DIRTY = 0 then
              andThen (ide_wait w True s) (\<lambda>(r, s).
              if r \<ge> 0 then
                let (data, s) = insl w 0x1f0 s in Ret (buf_put b (\<lambda>x. x\<lparr>b_data := data\<rparr>) s)
              else Ret s)
            else Ret s) (\<lambda>s.
         let s = buf_put b (\<lambda>x. x\<lparr>b_flags := (b_flags x OR B_VALID) AND NOT B_DIRTY\<rparr>) s in
         andThen (thread_wakeup (w_buf w b) s) (\<lambda>s.
         andThen (if idequeue s \<noteq> None then ide_start w (idequeue s) s else Ret s) (\<lambda>s.
         Ret (ide_release s)))))"

text \<open>The loop over \<^verbatim>\<open>pp\<close>: the buffer becomes the last of the chain of pointers.\<close>

definition ide_append :: "u32 \<Rightarrow> 'a mbuf_scheme \<Rightarrow> 'a mbuf_scheme outcome" where
  "ide_append b s =
     (let s = buf_put b (\<lambda>x. x\<lparr>b_qnext := None\<rparr>) s in
      case idequeue s of
        None \<Rightarrow> Ret (s\<lparr>idequeue := Some b\<rparr>)
      | Some q \<Rightarrow>
          andThen (whileM (\<lambda>q. b_qnext (bufs s q) \<noteq> None) (\<lambda>q. Ret (the (b_qnext (bufs s q)))) q) (\<lambda>q.
          Ret (buf_put q (\<lambda>x. x\<lparr>b_qnext := Some b\<rparr>) s)))"

definition ide_rw :: "('a mbuf_scheme, 'b) world_scheme \<Rightarrow> u32 \<Rightarrow> 'a mbuf_scheme \<Rightarrow> 'a mbuf_scheme outcome" where
  "ide_rw w b s =
     (let f = b_flags (bufs s b) in
      if f AND B_BUSY = 0 then Panic ''ide_rw: buf not busy''
      else if f AND (B_VALID OR B_DIRTY) = B_VALID then Panic ''ide_rw: nothing to do''
      else if b_dev (bufs s b) \<noteq> 0 \<and> \<not> havedisk1 s then Panic ''ide_rw: ide disk 1 not present''
      else
        andThen (ide_acquire s) (\<lambda>s.
        andThen (ide_append b s) (\<lambda>s.
        andThen (if idequeue s = Some b then ide_start w (Some b) s else Ret s) (\<lambda>s.
        andThen (whileM (\<lambda>s. b_flags (bufs s b) AND (B_VALID OR B_DIRTY) \<noteq> B_VALID)
          (sleep_on w (w_buf w b) (Some (ide_lk, \<lambda>l s. s\<lparr>ide_lk := l\<rparr>))) s) (\<lambda>s.
        Ret (ide_release s))))))"

end
