(* ===== verification/Bufcache.thy ===== *)
theory Bufcache
  imports Ide
begin

unbundle bit_operations_syntax

text \<open>
  The buffer cache, \<^verbatim>\<open>kern/fs/bufcache.c\<close>: ten buffers in a ring through \<^verbatim>\<open>bcache.head\<close>, the most recently
  used first, each marked busy while a thread uses it.
\<close>

section \<open>Operations\<close>

abbreviation (input) NBUF :: u32 where "NBUF \<equiv> 10"

definition bcache_acquire :: "'a mbuf_scheme \<Rightarrow> 'a mbuf_scheme outcome" where
  "bcache_acquire s = andThen (spinlock_acquire s (bcache_lock s)) (\<lambda>lk. Ret (s\<lparr>bcache_lock := lk\<rparr>))"

definition bcache_release :: "'a mbuf_scheme \<Rightarrow> 'a mbuf_scheme" where
  "bcache_release s = s\<lparr>bcache_lock := spinlock_release (bcache_lock s)\<rparr>"

text \<open>Puts a buffer between \<^verbatim>\<open>bcache.head\<close> and the first one, as the four assignments of the source do.\<close>

definition bufcache_link :: "u32 \<Rightarrow> 'a mbuf_scheme \<Rightarrow> 'a mbuf_scheme" where
  "bufcache_link b s =
     (let s = buf_put b (\<lambda>x. x\<lparr>b_next := b_next (bufs s NBUF)\<rparr>) s;
          s = buf_put b (\<lambda>x. x\<lparr>b_prev := NBUF\<rparr>) s;
          s = buf_put (b_next (bufs s NBUF)) (\<lambda>x. x\<lparr>b_prev := b\<rparr>) s
      in buf_put NBUF (\<lambda>x. x\<lparr>b_next := b\<rparr>) s)"

definition bufcache_init :: "'a mbuf_scheme \<Rightarrow> 'a mbuf_scheme outcome" where
  "bufcache_init s =
     (let s = s\<lparr>bcache_lock := spinlock_init (bcache_lock s)\<rparr>;
          s = buf_put NBUF (\<lambda>x. x\<lparr>b_prev := NBUF, b_next := NBUF\<rparr>) s
      in forM (range32 0 10) (\<lambda>b s. Ret (bufcache_link b (buf_put b (\<lambda>x. x\<lparr>b_dev := -1\<rparr>) s))) s)"

text \<open>The two loops of \<open>bufcache_get\<close> stop at a buffer or, having found none, at \<^verbatim>\<open>bcache.head\<close>.\<close>

definition bufcache_find :: "u32 \<Rightarrow> u32 \<Rightarrow> 'a mbuf_scheme \<Rightarrow> u32 outcome" where
  "bufcache_find dev sector s =
     whileM (\<lambda>b. b \<noteq> NBUF \<and> \<not> (b_dev (bufs s b) = dev \<and> b_sector (bufs s b) = sector))
       (\<lambda>b. Ret (b_next (bufs s b))) (b_next (bufs s NBUF))"

definition bufcache_victim :: "'a mbuf_scheme \<Rightarrow> u32 outcome" where
  "bufcache_victim s =
     whileM (\<lambda>b. b \<noteq> NBUF \<and> \<not> (b_flags (bufs s b) AND B_BUSY = 0 \<and> b_flags (bufs s b) AND B_DIRTY = 0))
       (\<lambda>b. Ret (b_prev (bufs s b))) (b_prev (bufs s NBUF))"

text \<open>One pass from the label \<^verbatim>\<open>loop\<close>: a buffer to return, or \<open>None\<close> to go round again.\<close>

definition bufcache_pass ::
    "('a mbuf_scheme, 'b) world_scheme \<Rightarrow> u32 \<Rightarrow> u32 \<Rightarrow> 'a mbuf_scheme \<Rightarrow> (u32 option \<times> 'a mbuf_scheme) outcome" where
  "bufcache_pass w dev sector s =
     andThen (bufcache_find dev sector s) (\<lambda>b.
     if b \<noteq> NBUF then
       if b_flags (bufs s b) AND B_BUSY = 0
       then Ret (Some b, bcache_release (buf_put b (\<lambda>x. x\<lparr>b_flags := b_flags x OR B_BUSY\<rparr>) s))
       else andThen (sleep_on w (w_buf w b) (Some (bcache_lock, \<lambda>l s. s\<lparr>bcache_lock := l\<rparr>)) s) (\<lambda>s. Ret (None, s))
     else
       andThen (bufcache_victim s) (\<lambda>b.
       if b \<noteq> NBUF
       then Ret (Some b, bcache_release (buf_put b (\<lambda>x. x\<lparr>b_dev := dev, b_sector := sector, b_flags := B_BUSY\<rparr>) s))
       else Panic ''bufcache_get: no buffers''))"

definition bufcache_get ::
    "('a mbuf_scheme, 'b) world_scheme \<Rightarrow> u32 \<Rightarrow> u32 \<Rightarrow> 'a mbuf_scheme \<Rightarrow> (u32 \<times> 'a mbuf_scheme) outcome" where
  "bufcache_get w dev sector s =
     andThen (bcache_acquire s) (\<lambda>s.
     andThen (whileM (\<lambda>(r, s). r = None) (\<lambda>(r, s). bufcache_pass w dev sector s) (None, s)) (\<lambda>(r, s).
     Ret (the r, s)))"

definition bufcache_read ::
    "('a mbuf_scheme, 'b) world_scheme \<Rightarrow> u32 \<Rightarrow> u32 \<Rightarrow> 'a mbuf_scheme \<Rightarrow> (u32 \<times> 'a mbuf_scheme) outcome" where
  "bufcache_read w dev sector s =
     andThen (bufcache_get w dev sector s) (\<lambda>(b, s).
     andThen (if b_flags (bufs s b) AND B_VALID = 0 then ide_rw w b s else Ret s) (\<lambda>s.
     Ret (b, s)))"

definition bufcache_write :: "('a mbuf_scheme, 'b) world_scheme \<Rightarrow> u32 \<Rightarrow> 'a mbuf_scheme \<Rightarrow> 'a mbuf_scheme outcome" where
  "bufcache_write w b s =
     (if b_flags (bufs s b) AND B_BUSY = 0 then Panic ''bwrite''
      else ide_rw w b (buf_put b (\<lambda>x. x\<lparr>b_flags := b_flags x OR B_DIRTY\<rparr>) s))"

definition bufcache_release :: "('s, 'b) world_scheme \<Rightarrow> u32 \<Rightarrow> 'a mbuf_scheme \<Rightarrow> 'a mbuf_scheme outcome" where
  "bufcache_release w b s =
     (if b_flags (bufs s b) AND B_BUSY = 0 then Panic ''brelse''
      else
        andThen (bcache_acquire s) (\<lambda>s.
        let s = buf_put (b_next (bufs s b)) (\<lambda>x. x\<lparr>b_prev := b_prev (bufs s b)\<rparr>) s;
            s = buf_put (b_prev (bufs s b)) (\<lambda>x. x\<lparr>b_next := b_next (bufs s b)\<rparr>) s;
            s = bufcache_link b s;
            s = buf_put b (\<lambda>x. x\<lparr>b_flags := b_flags x AND NOT B_BUSY\<rparr>) s
        in andThen (thread_wakeup (w_buf w b) s) (\<lambda>s. Ret (bcache_release s))))"

end
