(* ===== verification/Log.thy ===== *)
theory Log
  imports Bufcache
begin

unbundle bit_operations_syntax

text \<open>
  The superblock and the redo log, \<^verbatim>\<open>read_superblock\<close> of \<^verbatim>\<open>kern/fs/block.c\<close> and \<^verbatim>\<open>kern/fs/log.c\<close>: one
  transaction at a time, whose blocks are written to the log, committed by the header block,
  installed and erased.
\<close>

section \<open>Structures in a block\<close>

definition bload16 :: "block \<Rightarrow> 9 word \<Rightarrow> u16" where
  "bload16 d a = ucast (d a) OR push_bit 8 (ucast (d (a + 1)))"

definition bstore16 :: "9 word \<Rightarrow> u16 \<Rightarrow> block \<Rightarrow> block" where
  "bstore16 a v d = d(a := ucast v, a + 1 := ucast (drop_bit 8 v))"

definition bload32 :: "block \<Rightarrow> 9 word \<Rightarrow> u32" where
  "bload32 d a = ucast (d a) OR push_bit 8 (ucast (d (a + 1))) OR push_bit 16 (ucast (d (a + 2))) OR
     push_bit 24 (ucast (d (a + 3)))"

definition bstore32 :: "9 word \<Rightarrow> u32 \<Rightarrow> block \<Rightarrow> block" where
  "bstore32 a v d = d(a := ucast v, a + 1 := ucast (drop_bit 8 v), a + 2 := ucast (drop_bit 16 v),
     a + 3 := ucast (drop_bit 24 v))"

record superblock =
  sb_size :: u32
  sb_nblocks :: u32
  sb_ninodes :: u32
  sb_nlog :: u32

definition read_superblock ::
    "('a mbuf_scheme, 'b) world_scheme \<Rightarrow> u32 \<Rightarrow> 'a mbuf_scheme \<Rightarrow> (superblock \<times> 'a mbuf_scheme) outcome" where
  "read_superblock w dev s =
     andThen (bufcache_read w dev 1 s) (\<lambda>(bp, s).
     let d = b_data (bufs s bp);
         sb = \<lparr>sb_size = bload32 d 0, sb_nblocks = bload32 d 4, sb_ninodes = bload32 d 8, sb_nlog = bload32 d 12\<rparr>
     in andThen (bufcache_release w bp s) (\<lambda>s. Ret (sb, s)))"

section \<open>The log\<close>

record logheader =
  lh_n :: u32
  lh_sector :: "u32 \<Rightarrow> u32"

record log_t =
  log_lock :: spinlock
  log_start :: u32
  log_size :: u32
  log_busy :: u32
  log_dev :: u32
  log_lh :: logheader

record mlog = mbuf +
  log :: log_t

abbreviation (input) LOGSIZE :: u32 where "LOGSIZE \<equiv> 10"
abbreviation (input) ROOTDEV :: u32 where "ROOTDEV \<equiv> 1"
abbreviation (input) BSIZE :: u32 where "BSIZE \<equiv> 512"

definition log_acquire :: "'a mlog_scheme \<Rightarrow> 'a mlog_scheme outcome" where
  "log_acquire s = andThen (spinlock_acquire s (log_lock (log s))) (\<lambda>lk. Ret (s\<lparr>log := (log s)\<lparr>log_lock := lk\<rparr>\<rparr>))"

definition log_release :: "'a mlog_scheme \<Rightarrow> 'a mlog_scheme" where
  "log_release s = s\<lparr>log := (log s)\<lparr>log_lock := spinlock_release (log_lock (log s))\<rparr>\<rparr>"

definition log_set_n :: "u32 \<Rightarrow> 'a mlog_scheme \<Rightarrow> 'a mlog_scheme" where
  "log_set_n n s = s\<lparr>log := (log s)\<lparr>log_lh := (log_lh (log s))\<lparr>lh_n := n\<rparr>\<rparr>\<rparr>"

definition log_set_sector :: "u32 \<Rightarrow> u32 \<Rightarrow> 'a mlog_scheme \<Rightarrow> 'a mlog_scheme outcome" where
  "log_set_sector i v s = bounded LOGSIZE i
     (Ret (s\<lparr>log := (log s)\<lparr>log_lh := (log_lh (log s))\<lparr>lh_sector := (lh_sector (log_lh (log s)))(i := v)\<rparr>\<rparr>\<rparr>))"

text \<open>In the header block the count is at offset 0 and sector \<open>i\<close> at offset \<open>4 + 4 i\<close>.\<close>

definition lh_off :: "u32 \<Rightarrow> 9 word" where
  "lh_off i = ucast (4 + 4 * i)"

definition install_trans :: "('a mlog_scheme, 'b) world_scheme \<Rightarrow> 'a mlog_scheme \<Rightarrow> 'a mlog_scheme outcome" where
  "install_trans w s =
     andThen (whileM (\<lambda>(tail, s). tail <s lh_n (log_lh (log s)))
       (\<lambda>(tail, s).
          andThen (bufcache_read w (log_dev (log s)) (log_start (log s) + tail + 1) s) (\<lambda>(lbuf, s).
          bounded LOGSIZE tail (
          andThen (bufcache_read w (log_dev (log s)) (lh_sector (log_lh (log s)) tail) s) (\<lambda>(dbuf, s).
          let s = buf_put dbuf (\<lambda>x. x\<lparr>b_data := b_data (bufs s lbuf)\<rparr>) s in
          andThen (bufcache_write w dbuf s) (\<lambda>s.
          andThen (bufcache_release w lbuf s) (\<lambda>s.
          andThen (bufcache_release w dbuf s) (\<lambda>s.
          Ret (tail + 1, s)))))))) (0, s)) (\<lambda>(_, s). Ret s)"

definition read_head :: "('a mlog_scheme, 'b) world_scheme \<Rightarrow> 'a mlog_scheme \<Rightarrow> 'a mlog_scheme outcome" where
  "read_head w s =
     andThen (bufcache_read w (log_dev (log s)) (log_start (log s)) s) (\<lambda>(b, s).
     let lh = b_data (bufs s b); s = log_set_n (bload32 lh 0) s in
     andThen (whileM (\<lambda>(i, s). i <s lh_n (log_lh (log s)))
       (\<lambda>(i, s). andThen (log_set_sector i (bload32 lh (lh_off i)) s) (\<lambda>s. Ret (i + 1, s))) (0, s)) (\<lambda>(_, s).
     bufcache_release w b s))"

definition write_head :: "('a mlog_scheme, 'b) world_scheme \<Rightarrow> 'a mlog_scheme \<Rightarrow> 'a mlog_scheme outcome" where
  "write_head w s =
     andThen (bufcache_read w (log_dev (log s)) (log_start (log s)) s) (\<lambda>(b, s).
     let s = buf_put b (\<lambda>x. x\<lparr>b_data := bstore32 0 (lh_n (log_lh (log s))) (b_data x)\<rparr>) s in
     andThen (whileM (\<lambda>(i, s). i <s lh_n (log_lh (log s)))
       (\<lambda>(i, s). bounded LOGSIZE i (Ret (i + 1, buf_put b (\<lambda>x.
          x\<lparr>b_data := bstore32 (lh_off i) (lh_sector (log_lh (log s)) i) (b_data x)\<rparr>) s))) (0, s)) (\<lambda>(_, s).
     andThen (bufcache_write w b s) (\<lambda>s.
     bufcache_release w b s)))"

definition recover_from_log :: "('a mlog_scheme, 'b) world_scheme \<Rightarrow> 'a mlog_scheme \<Rightarrow> 'a mlog_scheme outcome" where
  "recover_from_log w s =
     andThen (read_head w s) (\<lambda>s.
     andThen (install_trans w s) (\<lambda>s.
     write_head w (log_set_n 0 s)))"

text \<open>\<^verbatim>\<open>sizeof(struct logheader)\<close> is 44, so the first test of \<^verbatim>\<open>log_init\<close> never fires.\<close>

definition log_init :: "('a mlog_scheme, 'b) world_scheme \<Rightarrow> 'a mlog_scheme \<Rightarrow> 'a mlog_scheme outcome" where
  "log_init w s =
     (if (44::u32) \<ge> BSIZE then Panic ''log_init: too big logheader''
      else
        andThen (read_superblock w ROOTDEV (s\<lparr>log := (log s)\<lparr>log_lock := spinlock_init (log_lock (log s))\<rparr>\<rparr>)) (\<lambda>(sb, s).
        recover_from_log w
          (s\<lparr>log := (log s)\<lparr>log_start := sb_size sb - sb_nlog sb, log_size := sb_nlog sb, log_dev := ROOTDEV\<rparr>\<rparr>)))"

definition log_put_lock :: "spinlock \<Rightarrow> 'a mlog_scheme \<Rightarrow> 'a mlog_scheme" where
  "log_put_lock l s = s\<lparr>log := (log s)\<lparr>log_lock := l\<rparr>\<rparr>"

definition begin_trans :: "('a mlog_scheme, 'b) world_scheme \<Rightarrow> 'a mlog_scheme \<Rightarrow> 'a mlog_scheme outcome" where
  "begin_trans w s =
     andThen (log_acquire s) (\<lambda>s.
     andThen (whileM (\<lambda>s. log_busy (log s) \<noteq> 0)
       (sleep_on w (w_log w) (Some (\<lambda>s. log_lock (log s), log_put_lock))) s) (\<lambda>s.
     Ret (log_release (s\<lparr>log := (log s)\<lparr>log_busy := 1\<rparr>\<rparr>))))"

definition commit_trans :: "('a mlog_scheme, 'b) world_scheme \<Rightarrow> 'a mlog_scheme \<Rightarrow> 'a mlog_scheme outcome" where
  "commit_trans w s =
     andThen
       (if 0 <s lh_n (log_lh (log s)) then
          andThen (write_head w s) (\<lambda>s.
          andThen (install_trans w s) (\<lambda>s.
          write_head w (log_set_n 0 s)))
        else Ret s) (\<lambda>s.
     andThen (log_acquire s) (\<lambda>s.
     andThen (thread_wakeup (w_log w) (s\<lparr>log := (log s)\<lparr>log_busy := 0\<rparr>\<rparr>)) (\<lambda>s.
     Ret (log_release s))))"

definition log_write :: "('a mlog_scheme, 'b) world_scheme \<Rightarrow> u32 \<Rightarrow> 'a mlog_scheme \<Rightarrow> 'a mlog_scheme outcome" where
  "log_write w b s =
     (let n = lh_n (log_lh (log s)) in
      if LOGSIZE \<le>s n \<or> log_size (log s) - 1 \<le>s n then Panic ''too big a transaction. %d < %d <= %d''
      else if log_busy (log s) = 0 then Panic ''write outside of trans''
      else
        andThen (whileM (\<lambda>i. i <s n \<and> lh_sector (log_lh (log s)) i \<noteq> b_sector (bufs s b)) (\<lambda>i. Ret (i + 1)) 0) (\<lambda>i.
        andThen (log_set_sector i (b_sector (bufs s b)) s) (\<lambda>s.
        andThen (bufcache_read w (b_dev (bufs s b)) (log_start (log s) + i + 1) s) (\<lambda>(lbuf, s).
        let s = buf_put lbuf (\<lambda>x. x\<lparr>b_data := b_data (bufs s b)\<rparr>) s in
        andThen (bufcache_write w lbuf s) (\<lambda>s.
        andThen (bufcache_release w lbuf s) (\<lambda>s.
        let s = (if i = lh_n (log_lh (log s)) then log_set_n (lh_n (log_lh (log s)) + 1) s else s) in
        Ret (buf_put b (\<lambda>x. x\<lparr>b_flags := b_flags x OR B_DIRTY\<rparr>) s)))))))"

end
