(* ===== verification/Block.thy ===== *)
theory Block
  imports Log
begin

unbundle bit_operations_syntax

text \<open>
  Allocation of disk blocks in the free bitmap, \<^verbatim>\<open>kern/fs/block.c\<close>, inside a transaction of the log.
\<close>

section \<open>Operations\<close>

abbreviation (input) BPB :: u32 where "BPB \<equiv> 4096"
abbreviation (input) IPB :: u32 where "IPB \<equiv> 8"

definition BBLOCK :: "u32 \<Rightarrow> u32 \<Rightarrow> u32" where
  "BBLOCK b ninodes = b div BPB + ninodes div IPB + 3"

definition block_zero :: "('a mlog_scheme, 'b) world_scheme \<Rightarrow> u32 \<Rightarrow> u32 \<Rightarrow> 'a mlog_scheme \<Rightarrow> 'a mlog_scheme outcome" where
  "block_zero w dev bno s =
     andThen (bufcache_read w dev bno s) (\<lambda>(bp, s).
     andThen (log_write w bp (buf_put bp (\<lambda>x. x\<lparr>b_data := (\<lambda>_. 0)\<rparr>) s)) (\<lambda>s.
     bufcache_release w bp s))"

text \<open>Bit \<open>bi\<close> of a bitmap block: the byte it is in and the mask \<^verbatim>\<open>m\<close>.\<close>

definition bmask :: "u32 \<Rightarrow> u8" where
  "bmask bi = push_bit (unat (bi mod 8)) 1"

definition bbyte :: "u32 \<Rightarrow> 9 word" where
  "bbyte bi = ucast (bi div 8)"

text \<open>The inner loop: the first free bit of the block, or where the loop ends without one.\<close>

definition balloc_scan :: "u32 \<Rightarrow> u32 \<Rightarrow> block \<Rightarrow> u32 outcome" where
  "balloc_scan size' b d =
     whileM (\<lambda>bi. bi < BPB \<and> b + bi < size' \<and> d (bbyte bi) AND bmask bi \<noteq> 0) (\<lambda>bi. Ret (bi + 1)) 0"

definition balloc_step ::
    "('a mlog_scheme, 'b) world_scheme \<Rightarrow> u32 \<Rightarrow> superblock \<Rightarrow> u32 \<times> u32 option \<times> 'a mlog_scheme \<Rightarrow>
     (u32 \<times> u32 option \<times> 'a mlog_scheme) outcome" where
  "balloc_step w dev sb = (\<lambda>(b, r, s).
     andThen (bufcache_read w dev (BBLOCK b (sb_ninodes sb)) s) (\<lambda>(bp, s).
     andThen (balloc_scan (sb_size sb) b (b_data (bufs s bp))) (\<lambda>bi.
     if bi < BPB \<and> b + bi < sb_size sb then
       let s = buf_put bp (\<lambda>x. x\<lparr>b_data := (b_data x)(bbyte bi := b_data x (bbyte bi) OR bmask bi)\<rparr>) s in
       andThen (log_write w bp s) (\<lambda>s.
       andThen (bufcache_release w bp s) (\<lambda>s.
       andThen (block_zero w dev (b + bi) s) (\<lambda>s.
       Ret (b, Some (b + bi), s))))
     else
       andThen (bufcache_release w bp s) (\<lambda>s. Ret (b + BPB, None, s)))))"

definition block_alloc :: "('a mlog_scheme, 'b) world_scheme \<Rightarrow> u32 \<Rightarrow> 'a mlog_scheme \<Rightarrow> (u32 \<times> 'a mlog_scheme) outcome" where
  "block_alloc w dev s =
     andThen (read_superblock w dev s) (\<lambda>(sb, s).
     andThen (whileM (\<lambda>(b, r, s). r = None \<and> b < sb_size sb) (balloc_step w dev sb) (0, None, s)) (\<lambda>(b, r, s).
     case r of Some n \<Rightarrow> Ret (n, s) | None \<Rightarrow> Panic ''balloc: out of blocks''))"

definition block_free :: "('a mlog_scheme, 'b) world_scheme \<Rightarrow> u32 \<Rightarrow> u32 \<Rightarrow> 'a mlog_scheme \<Rightarrow> 'a mlog_scheme outcome" where
  "block_free w dev b s =
     andThen (read_superblock w dev s) (\<lambda>(sb, s).
     andThen (bufcache_read w dev (BBLOCK b (sb_ninodes sb)) s) (\<lambda>(bp, s).
     let bi = b mod BPB in
     if b_data (bufs s bp) (bbyte bi) AND bmask bi = 0 then Panic ''freeing free block''
     else
       let s = buf_put bp (\<lambda>x. x\<lparr>b_data := (b_data x)(bbyte bi := b_data x (bbyte bi) AND NOT (bmask bi))\<rparr>) s in
       andThen (log_write w bp s) (\<lambda>s.
       bufcache_release w bp s)))"

end
