(* ===== verification/Inode.thy ===== *)
theory Inode
  imports Block
begin

unbundle bit_operations_syntax

text \<open>
  Inodes, \<^verbatim>\<open>kern/fs/inode.c\<close>: the cache of fifty in-memory inodes with reference counts and busy flags,
  their disk copies, the mapping of file offsets to disk blocks, and reading and writing of contents.
\<close>

section \<open>State\<close>

text \<open>
  Pointers to inodes are indices of the cache, and a null pointer is \<open>None\<close>. The device switch
  \<^verbatim>\<open>devsw\<close> is a null pointer that the program never sets.
\<close>

record inode =
  i_dev :: u32
  i_inum :: u32
  i_ref :: u32
  i_flags :: u32
  i_type :: u16
  i_major :: u16
  i_minor :: u16
  i_nlink :: u16
  i_size :: u32
  i_addrs :: "u32 \<Rightarrow> u32"

record mino = mlog +
  ino_lock :: spinlock
  inodes :: "u32 \<Rightarrow> inode"

abbreviation (input) I_BUSY :: u32 where "I_BUSY \<equiv> 1"
abbreviation (input) I_VALID :: u32 where "I_VALID \<equiv> 2"
abbreviation (input) NDIRECT :: u32 where "NDIRECT \<equiv> 12"
abbreviation (input) NINDIRECT :: u32 where "NINDIRECT \<equiv> 128"
abbreviation (input) MAXFILE :: u32 where "MAXFILE \<equiv> NDIRECT + NINDIRECT"
abbreviation (input) T_DIR :: u16 where "T_DIR \<equiv> 1"
abbreviation (input) T_FILE :: u16 where "T_FILE \<equiv> 2"
abbreviation (input) T_DEV :: u16 where "T_DEV \<equiv> 3"
abbreviation (input) NDEV :: u16 where "NDEV \<equiv> 10"

definition IBLOCK :: "u32 \<Rightarrow> u32" where
  "IBLOCK i = i div IPB + 2"

definition ino_put :: "u32 \<Rightarrow> (inode \<Rightarrow> inode) \<Rightarrow> 'a mino_scheme \<Rightarrow> 'a mino_scheme" where
  "ino_put ip f s = s\<lparr>inodes := (inodes s)(ip := f (inodes s ip))\<rparr>"

definition ino_acquire :: "'a mino_scheme \<Rightarrow> 'a mino_scheme outcome" where
  "ino_acquire s = andThen (spinlock_acquire s (ino_lock s)) (\<lambda>lk. Ret (s\<lparr>ino_lock := lk\<rparr>))"

definition ino_release :: "'a mino_scheme \<Rightarrow> 'a mino_scheme" where
  "ino_release s = s\<lparr>ino_lock := spinlock_release (ino_lock s)\<rparr>"

text \<open>A use of a pointer that may be null.\<close>

definition deref :: "'p option \<Rightarrow> ('p \<Rightarrow> 'r outcome) \<Rightarrow> 'r outcome" where
  "deref p f = (case p of None \<Rightarrow> Undef | Some x \<Rightarrow> f x)"

section \<open>Disk inodes\<close>

text \<open>
  A disk inode has 64 bytes: type, major, minor and nlink at offsets 0, 2, 4 and 6, the size at 8
  and the 13 block addresses from 12.
\<close>

definition dinode_off :: "u32 \<Rightarrow> 9 word" where
  "dinode_off inum = ucast (inum mod IPB * 64)"

definition dinode_store :: "9 word \<Rightarrow> inode \<Rightarrow> block \<Rightarrow> block" where
  "dinode_store a ip d =
     fold (\<lambda>i d. bstore32 (a + 12 + 4 * ucast i) (i_addrs ip i) d) (range32 0 13)
       (bstore32 (a + 8) (i_size ip) (bstore16 (a + 6) (i_nlink ip) (bstore16 (a + 4) (i_minor ip)
         (bstore16 (a + 2) (i_major ip) (bstore16 a (i_type ip) d)))))"

definition dinode_load :: "9 word \<Rightarrow> block \<Rightarrow> inode \<Rightarrow> inode" where
  "dinode_load a d ip =
     ip\<lparr>i_type := bload16 d a, i_major := bload16 d (a + 2), i_minor := bload16 d (a + 4),
        i_nlink := bload16 d (a + 6), i_size := bload32 d (a + 8),
        i_addrs := (\<lambda>i. if i < 13 then bload32 d (a + 12 + 4 * ucast i) else i_addrs ip i)\<rparr>"

text \<open>\<^verbatim>\<open>memset(dip, 0, sizeof( *dip))\<close> and the new type.\<close>

definition dinode_fresh :: "9 word \<Rightarrow> u16 \<Rightarrow> block \<Rightarrow> block" where
  "dinode_fresh a type d = bstore16 a type (\<lambda>i. if i - a < 64 then 0 else d i)"

section \<open>The inode cache\<close>

definition inode_init :: "'a mino_scheme \<Rightarrow> 'a mino_scheme" where
  "inode_init s = s\<lparr>ino_lock := spinlock_init (ino_lock s)\<rparr>"

text \<open>The loop of \<open>inode_get\<close>: the cached entry, and the first empty slot before it.\<close>

primrec inode_scan :: "(u32 \<Rightarrow> inode) \<Rightarrow> u32 \<Rightarrow> u32 \<Rightarrow> u32 option \<Rightarrow> u32 list \<Rightarrow> u32 option \<times> u32 option" where
  "inode_scan tab dev inum free [] = (None, free)"
| "inode_scan tab dev inum free (ip # ips) =
     (if 0 <s i_ref (tab ip) \<and> i_dev (tab ip) = dev \<and> i_inum (tab ip) = inum then (Some ip, free)
      else inode_scan tab dev inum (if free = None \<and> i_ref (tab ip) = 0 then Some ip else free) ips)"

definition inode_get :: "u32 \<Rightarrow> u32 \<Rightarrow> 'a mino_scheme \<Rightarrow> (u32 \<times> 'a mino_scheme) outcome" where
  "inode_get dev inum s =
     andThen (ino_acquire s) (\<lambda>s.
     case inode_scan (inodes s) dev inum None (range32 0 50) of
       (Some ip, _) \<Rightarrow> Ret (ip, ino_release (ino_put ip (\<lambda>x. x\<lparr>i_ref := i_ref x + 1\<rparr>) s))
     | (None, None) \<Rightarrow> Panic ''inode_get: no inodes''
     | (None, Some ip) \<Rightarrow>
         Ret (ip, ino_release (ino_put ip (\<lambda>x. x\<lparr>i_dev := dev, i_inum := inum, i_ref := 1, i_flags := 0\<rparr>) s)))"

definition inode_dup :: "u32 \<Rightarrow> 'a mino_scheme \<Rightarrow> (u32 \<times> 'a mino_scheme) outcome" where
  "inode_dup ip s =
     andThen (ino_acquire s) (\<lambda>s.
     Ret (ip, ino_release (ino_put ip (\<lambda>x. x\<lparr>i_ref := i_ref x + 1\<rparr>) s)))"

definition inode_alloc ::
    "('a mino_scheme, 'b) world_scheme \<Rightarrow> u32 \<Rightarrow> u16 \<Rightarrow> 'a mino_scheme \<Rightarrow> (u32 \<times> 'a mino_scheme) outcome" where
  "inode_alloc w dev type s =
     andThen (read_superblock w dev s) (\<lambda>(sb, s).
     andThen (whileM (\<lambda>(inum, r, s). r = None \<and> inum < sb_ninodes sb)
       (\<lambda>(inum, r, s).
          andThen (bufcache_read w dev (IBLOCK inum) s) (\<lambda>(bp, s).
          if bload16 (b_data (bufs s bp)) (dinode_off inum) = 0 then
            let s = buf_put bp (\<lambda>x. x\<lparr>b_data := dinode_fresh (dinode_off inum) type (b_data x)\<rparr>) s in
            andThen (log_write w bp s) (\<lambda>s.
            andThen (bufcache_release w bp s) (\<lambda>s.
            andThen (inode_get dev inum s) (\<lambda>(ip, s).
            Ret (inum, Some ip, s))))
          else
            andThen (bufcache_release w bp s) (\<lambda>s.
            Ret (inum + 1, None, s)))) (1, None, s)) (\<lambda>(inum, r, s).
     case r of Some ip \<Rightarrow> Ret (ip, s) | None \<Rightarrow> Panic ''inode_alloc: no inodes''))"

definition inode_update :: "('a mino_scheme, 'b) world_scheme \<Rightarrow> u32 \<Rightarrow> 'a mino_scheme \<Rightarrow> 'a mino_scheme outcome" where
  "inode_update w ip s =
     andThen (bufcache_read w (i_dev (inodes s ip)) (IBLOCK (i_inum (inodes s ip))) s) (\<lambda>(bp, s).
     let s = buf_put bp (\<lambda>x. x\<lparr>b_data := dinode_store (dinode_off (i_inum (inodes s ip))) (inodes s ip) (b_data x)\<rparr>) s in
     andThen (log_write w bp s) (\<lambda>s.
     bufcache_release w bp s))"

definition inode_lock :: "('a mino_scheme, 'b) world_scheme \<Rightarrow> u32 option \<Rightarrow> 'a mino_scheme \<Rightarrow> 'a mino_scheme outcome" where
  "inode_lock w p s =
     (case p of
        None \<Rightarrow> Panic ''inode_lock''
      | Some ip \<Rightarrow>
          if i_ref (inodes s ip) <s 1 then Panic ''inode_lock''
          else
            andThen (ino_acquire s) (\<lambda>s.
            andThen (whileM (\<lambda>s. i_flags (inodes s ip) AND I_BUSY \<noteq> 0)
              (sleep_on w (w_inode w ip) (Some (ino_lock, \<lambda>l s. s\<lparr>ino_lock := l\<rparr>))) s) (\<lambda>s.
            let s = ino_release (ino_put ip (\<lambda>x. x\<lparr>i_flags := i_flags x OR I_BUSY\<rparr>) s) in
            if i_flags (inodes s ip) AND I_VALID = 0 then
              andThen (bufcache_read w (i_dev (inodes s ip)) (IBLOCK (i_inum (inodes s ip))) s) (\<lambda>(bp, s).
              let s = ino_put ip (dinode_load (dinode_off (i_inum (inodes s ip))) (b_data (bufs s bp))) s in
              andThen (bufcache_release w bp s) (\<lambda>s.
              let s = ino_put ip (\<lambda>x. x\<lparr>i_flags := i_flags x OR I_VALID\<rparr>) s in
              if i_type (inodes s ip) = 0 then Panic ''inode_lock: no type'' else Ret s))
            else Ret s)))"

definition inode_unlock :: "('s, 'b) world_scheme \<Rightarrow> u32 option \<Rightarrow> 'a mino_scheme \<Rightarrow> 'a mino_scheme outcome" where
  "inode_unlock w p s =
     (case p of
        None \<Rightarrow> Panic ''inode_unlock''
      | Some ip \<Rightarrow>
          if i_flags (inodes s ip) AND I_BUSY = 0 \<or> i_ref (inodes s ip) <s 1 then Panic ''inode_unlock''
          else
            andThen (ino_acquire s) (\<lambda>s.
            andThen (thread_wakeup (w_inode w ip) (ino_put ip (\<lambda>x. x\<lparr>i_flags := i_flags x AND NOT I_BUSY\<rparr>) s)) (\<lambda>s.
            Ret (ino_release s))))"

section \<open>Contents\<close>

definition bmap_direct ::
    "('a mino_scheme, 'b) world_scheme \<Rightarrow> u32 \<Rightarrow> u32 \<Rightarrow> 'a mino_scheme \<Rightarrow> (u32 \<times> 'a mino_scheme) outcome" where
  "bmap_direct w ip bn s =
     (if i_addrs (inodes s ip) bn = 0 then
        andThen (block_alloc w (i_dev (inodes s ip)) s) (\<lambda>(addr, s).
        Ret (addr, ino_put ip (\<lambda>x. x\<lparr>i_addrs := (i_addrs x)(bn := addr)\<rparr>) s))
      else Ret (i_addrs (inodes s ip) bn, s))"

definition bmap :: "('a mino_scheme, 'b) world_scheme \<Rightarrow> u32 \<Rightarrow> u32 \<Rightarrow> 'a mino_scheme \<Rightarrow> (u32 \<times> 'a mino_scheme) outcome" where
  "bmap w ip bn s =
     (if bn < NDIRECT then bmap_direct w ip bn s
      else
        let bn = bn - NDIRECT in
        if bn < NINDIRECT then
          andThen (bmap_direct w ip NDIRECT s) (\<lambda>(addr, s).
          andThen (bufcache_read w (i_dev (inodes s ip)) addr s) (\<lambda>(bp, s).
          let addr = bload32 (b_data (bufs s bp)) (ucast (4 * bn)) in
          andThen
            (if addr = 0 then
               andThen (block_alloc w (i_dev (inodes s ip)) s) (\<lambda>(addr, s).
               andThen (log_write w bp (buf_put bp (\<lambda>x. x\<lparr>b_data := bstore32 (ucast (4 * bn)) addr (b_data x)\<rparr>) s)) (\<lambda>s.
               Ret (addr, s)))
             else Ret (addr, s)) (\<lambda>(addr, s).
          andThen (bufcache_release w bp s) (\<lambda>s.
          Ret (addr, s)))))
        else Panic ''bmap: out of range'')"

definition inode_trunc :: "('a mino_scheme, 'b) world_scheme \<Rightarrow> u32 \<Rightarrow> 'a mino_scheme \<Rightarrow> 'a mino_scheme outcome" where
  "inode_trunc w ip s =
     andThen (forM (range32 0 12) (\<lambda>i s.
       if i_addrs (inodes s ip) i \<noteq> 0 then
         andThen (block_free w (i_dev (inodes s ip)) (i_addrs (inodes s ip) i) s) (\<lambda>s.
         Ret (ino_put ip (\<lambda>x. x\<lparr>i_addrs := (i_addrs x)(i := 0)\<rparr>) s))
       else Ret s) s) (\<lambda>s.
     andThen
       (if i_addrs (inodes s ip) NDIRECT \<noteq> 0 then
          andThen (bufcache_read w (i_dev (inodes s ip)) (i_addrs (inodes s ip) NDIRECT) s) (\<lambda>(bp, s).
          andThen (forM (range32 0 128) (\<lambda>j s.
            let a = bload32 (b_data (bufs s bp)) (ucast (4 * j)) in
            if a \<noteq> 0 then block_free w (i_dev (inodes s ip)) a s else Ret s) s) (\<lambda>s.
          andThen (bufcache_release w bp s) (\<lambda>s.
          andThen (block_free w (i_dev (inodes s ip)) (i_addrs (inodes s ip) NDIRECT) s) (\<lambda>s.
          Ret (ino_put ip (\<lambda>x. x\<lparr>i_addrs := (i_addrs x)(NDIRECT := 0)\<rparr>) s)))))
        else Ret s) (\<lambda>s.
     inode_update w ip (ino_put ip (\<lambda>x. x\<lparr>i_size := 0\<rparr>) s)))"

definition inode_put :: "('a mino_scheme, 'b) world_scheme \<Rightarrow> u32 \<Rightarrow> 'a mino_scheme \<Rightarrow> 'a mino_scheme outcome" where
  "inode_put w ip s =
     andThen (ino_acquire s) (\<lambda>s.
     let x = inodes s ip in
     andThen
       (if i_ref x = 1 \<and> i_flags x AND I_VALID \<noteq> 0 \<and> i_nlink x = 0 then
          if i_flags x AND I_BUSY \<noteq> 0 then Panic ''inode_put busy''
          else
            andThen (inode_trunc w ip (ino_release (ino_put ip (\<lambda>x. x\<lparr>i_flags := i_flags x OR I_BUSY\<rparr>) s))) (\<lambda>s.
            andThen (inode_update w ip (ino_put ip (\<lambda>x. x\<lparr>i_type := 0\<rparr>) s)) (\<lambda>s.
            andThen (ino_acquire s) (\<lambda>s.
            thread_wakeup (w_inode w ip) (ino_put ip (\<lambda>x. x\<lparr>i_flags := 0\<rparr>) s))))
        else Ret s) (\<lambda>s.
     Ret (ino_release (ino_put ip (\<lambda>x. x\<lparr>i_ref := i_ref x - 1\<rparr>) s))))"

definition inode_unlockput :: "('a mino_scheme, 'b) world_scheme \<Rightarrow> u32 option \<Rightarrow> 'a mino_scheme \<Rightarrow> 'a mino_scheme outcome" where
  "inode_unlockput w p s =
     andThen (inode_unlock w p s) (\<lambda>s. deref p (\<lambda>ip. inode_put w ip s))"

record file_stat =
  st_type :: u16
  st_dev :: u32
  st_ino :: u32
  st_nlink :: u16
  st_size :: u32

definition inode_stat :: "inode \<Rightarrow> file_stat" where
  "inode_stat ip = \<lparr>st_type = i_type ip, st_dev = i_dev ip, st_ino = i_inum ip, st_nlink = i_nlink ip, st_size = i_size ip\<rparr>"

text \<open>\<^verbatim>\<open>memmove\<close> between a buffer of the cache, from offset \<open>o\<close>, and memory.\<close>

definition block_to_mem :: "u32 \<Rightarrow> block \<Rightarrow> u32 \<Rightarrow> u32 \<Rightarrow> memory \<Rightarrow> memory" where
  "block_to_mem dst d off m mm = (\<lambda>a. if a - dst < m then d (ucast (off + (a - dst))) else mm a)"

definition mem_to_block :: "u32 \<Rightarrow> u32 \<Rightarrow> u32 \<Rightarrow> memory \<Rightarrow> block \<Rightarrow> block" where
  "mem_to_block src off m mm d = (\<lambda>i. if ucast i - off < m then mm (src + (ucast i - off)) else d i)"

text \<open>The size of the next piece: \<^verbatim>\<open>min(n - tot, BSIZE - off % BSIZE)\<close>.\<close>

definition piece :: "u32 \<Rightarrow> u32 \<Rightarrow> u32 \<Rightarrow> u32" where
  "piece n tot off = min32 (n - tot) (BSIZE - off mod BSIZE)"

definition readi_step ::
    "('a mino_scheme, 'b) world_scheme \<Rightarrow> u32 \<Rightarrow> u32 \<Rightarrow> u32 \<times> u32 \<times> u32 \<times> 'a mino_scheme \<Rightarrow>
     (u32 \<times> u32 \<times> u32 \<times> 'a mino_scheme) outcome" where
  "readi_step w ip n = (\<lambda>(tot, off, dst, s).
     andThen (bmap w ip (off div BSIZE) s) (\<lambda>(addr, s).
     andThen (bufcache_read w (i_dev (inodes s ip)) addr s) (\<lambda>(bp, s).
     let m = piece n tot off;
         s = s\<lparr>mem := block_to_mem dst (b_data (bufs s bp)) (off mod BSIZE) m (mem s)\<rparr> in
     andThen (bufcache_release w bp s) (\<lambda>s.
     Ret (tot + m, off + m, dst + m, s)))))"

text \<open>A result of -1 is the word of all ones.\<close>

definition inode_read ::
    "('a mino_scheme, 'b) world_scheme \<Rightarrow> u32 \<Rightarrow> u32 \<Rightarrow> u32 \<Rightarrow> u32 \<Rightarrow> 'a mino_scheme \<Rightarrow> (u32 \<times> 'a mino_scheme) outcome" where
  "inode_read w ip dst off n s =
     (let x = inodes s ip in
      if i_type x = T_DEV then
        if i_major x <s 0 \<or> NDEV \<le>s i_major x then Ret (-1, s) else Undef
      else if off > i_size x \<or> off + n < off then Ret (-1, s)
      else
        let n = (if off + n > i_size x then i_size x - off else n) in
        andThen (whileM (\<lambda>(tot, off, dst, s). tot < n) (readi_step w ip n) (0, off, dst, s)) (\<lambda>(_, _, _, s).
        Ret (n, s)))"

definition writei_step ::
    "('a mino_scheme, 'b) world_scheme \<Rightarrow> u32 \<Rightarrow> u32 \<Rightarrow> u32 \<times> u32 \<times> u32 \<times> 'a mino_scheme \<Rightarrow>
     (u32 \<times> u32 \<times> u32 \<times> 'a mino_scheme) outcome" where
  "writei_step w ip n = (\<lambda>(tot, off, src, s).
     andThen (bmap w ip (off div BSIZE) s) (\<lambda>(addr, s).
     andThen (bufcache_read w (i_dev (inodes s ip)) addr s) (\<lambda>(bp, s).
     let m = piece n tot off;
         s = buf_put bp (\<lambda>x. x\<lparr>b_data := mem_to_block src (off mod BSIZE) m (mem s) (b_data x)\<rparr>) s in
     andThen (log_write w bp s) (\<lambda>s.
     andThen (bufcache_release w bp s) (\<lambda>s.
     Ret (tot + m, off + m, src + m, s))))))"

definition inode_write ::
    "('a mino_scheme, 'b) world_scheme \<Rightarrow> u32 \<Rightarrow> u32 \<Rightarrow> u32 \<Rightarrow> u32 \<Rightarrow> 'a mino_scheme \<Rightarrow> (u32 \<times> 'a mino_scheme) outcome" where
  "inode_write w ip src off n s =
     (let x = inodes s ip in
      if i_type x = T_DEV then
        if i_major x <s 0 \<or> NDEV \<le>s i_major x then Ret (-1, s) else Undef
      else if off > i_size x \<or> off + n < off then Ret (-1, s)
      else if off + n > MAXFILE * BSIZE then Ret (-1, s)
      else
        andThen (whileM (\<lambda>(tot, off, src, s). tot < n) (writei_step w ip n) (0, off, src, s)) (\<lambda>(_, off, _, s).
        andThen
          (if n > 0 \<and> off > i_size (inodes s ip)
           then inode_update w ip (ino_put ip (\<lambda>x. x\<lparr>i_size := off\<rparr>) s)
           else Ret s) (\<lambda>s.
        Ret (n, s))))"

end
