(* ===== verification/File.thy ===== *)
theory File
  imports Inode KString
begin

unbundle bit_operations_syntax

text \<open>
  Directories and path names as far as the source has them (\<^verbatim>\<open>kern/fs/dir.c\<close>, \<^verbatim>\<open>kern/fs/path.c\<close>), and the
  table of open files, \<^verbatim>\<open>kern/fs/file.c\<close>.
\<close>

section \<open>Directories (dir.c)\<close>

abbreviation (input) DIRSIZ :: nat where "DIRSIZ \<equiv> 14"

definition dir_namecmp :: "u32 \<Rightarrow> u32 \<Rightarrow> 'a machine_scheme \<Rightarrow> int" where
  "dir_namecmp s t st = strncmp DIRSIZ s t (mem st)"

text \<open>
  Both are stubs in the source: no lookup finds an entry, which would be an inode and the offset stored
  in \<^verbatim>\<open>*poff\<close>, and no entry is written.
\<close>

definition dir_lookup :: "u32 \<Rightarrow> u32 \<Rightarrow> 'a mino_scheme \<Rightarrow> (u32 \<times> u32) option outcome" where
  "dir_lookup dp name s =
     (if i_type (inodes s dp) \<noteq> T_DIR then Panic ''dir_lookup not DIR'' else Ret None)"

definition dir_link :: "u32 \<Rightarrow> u32 \<Rightarrow> u32 \<Rightarrow> 'a mino_scheme \<Rightarrow> (int \<times> 'a mino_scheme) outcome" where
  "dir_link dp name inum s = Ret (0, s)"

section \<open>Paths (path.c)\<close>

abbreviation (input) ROOTINO :: u32 where "ROOTINO \<equiv> 1"

definition skipelem :: "u32 \<Rightarrow> u32 \<Rightarrow> u32 option" where
  "skipelem path name = None"

definition namex ::
    "('a mino_scheme, 'b) world_scheme \<Rightarrow> u32 \<Rightarrow> bool \<Rightarrow> u32 \<Rightarrow> 'a mino_scheme \<Rightarrow> (u32 option \<times> 'a mino_scheme) outcome" where
  "namex w path parent name s =
     andThen
       (if mem s path = 0x2F then inode_get ROOTDEV ROOTINO s
        else
          andThen (get_curid s) (\<lambda>pid.
          andThen (tcb_get_cwd pid s) (\<lambda>cwd.
          deref cwd (\<lambda>ip. inode_dup ip s)))) (\<lambda>(ip, s).
     andThen (whileM (\<lambda>p. p \<noteq> None) (\<lambda>p. Ret (skipelem (the p) name)) (skipelem path name)) (\<lambda>_.
     if parent then andThen (inode_put w ip s) (\<lambda>s. Ret (None, s))
     else Ret (Some ip, s)))"

definition namei ::
    "('a mino_scheme, 'b) world_scheme \<Rightarrow> u32 \<Rightarrow> 'a mino_scheme \<Rightarrow> (u32 option \<times> 'a mino_scheme) outcome" where
  "namei w path s = namex w path False (w_local w ''name'') s"

definition nameiparent ::
    "('a mino_scheme, 'b) world_scheme \<Rightarrow> u32 \<Rightarrow> u32 \<Rightarrow> 'a mino_scheme \<Rightarrow> (u32 option \<times> 'a mino_scheme) outcome" where
  "nameiparent w path name s = namex w path True name s"

section \<open>Open files (file.c)\<close>

datatype file_type = FD_NONE | FD_PIPE | FD_INODE

record file_t =
  f_type :: file_type
  f_ref :: u32
  f_readable :: bool
  f_writable :: bool
  f_ip :: "u32 option"
  f_off :: u32

record mfile = mino +
  ftable_lock :: spinlock
  files :: "u32 \<Rightarrow> file_t"

definition file_put :: "u32 \<Rightarrow> (file_t \<Rightarrow> file_t) \<Rightarrow> 'a mfile_scheme \<Rightarrow> 'a mfile_scheme" where
  "file_put f g s = s\<lparr>files := (files s)(f := g (files s f))\<rparr>"

definition ftable_acquire :: "'a mfile_scheme \<Rightarrow> 'a mfile_scheme outcome" where
  "ftable_acquire s = andThen (spinlock_acquire s (ftable_lock s)) (\<lambda>lk. Ret (s\<lparr>ftable_lock := lk\<rparr>))"

definition ftable_release :: "'a mfile_scheme \<Rightarrow> 'a mfile_scheme" where
  "ftable_release s = s\<lparr>ftable_lock := spinlock_release (ftable_lock s)\<rparr>"

definition file_init :: "'a mfile_scheme \<Rightarrow> 'a mfile_scheme" where
  "file_init s = s\<lparr>ftable_lock := spinlock_init (ftable_lock s)\<rparr>"

definition file_alloc :: "'a mfile_scheme \<Rightarrow> (u32 option \<times> 'a mfile_scheme) outcome" where
  "file_alloc s =
     andThen (ftable_acquire s) (\<lambda>s.
     case List.find (\<lambda>f. f_ref (files s f) = 0) (range32 0 100) of
       Some f \<Rightarrow> Ret (Some f, ftable_release (file_put f (\<lambda>x. x\<lparr>f_ref := 1\<rparr>) s))
     | None \<Rightarrow> Ret (None, ftable_release s))"

definition file_dup :: "u32 \<Rightarrow> 'a mfile_scheme \<Rightarrow> (u32 \<times> 'a mfile_scheme) outcome" where
  "file_dup f s =
     andThen (ftable_acquire s) (\<lambda>s.
     if f_ref (files s f) <s 1 then Panic ''file_dup''
     else Ret (f, ftable_release (file_put f (\<lambda>x. x\<lparr>f_ref := f_ref x + 1\<rparr>) s)))"

definition file_close :: "('a mfile_scheme, 'b) world_scheme \<Rightarrow> u32 \<Rightarrow> 'a mfile_scheme \<Rightarrow> 'a mfile_scheme outcome" where
  "file_close w f s =
     andThen (ftable_acquire s) (\<lambda>s.
     if f_ref (files s f) <s 1 then Panic ''file_close''
     else
       let s = file_put f (\<lambda>x. x\<lparr>f_ref := f_ref x - 1\<rparr>) s in
       if 0 <s f_ref (files s f) then Ret (ftable_release s)
       else
         let ff = files s f; s = ftable_release (file_put f (\<lambda>x. x\<lparr>f_ref := 0, f_type := FD_NONE\<rparr>) s) in
         if f_type ff = FD_INODE then
           andThen (begin_trans w s) (\<lambda>s.
           andThen (deref (f_ip ff) (\<lambda>ip. inode_put w ip s)) (\<lambda>s.
           commit_trans w s))
         else Ret s)"

text \<open>The name \<open>file_stat\<close> is the record's; the operation returns the structure it fills.\<close>

definition file_stat_op ::
    "('a mfile_scheme, 'b) world_scheme \<Rightarrow> u32 \<Rightarrow> 'a mfile_scheme \<Rightarrow> (file_stat option \<times> 'a mfile_scheme) outcome" where
  "file_stat_op w f s =
     (if f_type (files s f) = FD_INODE then
        andThen (inode_lock w (f_ip (files s f)) s) (\<lambda>s.
        deref (f_ip (files s f)) (\<lambda>ip.
        let st = inode_stat (inodes s ip) in
        andThen (inode_unlock w (Some ip) s) (\<lambda>s.
        Ret (Some st, s))))
      else Ret (None, s))"

definition file_read ::
    "('a mfile_scheme, 'b) world_scheme \<Rightarrow> u32 \<Rightarrow> u32 \<Rightarrow> u32 \<Rightarrow> 'a mfile_scheme \<Rightarrow> (u32 \<times> 'a mfile_scheme) outcome" where
  "file_read w f addr n s =
     (if \<not> f_readable (files s f) then Ret (-1, s)
      else if f_type (files s f) = FD_INODE then
        andThen (inode_lock w (f_ip (files s f)) s) (\<lambda>s.
        deref (f_ip (files s f)) (\<lambda>ip.
        andThen (inode_read w ip addr (f_off (files s f)) n s) (\<lambda>(r, s).
        let s = (if 0 <s r then file_put f (\<lambda>x. x\<lparr>f_off := f_off x + r\<rparr>) s else s) in
        andThen (inode_unlock w (Some ip) s) (\<lambda>s.
        Ret (r, s)))))
      else Panic ''file_read'')"

text \<open>
  At most \<^verbatim>\<open>((LOGSIZE - 1 - 1 - 2) / 2) * 512\<close> = 1536 bytes are written per transaction. The flag of
  the loop state is the \<^verbatim>\<open>break\<close>.
\<close>

definition file_write_step ::
    "('a mfile_scheme, 'b) world_scheme \<Rightarrow> u32 \<Rightarrow> u32 \<Rightarrow> u32 \<Rightarrow> u32 \<times> bool \<times> 'a mfile_scheme \<Rightarrow>
     (u32 \<times> bool \<times> 'a mfile_scheme) outcome" where
  "file_write_step w f addr n = (\<lambda>(i, stop, s).
     let n1 = n - i; n1 = (if 1536 <s n1 then 1536 else n1) in
     andThen (begin_trans w s) (\<lambda>s.
     andThen (inode_lock w (f_ip (files s f)) s) (\<lambda>s.
     deref (f_ip (files s f)) (\<lambda>ip.
     andThen (inode_write w ip (addr + i) (f_off (files s f)) n1 s) (\<lambda>(r, s).
     let s = (if 0 <s r then file_put f (\<lambda>x. x\<lparr>f_off := f_off x + r\<rparr>) s else s) in
     andThen (inode_unlock w (Some ip) s) (\<lambda>s.
     andThen (commit_trans w s) (\<lambda>s.
     if r <s 0 then Ret (i, True, s)
     else if r \<noteq> n1 then Panic ''short file_write''
     else Ret (i + r, False, s))))))))"

definition file_write ::
    "('a mfile_scheme, 'b) world_scheme \<Rightarrow> u32 \<Rightarrow> u32 \<Rightarrow> u32 \<Rightarrow> 'a mfile_scheme \<Rightarrow> (u32 \<times> 'a mfile_scheme) outcome" where
  "file_write w f addr n s =
     (if \<not> f_writable (files s f) then Ret (-1, s)
      else if f_type (files s f) = FD_INODE then
        andThen (whileM (\<lambda>(i, stop, s). \<not> stop \<and> i <s n) (file_write_step w f addr n) (0, False, s)) (\<lambda>(i, stop, s).
        Ret (if i = n then n else -1, s))
      else Panic ''file_write'')"

end
