(* ===== verification/Trap_Frame.thy ===== *)
theory Trap_Frame
  imports Prelude
begin

text \<open>
  Trap frames (\<^verbatim>\<open>kern/lib/trap.h\<close>), the error numbers of \<^verbatim>\<open>kern/lib/syscall.h\<close>, and the passing of
  arguments and results of system calls in the registers of the frame (\<^verbatim>\<open>kern/trap/TSyscallArg\<close>). The
  padding of the frame is left out.
\<close>

record pushregs =
  pr_edi :: u32
  pr_esi :: u32
  pr_ebp :: u32
  pr_oesp :: u32
  pr_ebx :: u32
  pr_edx :: u32
  pr_ecx :: u32
  pr_eax :: u32

record tf_t =
  tf_regs :: pushregs
  tf_es :: u16
  tf_ds :: u16
  tf_trapno :: u32
  tf_err :: u32
  tf_eip :: u32
  tf_cs :: u16
  tf_eflags :: u32
  tf_esp :: u32
  tf_ss :: u16

abbreviation (input) E_SUCC :: u32 where "E_SUCC \<equiv> 0"
abbreviation (input) E_MEM :: u32 where "E_MEM \<equiv> 1"
abbreviation (input) E_INVAL_CALLNR :: u32 where "E_INVAL_CALLNR \<equiv> 3"
abbreviation (input) E_INVAL_ADDR :: u32 where "E_INVAL_ADDR \<equiv> 4"
abbreviation (input) E_INVAL_PID :: u32 where "E_INVAL_PID \<equiv> 5"
abbreviation (input) E_DISK_OP :: u32 where "E_DISK_OP \<equiv> 13"
abbreviation (input) E_EXCEEDS_QUOTA :: u32 where "E_EXCEEDS_QUOTA \<equiv> 23"
abbreviation (input) E_MAX_NUM_CHILDEN_REACHED :: u32 where "E_MAX_NUM_CHILDEN_REACHED \<equiv> 24"
abbreviation (input) E_INVAL_CHILD_ID :: u32 where "E_INVAL_CHILD_ID \<equiv> 25"
abbreviation (input) E_NEXIST :: u32 where "E_NEXIST \<equiv> 26"
abbreviation (input) E_CREATE :: u32 where "E_CREATE \<equiv> 27"

definition syscall_get_arg1 :: "tf_t \<Rightarrow> u32" where "syscall_get_arg1 tf = pr_eax (tf_regs tf)"
definition syscall_get_arg2 :: "tf_t \<Rightarrow> u32" where "syscall_get_arg2 tf = pr_ebx (tf_regs tf)"
definition syscall_get_arg3 :: "tf_t \<Rightarrow> u32" where "syscall_get_arg3 tf = pr_ecx (tf_regs tf)"
definition syscall_get_arg4 :: "tf_t \<Rightarrow> u32" where "syscall_get_arg4 tf = pr_edx (tf_regs tf)"
definition syscall_get_arg5 :: "tf_t \<Rightarrow> u32" where "syscall_get_arg5 tf = pr_esi (tf_regs tf)"
definition syscall_get_arg6 :: "tf_t \<Rightarrow> u32" where "syscall_get_arg6 tf = pr_edi (tf_regs tf)"

definition syscall_set_errno :: "u32 \<Rightarrow> tf_t \<Rightarrow> tf_t" where
  "syscall_set_errno errno tf = tf\<lparr>tf_regs := (tf_regs tf)\<lparr>pr_eax := errno\<rparr>\<rparr>"

definition syscall_set_retval1 :: "u32 \<Rightarrow> tf_t \<Rightarrow> tf_t" where
  "syscall_set_retval1 retval tf = tf\<lparr>tf_regs := (tf_regs tf)\<lparr>pr_ebx := retval\<rparr>\<rparr>"

definition syscall_set_retval2 :: "u32 \<Rightarrow> tf_t \<Rightarrow> tf_t" where
  "syscall_set_retval2 retval tf = tf\<lparr>tf_regs := (tf_regs tf)\<lparr>pr_ecx := retval\<rparr>\<rparr>"

definition syscall_set_retval3 :: "u32 \<Rightarrow> tf_t \<Rightarrow> tf_t" where
  "syscall_set_retval3 retval tf = tf\<lparr>tf_regs := (tf_regs tf)\<lparr>pr_edx := retval\<rparr>\<rparr>"

definition syscall_set_retval4 :: "u32 \<Rightarrow> tf_t \<Rightarrow> tf_t" where
  "syscall_set_retval4 retval tf = tf\<lparr>tf_regs := (tf_regs tf)\<lparr>pr_esi := retval\<rparr>\<rparr>"

definition syscall_set_retval5 :: "u32 \<Rightarrow> tf_t \<Rightarrow> tf_t" where
  "syscall_set_retval5 retval tf = tf\<lparr>tf_regs := (tf_regs tf)\<lparr>pr_edi := retval\<rparr>\<rparr>"

end
