(* ===== verification/Sysfile.thy ===== *)
theory Sysfile
  imports File Pmap Trap_Frame
begin

unbundle bit_operations_syntax

text \<open>
  The system calls of the file system, \<^verbatim>\<open>kern/fs/sysfile.c\<close>. A handler takes the trap frame of the
  caller and returns it with the results in it. Buffers on the kernel stack and string literals are at
  the addresses \<^verbatim>\<open>w_local\<close>. \<^verbatim>\<open>sys_read\<close>, \<^verbatim>\<open>sys_write\<close>, \<^verbatim>\<open>sys_close\<close> and \<^verbatim>\<open>sys_fstat\<close> are stubs in the source.
\<close>

abbreviation (input) O_RDONLY :: u32 where "O_RDONLY \<equiv> 0"
abbreviation (input) O_WRONLY :: u32 where "O_WRONLY \<equiv> 1"
abbreviation (input) O_RDWR :: u32 where "O_RDWR \<equiv> 2"
abbreviation (input) O_CREATE :: u32 where "O_CREATE \<equiv> 0x200"

type_synonym ('a, 'b) handler =
  "('a mfile_scheme, 'b) world_scheme \<Rightarrow> tf_t \<Rightarrow> 'a mfile_scheme \<Rightarrow> (tf_t \<times> 'a mfile_scheme) outcome"

definition fdalloc :: "u32 \<Rightarrow> 'a mfile_scheme \<Rightarrow> u32 \<times> 'a mfile_scheme" where
  "fdalloc f s = (-1, s)"

definition sys_read :: "('a, 'b) handler" where "sys_read w tf s = Ret (tf, s)"
definition sys_write :: "('a, 'b) handler" where "sys_write w tf s = Ret (tf, s)"
definition sys_close :: "('a, 'b) handler" where "sys_close w tf s = Ret (tf, s)"
definition sys_fstat :: "('a, 'b) handler" where "sys_fstat w tf s = Ret (tf, s)"

text \<open>Copies a path of the caller to a buffer of 128 bytes; the result of \<^verbatim>\<open>pt_copyin\<close> is not used.\<close>

definition copy_path :: "u32 \<Rightarrow> u32 \<Rightarrow> 'a mfile_scheme \<Rightarrow> 'a mfile_scheme outcome" where
  "copy_path uva kva s =
     andThen (get_curid s) (\<lambda>pid. andThen (pt_copyin pid uva kva 128 s) (\<lambda>(_, s). Ret s))"

definition sys_link :: "('a, 'b) handler" where
  "sys_link w tf s =
     (let name = w_local w ''name''; new = w_local w ''new''; old = w_local w ''old'' in
      andThen (copy_path (syscall_get_arg2 tf) old s) (\<lambda>s.
      andThen (copy_path (syscall_get_arg3 tf) new s) (\<lambda>s.
      andThen (namei w old s) (\<lambda>(p, s).
      case p of
        None \<Rightarrow> Ret (syscall_set_errno E_NEXIST tf, s)
      | Some ip \<Rightarrow>
          andThen (begin_trans w s) (\<lambda>s.
          andThen (inode_lock w (Some ip) s) (\<lambda>s.
          if i_type (inodes s ip) = T_DIR then
            andThen (inode_unlockput w (Some ip) s) (\<lambda>s.
            andThen (commit_trans w s) (\<lambda>s.
            Ret (syscall_set_errno E_DISK_OP tf, s)))
          else
            andThen (inode_update w ip (ino_put ip (\<lambda>x. x\<lparr>i_nlink := i_nlink x + 1\<rparr>) s)) (\<lambda>s.
            andThen (inode_unlock w (Some ip) s) (\<lambda>s.
            let bad = (\<lambda>s.
              andThen (inode_lock w (Some ip) s) (\<lambda>s.
              andThen (inode_update w ip (ino_put ip (\<lambda>x. x\<lparr>i_nlink := i_nlink x - 1\<rparr>) s)) (\<lambda>s.
              andThen (inode_unlockput w (Some ip) s) (\<lambda>s.
              andThen (commit_trans w s) (\<lambda>s.
              Ret (syscall_set_errno E_DISK_OP tf, s)))))) in
            andThen (nameiparent w new name s) (\<lambda>(q, s).
            case q of
              None \<Rightarrow> bad s
            | Some dp \<Rightarrow>
                andThen (inode_lock w (Some dp) s) (\<lambda>s.
                andThen (if i_dev (inodes s dp) \<noteq> i_dev (inodes s ip) then Ret (-1, s)
                         else dir_link dp name (i_inum (inodes s ip)) s) (\<lambda>(r, s).
                andThen (inode_unlockput w (Some dp) s) (\<lambda>s.
                if r < 0 then bad s
                else
                  andThen (inode_put w ip s) (\<lambda>s.
                  andThen (commit_trans w s) (\<lambda>s.
                  Ret (syscall_set_errno E_SUCC tf, s)))))))))))))))"

text \<open>A directory entry has 16 bytes and begins with its inode number.\<close>

definition isdirempty ::
    "('a mfile_scheme, 'b) world_scheme \<Rightarrow> u32 \<Rightarrow> 'a mfile_scheme \<Rightarrow> (bool \<times> 'a mfile_scheme) outcome" where
  "isdirempty w dp s =
     andThen (whileM (\<lambda>(off, empty, s). empty \<and> off < i_size (inodes s dp))
       (\<lambda>(off, empty, s).
          andThen (inode_read w dp (w_local w ''de'') off 16 s) (\<lambda>(r, s).
          if r \<noteq> 16 then Panic ''isdirempty: readi''
          else if mem s (w_local w ''de'') \<noteq> 0 \<or> mem s (w_local w ''de'' + 1) \<noteq> 0 then Ret (off, False, s)
          else Ret (off + 16, True, s))) (32, True, s)) (\<lambda>(off, empty, s).
     Ret (empty, s))"

definition sys_unlink :: "('a, 'b) handler" where
  "sys_unlink w tf s =
     (let name = w_local w ''name''; path = w_local w ''path''; de = w_local w ''de'' in
      andThen (copy_path (syscall_get_arg2 tf) path s) (\<lambda>s.
      andThen (nameiparent w path name s) (\<lambda>(q, s).
      case q of
        None \<Rightarrow> Ret (syscall_set_errno E_DISK_OP tf, s)
      | Some dp \<Rightarrow>
          let bad = (\<lambda>s.
            andThen (inode_unlockput w (Some dp) s) (\<lambda>s.
            andThen (commit_trans w s) (\<lambda>s.
            Ret (syscall_set_errno E_DISK_OP tf, s)))) in
          andThen (begin_trans w s) (\<lambda>s.
          andThen (inode_lock w (Some dp) s) (\<lambda>s.
          if dir_namecmp name (w_local w ''dot'') s = 0 \<or> dir_namecmp name (w_local w ''dotdot'') s = 0 then bad s
          else
            andThen (dir_lookup dp name s) (\<lambda>p.
            case p of
              None \<Rightarrow> bad s
            | Some (ip, off) \<Rightarrow>
                andThen (inode_lock w (Some ip) s) (\<lambda>s.
                if i_nlink (inodes s ip) <s 1 then Panic ''unlink: nlink < 1''
                else
                  andThen (if i_type (inodes s ip) = T_DIR then isdirempty w ip s else Ret (True, s)) (\<lambda>(empty, s).
                  if \<not> empty then andThen (inode_unlockput w (Some ip) s) bad
                  else
                    andThen (inode_write w dp de off 16 (s\<lparr>mem := memset de 0 16 (mem s)\<rparr>)) (\<lambda>(r, s).
                    if r \<noteq> 16 then Panic ''unlink: writei''
                    else
                      andThen (if i_type (inodes s ip) = T_DIR
                               then inode_update w dp (ino_put dp (\<lambda>x. x\<lparr>i_nlink := i_nlink x - 1\<rparr>) s)
                               else Ret s) (\<lambda>s.
                      andThen (inode_unlockput w (Some dp) s) (\<lambda>s.
                      andThen (inode_update w ip (ino_put ip (\<lambda>x. x\<lparr>i_nlink := i_nlink x - 1\<rparr>) s)) (\<lambda>s.
                      andThen (inode_unlockput w (Some ip) s) (\<lambda>s.
                      andThen (commit_trans w s) (\<lambda>s.
                      Ret (syscall_set_errno E_SUCC tf, s)))))))))))))))"

definition create ::
    "('a mfile_scheme, 'b) world_scheme \<Rightarrow> u32 \<Rightarrow> u16 \<Rightarrow> u16 \<Rightarrow> u16 \<Rightarrow> 'a mfile_scheme \<Rightarrow>
     (u32 option \<times> 'a mfile_scheme) outcome" where
  "create w path type major minor s =
     (let name = w_local w ''name'' in
      andThen (nameiparent w path name s) (\<lambda>(q, s).
      case q of
        None \<Rightarrow> Ret (None, s)
      | Some dp \<Rightarrow>
          andThen (inode_lock w (Some dp) s) (\<lambda>s.
          andThen (dir_lookup dp name s) (\<lambda>p.
          case p of
            Some (ip, off) \<Rightarrow>
              andThen (inode_unlockput w (Some dp) s) (\<lambda>s.
              andThen (inode_lock w (Some ip) s) (\<lambda>s.
              if type = T_FILE \<and> i_type (inodes s ip) = T_FILE then Ret (Some ip, s)
              else andThen (inode_unlockput w (Some ip) s) (\<lambda>s. Ret (None, s))))
          | None \<Rightarrow>
              andThen (inode_alloc w (i_dev (inodes s dp)) type s) (\<lambda>(ip, s).
              andThen (inode_lock w (Some ip) s) (\<lambda>s.
              andThen (inode_update w ip (ino_put ip (\<lambda>x. x\<lparr>i_major := major, i_minor := minor, i_nlink := 1\<rparr>) s)) (\<lambda>s.
              andThen
                (if type = T_DIR then
                   andThen (inode_update w dp (ino_put dp (\<lambda>x. x\<lparr>i_nlink := i_nlink x + 1\<rparr>) s)) (\<lambda>s.
                   andThen (dir_link ip (w_local w ''dot'') (i_inum (inodes s ip)) s) (\<lambda>(r, s).
                   if r < 0 then Panic ''create dots''
                   else
                     andThen (dir_link ip (w_local w ''dotdot'') (i_inum (inodes s dp)) s) (\<lambda>(r, s).
                     if r < 0 then Panic ''create dots'' else Ret s)))
                 else Ret s) (\<lambda>s.
              andThen (dir_link dp name (i_inum (inodes s ip)) s) (\<lambda>(r, s).
              if r < 0 then Panic ''create: dir_link''
              else andThen (inode_unlockput w (Some dp) s) (\<lambda>s. Ret (Some ip, s)))))))))))"

text \<open>The part of \<^verbatim>\<open>sys_open\<close> after the inode is found and locked.\<close>

definition open_inode :: "u32 \<Rightarrow> u32 \<Rightarrow> ('a, 'b) handler" where
  "open_inode ip omode w tf s =
     andThen (file_alloc s) (\<lambda>(p, s).
     let (fd, s) = (case p of None \<Rightarrow> (-1, s) | Some f \<Rightarrow> fdalloc f s) in
     case p of
       Some f \<Rightarrow>
         if \<not> fd <s 0 then
           andThen (inode_unlock w (Some ip) s) (\<lambda>s.
           Ret (syscall_set_errno E_SUCC (syscall_set_retval1 fd tf),
             file_put f (\<lambda>x. x\<lparr>f_type := FD_INODE, f_ip := Some ip, f_off := 0,
               f_readable := omode AND O_WRONLY = 0,
               f_writable := omode AND O_WRONLY \<noteq> 0 \<or> omode AND O_RDWR \<noteq> 0\<rparr>) s))
         else
           andThen (file_close w f s) (\<lambda>s.
           andThen (inode_unlockput w (Some ip) s) (\<lambda>s.
           Ret (syscall_set_errno E_DISK_OP (syscall_set_retval1 (-1) tf), s)))
     | None \<Rightarrow>
         andThen (inode_unlockput w (Some ip) s) (\<lambda>s.
         Ret (syscall_set_errno E_DISK_OP (syscall_set_retval1 (-1) tf), s)))"

definition sys_open :: "('a, 'b) handler" where
  "sys_open w tf s =
     (let path = w_local w ''path''; omode = syscall_get_arg3 tf in
      andThen (copy_path (syscall_get_arg2 tf) path s) (\<lambda>s.
      if omode AND O_CREATE \<noteq> 0 then
        andThen (begin_trans w s) (\<lambda>s.
        andThen (create w path T_FILE 0 0 s) (\<lambda>(p, s).
        andThen (commit_trans w s) (\<lambda>s.
        case p of
          None \<Rightarrow> Ret (syscall_set_errno E_CREATE (syscall_set_retval1 (-1) tf), s)
        | Some ip \<Rightarrow> open_inode ip omode w tf s)))
      else
        andThen (namei w path s) (\<lambda>(p, s).
        case p of
          None \<Rightarrow> Ret (syscall_set_errno E_NEXIST (syscall_set_retval1 (-1) tf), s)
        | Some ip \<Rightarrow>
            andThen (inode_lock w (Some ip) s) (\<lambda>s.
            if i_type (inodes s ip) = T_DIR \<and> omode \<noteq> O_RDONLY then
              andThen (inode_unlockput w (Some ip) s) (\<lambda>s.
              Ret (syscall_set_errno E_DISK_OP (syscall_set_retval1 (-1) tf), s))
            else open_inode ip omode w tf s))))"

definition sys_mkdir :: "('a, 'b) handler" where
  "sys_mkdir w tf s =
     (let path = w_local w ''path'' in
      andThen (copy_path (syscall_get_arg2 tf) path s) (\<lambda>s.
      andThen (begin_trans w s) (\<lambda>s.
      andThen (create w path T_DIR 0 0 s) (\<lambda>(p, s).
      case p of
        None \<Rightarrow> andThen (commit_trans w s) (\<lambda>s. Ret (syscall_set_errno E_DISK_OP tf, s))
      | Some ip \<Rightarrow>
          andThen (inode_unlockput w (Some ip) s) (\<lambda>s.
          andThen (commit_trans w s) (\<lambda>s.
          Ret (syscall_set_errno E_SUCC tf, s)))))))"

definition sys_chdir :: "('a, 'b) handler" where
  "sys_chdir w tf s =
     (let path = w_local w ''path'' in
      andThen (get_curid s) (\<lambda>pid.
      andThen (copy_path (syscall_get_arg2 tf) path s) (\<lambda>s.
      andThen (namei w path s) (\<lambda>(p, s).
      case p of
        None \<Rightarrow> Ret (syscall_set_errno E_DISK_OP tf, s)
      | Some ip \<Rightarrow>
          andThen (inode_lock w (Some ip) s) (\<lambda>s.
          if i_type (inodes s ip) \<noteq> T_DIR then
            andThen (inode_unlockput w (Some ip) s) (\<lambda>s.
            Ret (syscall_set_errno E_DISK_OP tf, s))
          else
            andThen (inode_unlock w (Some ip) s) (\<lambda>s.
            andThen (tcb_get_cwd pid s) (\<lambda>cwd.
            andThen (deref cwd (\<lambda>d. inode_put w d s)) (\<lambda>s.
            andThen (tcb_set_cwd pid (Some ip) s) (\<lambda>s.
            Ret (syscall_set_errno E_SUCC tf, s))))))))))"

end
