(* ===== verification/Proc.thy ===== *)
theory Proc
  imports Multiproc Sysfile
begin

unbundle bit_operations_syntax

text \<open>
  Processes: segments and task states (\<^verbatim>\<open>kern/lib/seg.c\<close>), the per-CPU initialisation
  (\<^verbatim>\<open>kern/pcpu/PCPUInit\<close>), the ELF loader (\<^verbatim>\<open>kern/lib/elf.c\<close>), user contexts and process creation
  (\<^verbatim>\<open>kern/proc\<close>).
\<close>

section \<open>State\<close>

record mproc = mfile +
  uctx_pool :: "u32 \<Rightarrow> tf_t"
  proc_started :: bool
  last_active :: "u32 \<Rightarrow> u32"
  pcpu_init_done :: bool

section \<open>Segments (seg.c)\<close>

abbreviation (input) CPU_GDT_KCODE :: u16 where "CPU_GDT_KCODE \<equiv> 0x08"
abbreviation (input) CPU_GDT_KDATA :: u16 where "CPU_GDT_KDATA \<equiv> 0x10"
abbreviation (input) CPU_GDT_UCODE :: u16 where "CPU_GDT_UCODE \<equiv> 0x18"
abbreviation (input) CPU_GDT_UDATA :: u16 where "CPU_GDT_UDATA \<equiv> 0x20"

text \<open>
  A kernel stack structure fills one page: the descriptors take 48 bytes, the task state follows, and
  \<^verbatim>\<open>kstack_hi\<close> is the end of the page. \<^verbatim>\<open>sizeof(tss_t)\<close> is 236 and \<^verbatim>\<open>ts_iopm\<close> is at offset 104.
\<close>

definition kstack_addr :: "('s, 'b) world_scheme \<Rightarrow> kstack_ref \<Rightarrow> u32" where
  "kstack_addr w ks =
     (case ks of Bsp i \<Rightarrow> w_local w ''bsp_kstack'' + KSTACK_SIZE * i | Proc i \<Rightarrow> w_local w ''proc_kstack'' + KSTACK_SIZE * i)"

definition kstack_put :: "kstack_ref \<Rightarrow> (kstack \<Rightarrow> kstack) \<Rightarrow> 'a machine_scheme \<Rightarrow> 'a machine_scheme outcome" where
  "kstack_put ks f s =
     (case ks of
        Bsp i \<Rightarrow> bounded NUM_CPUS i (Ret (s\<lparr>bsp_kstack := (bsp_kstack s)(i := f (bsp_kstack s i))\<rparr>))
      | Proc i \<Rightarrow> bounded NUM_IDS i (Ret (s\<lparr>proc_kstack := (proc_kstack s)(i := f (proc_kstack s i))\<rparr>)))"

definition tss_desc :: "u32 \<Rightarrow> segdesc" where
  "tss_desc base = (SEGDESC16 9 (base + 48) 235 0)\<lparr>sd_s := 0\<rparr>"

text \<open>The stack pointer and segment for traps are those of the kernel stack of \<open>pid\<close>.\<close>

definition kstack_switch :: "('s, 'b) world_scheme \<Rightarrow> u32 \<Rightarrow> 'a machine_scheme \<Rightarrow> 'a machine_scheme outcome" where
  "kstack_switch w pid s =
     andThen (get_pcpu_idx s) (\<lambda>cpu_idx.
     andThen (get_pcpu_kstack_pointer cpu_idx s) (\<lambda>p.
     deref p (\<lambda>ks.
     kstack_put ks (\<lambda>k.
       k\<lparr>tss := (tss k)\<lparr>ts_esp0 := kstack_addr w (Proc pid) + KSTACK_SIZE, ts_ss0 := CPU_GDT_KDATA\<rparr>,
         gdt := (gdt k)(5 := tss_desc (kstack_addr w (Proc pid)))\<rparr>) s)))"

text \<open>The descriptors and the task state that both initialisations set up.\<close>

definition seg_fill :: "u32 \<Rightarrow> kstack \<Rightarrow> kstack" where
  "seg_fill base k =
     k\<lparr>gdt := (gdt k)(0 := SEGDESC_NULL, 1 := SEGDESC32 (8 OR 2) 0 0xffffffff 0, 2 := SEGDESC32 2 0 0xffffffff 0,
         3 := SEGDESC32 (8 OR 2) 0 0xffffffff 3, 4 := SEGDESC32 2 0 0xffffffff 3, 5 := tss_desc base),
       tss := (tss k)\<lparr>ts_esp0 := base + KSTACK_SIZE, ts_ss0 := CPU_GDT_KDATA\<rparr>,
       magic := KSTACK_MAGIC\<rparr>"

definition kstack_zero :: kstack where
  "kstack_zero =
     \<lparr>gdt = (\<lambda>_. SEGDESC_NULL), tss = \<lparr>ts_esp0 = 0, ts_ss0 = 0, ts_iomb = 0, ts_iopm = (\<lambda>_. 0)\<rparr>,
      kst_cpu_idx = 0, magic = 0\<rparr>"

text \<open>
  On the boot processor the static data is cleared first; the parts of it that the model has as fields
  of the state are zero in the initial state, the rest is memory. At the end the other kernel stacks are
  cleared. The segment registers, the descriptor table registers and the task register are not part of
  the state.
\<close>

definition seg_init :: "('s, 'b) world_scheme \<Rightarrow> u32 \<Rightarrow> 'a machine_scheme \<Rightarrow> 'a machine_scheme outcome" where
  "seg_init w cpu_idx s =
     (let bsp = kstack_addr w (Bsp 0); edata = w_local w ''edata''; end' = w_local w ''end'';
          s = (if cpu_idx = 0
               then s\<lparr>mem := memzero (bsp + 4096) (end' - bsp - 4096) (memzero edata (bsp - edata) (mem s))\<rparr>
               else s)
      in
      andThen (kstack_put (Bsp cpu_idx) (seg_fill (kstack_addr w (Bsp cpu_idx))) s) (\<lambda>s.
      Ret (if cpu_idx = 0
           then s\<lparr>bsp_kstack := (\<lambda>i. if 1 \<le> i \<and> i < NUM_CPUS then kstack_zero else bsp_kstack s i),
                  proc_kstack := (\<lambda>i. if i < NUM_IDS then kstack_zero else proc_kstack s i)\<rparr>
           else s)))"

definition seg_init_proc :: "('s, 'b) world_scheme \<Rightarrow> u32 \<Rightarrow> u32 \<Rightarrow> 'a machine_scheme \<Rightarrow> 'a machine_scheme outcome" where
  "seg_init_proc w cpu_idx pid s =
     kstack_put (Proc pid) (\<lambda>k.
       let k = seg_fill (kstack_addr w (Proc pid)) k in
       k\<lparr>tss := (tss k)\<lparr>ts_iomb := 104, ts_iopm := (\<lambda>i. if i < 128 then 0 else if i = 128 then 0xff else ts_iopm (tss k) i)\<rparr>,
         kst_cpu_idx := cpu_idx\<rparr>) s"

section \<open>Per-CPU initialisation (PCPUInit)\<close>

definition pcpu_init :: "('s, 'b) world_scheme \<Rightarrow> 'a mproc_scheme \<Rightarrow> 'a mproc_scheme outcome" where
  "pcpu_init w s =
     andThen (get_kstack s) (\<lambda>ks.
     let cpu_idx = kst_cpu_idx ks in
     if cpu_idx = 0 \<and> pcpu_init_done s then Ret s
     else
       andThen
         (if cpu_idx = 0 then
            andThen (pcpu_mp_init w (pcpu_set_zero s)) (\<lambda>(_, s).
            andThen (forM (range32 0 8) pcpu_fields_init s) (\<lambda>s.
            Ret (s\<lparr>pcpu_init_done := True\<rparr>)))
          else Ret s) (\<lambda>s.
       andThen (set_pcpu_idx cpu_idx cpu_idx s) (\<lambda>s.
       andThen (set_pcpu_kstack_pointer cpu_idx (Some (cur_kstack s)) s) (\<lambda>s.
       andThen (set_pcpu_boot_info cpu_idx True s) (\<lambda>s.
       pcpu_init_cpu w s)))))"

section \<open>ELF files (elf.c)\<close>

record elfhdr =
  e_magic :: u32
  e_entry :: u32
  e_phoff :: u32
  e_shoff :: u32
  e_phnum :: u16
  e_shnum :: u16
  e_shstrndx :: u16

definition read_elfhdr :: "memory \<Rightarrow> u32 \<Rightarrow> elfhdr" where
  "read_elfhdr m exe =
     \<lparr>e_magic = load32 m exe, e_entry = load32 m (exe + 24), e_phoff = load32 m (exe + 28), e_shoff = load32 m (exe + 32),
      e_phnum = load16 m (exe + 44), e_shnum = load16 m (exe + 48), e_shstrndx = load16 m (exe + 50)\<rparr>"

record proghdr =
  p_type :: u32
  p_offset :: u32
  p_va :: u32
  p_filesz :: u32
  p_memsz :: u32
  p_flags :: u32

definition read_proghdr :: "memory \<Rightarrow> u32 \<Rightarrow> proghdr" where
  "read_proghdr m ph =
     \<lparr>p_type = load32 m ph, p_offset = load32 m (ph + 4), p_va = load32 m (ph + 8), p_filesz = load32 m (ph + 16),
      p_memsz = load32 m (ph + 20), p_flags = load32 m (ph + 24)\<rparr>"

abbreviation (input) ELF_MAGIC :: u32 where "ELF_MAGIC \<equiv> 0x464C457F"

text \<open>One page of a segment: it is mapped, and filled from the file or with zeros.\<close>

definition elf_page :: "u32 \<Rightarrow> proghdr \<Rightarrow> u32 \<Rightarrow> u32 \<Rightarrow> u32 \<Rightarrow> u32 \<Rightarrow> 'a mpt_scheme \<Rightarrow> 'a mpt_scheme outcome" where
  "elf_page pid ph zva perm va fa s =
     andThen (alloc_page pid va perm s) (\<lambda>(_, s).
     if va < rounddown zva PAGESIZE then
       andThen (pt_copyout fa pid va PAGESIZE s) (\<lambda>(_, s). Ret s)
     else
       andThen (pt_memset pid va 0 PAGESIZE s) (\<lambda>(_, s).
       if va < zva \<and> p_filesz ph \<noteq> 0 then andThen (pt_copyout fa pid va (zva - va) s) (\<lambda>(_, s). Ret s)
       else Ret s))"

definition elf_segment :: "u32 \<Rightarrow> u32 \<Rightarrow> proghdr \<Rightarrow> 'a mpt_scheme \<Rightarrow> 'a mpt_scheme outcome" where
  "elf_segment exe pid ph s =
     (let fa = exe + rounddown (p_offset ph) PAGESIZE;
          va = rounddown (p_va ph) PAGESIZE;
          zva = p_va ph + p_filesz ph;
          eva = roundup (p_va ph + p_memsz ph) PAGESIZE;
          perm = (PTE_U OR PTE_P OR (if p_flags ph AND 2 \<noteq> 0 then PTE_W else 0))
      in
      andThen (whileM (\<lambda>(va, fa, s). va < eva)
        (\<lambda>(va, fa, s). andThen (elf_page pid ph zva perm va fa s) (\<lambda>s. Ret (va + PAGESIZE, fa + PAGESIZE, s))) (va, fa, s)) (\<lambda>(_, _, s).
      Ret s))"

definition elf_load :: "u32 \<Rightarrow> u32 \<Rightarrow> 'a mpt_scheme \<Rightarrow> 'a mpt_scheme outcome" where
  "elf_load exe pid s =
     (let eh = read_elfhdr (mem s) exe in
      kern_assert (e_magic eh = ELF_MAGIC) (
      kern_assert (e_shstrndx eh \<noteq> 0) (
      let sh = exe + e_shoff eh in
      kern_assert (load32 (mem s) (sh + 40 * ucast (e_shstrndx eh) + 4) = 3) (
      let ph = exe + e_phoff eh; eph = ph + 32 * ucast (e_phnum eh) in
      andThen (whileM (\<lambda>(ph, s). ph < eph)
        (\<lambda>(ph, s).
           let h = read_proghdr (mem s) ph in
           if p_type h \<noteq> 1 then Ret (ph + 32, s)
           else andThen (elf_segment exe pid h s) (\<lambda>s. Ret (ph + 32, s))) (ph, s)) (\<lambda>(_, s).
      Ret s)))))"

definition elf_entry :: "u32 \<Rightarrow> 'a machine_scheme \<Rightarrow> u32 outcome" where
  "elf_entry exe s =
     (let eh = read_elfhdr (mem s) exe in kern_assert (e_magic eh = ELF_MAGIC) (Ret (e_entry eh)))"

section \<open>Processes (proc)\<close>

abbreviation (input) FL_IF :: u32 where "FL_IF \<equiv> 0x200"

text \<open>
  The first thing a new thread runs. It ends in \<^verbatim>\<open>trap_return\<close>, which restores the frame that the model
  returns, and so enters user mode.
\<close>

definition proc_start_user ::
    "('a mproc_scheme, 'b) world_scheme \<Rightarrow> 'a mproc_scheme \<Rightarrow> (tf_t \<times> 'a mproc_scheme) outcome" where
  "proc_start_user w s =
     andThen (get_curid s) (\<lambda>cur_pid.
     andThen (get_pcpu_idx s) (\<lambda>cpu_idx.
     andThen (if cur_pid \<noteq> 1 \<and> \<not> proc_started s then log_init w (s\<lparr>proc_started := True\<rparr>) else Ret s) (\<lambda>s.
     andThen (kstack_switch w cur_pid s) (\<lambda>s.
     andThen (set_pdir_base cur_pid s) (\<lambda>s.
     bounded NUM_CPUS cpu_idx (
     bounded NUM_IDS cur_pid (
     Ret (uctx_pool s cur_pid, s\<lparr>last_active := (last_active s)(cpu_idx := cur_pid)\<rparr>))))))))"

definition proc_create ::
    "('s, 'b) world_scheme \<Rightarrow> u32 \<Rightarrow> u32 \<Rightarrow> 'a mproc_scheme \<Rightarrow> (u32 \<times> 'a mproc_scheme) outcome" where
  "proc_create w elf_addr quota s =
     andThen (get_curid s) (\<lambda>id'.
     andThen (thread_spawn (w_local w ''proc_start_user'') id' quota s) (\<lambda>(pid, s).
     if pid \<noteq> NUM_IDS then
       andThen (elf_load elf_addr pid s) (\<lambda>s.
       andThen (elf_entry elf_addr s) (\<lambda>entry.
       bounded NUM_IDS pid (
       let s = s\<lparr>uctx_pool := (uctx_pool s)(pid := (uctx_pool s pid)
             \<lparr>tf_es := CPU_GDT_UDATA OR 3, tf_ds := CPU_GDT_UDATA OR 3, tf_cs := CPU_GDT_UCODE OR 3,
              tf_ss := CPU_GDT_UDATA OR 3, tf_esp := VM_USERHI, tf_eflags := FL_IF, tf_eip := entry\<rparr>)\<rparr> in
       andThen (get_pcpu_idx s) (\<lambda>cpu_idx.
       andThen (seg_init_proc w cpu_idx pid s) (\<lambda>s.
       Ret (pid, s))))))
     else Ret (pid, s)))"

end
