(* ===== verification/Trap.thy ===== *)
theory Trap
  imports Proc
begin

unbundle bit_operations_syntax

text \<open>
  System calls and traps: \<^verbatim>\<open>kern/trap/TSyscall\<close>, \<^verbatim>\<open>TDispatch\<close>, \<^verbatim>\<open>TTrapHandler\<close> and \<^verbatim>\<open>TTrapInit\<close>. A handler
  takes the trap frame of the interrupted code and returns the frame that \<^verbatim>\<open>trap_return\<close> will restore.
\<close>

section \<open>State\<close>

text \<open>The handlers that the kernel registers; a null pointer is \<open>None\<close>.\<close>

datatype trap_cb = CB_exception_handler | CB_interrupt_handler | CB_syscall_dispatch

record mtrap = mproc +
  TRAP_HANDLER :: "u32 \<Rightarrow> u32 \<Rightarrow> trap_cb option"
  trap_inited :: bool

text \<open>
  Where the running thread may have been switched away, it goes on after the others have run.
\<close>

definition resumed :: "('a mthr_scheme, 'b) world_scheme \<Rightarrow> u32 \<Rightarrow> 'a mthr_scheme \<Rightarrow> 'a mthr_scheme outcome" where
  "resumed w pid s = andThen (get_curid s) (\<lambda>c. if c \<noteq> pid then w_others w s else Ret s)"

section \<open>System calls (TSyscall)\<close>

text \<open>The C string at an address, of at most \<open>n\<close> characters.\<close>

primrec mem_string :: "nat \<Rightarrow> memory \<Rightarrow> u32 \<Rightarrow> string" where
  "mem_string 0 m a = []"
| "mem_string (Suc n) m a = (if m a = 0 then [] else char_of (unat (m a)) # mem_string n m (a + 1))"

definition puts_chunk :: "u32 \<Rightarrow> u32" where
  "puts_chunk remain = (if remain < PAGESIZE - 1 then remain else PAGESIZE - 1)"

text \<open>One round of the loop of \<^verbatim>\<open>sys_puts\<close>; the flag is the early return with \<^verbatim>\<open>E_MEM\<close>.\<close>

definition puts_step ::
    "('s, 'b) world_scheme \<Rightarrow> u32 \<Rightarrow> u32 \<times> u32 \<times> bool \<times> 'a mtrap_scheme \<Rightarrow> (u32 \<times> u32 \<times> bool \<times> 'a mtrap_scheme) outcome" where
  "puts_step w pid = (\<lambda>(remain, pos, bad, s).
     let nbytes = puts_chunk remain; buf = w_local w ''sys_buf'' + PAGESIZE * pid in
     andThen (pt_copyin pid pos buf nbytes s) (\<lambda>(n, s).
     if n \<noteq> nbytes then Ret (remain, pos, True, s)
     else
       let s = s\<lparr>mem := (mem s)(buf + nbytes := 0)\<rparr> in
       andThen (debug_info w ''%s'' [VStr (Some (mem_string (unat nbytes) (mem s) buf))] s) (\<lambda>s.
       Ret (remain - nbytes, pos + nbytes, False, s))))"

definition sys_puts ::
    "('s, 'b) world_scheme \<Rightarrow> tf_t \<Rightarrow> 'a mtrap_scheme \<Rightarrow> (tf_t \<times> 'a mtrap_scheme) outcome" where
  "sys_puts w tf s =
     andThen (get_curid s) (\<lambda>cur_pid.
     let str_uva = syscall_get_arg2 tf; str_len = syscall_get_arg3 tf in
     if \<not> (VM_USERLO \<le> str_uva \<and> str_uva + str_len \<le> VM_USERHI) then Ret (syscall_set_errno E_INVAL_ADDR tf, s)
     else
       andThen (whileM (\<lambda>(remain, pos, bad, s). \<not> bad \<and> remain \<noteq> 0) (puts_step w cur_pid) (str_len, str_uva, False, s)) (\<lambda>(_, _, bad, s).
       Ret (syscall_set_errno (if bad then E_MEM else E_SUCC) tf, s)))"

definition spawn_elf :: "('s, 'b) world_scheme \<Rightarrow> u32 \<Rightarrow> u32 option" where
  "spawn_elf w elf_id =
     (if elf_id = 1 then Some (w_local w ''ping'') else if elf_id = 2 then Some (w_local w ''pong'')
      else if elf_id = 3 then Some (w_local w ''ding'') else if elf_id = 4 then Some (w_local w ''fstest'') else None)"

definition sys_spawn ::
    "('s, 'b) world_scheme \<Rightarrow> tf_t \<Rightarrow> 'a mtrap_scheme \<Rightarrow> (tf_t \<times> 'a mtrap_scheme) outcome" where
  "sys_spawn w tf s =
     andThen (get_curid s) (\<lambda>curid.
     let elf_id = syscall_get_arg2 tf; quota = syscall_get_arg3 tf;
         fail = (\<lambda>e. Ret (syscall_set_retval1 NUM_IDS (syscall_set_errno e tf), s)) in
     andThen (container_can_consume curid quota s) (\<lambda>ok.
     if \<not> ok then fail E_EXCEEDS_QUOTA
     else if NUM_IDS < curid * MAX_CHILDREN + 1 + MAX_CHILDREN then fail E_MAX_NUM_CHILDEN_REACHED
     else
       andThen (container_get_nchildren curid s) (\<lambda>n.
       if n = MAX_CHILDREN then fail E_INVAL_CHILD_ID
       else
         case spawn_elf w elf_id of
           None \<Rightarrow> fail E_INVAL_PID
         | Some elf_addr \<Rightarrow>
             andThen (proc_create w elf_addr quota s) (\<lambda>(new_pid, s).
             Ret (if new_pid = NUM_IDS then syscall_set_retval1 NUM_IDS (syscall_set_errno E_INVAL_PID tf)
                  else syscall_set_retval1 new_pid (syscall_set_errno E_SUCC tf), s)))))"

definition sys_yield ::
    "('a mtrap_scheme, 'b) world_scheme \<Rightarrow> tf_t \<Rightarrow> 'a mtrap_scheme \<Rightarrow> (tf_t \<times> 'a mtrap_scheme) outcome" where
  "sys_yield w tf s =
     andThen (get_curid s) (\<lambda>pid.
     andThen (thread_yield s) (\<lambda>s.
     andThen (resumed w pid s) (\<lambda>s.
     Ret (syscall_set_errno E_SUCC tf, s))))"

section \<open>Dispatch (TDispatch)\<close>

definition syscall_dispatch ::
    "('a mtrap_scheme, 'b) world_scheme \<Rightarrow> tf_t \<Rightarrow> 'a mtrap_scheme \<Rightarrow> (tf_t \<times> 'a mtrap_scheme) outcome" where
  "syscall_dispatch w tf s =
     (let nr = syscall_get_arg1 tf in
      if nr = 0 then sys_puts w tf s
      else if nr = 1 then sys_spawn w tf s
      else if nr = 2 then sys_yield w tf s
      else if nr = 3 then sys_open w tf s
      else if nr = 4 then sys_close w tf s
      else if nr = 5 then sys_read w tf s
      else if nr = 6 then sys_write w tf s
      else if nr = 7 then sys_mkdir w tf s
      else if nr = 8 then sys_chdir w tf s
      else if nr = 9 then sys_link w tf s
      else if nr = 10 then sys_unlink w tf s
      else if nr = 11 then sys_fstat w tf s
      else Ret (syscall_set_errno E_INVAL_CALLNR tf, s))"

section \<open>Handlers (TTrapHandler)\<close>

abbreviation (input) PFE_PR :: u32 where "PFE_PR \<equiv> 1"
abbreviation (input) T_PGFLT :: u32 where "T_PGFLT \<equiv> 14"

text \<open>The registers that \<^verbatim>\<open>trap_dump\<close> prints before the panic are left out.\<close>

definition default_exception_handler :: "tf_t \<Rightarrow> 'a mtrap_scheme \<Rightarrow> (tf_t \<times> 'a mtrap_scheme) outcome" where
  "default_exception_handler tf s = andThen (get_curid s) (\<lambda>_. Panic ''Trap %d @ 0x%08x.'')"

definition pgflt_handler :: "tf_t \<Rightarrow> 'a mtrap_scheme \<Rightarrow> (tf_t \<times> 'a mtrap_scheme) outcome" where
  "pgflt_handler tf s =
     andThen (get_curid s) (\<lambda>cur_pid.
     let errno = tf_err tf; fault_va = cr2 s in
     if errno AND PFE_PR \<noteq> 0 then Panic ''Permission denied: va = 0x%08x, errno = 0x%08x.''
     else
       andThen (alloc_page cur_pid fault_va (PTE_W OR PTE_U OR PTE_P) s) (\<lambda>(r, s).
       if r = MagicNumber then Panic ''Page allocation failed: va = 0x%08x, errno = 0x%08x.''
       else Ret (tf, s)))"

definition exception_handler :: "tf_t \<Rightarrow> 'a mtrap_scheme \<Rightarrow> (tf_t \<times> 'a mtrap_scheme) outcome" where
  "exception_handler tf s =
     (if tf_trapno tf = T_PGFLT then pgflt_handler tf s else default_exception_handler tf s)"

definition timer_intr_handler :: "('a mtrap_scheme, 'b) world_scheme \<Rightarrow> 'a mtrap_scheme \<Rightarrow> 'a mtrap_scheme outcome" where
  "timer_intr_handler w s =
     andThen (get_curid s) (\<lambda>pid.
     andThen (sched_update (intr_eoi w s)) (\<lambda>s.
     resumed w pid s))"

definition default_intr_handler :: "('s, 'b) world_scheme \<Rightarrow> 'a mtrap_scheme \<Rightarrow> 'a mtrap_scheme" where
  "default_intr_handler w s = intr_eoi w s"

definition spurious_intr_handler :: "'a mtrap_scheme \<Rightarrow> 'a mtrap_scheme" where
  "spurious_intr_handler s = s"

definition interrupt_handler ::
    "('a mtrap_scheme, 'b) world_scheme \<Rightarrow> tf_t \<Rightarrow> 'a mtrap_scheme \<Rightarrow> (tf_t \<times> 'a mtrap_scheme) outcome" where
  "interrupt_handler w tf s =
     (let trapno = tf_trapno tf in
      andThen
        (if trapno = T_IRQ0 + IRQ_SPURIOUS then Ret (spurious_intr_handler s)
         else if trapno = T_IRQ0 + IRQ_TIMER then timer_intr_handler w s
         else if trapno = T_IRQ0 + IRQ_IDE1 then andThen (ide_intr w s) (\<lambda>s. Ret (intr_eoi w s))
         else if trapno = T_IRQ0 + IRQ_IDE2 then Ret s
         else Ret (default_intr_handler w s)) (\<lambda>s.
      Ret (tf, s)))"

definition call_handler ::
    "trap_cb \<Rightarrow> ('a mtrap_scheme, 'b) world_scheme \<Rightarrow> tf_t \<Rightarrow> 'a mtrap_scheme \<Rightarrow> (tf_t \<times> 'a mtrap_scheme) outcome" where
  "call_handler cb w tf s =
     (case cb of
        CB_exception_handler \<Rightarrow> exception_handler tf s
      | CB_interrupt_handler \<Rightarrow> interrupt_handler w tf s
      | CB_syscall_dispatch \<Rightarrow> syscall_dispatch w tf s)"

text \<open>
  \<^verbatim>\<open>trap\<close>: a trap from user mode runs its handler in the kernel's address space and returns in that of the
  process. A trap with no handler prints a warning.
\<close>

definition set_last_active :: "u32 \<Rightarrow> u32 \<Rightarrow> 'a mproc_scheme \<Rightarrow> 'a mproc_scheme" where
  "set_last_active cpu pid s = s\<lparr>last_active := (last_active s)(cpu := pid)\<rparr>"

definition trap ::
    "('a mtrap_scheme, 'b) world_scheme \<Rightarrow> tf_t \<Rightarrow> 'a mtrap_scheme \<Rightarrow> (tf_t \<times> 'a mtrap_scheme) outcome" where
  "trap w tf s =
     andThen (get_curid s) (\<lambda>cur_pid.
     andThen (get_pcpu_idx s) (\<lambda>cpu_idx. bounded NUM_CPUS cpu_idx (
     let last_pid = last_active s cpu_idx in
     andThen (if last_pid \<noteq> 0 then andThen (set_pdir_base 0 s) (\<lambda>s. Ret (set_last_active cpu_idx 0 s)) else Ret s) (\<lambda>s.
     andThen (get_pcpu_idx s) (\<lambda>idx. bounded NUM_CPUS idx (bounded 256 (tf_trapno tf) (
     andThen
       (case TRAP_HANDLER s idx (tf_trapno tf) of
          Some cb \<Rightarrow> call_handler cb w tf s
        | None \<Rightarrow>
            andThen (debug_warn w ''kern/trap/TTrapHandler/TTrapHandler.c'' 157
              (''No handler for user trap 0x%x, process %d, eip 0x%08x.'' @ [CHR 0x0A])
              [VInt (tf_trapno tf), VInt cur_pid, VInt (tf_eip tf)] s) (\<lambda>s. Ret (tf, s))) (\<lambda>(tf, s).
     andThen
       (if last_pid \<noteq> 0 then
          andThen (kstack_switch w cur_pid s) (\<lambda>s.
          andThen (set_pdir_base cur_pid s) (\<lambda>s.
          Ret (set_last_active cpu_idx last_pid s)))
        else Ret s) (\<lambda>s.
     Ret (tf, s))))))))))"

section \<open>Registration (TTrapInit)\<close>

definition trap_init_array :: "'a mtrap_scheme \<Rightarrow> 'a mtrap_scheme outcome" where
  "trap_init_array s =
     kern_assert (\<not> trap_inited s) (
     Ret (s\<lparr>TRAP_HANDLER := (\<lambda>cpu no. if cpu < 8 \<and> no < 256 then None else TRAP_HANDLER s cpu no), trap_inited := True\<rparr>))"

definition trap_handler_register :: "u32 \<Rightarrow> u32 \<Rightarrow> trap_cb option \<Rightarrow> 'a mtrap_scheme \<Rightarrow> 'a mtrap_scheme outcome" where
  "trap_handler_register cpu_idx trapno cb s =
     kern_assert (0 \<le>s cpu_idx \<and> cpu_idx <s 8) (
     kern_assert (0 \<le>s trapno \<and> trapno <s 256) (
     kern_assert (cb \<noteq> None) (
     Ret (s\<lparr>TRAP_HANDLER := (TRAP_HANDLER s)(cpu_idx := (TRAP_HANDLER s cpu_idx)(trapno := cb))\<rparr>))))"

text \<open>
  Which handler \<^verbatim>\<open>trap_init\<close> registers for a trap number: exceptions 0 to 19 and 30, interrupts 32 to 40,
  44 to 47, 51, 55 and 49 to 51, and the system call 48.
\<close>

definition trap_handler_for :: "u32 \<Rightarrow> trap_cb option" where
  "trap_handler_for trapno =
     (if trapno \<le> 19 \<or> trapno = 30 then Some CB_exception_handler
      else if T_IRQ0 + 0 \<le> trapno \<and> trapno \<le> T_IRQ0 + 8 \<or> T_IRQ0 + 12 \<le> trapno \<and> trapno \<le> T_IRQ0 + 15 \<or>
        trapno = T_IRQ0 + 19 \<or> trapno = T_IRQ0 + 23 \<or> 49 \<le> trapno \<and> trapno \<le> 51 then Some CB_interrupt_handler
      else if trapno = T_SYSCALL then Some CB_syscall_dispatch
      else None)"

definition trap_init :: "('s, 'b) world_scheme \<Rightarrow> u32 \<Rightarrow> 'a mtrap_scheme \<Rightarrow> 'a mtrap_scheme outcome" where
  "trap_init w cpu_idx s =
     andThen (if cpu_idx = 0 then trap_init_array s else Ret s) (\<lambda>s.
     andThen (forM (range32 0 256) (\<lambda>trapno s.
       case trap_handler_for trapno of
         None \<Rightarrow> Ret s
       | Some cb \<Rightarrow> trap_handler_register cpu_idx trapno (Some cb) s) s) (\<lambda>s.
     andThen (intr_enable w IRQ_TIMER cpu_idx s) (\<lambda>s.
     andThen (intr_enable w IRQ_KBD cpu_idx s) (\<lambda>s.
     andThen (intr_enable w IRQ_SERIAL13 cpu_idx s) (\<lambda>s.
     intr_enable w IRQ_IDE1 cpu_idx s)))))"

end
