(* ===== verification/Boot.thy ===== *)
theory Boot
  imports Trap
begin

unbundle bit_operations_syntax

text \<open>
  The start of the kernel: initialisation of the devices (\<^verbatim>\<open>kern/dev/devinit.c\<close>), \<^verbatim>\<open>enable_sse\<close> of
  \<^verbatim>\<open>kern/lib/x86.c\<close>, and \<^verbatim>\<open>kern/init/init.c\<close>, which creates the first process and switches to it.
  Messages are left out.
\<close>

definition enable_sse :: "'a machine_scheme \<Rightarrow> 'a machine_scheme" where
  "enable_sse s =
     (let s = s\<lparr>cr4 := cr4 s OR 0x200 OR 0x400 OR 0x40000\<rparr> in
      s\<lparr>cr0 := (cr0 s OR 2) AND NOT (4 OR 8)\<rparr>)"

definition devinit :: "('s, 'b) world_scheme \<Rightarrow> u32 \<Rightarrow> 'a mtrap_scheme \<Rightarrow> 'a mtrap_scheme outcome" where
  "devinit w mbi_addr s =
     andThen (seg_init w 0 s) (\<lambda>s.
     andThen (cons_init w (enable_sse s)) (\<lambda>s.
     andThen (pcpu_init w (debug_init s)) (\<lambda>s.
     andThen (tsc_init w s) (\<lambda>(_, s).
     andThen (intr_init w s) (\<lambda>s.
     andThen (trap_init w 0 s) (\<lambda>s.
     andThen (pmmap_init mbi_addr s) (\<lambda>s.
     andThen (bufcache_init s) (\<lambda>s.
     ide_init w (inode_init (file_init s))))))))))"

definition devinit_ap :: "('s, 'b) world_scheme \<Rightarrow> 'a mtrap_scheme \<Rightarrow> 'a mtrap_scheme outcome" where
  "devinit_ap w s =
     andThen (get_kstack s) (\<lambda>ks.
     let cpu_idx = kst_cpu_idx ks in
     kern_assert (1 \<le> cpu_idx \<and> cpu_idx < 8) (
     andThen (seg_init w cpu_idx s) (\<lambda>s.
     andThen (pcpu_init w s) (\<lambda>s.
     andThen (intr_init w s) (\<lambda>s.
     andThen (trap_init w cpu_idx s) (\<lambda>s.
     paging_init_ap s))))))"

text \<open>The literal \<^verbatim>\<open>"/"\<close> that \<^verbatim>\<open>tcb_init_at_id\<close> passes to \<^verbatim>\<open>namei\<close> is at an address of its own.\<close>

definition namei_literal ::
    "('a mtrap_scheme, 'b) world_scheme \<Rightarrow> string \<Rightarrow> 'a mtrap_scheme \<Rightarrow> (u32 option \<times> 'a mtrap_scheme) outcome" where
  "namei_literal w str s = namei w (w_local w str) s"

text \<open>\<^verbatim>\<open>kern_main\<close> does not come back; the result is the state in which the first process starts to run.\<close>

definition kern_main :: "('s, 'b) world_scheme \<Rightarrow> 'a mtrap_scheme \<Rightarrow> 'a mtrap_scheme outcome" where
  "kern_main w s =
     andThen (get_pcpu_idx s) (\<lambda>_.
     andThen (proc_create w (w_local w ''idle'') 10000 s) (\<lambda>(pid, s).
     andThen (tqueue_remove NUM_IDS pid s) (\<lambda>s.
     andThen (tcb_set_state pid TSTATE_RUN s) (\<lambda>s.
     andThen (set_curid pid s) (\<lambda>s.
     kctx_switch 0 pid s)))))"

definition kern_init :: "('a mtrap_scheme, 'b) world_scheme \<Rightarrow> u32 \<Rightarrow> 'a mtrap_scheme \<Rightarrow> 'a mtrap_scheme outcome" where
  "kern_init w mbi_addr s =
     andThen (thread_init (namei_literal w) (devinit w) mbi_addr s) (\<lambda>s.
     kern_main w s)"

end
