(* ===== verification/Partial.thy ===== *)
theory Partial
  imports Prelude
begin

text \<open>
  Partial correctness of kernel code, for what holds of every run that comes back: the frame conditions
  of an operation and the safety of the paths that may also panic.
\<close>

definition ends :: "'a outcome \<Rightarrow> ('a \<Rightarrow> bool) \<Rightarrow> bool" where
  "ends r P \<longleftrightarrow> (\<forall>x. r = Ret x \<longrightarrow> P x)"

named_theorems pc

lemma ends_simps [simp]:
  "ends (Ret x) P = P x" "ends (Panic m) P" "ends Undef P" "ends Diverge P"
  by (simp_all add: ends_def)

lemma ends_andThen [pc]: "ends (andThen r f) P = ends r (\<lambda>x. ends (f x) P)"
  by (cases r) simp_all

lemma ends_if [pc]: "ends (if b then r else q) P = ((b \<longrightarrow> ends r P) \<and> (\<not> b \<longrightarrow> ends q P))"
  by simp

lemma ends_bounded [pc]: "ends (bounded n i r) P = (i < n \<longrightarrow> ends r P)"
  by (simp add: bounded_def)

lemma ends_kern_assert [pc]: "ends (kern_assert b r) P = (b \<longrightarrow> ends r P)"
  by (simp add: kern_assert_def)

lemma ends_case_option [pc]:
  "ends (case x of None \<Rightarrow> r | Some y \<Rightarrow> f y) P = ((x = None \<longrightarrow> ends r P) \<and> (\<forall>y. x = Some y \<longrightarrow> ends (f y) P))"
  by (cases x) simp_all

lemma ends_case_prod [pc]: "ends (case x of (a, b) \<Rightarrow> f a b) P = (\<forall>a b. x = (a, b) \<longrightarrow> ends (f a b) P)"
  by (cases x) simp

lemma ends_True: "ends r (\<lambda>_. True)"
  by (simp add: ends_def)

lemma endsI: "(\<And>x. r = Ret x \<Longrightarrow> P x) \<Longrightarrow> ends r P"
  by (simp add: ends_def)

lemma endsD: "ends r P \<Longrightarrow> r = Ret x \<Longrightarrow> P x"
  by (simp add: ends_def)

lemma ends_mono: "ends r P \<Longrightarrow> (\<And>x. P x \<Longrightarrow> Q x) \<Longrightarrow> ends r Q"
  by (simp add: ends_def)

lemma ends_conj: "ends r (\<lambda>x. P x \<and> Q x) = (ends r P \<and> ends r Q)"
  by (auto simp: ends_def)

lemma returns_ends: "returns r P \<Longrightarrow> ends r Q \<Longrightarrow> returns r (\<lambda>x. P x \<and> Q x)"
  by (cases r) simp_all

lemma ends_seq: "ends r Q \<Longrightarrow> (\<And>x. Q x \<Longrightarrow> ends (f x) P) \<Longrightarrow> ends (andThen r f) P"
  by (cases r) simp_all

lemma ends_forM:
  assumes "I s" and "\<And>i s. i \<in> set xs \<Longrightarrow> I s \<Longrightarrow> ends (f i s) I"
  shows "ends (forM xs f s) I"
  using assms by (induction xs arbitrary: s) (auto intro: ends_seq)

text \<open>A loop, as far as it comes back.\<close>

lemma ends_whileM:
  assumes "I s" and body: "\<And>s. I s \<Longrightarrow> b s \<Longrightarrow> ends (c s) I" and exit: "\<And>s. I s \<Longrightarrow> \<not> b s \<Longrightarrow> P s"
  shows "ends (whileM b c s) P"
proof -
  let ?B = "\<lambda>r. case r of Ret t \<Rightarrow> b t | _ \<Rightarrow> False"
  let ?C = "\<lambda>r. andThen r c"
  show ?thesis
  proof (cases "while_option ?B ?C (Ret s)")
    case None
    then show ?thesis by (simp add: whileM_def)
  next
    case (Some r)
    have "ends r I"
      by (rule while_option_rule [where P = "\<lambda>r. ends r I", OF _ Some])
        (auto simp: pc assms(1) split: outcome.splits intro: body)
    moreover from while_option_stop [OF Some] have "\<not> ?B r" .
    ultimately show ?thesis using Some exit by (cases r) (simp_all add: whileM_def)
  qed
qed

end
