(* ===== verification/Console_Spec.thy ===== *)
theory Console_Spec
  imports Console Scheduler
begin

unbundle bit_operations_syntax

text \<open>
  What the console promises: the display is a terminal of 25 lines of 80 cells, the input buffer is a
  queue, and a printed number can be read back.
\<close>

lemma cons_frame [simp]:
  "this_cpu (s\<lparr>io := a\<rparr>) = this_cpu s" "on_cpu (s\<lparr>io := a\<rparr>) = on_cpu s"
  "this_cpu (s\<lparr>cons := b\<rparr>) = this_cpu s" "on_cpu (s\<lparr>cons := b\<rparr>) = on_cpu s"
  "this_cpu (s\<lparr>cons_lk := c\<rparr>) = this_cpu s" "on_cpu (s\<lparr>cons_lk := c\<rparr>) = on_cpu s"
  "this_cpu (s\<lparr>terminal := d\<rparr>) = this_cpu s" "on_cpu (s\<lparr>terminal := d\<rparr>) = on_cpu s"
  by (simp_all add: on_cpu_def this_cpu_def this_kstack_def cong: kstack_ref.case_cong)

section \<open>The display as a terminal\<close>

text \<open>A terminal is the list of its 2000 cells, line by line, and the position of the cursor.\<close>

type_synonym tty = "u16 list \<times> nat"

definition tty_scroll :: "tty \<Rightarrow> tty" where
  "tty_scroll = (\<lambda>(xs, p). if 2000 \<le> p then (drop 80 xs @ replicate 80 0x0720, p - 80) else (xs, p))"

definition tty_char :: "u32 \<Rightarrow> tty \<Rightarrow> tty" where
  "tty_char c = (\<lambda>(xs, p).
     if c AND 0xff = 0x08 then (if 0 < p then (xs[p - 1 := ucast ((c AND NOT 0xff) OR 0x20)], p - 1) else (xs, p))
     else if c AND 0xff = 0x0A then (xs, 80 * (p div 80 + 1))
     else if c AND 0xff = 0x0D then (xs, 80 * (p div 80))
     else (xs[p := ucast c], p + 1))"

definition tty_putc :: "u32 \<Rightarrow> tty \<Rightarrow> tty" where
  "tty_putc c t =
     (if c AND 0xff = 0x09 then ((\<lambda>t. tty_scroll (tty_char 0x0720 t)) ^^ 5) t
      else tty_scroll (tty_char (video_attr c) t))"

definition cell :: "u32 \<Rightarrow> memory \<Rightarrow> nat \<Rightarrow> u16" where
  "cell b m i = load16 m (b + 2 * of_nat i)"

definition cells :: "u32 \<Rightarrow> memory \<Rightarrow> u16 list" where
  "cells b m = map (cell b m) [0..<2000]"

definition tty_of :: "'a mcons_scheme \<Rightarrow> tty" where
  "tty_of s = (cells (crt_buf (terminal s)) (mem s), unat (crt_pos (terminal s)))"

text \<open>Nothing but the display memory, the cursor and the ports has changed.\<close>

definition draws :: "'a mcons_scheme \<Rightarrow> 'a mcons_scheme \<Rightarrow> bool" where
  "draws s t \<longleftrightarrow> crt_buf (terminal t) = crt_buf (terminal s) \<and>
     (\<forall>a. \<not> in_block (crt_buf (terminal s)) 4000 a \<longrightarrow> mem t a = mem s a) \<and>
     (\<exists>m p e. t = s\<lparr>mem := m, terminal := (terminal s)\<lparr>crt_pos := p\<rparr>, io := e @ io s\<rparr>)"

lemma drawsI:
  assumes "t = s\<lparr>mem := m, terminal := (terminal s)\<lparr>crt_pos := p\<rparr>, io := e @ io s\<rparr>"
    and "\<And>a. \<not> in_block (crt_buf (terminal s)) 4000 a \<Longrightarrow> m a = mem s a"
  shows "draws s t"
  using assms by (auto simp: draws_def)

lemma draws_refl: "draws s s"
  by (rule drawsI [where e = "[]" and p = "crt_pos (terminal s)"]) simp_all

lemma draws_trans: "draws s t \<Longrightarrow> draws t u \<Longrightarrow> draws s u"
  unfolding draws_def by (force simp: append_assoc [symmetric] simp del: append_assoc)

lemma cell_addr:
  assumes "i < 2000"
  shows "unat (2 * of_nat i :: u32) = 2 * i"
  using assms by (simp add: unat_word_ariths unat_of_nat)

lemma load_store16: "load16 (store16 a v m) a = v"
  unfolding load16_def store16_def by (rule bit_word_eqI) (auto simp: bit_simps dest: bit_imp_le_length)

lemma cell_store:
  assumes "i < 2000" and "j < 2000"
  shows "cell b (store16 (b + 2 * of_nat i) v m) j = (if i = j then v else cell b m j)"
proof (cases "i = j")
  case True
  then show ?thesis by (simp add: cell_def load_store16)
next
  case False
  let ?o = "\<lambda>k::nat. 2 * of_nat k :: u32"
  have u: "unat (?o i) = 2 * i" "unat (?o j) = 2 * j" "unat (?o i + 1) = 2 * i + 1" "unat (?o j + 1) = 2 * j + 1"
    using cell_addr [OF assms(1)] cell_addr [OF assms(2)] assms by (simp_all add: unat_word_ariths unat_of_nat)
  have "?o j \<noteq> ?o i" "?o j \<noteq> ?o i + 1" "?o j + 1 \<noteq> ?o i" "?o j + 1 \<noteq> ?o i + 1"
    using False u by (metis mult_left_cancel zero_neq_numeral, metis Suc_eq_plus1 double_not_eq_Suc_double,
        metis Suc_eq_plus1 double_not_eq_Suc_double, metis add_right_cancel mult_left_cancel zero_neq_numeral)
  then have "store16 (b + ?o i) v m (b + ?o j) = m (b + ?o j)" "store16 (b + ?o i) v m (b + ?o j + 1) = m (b + ?o j + 1)"
    by (auto simp: store16_def add.assoc)
  then show ?thesis using False by (simp add: cell_def load16_def)
qed

lemma cells_store: "i < 2000 \<Longrightarrow> cells b (store16 (b + 2 * of_nat i) v m) = (cells b m)[i := v]"
  by (rule nth_equalityI) (auto simp: cells_def cell_store nth_list_update)

lemma store16_outside:
  assumes "i < 2000" and "\<not> in_block b 4000 a"
  shows "store16 (b + 2 * of_nat i) v m a = m a"
proof -
  have "a \<noteq> b + 2 * of_nat i" "a \<noteq> b + 2 * of_nat i + 1"
    using assms cell_addr [OF assms(1)] by (auto simp: in_block_def unat_word_ariths unat_of_nat)
  then show ?thesis by (simp add: store16_def)
qed

lemma length_cells [simp]: "length (cells b m) = 2000"
  by (simp add: cells_def)

text \<open>One cell written by the program.\<close>

lemma crt_store_cells:
  assumes "unat i < 2000"
  shows "tty_of (crt_store i v s) = ((fst (tty_of s))[unat i := v], snd (tty_of s))" and "draws s (crt_store i v s)"
proof -
  show "tty_of (crt_store i v s) = ((fst (tty_of s))[unat i := v], snd (tty_of s))"
    using cells_store [OF assms] by (simp add: tty_of_def crt_store_def)
  show "draws s (crt_store i v s)"
    by (rule drawsI [where m = "mem (crt_store i v s)" and p = "crt_pos (terminal s)" and e = "[]"])
      (use store16_outside [OF assms] in \<open>simp_all add: crt_store_def\<close>)
qed

lemma crt_set_pos_cells:
  "tty_of (crt_set_pos p s) = (fst (tty_of s), unat p)" "draws s (crt_set_pos p s)"
  by (simp add: tty_of_def crt_set_pos_def, rule drawsI [where m = "mem s" and p = p and e = "[]"])
    (simp_all add: crt_set_pos_def)

lemma video_cursor_cells: "tty_of (video_cursor s) = tty_of s" "draws s (video_cursor s)"
  unfolding video_cursor_def Let_def outb_def
  by (simp add: tty_of_def) (rule drawsI [where m = "mem s" and p = "crt_pos (terminal s)" and e = "[_, _, _, _]"], simp_all)

lemma fill_cells:
  assumes "k \<le> n" and "n \<le> 2000"
  shows "tty_of (fold (\<lambda>i s. crt_store i v s) (map of_nat [k..<n]) s)
      = (take k (fst (tty_of s)) @ replicate (n - k) v @ drop n (fst (tty_of s)), snd (tty_of s))
    \<and> draws s (fold (\<lambda>i s. crt_store i v s) (map of_nat [k..<n]) s)"
  using assms
proof (induction n rule: dec_induct)
  case base
  then show ?case by (simp add: draws_refl)
next
  case (step n)
  let ?t = "fold (\<lambda>i s. crt_store i v s) (map of_nat [k..<n]) s" and ?xs = "fst (tty_of s)"
  have IH: "tty_of ?t = (take k ?xs @ replicate (n - k) v @ drop n ?xs, snd (tty_of s))" "draws s ?t"
    using step.IH step.prems by auto
  have n: "unat (of_nat n :: u16) = n" using step.prems by (simp add: unat_of_nat)
  have l: "length ?xs = 2000" by (simp add: tty_of_def)
  have "(take k ?xs @ replicate (n - k) v @ drop n ?xs)[n := v] = take k ?xs @ replicate (Suc n - k) v @ drop (Suc n) ?xs"
    using step l by (intro nth_equalityI) (auto simp: nth_list_update nth_append min_def)
  then show ?case
    using crt_store_cells [where i = "of_nat n" and v = v and s = ?t] IH step.hyps step.prems n
    by (auto intro: draws_trans)
qed

lemma copied_cells:
  assumes "unat b + 4000 < 2 ^ 32"
  shows "cells b (copied_block b (b + 160) 3840 m) = drop 80 (cells b m) @ drop 1920 (cells b m)"
proof (rule nth_equalityI)
  fix i assume "i < length (cells b (copied_block b (b + 160) 3840 m))"
  then have i: "i < 2000" by simp
  let ?o = "2 * of_nat i :: u32"
  have u: "unat ?o = 2 * i" "unat (?o + 1) = 2 * i + 1"
    using cell_addr [OF i] i by (simp_all add: unat_word_ariths unat_of_nat)
  have a: "b + 160 + ?o = b + 2 * of_nat (i + 80)" by simp
  show "cells b (copied_block b (b + 160) 3840 m) ! i = (drop 80 (cells b m) @ drop 1920 (cells b m)) ! i"
  proof (cases "i < 1920")
    case True
    then have "cell b (copied_block b (b + 160) 3840 m) i = load16 m (b + 160 + ?o)"
      using u by (simp add: cell_def load16_def copied_block_def in_block_def add.assoc [of b ?o 1] algebra_simps)
    then show ?thesis using True by (simp add: cells_def nth_append a cell_def algebra_simps)
  next
    case False
    then have "cell b (copied_block b (b + 160) 3840 m) i = cell b m i"
      using u by (simp add: cell_def load16_def copied_block_def in_block_def add.assoc [of b ?o 1])
    then show ?thesis using False i by (simp add: cells_def nth_append)
  qed
qed simp

lemma video_scroll_tty:
  assumes "unat (crt_buf (terminal s)) + 4000 < 2 ^ 32"
  shows "tty_of (video_scroll s) = tty_scroll (tty_of s) \<and> draws s (video_scroll s)"
proof (cases "crt_pos (terminal s) \<ge> 2000")
  case True
  let ?b = "crt_buf (terminal s)" and ?xs = "fst (tty_of s)"
  define s1 where "s1 = s\<lparr>mem := memmove ?b (?b + 160) 3840 (mem s)\<rparr>"
  define s2 where "s2 = fold (\<lambda>i s. crt_store i 0x0720 s) (map of_nat [1920..<2000]) s1"
  have b: "unat (?b + 160) = unat ?b + 160" using assms by (simp add: unat_word_ariths)
  have m: "memmove ?b (?b + 160) 3840 (mem s) = copied_block ?b (?b + 160) 3840 (mem s)"
    using memmove_copied [of ?b 3840 "?b + 160" "mem s"] assms b by simp
  have t1: "tty_of s1 = (drop 80 ?xs @ drop 1920 ?xs, snd (tty_of s))"
    using copied_cells [OF assms] by (simp add: tty_of_def s1_def m)
  have d1: "draws s s1"
    by (rule drawsI [where m = "mem s1" and p = "crt_pos (terminal s)" and e = "[]"])
      (simp_all add: s1_def m copied_block_def in_block_def)
  have l: "length ?xs = 2000" by (simp add: tty_of_def)
  have t2: "tty_of s2 = (drop 80 ?xs @ replicate 80 0x0720, snd (tty_of s))" "draws s1 s2"
    using fill_cells [of 1920 2000 "0x0720" s1] l by (simp_all add: s2_def t1 del: upt_rec_numeral)
  have v: "video_scroll s = crt_set_pos (crt_pos (terminal s2) - 80) s2"
    using True by (simp add: video_scroll_def s1_def s2_def Let_def del: upt_rec_numeral)
  have p: "2000 \<le> unat (crt_pos (terminal s2))" "unat (crt_pos (terminal s2)) = snd (tty_of s)"
    using t2 True by (auto simp: tty_of_def word_le_nat_alt)
  then have "unat (crt_pos (terminal s2) - 80) = snd (tty_of s) - 80"
    by (simp add: unat_sub_if' word_le_nat_alt)
  then show ?thesis
    using p t2 crt_set_pos_cells [where p = "crt_pos (terminal s2) - 80" and s = s2] d1
    by (auto simp: v tty_scroll_def split_def intro: draws_trans)
next
  case False
  then show ?thesis by (auto simp: video_scroll_def tty_scroll_def tty_of_def draws_refl word_le_nat_alt)
qed

lemma sub_mod: "unat (p - p mod 80 :: u16) = 80 * (unat p div 80)"
proof -
  have "unat (p - p mod 80) = unat p - unat (p mod 80)" by (rule unat_sub) (simp add: word_le_nat_alt unat_mod)
  then show ?thesis by (simp only: unat_mod minus_mod_eq_mult_div) simp
qed

lemma video_char_tty:
  assumes "crt_pos (terminal s) < 2000"
  shows "tty_of (video_char c s) = tty_char c (tty_of s) \<and> draws s (video_char c s)"
proof -
  let ?p = "crt_pos (terminal s)"
  have p: "unat ?p < 2000" "snd (tty_of s) = unat ?p" using assms by (simp_all add: word_less_nat_alt tty_of_def)
  have b: "tty_of (crt_store (?p - 1) v (crt_set_pos (?p - 1) s)) = ((fst (tty_of s))[unat ?p - 1 := v], unat ?p - 1)"
    "draws s (crt_store (?p - 1) v (crt_set_pos (?p - 1) s))" if "0 < ?p" for v
  proof -
    have u: "unat (?p - 1) = unat ?p - 1" using that by (simp add: unat_sub_if' word_less_nat_alt)
    then have "unat (?p - 1) < 2000" using p by simp
    then show "tty_of (crt_store (?p - 1) v (crt_set_pos (?p - 1) s)) = ((fst (tty_of s))[unat ?p - 1 := v], unat ?p - 1)"
      "draws s (crt_store (?p - 1) v (crt_set_pos (?p - 1) s))"
      using crt_store_cells [where i = "?p - 1" and v = v and s = "crt_set_pos (?p - 1) s"] by (auto simp: crt_set_pos_cells u intro: draws_trans [OF crt_set_pos_cells(2)])
  qed
  have n: "unat (?p + 80) div 80 = unat ?p div 80 + 1"
    using p by (simp add: unat_word_ariths div_add_self2)
  have o: "unat (?p + 1) = unat ?p + 1" using p by (simp add: unat_word_ariths)
  show ?thesis
    using b [of "ucast ((c AND NOT 0xff) OR 0x20)"] crt_store_cells [OF p(1), where v = "ucast c" and s = s] p(2)
    by (auto simp: video_char_def tty_char_def Let_def split_def crt_set_pos_cells n o sub_mod
        word_greater_zero_iff unat_gt_0 prod_eq_iff draws_refl intro: draws_trans [OF _ crt_set_pos_cells(2)])
qed

definition tty_ok :: "'a mcons_scheme \<Rightarrow> bool" where
  "tty_ok s \<longleftrightarrow> unat (crt_buf (terminal s)) + 4000 < 2 ^ 32 \<and> crt_pos (terminal s) < 2000"

lemma tty_char_le: "snd t < 2000 \<Longrightarrow> snd (tty_char c t) \<le> 2000"
  by (auto simp: tty_char_def split_def)

lemma tty_scroll_less: "snd t \<le> 2000 \<Longrightarrow> snd (tty_scroll t) < 2000"
  by (auto simp: tty_scroll_def split_def)

lemma tty_pos_ok: "tty_ok s \<longleftrightarrow> unat (crt_buf (terminal s)) + 4000 < 2 ^ 32 \<and> snd (tty_of s) < 2000"
  by (simp add: tty_ok_def tty_of_def word_less_nat_alt)

text \<open>One character followed by the scroll and the cursor, as every path of \<^verbatim>\<open>video_putc\<close> ends.\<close>

lemma video_step_tty:
  assumes "tty_ok s"
  shows "tty_of (video_cursor (video_scroll (video_char c s))) = tty_scroll (tty_char c (tty_of s))"
    and "tty_ok (video_cursor (video_scroll (video_char c s)))"
    and "draws s (video_cursor (video_scroll (video_char c s)))"
proof -
  have c: "tty_of (video_char c s) = tty_char c (tty_of s)" "draws s (video_char c s)"
    using video_char_tty [of s c] assms by (simp_all add: tty_ok_def)
  then have b: "crt_buf (terminal (video_char c s)) = crt_buf (terminal s)" by (simp add: draws_def)
  have r: "tty_of (video_scroll (video_char c s)) = tty_scroll (tty_char c (tty_of s))"
    "draws (video_char c s) (video_scroll (video_char c s))"
    using video_scroll_tty [of "video_char c s"] assms by (simp_all add: b c tty_ok_def)
  show e: "tty_of (video_cursor (video_scroll (video_char c s))) = tty_scroll (tty_char c (tty_of s))"
    by (simp add: video_cursor_cells r)
  show d: "draws s (video_cursor (video_scroll (video_char c s)))"
    by (blast intro: draws_trans c r video_cursor_cells)
  show "tty_ok (video_cursor (video_scroll (video_char c s)))"
    using assms tty_scroll_less [OF tty_char_le] d by (simp add: tty_pos_ok e) (simp add: draws_def)
qed

lemma video_settled:
  assumes "tty_ok s"
  shows "tty_of (video_cursor (video_scroll s)) = tty_of s" and "tty_ok (video_cursor (video_scroll s))"
    and "draws s (video_cursor (video_scroll s))"
proof -
  have "\<not> 2000 \<le> crt_pos (terminal s)" using assms by (simp add: tty_ok_def not_le)
  then have v: "video_scroll s = s" unfolding video_scroll_def by simp
  show "tty_of (video_cursor (video_scroll s)) = tty_of s" "draws s (video_cursor (video_scroll s))"
    by (simp_all add: v video_cursor_cells)
  then show "tty_ok (video_cursor (video_scroll s))" using assms by (simp add: tty_pos_ok draws_def)
qed

lemma video_attr_low: "video_attr c AND 0xff = c AND 0xff"
proof -
  have "(c OR 0x700) AND 0xff = (c AND 0xff) OR (0x700 AND 0xff)" by (rule bit.conj_disj_distrib2)
  then show ?thesis by (simp add: video_attr_def)
qed

lemma video_putc_tty:
  assumes "tty_ok s"
  shows "tty_of (video_putc c s) = tty_putc c (tty_of s) \<and> tty_ok (video_putc c s) \<and> draws s (video_putc c s)"
proof (cases "c AND 0xff = 0x09")
  case True
  then have a: "video_attr c AND 0xff = 0x09" by (simp only: video_attr_low)
  define f where "f = (\<lambda>s::'a mcons_scheme. video_cursor (video_scroll (video_char (video_attr 0x20) s)))"
  define g where "g = (\<lambda>t. tty_scroll (tty_char 0x0720 t))"
  have f: "tty_of (f u) = g (tty_of u)" "tty_ok (f u)" "draws u (f u)" if "tty_ok u" for u
    using video_step_tty [OF that, of "video_attr 0x20"] by (simp_all add: f_def g_def video_attr_def)
  have i: "tty_ok ((f ^^ k) s) \<and> draws s ((f ^^ k) s) \<and> tty_of ((f ^^ k) s) = (g ^^ k) (tty_of s)" for k
    by (induction k) (use assms in \<open>auto simp: f draws_refl intro: draws_trans [OF _ f(3)]\<close>)
  have "video_putc c s = video_cursor (video_scroll ((f ^^ 5) s))"
    using a by (simp add: video_putc_def Let_def f_def numeral_eq_Suc)
  moreover have "tty_putc c (tty_of s) = (g ^^ 5) (tty_of s)" using True by (simp add: tty_putc_def g_def)
  ultimately show ?thesis using i [of 5] video_settled [of "(f ^^ 5) s"] draws_trans by metis
next
  case False
  then have "video_attr c AND 0xff \<noteq> 0x09" by (simp add: video_attr_low)
  then show ?thesis
    using False video_step_tty [OF assms, of "video_attr c"] by (simp add: video_putc_def Let_def tty_putc_def)
qed

section \<open>The input buffer as a queue\<close>

definition ring_ok :: "cons_t \<Rightarrow> bool" where
  "ring_ok q \<longleftrightarrow> cons_rpos q < 512 \<and> cons_wpos q < 512"

text \<open>The characters in the buffer, oldest first.\<close>

definition ring :: "cons_t \<Rightarrow> u8 list" where
  "ring q = map (\<lambda>i. cons_buf q (of_nat ((unat (cons_rpos q) + i) mod 512)))
     [0..<(unat (cons_wpos q) + 512 - unat (cons_rpos q)) mod 512]"

lemma of_nat_eq_small: "m < 2 ^ 32 \<Longrightarrow> n < 2 ^ 32 \<Longrightarrow> (of_nat m :: u32) = of_nat n \<longleftrightarrow> m = n"
  by (metis unat_of_nat_small)

lemma ring_next: "n < 512 \<Longrightarrow> (if of_nat n + 1 = (512::u32) then 0 else of_nat n + 1) = (of_nat ((n + 1) mod 512) :: u32)"
  using of_nat_eq_small [of "Suc n" 512] by (cases "n = 511") (auto simp: add.commute)

lemma mod512: "a < 1024 \<Longrightarrow> a mod 512 = (if a < 512 then a else a - 512 :: nat)"
  by (simp add: mod_if)

lemma ring_len:
  assumes "r < 512" and "v < (512::nat)"
  shows "(v + 512 - r) mod 512 = (if r \<le> v then v - r else v + 512 - r)"
  using assms mod512 [of "v + 512 - r"] by auto

lemma ring_sub:
  assumes "r < 512" and "v < (512::nat)"
  shows "(r + (v + 512 - r) mod 512) mod 512 = v"
    and "i < (v + 512 - r) mod 512 \<Longrightarrow> (r + i) mod 512 \<noteq> v"
    and "((v + 1) mod 512 + 512 - r) mod 512 = (if (v + 512 - r) mod 512 = 511 then 0 else (v + 512 - r) mod 512 + 1)"
    and "r \<noteq> v \<Longrightarrow> (v + 512 - r) mod 512 = Suc ((v + 512 - r) mod 512 - 1)"
    and "r \<noteq> v \<Longrightarrow> (v + 512 - (r + 1) mod 512) mod 512 = (v + 512 - r) mod 512 - 1"
proof -
  note n = ring_len [OF assms]
  show "(r + (v + 512 - r) mod 512) mod 512 = v" using assms by (simp add: n mod512)
  show "i < (v + 512 - r) mod 512 \<Longrightarrow> (r + i) mod 512 \<noteq> v" using assms by (auto simp: n mod512 split: if_splits)
  show "((v + 1) mod 512 + 512 - r) mod 512 = (if (v + 512 - r) mod 512 = 511 then 0 else (v + 512 - r) mod 512 + 1)"
  proof (cases "v = 511")
    case True
    have "(512 - r) mod 512 = (if r = 0 then 0 else 512 - r)" using assms by simp
    then show ?thesis using assms n True by auto
  next
    case False
    then have "((v + 1) mod 512 + 512 - r) mod 512 = (if r \<le> v + 1 then v + 1 - r else v + 1 + 512 - r)"
      using assms ring_len [of r "v + 1"] by simp
    then show ?thesis unfolding n using assms False by auto
  qed
  show "r \<noteq> v \<Longrightarrow> (v + 512 - r) mod 512 = Suc ((v + 512 - r) mod 512 - 1)" using assms by (auto simp: n)
  show "r \<noteq> v \<Longrightarrow> (v + 512 - (r + 1) mod 512) mod 512 = (v + 512 - r) mod 512 - 1"
  proof (cases "r = 511")
    case True
    then show "r \<noteq> v \<Longrightarrow> ?thesis" using assms unfolding n by auto
  next
    case False
    then have "(v + 512 - (r + 1) mod 512) mod 512 = (if r + 1 \<le> v then v - (r + 1) else v + 512 - (r + 1))"
      using assms ring_len [of "r + 1" v] by simp
    then show "r \<noteq> v \<Longrightarrow> ?thesis" unfolding n using assms False by auto
  qed
qed

lemma ring_push:
  assumes "ring_ok q"
  shows "\<exists>q'. cons_push c q = Ret q' \<and> ring_ok q' \<and>
    ring q' = (if length (ring q) < 511 then ring q @ [c] else [])"
proof -
  define r v where "r = unat (cons_rpos q)" and "v = unat (cons_wpos q)"
  have rv: "r < 512" "v < 512" "cons_rpos q = of_nat r" "cons_wpos q = of_nat v"
    using assms by (auto simp: ring_ok_def r_def v_def word_less_nat_alt)
  let ?n = "(v + 512 - r) mod 512"
  define q' where "q' = q\<lparr>cons_buf := (cons_buf q)(of_nat v := c), cons_wpos := of_nat ((v + 1) mod 512)\<rparr>"
  have p: "cons_push c q = Ret q'"
    using assms ring_next [OF rv(2)] unfolding cons_push_def q'_def ring_ok_def rv(4)
    by (auto simp: bounded_def Let_def split: if_splits)
  have u: "unat (cons_wpos q') = (v + 1) mod 512" "unat (cons_rpos q') = r"
    by (simp_all add: q'_def r_def unat_of_nat_small)
  have e: "cons_buf q' (of_nat ((r + i) mod 512)) = (if (r + i) mod 512 = v then c else cons_buf q (of_nat ((r + i) mod 512)))" for i
    using of_nat_eq_small [of "(r + i) mod 512" v] rv by (simp add: q'_def)
  have "ring q' = (if ?n < 511 then ring q @ [c] else [])"
  proof (cases "?n = 511")
    case True
    then show ?thesis using ring_sub(3) [OF rv(1,2)] by (simp add: ring_def u)
  next
    case False
    then have "?n < 511" using mod_less_divisor [of 512 "v + 512 - r"] by linarith
    then show ?thesis
      using ring_sub [OF rv(1,2)] False by (simp add: ring_def u e flip: r_def v_def)
  qed
  moreover have "length (ring q) = ?n" by (simp add: ring_def r_def v_def)
  moreover have "ring_ok q'" using rv by (simp add: ring_ok_def q'_def word_less_nat_alt unat_of_nat_small)
  ultimately show ?thesis using p by auto
qed

lemma ring_pop:
  assumes "ring_ok q"
  shows "\<exists>q'. cons_pop q = Ret (case ring q of [] \<Rightarrow> 0 | c # _ \<Rightarrow> c, q') \<and> ring_ok q' \<and>
    ring q' = drop 1 (ring q)"
proof -
  define r v where "r = unat (cons_rpos q)" and "v = unat (cons_wpos q)"
  have rv: "r < 512" "v < 512" "cons_rpos q = of_nat r" "cons_wpos q = of_nat v"
    using assms by (auto simp: ring_ok_def r_def v_def word_less_nat_alt)
  let ?n = "(v + 512 - r) mod 512"
  show ?thesis
  proof (cases "r = v")
    case True
    then show ?thesis
      using assms rv by (intro exI [of _ q]) (simp add: cons_pop_def ring_def flip: r_def v_def)
  next
    case False
    define q' where "q' = q\<lparr>cons_rpos := of_nat ((r + 1) mod 512)\<rparr>"
    have ne: "(of_nat r :: u32) \<noteq> of_nat v" using False rv of_nat_eq_small [of r v] by simp
    note n = ring_sub(4,5) [OF rv(1,2) False]
    have p: "cons_pop q = Ret (cons_buf q (of_nat r), q')"
      using assms ne ring_next [OF rv(1)] unfolding cons_pop_def q'_def ring_ok_def rv(3,4)
      by (auto simp: bounded_def Let_def split: if_splits)
    have "ring q = cons_buf q (of_nat r) # map (\<lambda>i. cons_buf q (of_nat ((r + Suc i) mod 512))) [0..<?n - 1]"
      unfolding ring_def r_def [symmetric] v_def [symmetric]
      by (subst n(1)) (simp add: upt_conv_Cons map_Suc_upt [symmetric] rv comp_def del: upt_Suc)
    moreover have "ring q' = map (\<lambda>i. cons_buf q (of_nat ((r + Suc i) mod 512))) [0..<?n - 1]"
      using n(2) by (simp add: ring_def q'_def unat_of_nat_small mod_simps flip: r_def v_def)
    moreover have "ring_ok q'" using assms by (simp add: ring_ok_def q'_def word_less_nat_alt unat_of_nat_small)
    ultimately show ?thesis using p by simp
  qed
qed

text \<open>
  What the serial line delivers until it has nothing more, when \<^verbatim>\<open>serial_proc_data\<close> is polled: the
  characters and the trace of the port accesses, if that takes less than \<open>n\<close> polls.
\<close>

fun serial_run :: "('s, 'b) world_scheme \<Rightarrow> nat \<Rightarrow> io list \<Rightarrow> (u8 list \<times> io list) option" where
  "serial_run w 0 e = None"
| "serial_run w (Suc n) e =
     (let e' = Inb (COM1 + COM_LSR) # e in
      if w_inb w e (COM1 + COM_LSR) AND 1 = 0 then Some ([], e')
      else map_option (\<lambda>(bs, e''). (w_inb w e' COM1 # bs, e'')) (serial_run w n (Inb COM1 # e')))"

abbreviation (input) cons_loop ::
    "('a mcons_scheme \<Rightarrow> (int \<times> 'a mcons_scheme) outcome) \<Rightarrow> int \<times> 'a mcons_scheme \<Rightarrow> (int \<times> 'a mcons_scheme) outcome" where
  "cons_loop proc_data \<equiv> whileM (\<lambda>(c, s). c \<noteq> -1)
     (\<lambda>(c, s). if c = 0 then proc_data s
        else andThen (cons_push (word_of_int c) (cons s)) (\<lambda>q. proc_data (s\<lparr>cons := q\<rparr>)))"

text \<open>The buffer after the characters of a list are put in.\<close>

definition ring_fill :: "u8 list \<Rightarrow> u8 list \<Rightarrow> u8 list" where
  "ring_fill xs cs = fold (\<lambda>c xs. if length xs < 511 then xs @ [c] else []) cs xs"

lemma ring_fill_room: "length xs + length cs \<le> 511 \<Longrightarrow> ring_fill xs cs = xs @ cs"
  unfolding ring_fill_def by (induction cs arbitrary: xs) auto

lemma serial_loop:
  assumes "serial_run w n (io s) = Some (bs, e)" and "ring_ok (cons s)"
  shows "\<exists>q. andThen (serial_proc_data w s) (cons_loop (serial_proc_data w)) = Ret (-1, s\<lparr>cons := q, io := e\<rparr>) \<and>
    ring_ok q \<and> ring q = ring_fill (ring (cons s)) (filter (\<lambda>c. c \<noteq> 0) bs)"
  using assms
proof (induction n arbitrary: s bs)
  case (Suc n)
  let ?lsr = "w_inb w (io s) (COM1 + COM_LSR)" and ?e = "Inb (COM1 + COM_LSR) # io s"
  show ?case
  proof (cases "?lsr AND 1 = 0")
    case True
    then show ?thesis
      using Suc.prems by (intro exI [of _ "cons s"]) (auto simp: serial_proc_data_def inb_def Let_def whileM_exit ring_fill_def)
  next
    case False
    let ?c = "w_inb w ?e COM1"
    define u where "u = s\<lparr>io := Inb COM1 # ?e\<rparr>"
    obtain bs' where r: "serial_run w n (io u) = Some (bs', e)" "bs = ?c # bs'"
      using Suc.prems False by (auto simp: Let_def u_def)
    have p: "serial_proc_data w s = Ret (uint ?c, u)"
      using False by (simp add: serial_proc_data_def inb_def Let_def u_def)
    have "0 \<le> uint ?c" by simp
    then have m: "uint ?c \<noteq> -1" by linarith
    show ?thesis
    proof (cases "?c = 0")
      case True
      then show ?thesis
        using Suc.IH [OF r(1)] Suc.prems m unfolding p r(2)
        by (subst andThen.simps, subst whileM_unfold) (simp add: u_def)
    next
      case False
      then have z: "uint ?c \<noteq> 0" by (simp add: uint_0_iff)
      obtain q where q: "cons_push ?c (cons s) = Ret q" "ring_ok q"
        "ring q = (if length (ring (cons s)) < 511 then ring (cons s) @ [?c] else [])"
        using ring_push [OF Suc.prems(2), of ?c] by auto
      have "\<exists>q'. andThen (serial_proc_data w (u\<lparr>cons := q\<rparr>)) (cons_loop (serial_proc_data w)) = Ret (-1, (u\<lparr>cons := q\<rparr>)\<lparr>cons := q', io := e\<rparr>) \<and>
          ring_ok q' \<and> ring q' = ring_fill (ring (cons (u\<lparr>cons := q\<rparr>))) (filter (\<lambda>c. c \<noteq> 0) bs')"
        by (rule Suc.IH) (use r q in \<open>simp_all add: u_def\<close>)
      then show ?thesis
        using False z m q unfolding p r(2)
        by (subst andThen.simps, subst whileM_unfold) (auto simp: u_def ring_fill_def)
    qed
  qed
qed simp

lemma serial_intr_queue:
  assumes "on_cpu s" and "serial_exists s" and "cons_lk s = unlocked" and "ring_ok (cons s)"
    and "serial_run w n (io s) = Some (bs, e)"
  shows "\<exists>q. serial_intr w s = Ret (s\<lparr>cons := q, io := e\<rparr>) \<and>
    ring_ok q \<and> ring q = ring_fill (ring (cons s)) (filter (\<lambda>c. c \<noteq> 0) bs)"
proof -
  let ?s = "s\<lparr>cons_lk := held_by (this_cpu s)\<rparr>"
  obtain q where q: "andThen (serial_proc_data w ?s) (cons_loop (serial_proc_data w)) = Ret (-1, ?s\<lparr>cons := q, io := e\<rparr>)"
    "ring_ok q" "ring q = ring_fill (ring (cons s)) (filter (\<lambda>c. c \<noteq> 0) bs)"
    using serial_loop [of w n ?s bs e] assms by auto
  have "serial_intr w s = andThen (andThen (serial_proc_data w ?s) (cons_loop (serial_proc_data w))) (\<lambda>(_, s). Ret (cons_release s))"
    using assms by (simp add: serial_intr_def cons_intr_def cons_acquire_def spinlock_acquire_unlocked andThen_assoc)
  also have "\<dots> = Ret (s\<lparr>cons := q, io := e\<rparr>)"
    unfolding q(1) using assms(3) by (simp add: cons_release_def)
  finally show ?thesis using q by blast
qed

lemma keyboard_intr_quiet:
  assumes "on_cpu s" and "cons_lk s = unlocked" and "w_inb w (io s) 0x64 AND 1 = 0"
  shows "keyboard_intr w s = Ret (s\<lparr>io := Inb 0x64 # io s\<rparr>)"
  using assms
  by (simp add: keyboard_intr_def cons_intr_def cons_acquire_def spinlock_acquire_unlocked kbd_proc_data_def
      inb_def whileM_exit cons_release_def)

lemma cons_getc_queue:
  assumes "on_cpu s" and "serial_exists s" and "cons_lk s = unlocked" and "ring_ok (cons s)"
    and "serial_run w n (io s) = Some (bs, e)" and "w_inb w e 0x64 AND 1 = 0"
  shows "\<exists>q. cons_getc w s = Ret (case ring_fill (ring (cons s)) (filter (\<lambda>c. c \<noteq> 0) bs) of [] \<Rightarrow> 0 | c # _ \<Rightarrow> c,
      s\<lparr>cons := q, io := Inb 0x64 # e\<rparr>) \<and>
    ring_ok q \<and> ring q = drop 1 (ring_fill (ring (cons s)) (filter (\<lambda>c. c \<noteq> 0) bs))"
proof -
  obtain q where q: "serial_intr w s = Ret (s\<lparr>cons := q, io := e\<rparr>)" "ring_ok q"
    "ring q = ring_fill (ring (cons s)) (filter (\<lambda>c. c \<noteq> 0) bs)"
    using serial_intr_queue [OF assms(1-5)] by auto
  let ?u = "s\<lparr>cons := q, io := e\<rparr>"
  have k: "keyboard_intr w ?u = Ret (?u\<lparr>io := Inb 0x64 # e\<rparr>)"
    using keyboard_intr_quiet [of ?u w] assms by simp
  obtain q' where "cons_pop q = Ret (case ring q of [] \<Rightarrow> 0 | c # _ \<Rightarrow> c, q')" "ring_ok q'" "ring q' = drop 1 (ring q)"
    using ring_pop [OF q(2)] by auto
  then show ?thesis
    using q k assms by (intro exI [of _ q']) (simp add: cons_getc_def cons_acquire_def spinlock_acquire_unlocked cons_release_def)
qed

section \<open>Printed numbers\<close>

definition digit_value :: "char \<Rightarrow> nat" where
  "digit_value c = (let n = of_char c in if n < 58 then n - 48 else n - 87)"

definition number_value :: "nat \<Rightarrow> string \<Rightarrow> nat" where
  "number_value b = foldl (\<lambda>a c. a * b + digit_value c) 0"

lemma digit_value_digit: "n < 16 \<Longrightarrow> digit_value (digit n) = unat n"
proof -
  assume "n < 16"
  then have "unat n < 16" by (simp add: word_less_nat_alt)
  moreover have "\<forall>k \<in> set [0..<16]. digit_value (''0123456789abcdef'' ! k) = k"
    by (simp add: upt_rec digit_value_def)
  ultimately show ?thesis by (simp add: digit_def)
qed

lemma put_all_append: "put_all put (xs @ ys) = (\<lambda>d. andThen (put_all put xs d) (put_all put ys))"
  by (induction xs) (rule ext, simp add: andThen_assoc)+

lemma put_all_single: "put_all put [c] = put c"
proof
  fix d
  show "put_all put [c] d = put c d" by (cases "put c d") simp_all
qed

lemma printnum_digits:
  assumes "2 \<le> base" and "base \<le> 16"
  shows "\<exists>ds. (\<forall>put (d :: 'd) width. printnum put num base width padc d =
      put_all put (replicate (nat (width - int (length ds))) padc @ ds) d) \<and>
    ds \<noteq> [] \<and> number_value (unat base) ds = unat num \<and> (hd ds = CHR ''0'' \<longrightarrow> num = 0)"
proof (induction "unat num" arbitrary: num rule: less_induct)
  case less
  have b: "\<not> base < 2" "2 \<le> unat base" using assms by (auto simp: word_le_nat_alt word_less_nat_alt)
  have m: "unat (num mod base) < unat base" using b by (simp add: unat_mod)
  then have "num mod base < 16" using assms(2) by (simp add: word_less_nat_alt word_le_nat_alt)
  then have v: "digit_value (digit (num mod base)) = unat num mod unat base"
    by (simp add: digit_value_digit unat_mod)
  show ?case
  proof (cases "num \<ge> base")
    case True
    then have "unat (num div base) < unat num" using b by (simp add: unat_div word_le_nat_alt)
    then obtain ds where ds: "\<And>put (d :: 'd) width. printnum put (num div base) base width padc d =
          put_all put (replicate (nat (width - int (length ds))) padc @ ds) d"
        "ds \<noteq> []" "number_value (unat base) ds = unat (num div base)" "hd ds = CHR ''0'' \<longrightarrow> num div base = 0"
      using less by blast
    have z: "num div base \<noteq> 0"
      using True b by (simp add: word_unat_eq_iff unat_div word_le_nat_alt div_eq_0_iff)
    show ?thesis
      by (rule exI [of _ "ds @ [digit (num mod base)]"])
        (use True ds b v z in \<open>auto simp: printnum.simps [of _ num] put_all_append put_all_single number_value_def unat_div andThen_assoc algebra_simps\<close>)
  next
    case False
    then have e: "num mod base = num" "unat num < unat base" by (simp_all add: word_le_nat_alt word_unat_eq_iff unat_mod)
    have "digit num = CHR ''0'' \<longrightarrow> num = 0"
      using v e by (auto simp: digit_value_def word_unat_eq_iff)
    then show ?thesis
      by (intro exI [of _ "[digit num]"])
        (use False e b v in \<open>auto simp: printnum.simps [of _ num] put_all_append put_all_single number_value_def\<close>)
  qed
qed

section \<open>Properties\<close>

text \<open>A machine with a colour display whose cursor is in the last cell, and a serial line that holds two characters.\<close>

definition cons_idle :: mcons where
  "cons_idle = mio.extend (mthr.extend thr_idle (mio.fields []))
     (mcons.fields 0x3D4 \<lparr>crt_buf = 0xB8000, crt_pos = 1999, active_console = 0\<rparr> True
       \<lparr>cons_buf = (\<lambda>_. 0), cons_rpos = 511, cons_wpos = 511\<rparr> unlocked (\<lambda>_. 0) 0 (rl_held 0 0))"

lemma cons_idle_simps:
  "terminal cons_idle = \<lparr>crt_buf = 0xB8000, crt_pos = 1999, active_console = 0\<rparr>" "serial_exists cons_idle"
  "cons cons_idle = \<lparr>cons_buf = (\<lambda>_. 0), cons_rpos = 511, cons_wpos = 511\<rparr>" "cons_lk cons_idle = unlocked"
  "io cons_idle = []" "on_cpu cons_idle"
  using thr_idle_simps(6)
  by (simp_all add: cons_idle_def mio.defs mthr.defs mcons.defs on_cpu_def this_cpu_def this_kstack_def
      cong: kstack_ref.case_cong)

definition uart_world :: "'s world" where
  "uart_world = \<lparr>w_inb = (\<lambda>e p. let n = length (filter (\<lambda>x. x = Inb 0x3F8) e) in
       if p = 0x3FD then (if n < 2 then 1 else 0) else if p = 0x3F8 then (if n = 0 then 0x68 else 0x69) else 0),
     w_insl = (\<lambda>_ _ _. 0), w_load = (\<lambda>_ _. 0), w_tsc = (\<lambda>_. 0), w_cpuid = (\<lambda>_ _. (0, 0, 0, 0)), w_cga = True,
     w_others = Ret, w_buf = (\<lambda>_. 0), w_log = 0, w_inode = (\<lambda>_. 0), w_local = (\<lambda>_. 0)\<rparr>"

text \<open>
  (C38) \<^verbatim>\<open>video_putc\<close> implements a terminal of 25 lines of 80 cells: from a cursor on the screen every
  character, with backspace, newline, carriage return and tab, does to the cells and the cursor what
  the terminal does, scrolling included; the cursor stays on the screen, and no memory outside the
  4000 bytes of the display changes.
\<close>

theorem video_putc_terminal:
  assumes "unat (crt_buf (terminal s)) + 4000 < 2 ^ 32" and "crt_pos (terminal s) < 2000"
  shows "tty_of (video_putc c s) = tty_putc c (tty_of s) \<and> crt_pos (terminal (video_putc c s)) < 2000 \<and>
    (\<forall>a. \<not> in_block (crt_buf (terminal s)) 4000 a \<longrightarrow> mem (video_putc c s) a = mem s a)"
  using video_putc_tty [of s c] assms by (simp add: tty_ok_def draws_def)

theorem video_putc_terminal_witness:
  "tty_of (video_putc 0x41 cons_idle) = tty_scroll ((fst (tty_of cons_idle))[1999 := 0x0741], 2000) \<and>
   mem (video_putc 0x41 cons_idle) 0x1000 = mem cons_idle 0x1000"
  using video_putc_terminal [of cons_idle "0x41"]
  by (simp add: cons_idle_simps tty_putc_def video_attr_def tty_char_def split_def tty_of_def in_block_def)

text \<open>
  (C39) The input buffer is a first-in first-out queue of 511 characters. When the serial line delivers the
  characters \<open>bs\<close> and the keyboard nothing, \<^verbatim>\<open>cons_getc\<close> puts the characters that are not zero behind
  those in the buffer, as long as they fit, returns the oldest (zero if there is none) and leaves
  the rest in their order; a character that finds 511 in the buffer empties it.
\<close>

theorem cons_getc_fifo:
  assumes "on_cpu s" and "serial_exists s" and "cons_lk s = unlocked" and "ring_ok (cons s)"
    and "serial_run w n (io s) = Some (bs, e)" and "w_inb w e 0x64 AND 1 = 0"
    and "cs = filter (\<lambda>c. c \<noteq> 0) bs"
  shows "(length (ring (cons s)) + length cs \<le> 511 \<longrightarrow> (\<exists>t. cons_getc w s = Ret (hd (ring (cons s) @ cs @ [0]), t) \<and>
      ring (cons t) = drop 1 (ring (cons s) @ cs) \<and> ring_ok (cons t) \<and> cons_lk t = unlocked)) \<and>
    (length (ring (cons s)) = 511 \<and> length cs = 1 \<longrightarrow> (\<exists>t. cons_getc w s = Ret (0, t) \<and> ring (cons t) = []))"
proof -
  obtain q where q: "cons_getc w s = Ret (case ring_fill (ring (cons s)) cs of [] \<Rightarrow> 0 | c # _ \<Rightarrow> c,
      s\<lparr>cons := q, io := Inb 0x64 # e\<rparr>)" "ring_ok q" "ring q = drop 1 (ring_fill (ring (cons s)) cs)"
    using cons_getc_queue [OF assms(1-6)] assms(7) by auto
  have "(case xs of [] \<Rightarrow> 0 | c # _ \<Rightarrow> c) = hd (xs @ [0])" for xs :: "u8 list" by (cases xs) simp_all
  moreover have "ring_fill (ring (cons s)) cs = []" if "length (ring (cons s)) = 511" "length cs = 1"
    using that by (auto simp: ring_fill_def length_Suc_conv)
  ultimately show ?thesis using q ring_fill_room [of "ring (cons s)" cs] assms(3) by auto
qed

theorem cons_getc_fifo_witness:
  "\<exists>t. cons_getc uart_world cons_idle = Ret (0x68, t) \<and> ring (cons t) = [0x69]"
proof -
  have r: "ring (cons cons_idle) = []" by (simp add: cons_idle_simps ring_def)
  have ok: "ring_ok (cons cons_idle)" by (simp add: cons_idle_simps ring_ok_def)
  let ?e = "[Inb 0x3FD, Inb 0x3F8, Inb 0x3FD, Inb 0x3F8, Inb 0x3FD]"
  have run: "serial_run uart_world (Suc (Suc (Suc 0))) (io cons_idle) = Some ([0x68, 0x69], ?e)"
    by (simp add: cons_idle_simps uart_world_def)
  have k: "w_inb uart_world ?e 0x64 AND 1 = 0" by (simp add: uart_world_def)
  show ?thesis
    using cons_getc_fifo [OF cons_idle_simps(6,2,4) ok run k refl] by (auto simp: r)
qed



end
