(* ===== verification/Trap_Spec.thy ===== *)
theory Trap_Spec
  imports Boot Partial Console_Spec
begin

unbundle bit_operations_syntax

text \<open>
  What traps promise: the gates of the interrupt descriptor table, the handlers behind them, the frame
  that a trap returns to, and the page fault as a whole.
\<close>

section \<open>The frame a handler returns\<close>

text \<open>Only the registers in which results are returned, \<^verbatim>\<open>eax\<close> and \<^verbatim>\<open>ebx\<close>, differ.\<close>

definition same_frame :: "tf_t \<Rightarrow> tf_t \<Rightarrow> bool" where
  "same_frame tf tf' \<longleftrightarrow> tf' = tf\<lparr>tf_regs := (tf_regs tf)\<lparr>pr_eax := pr_eax (tf_regs tf'), pr_ebx := pr_ebx (tf_regs tf')\<rparr>\<rparr>"

definition yields_tf :: "(tf_t \<Rightarrow> bool) \<Rightarrow> (tf_t \<times> 's) outcome \<Rightarrow> bool" where
  "yields_tf Q r \<longleftrightarrow> (\<forall>tf t. r = Ret (tf, t) \<longrightarrow> Q tf)"

named_theorems tf

lemma yields_tf_intros [tf]:
  "Q tf \<Longrightarrow> yields_tf Q (Ret (tf, s))"
  "yields_tf Q (Panic m)"
  "yields_tf Q Undef"
  "(\<And>x. yields_tf Q (f x)) \<Longrightarrow> yields_tf Q (andThen r f)"
  "(b \<Longrightarrow> yields_tf Q r1) \<Longrightarrow> (\<not> b \<Longrightarrow> yields_tf Q r2) \<Longrightarrow> yields_tf Q (if b then r1 else r2)"
  "yields_tf Q (g a b') \<Longrightarrow> yields_tf Q (case (a, b') of (a, b') \<Rightarrow> g a b')"
  by (auto simp: yields_tf_def andThen_eq_Ret)

lemma yields_tf_case [tf]:
  "(\<And>a b. yields_tf Q (h a b)) \<Longrightarrow> yields_tf Q (case p of (a, b) \<Rightarrow> h a b)"
  "(o' = None \<Longrightarrow> yields_tf Q r) \<Longrightarrow> (\<And>x. o' = Some x \<Longrightarrow> yields_tf Q (k x)) \<Longrightarrow>
    yields_tf Q (case o' of None \<Rightarrow> r | Some x \<Rightarrow> k x)"
  "yields_tf Q q \<Longrightarrow> yields_tf Q (bounded n i q)"
  "yields_tf Q q \<Longrightarrow> yields_tf Q (kern_assert c q)"
  by (auto simp: yields_tf_def bounded_def kern_assert_def split: prod.splits option.splits if_splits)

lemma same_frame_intros [tf]:
  "same_frame tf tf" "same_frame tf (syscall_set_errno e tf)"
  "same_frame tf (syscall_set_retval1 v (syscall_set_errno e tf))"
  "same_frame tf (syscall_set_errno e (syscall_set_retval1 v tf))"
  "same_frame tf f \<Longrightarrow> same_frame tf g \<Longrightarrow> same_frame tf (if b then f else g)"
  by (simp_all add: same_frame_def syscall_set_errno_def syscall_set_retval1_def)

lemma sysfile_frames [tf]:
  "yields_tf (same_frame tf) (sys_read w tf s)" "yields_tf (same_frame tf) (sys_write w tf s)"
  "yields_tf (same_frame tf) (sys_close w tf s)" "yields_tf (same_frame tf) (sys_fstat w tf s)"
  "yields_tf (same_frame tf) (sys_mkdir w tf s)" "yields_tf (same_frame tf) (sys_chdir w tf s)"
  unfolding sys_read_def sys_write_def sys_close_def sys_fstat_def sys_mkdir_def sys_chdir_def Let_def
  by (intro tf)+

lemma sys_link_frame [tf]: "yields_tf (same_frame tf) (sys_link w tf s)"
  unfolding sys_link_def Let_def by (intro tf)

lemma sys_unlink_frame [tf]: "yields_tf (same_frame tf) (sys_unlink w tf s)"
  unfolding sys_unlink_def Let_def by (intro tf)

lemma sys_open_frame [tf]: "yields_tf (same_frame tf) (sys_open w tf s)"
  unfolding sys_open_def open_inode_def Let_def by (intro tf)

lemma syscall_frames [tf]:
  "yields_tf (same_frame tf) (sys_puts w tf s)" "yields_tf (same_frame tf) (sys_yield w tf s)"
  unfolding sys_puts_def sys_yield_def Let_def by (intro tf)+

lemma sys_spawn_frame [tf]: "yields_tf (same_frame tf) (sys_spawn w tf s)"
  unfolding sys_spawn_def Let_def by (intro tf)

lemma syscall_dispatch_frame: "yields_tf (same_frame tf) (syscall_dispatch w tf s)"
  unfolding syscall_dispatch_def Let_def by (intro tf)

lemma exception_frame: "yields_tf (\<lambda>tf'. tf' = tf) (exception_handler tf s)"
  unfolding exception_handler_def pgflt_handler_def default_exception_handler_def Let_def by (intro tf refl)

lemma interrupt_frame: "yields_tf (\<lambda>tf'. tf' = tf) (interrupt_handler w tf s)"
  unfolding interrupt_handler_def Let_def by (intro tf refl)

lemma call_handler_frame:
  assumes "call_handler cb w tf s = Ret (tf', t)"
  shows "same_frame tf tf'" and "cb \<noteq> CB_syscall_dispatch \<Longrightarrow> tf' = tf"
  using assms exception_frame [of tf s] interrupt_frame [of tf w s] syscall_dispatch_frame [of tf w s]
  by (auto simp: call_handler_def yields_tf_def same_frame_intros split: trap_cb.splits)

section \<open>What page allocation leaves alone\<close>

text \<open>The state with everything cleared that page allocation may change.\<close>

definition vm_rest :: "'a mpt_scheme \<Rightarrow> 'a mpt_scheme" where
  "vm_rest s = s\<lparr>mem := (\<lambda>_. 0), mem_lk := unlocked, AT := (\<lambda>_. \<lparr>at_perm = 0, at_allocated = 0\<rparr>), last_palloc_index := 0,
     CONTAINER := (\<lambda>_. \<lparr>ct_quota = 0, ct_usage = 0, ct_parent = 0, ct_nchildren = 0, ct_used = 0\<rparr>),
     container_lks := (\<lambda>_. unlocked), PDirPool := (\<lambda>_ _. 0)\<rparr>"

named_theorems rest

lemma vm_rest_simps [rest]:
  "vm_rest (s\<lparr>mem := m\<rparr>) = vm_rest s" "vm_rest (s\<lparr>mem_lk := l\<rparr>) = vm_rest s" "vm_rest (s\<lparr>AT := a\<rparr>) = vm_rest s"
  "vm_rest (s\<lparr>last_palloc_index := i\<rparr>) = vm_rest s" "vm_rest (s\<lparr>CONTAINER := c\<rparr>) = vm_rest s"
  "vm_rest (s\<lparr>container_lks := k\<rparr>) = vm_rest s" "vm_rest (s\<lparr>PDirPool := d\<rparr>) = vm_rest s"
  by (simp_all add: vm_rest_def)

lemma vm_rest_eq:
  assumes "vm_rest t = vm_rest s"
  shows "cur_kstack t = cur_kstack s" "bsp_kstack t = bsp_kstack s" "proc_kstack t = proc_kstack s" "pcpu_tab t = pcpu_tab s"
    "cr2 t = cr2 s" "PDirPool_addr t = PDirPool_addr s" "mpt.more t = mpt.more s"
  using arg_cong [OF assms, of cur_kstack] arg_cong [OF assms, of bsp_kstack] arg_cong [OF assms, of proc_kstack]
    arg_cong [OF assms, of pcpu_tab] arg_cong [OF assms, of cr2] arg_cong [OF assms, of PDirPool_addr]
    arg_cong [OF assms, of mpt.more]
  by (simp_all add: vm_rest_def)

text \<open>The operations keep the rest, whatever they return.\<close>

abbreviation (input) rest_kept :: "'a mpt_scheme \<Rightarrow> 'a mpt_scheme outcome \<Rightarrow> bool" where
  "rest_kept s r \<equiv> ends r (\<lambda>t. vm_rest t = vm_rest s)"

abbreviation (input) rest_kept2 :: "'a mpt_scheme \<Rightarrow> ('r \<times> 'a mpt_scheme) outcome \<Rightarrow> bool" where
  "rest_kept2 s r \<equiv> ends r (\<lambda>(_, t). vm_rest t = vm_rest s)"

lemma palloc_rest: "rest_kept2 s (palloc s)"
  unfolding palloc_def mem_lock_def mem_unlock_def at_set_allocated_def Let_def pc
  by (auto intro!: endsI simp: rest pc)

lemma container_alloc_rest: "rest_kept2 s (container_alloc i s)"
  unfolding container_alloc_def container_lock_def container_unlock_def pc
  by (auto intro!: endsI simp: rest pc dest: endsD [OF palloc_rest])

lemma pdir_rest:
  "rest_kept s (put_pdir i j v s)" "rest_kept s (rmv_ptbl_entry i j k s)" "rest_kept s (set_ptbl_entry i j k p q s)"
  by (auto simp: put_pdir_def pdir_bounded_def rmv_ptbl_entry_def set_ptbl_entry_def pc rest Let_def)

lemma forM_rest: "(\<And>x s. rest_kept s (f x s)) \<Longrightarrow> rest_kept s (forM xs f s)"
  by (rule ends_forM [where I = "\<lambda>t. vm_rest t = vm_rest s"]) (auto simp: ends_def)

lemma alloc_ptbl_rest: "rest_kept2 s (alloc_ptbl i va s)"
proof -
  have "rest_kept u (andThen (put_pdir i j v u) (forM (range32 0 1024) (\<lambda>k. rmv_ptbl_entry i j k)))" for u :: "'a mpt_scheme" and j v
    by (rule ends_seq [OF pdir_rest(1)], rule ends_mono [OF forM_rest [OF pdir_rest(2)]]) simp
  from ends_mono [OF this] show ?thesis
    unfolding alloc_ptbl_def Let_def set_pdir_entry_by_va_def set_pdir_entry_def
    by (intro ends_seq [OF container_alloc_rest]) (auto simp: pc)
qed

lemma alloc_page_rest: "rest_kept2 s (alloc_page i va p s)"
proof -
  have "rest_kept2 u (map_page i va q p u)" for u :: "'a mpt_scheme" and q
    unfolding map_page_def Let_def set_ptbl_entry_by_va_def
    by (rule ends_seq [OF ends_True], rule ends_seq [where Q = "\<lambda>(_, t). vm_rest t = vm_rest u"])
      (auto simp: pc alloc_ptbl_rest elim!: ends_mono intro!: ends_mono [OF pdir_rest(3)])
  from ends_mono [OF this] show ?thesis
    unfolding alloc_page_def by (intro ends_seq [OF container_alloc_rest]) (auto simp: pc)
qed

section \<open>The way in and out of a trap\<close>

lemma trap_cpu_frame [simp]:
  "this_cpu (s\<lparr>last_active := a\<rparr>) = this_cpu s" "on_cpu (s\<lparr>last_active := a\<rparr>) = on_cpu s"
  "this_cpu (set_last_active i j s) = this_cpu s" "on_cpu (set_last_active i j s) = on_cpu s"
  "this_cpu (set_cr3 v s) = this_cpu s" "on_cpu (set_cr3 v s) = on_cpu s"
  by (simp_all add: set_last_active_def set_cr3_def on_cpu_def this_cpu_def this_kstack_def cong: kstack_ref.case_cong)

lemma get_curid_on_cpu: "on_cpu s \<Longrightarrow> get_curid s = Ret (CURID s (this_cpu s))"
  by (simp add: get_curid_def get_pcpu_idx_on_cpu this_cpu_less)

text \<open>The state in which the handler runs: in the address space of the kernel, process 0.\<close>

definition trap_enter :: "'a mtrap_scheme \<Rightarrow> 'a mtrap_scheme" where
  "trap_enter s = (if last_active s (this_cpu s) \<noteq> 0 then set_last_active (this_cpu s) 0 (set_cr3 (PDirPool_addr s) s) else s)"

definition trap_leave ::
    "('s, 'b) world_scheme \<Rightarrow> u32 \<Rightarrow> u32 \<Rightarrow> u32 \<Rightarrow> 'a mtrap_scheme \<Rightarrow> 'a mtrap_scheme outcome" where
  "trap_leave w cpu pid last_pid s =
     (if last_pid \<noteq> 0 then
        andThen (kstack_switch w pid s) (\<lambda>s. bounded NUM_IDS pid (
        Ret (set_last_active cpu last_pid (set_cr3 (PDirPool_addr s + pid * 4096) s))))
      else Ret s)"

definition trap_handle ::
    "('a mtrap_scheme, 'b) world_scheme \<Rightarrow> tf_t \<Rightarrow> u32 \<Rightarrow> 'a mtrap_scheme \<Rightarrow> (tf_t \<times> 'a mtrap_scheme) outcome" where
  "trap_handle w tf pid s =
     (case TRAP_HANDLER s (this_cpu s) (tf_trapno tf) of
        Some cb \<Rightarrow> call_handler cb w tf s
      | None \<Rightarrow>
          andThen (debug_warn w ''kern/trap/TTrapHandler/TTrapHandler.c'' 157
            (''No handler for user trap 0x%x, process %d, eip 0x%08x.'' @ [CHR 0x0A])
            [VInt (tf_trapno tf), VInt pid, VInt (tf_eip tf)] s) (\<lambda>s. Ret (tf, s)))"

lemma trap_on_cpu:
  assumes "on_cpu s" and "pid = CURID s (this_cpu s)"
  shows "trap w tf s = bounded 256 (tf_trapno tf) (
    andThen (trap_handle w tf pid (trap_enter s)) (\<lambda>(tf', u).
    andThen (trap_leave w (this_cpu s) pid (last_active s (this_cpu s)) u) (\<lambda>t. Ret (tf', t))))"
proof -
  have c: "this_cpu s < NUM_CPUS" using assms(1) by (rule this_cpu_less)
  have e: "(if last_active s (this_cpu s) \<noteq> 0 then andThen (set_pdir_base 0 s) (\<lambda>s'. Ret (set_last_active (this_cpu s) 0 s')) else Ret s)
      = Ret (trap_enter s)"
    by (simp add: trap_enter_def set_pdir_base_def)
  have i: "get_pcpu_idx (trap_enter s) = Ret (this_cpu s)" "this_cpu (trap_enter s) = this_cpu s"
    using assms(1) by (simp_all add: get_pcpu_idx_on_cpu trap_enter_def)
  have l: "(if l \<noteq> 0 then andThen (kstack_switch w pid u) (\<lambda>s'. andThen (set_pdir_base pid s') (\<lambda>s'. Ret (set_last_active (this_cpu s) l s')))
      else Ret u) = trap_leave w (this_cpu s) pid l u" for l and u :: "'a mtrap_scheme"
    by (auto simp: trap_leave_def set_pdir_base_def bounded_def intro!: arg_cong [where f = "andThen _"])
  show ?thesis
    unfolding trap_def Let_def get_curid_on_cpu [OF assms(1)] get_pcpu_idx_on_cpu [OF assms(1)] andThen.simps bounded_in [OF c] e i
      assms(2) [symmetric] l trap_handle_def ..
qed

lemma trap_handle_frame:
  "ends (trap_handle w tf pid s) (\<lambda>(tf', _). same_frame tf tf' \<and>
     (TRAP_HANDLER s (this_cpu s) (tf_trapno tf) \<noteq> Some CB_syscall_dispatch \<longrightarrow> tf' = tf))"
  unfolding trap_handle_def
  by (auto simp: pc same_frame_intros split: option.splits intro!: endsI dest: call_handler_frame)

lemma trap_leave_space:
  "ends (trap_leave w cpu pid last_pid u) (\<lambda>t. last_pid \<noteq> 0 \<longrightarrow>
     cr3 t = PDirPool_addr t + pid * 4096 \<and> last_active t cpu = last_pid)"
  unfolding trap_leave_def by (auto simp: pc set_cr3_def set_last_active_def intro!: endsI)

section \<open>Page faults\<close>

definition kstack_valid :: "kstack_ref \<Rightarrow> bool" where
  "kstack_valid ks = (case ks of Bsp i \<Rightarrow> i < NUM_CPUS | Proc i \<Rightarrow> i < NUM_IDS)"

lemma kstack_switch_returns:
  fixes s :: "'a mtrap_scheme"
  assumes "on_cpu s" and "pcpu_kstack (pcpu_tab s (this_cpu s)) = Some ks" and "kstack_valid ks"
  shows "returns (kstack_switch w pid s) (\<lambda>t. same_vm t s \<and> on_cpu t \<and> PDirPool_addr t = PDirPool_addr s)"
proof -
  have c: "this_cpu s < NUM_CPUS" using assms(1) by (rule this_cpu_less)
  show ?thesis
    using assms c
    by (auto simp: kstack_switch_def get_pcpu_idx_on_cpu get_pcpu_kstack_pointer_def deref_def kstack_put_def kstack_valid_def
        same_vm_def on_cpu_def this_cpu_def this_kstack_def wp split: kstack_ref.splits)
qed

lemma same_vm_walk:
  assumes "same_vm t s"
  shows "walk t = walk s"
  using assms by (intro ext) (simp add: walk_def same_vm_def)

lemma trap_enter_vm:
  fixes s :: "'a mtrap_scheme"
  shows "same_vm (trap_enter s) s" "on_cpu (trap_enter s) = on_cpu s" "this_cpu (trap_enter s) = this_cpu s" "cr2 (trap_enter s) = cr2 s"
    "TRAP_HANDLER (trap_enter s) = TRAP_HANDLER s" "CURID (trap_enter s) = CURID s" "pcpu_tab (trap_enter s) = pcpu_tab s"
    "PDirPool_addr (trap_enter s) = PDirPool_addr s"
  by (simp_all add: trap_enter_def set_last_active_def set_cr3_def same_vm_def)

lemma pgflt_alloc:
  fixes s :: "'a mtrap_scheme"
  assumes "mpt_ok s" and "ct_is_used s pid" and "0 < pid" and "VM_USERLO \<le> cr2 s" and "cr2 s < VM_USERHI"
  defines "need \<equiv> (if PDirPool s pid (PDE_ADDR (cr2 s)) = 0 then 2 else 1)"
  obtains r u where "alloc_page pid (cr2 s) 7 (trap_enter s) = Ret (r, u)" and "mpt_ok u" and "vm_rest u = vm_rest (trap_enter s)"
    and "r = MagicNumber \<longleftrightarrow> ct_slack s pid < need"
    and "r \<noteq> MagicNumber \<Longrightarrow> \<exists>p. page_free s p \<and> walk u pid (cr2 s) = Some (push_bit 12 p OR (cr2 s AND 0xfff))"
    and "\<forall>i vb. i < NUM_IDS \<longrightarrow> \<not> (i = pid \<and> drop_bit 12 vb = drop_bit 12 (cr2 s)) \<longrightarrow> walk u i vb = walk s i vb"
proof -
  note vm = trap_enter_vm(1) [of s]
  have eq: "mpt_ok (trap_enter s)" "ct_is_used (trap_enter s) pid" "ct_slack (trap_enter s) pid = ct_slack s pid"
    "walk (trap_enter s) = walk s" "page_free (trap_enter s) = page_free s" "PDirPool (trap_enter s) = PDirPool s"
    using assms(1,2) same_vm_mpt [OF vm] same_vm_ct [OF vm] same_vm_walk [OF vm] vm
    by (simp_all add: trap_enter_vm page_free_def fun_eq_iff same_vm_def page_norm_def)
  have p: "unat (7 :: u32) < 4096" "(7 :: u32) AND PTE_P \<noteq> 0" by simp_all
  note a = alloc_page_walks [OF eq(1,2) assms(3-5) p, unfolded eq, folded need_def]
  obtain r u where "alloc_page pid (cr2 s) 7 (trap_enter s) = Ret (r, u)" "mpt_ok u" "vm_rest u = vm_rest (trap_enter s)"
    "if need \<le> ct_slack s pid
     then r \<noteq> MagicNumber \<and> (\<exists>p. page_free s p \<and> walk u pid (cr2 s) = Some (push_bit 12 p OR (cr2 s AND 0xfff)))
     else r = MagicNumber \<and> walk u pid (cr2 s) = walk s pid (cr2 s)"
    "\<forall>i vb. i < NUM_IDS \<longrightarrow> \<not> (i = pid \<and> drop_bit 12 vb = drop_bit 12 (cr2 s)) \<longrightarrow> walk u i vb = walk s i vb"
    using returns_ends [OF a alloc_page_rest] by (auto elim!: returnsE)
  then show thesis by (intro that [of r u]) (auto split: if_splits)
qed

lemma trap_fault:
  fixes s :: "'a mtrap_scheme"
  assumes "mpt_ok s" and "on_cpu s" and "ct_is_used s pid" and "0 < pid" and "VM_USERLO \<le> cr2 s" and "cr2 s < VM_USERHI"
    and "pid = CURID s (this_cpu s)" and "last_active s (this_cpu s) = pid"
    and "pcpu_kstack (pcpu_tab s (this_cpu s)) = Some ks" and "kstack_valid ks"
    and "tf_trapno tf = 14" and "TRAP_HANDLER s (this_cpu s) 14 = Some CB_exception_handler" and "tf_err tf AND 1 = 0"
  defines "need \<equiv> (if PDirPool s pid (PDE_ADDR (cr2 s)) = 0 then 2 else 1)"
  shows "if need \<le> ct_slack s pid then returns (trap w tf s) (\<lambda>(tf', t). tf' = tf \<and> mpt_ok t \<and>
        cr3 t = PDirPool_addr t + pid * 4096 \<and> last_active t (this_cpu s) = pid \<and>
        (\<exists>p. page_free s p \<and> walk t pid (cr2 s) = Some (push_bit 12 p OR (cr2 s AND 0xfff))) \<and>
        (\<forall>i vb. i < NUM_IDS \<longrightarrow> \<not> (i = pid \<and> drop_bit 12 vb = drop_bit 12 (cr2 s)) \<longrightarrow> walk t i vb = walk s i vb))
      else trap w tf s = Panic ''Page allocation failed: va = 0x%08x, errno = 0x%08x.''"
proof -
  have pid: "pid < NUM_IDS" using assms(3) by (simp add: ct_is_used_def)
  obtain r u where u: "alloc_page pid (cr2 s) 7 (trap_enter s) = Ret (r, u)" "mpt_ok u" "vm_rest u = vm_rest (trap_enter s)"
    "r = MagicNumber \<longleftrightarrow> ct_slack s pid < need"
    "r \<noteq> MagicNumber \<Longrightarrow> \<exists>p. page_free s p \<and> walk u pid (cr2 s) = Some (push_bit 12 p OR (cr2 s AND 0xfff))"
    "\<forall>i vb. i < NUM_IDS \<longrightarrow> \<not> (i = pid \<and> drop_bit 12 vb = drop_bit 12 (cr2 s)) \<longrightarrow> walk u i vb = walk s i vb"
    using pgflt_alloc [OF assms(1,3-6)] unfolding need_def by blast
  have h: "trap_handle w tf pid (trap_enter s) = (if r = MagicNumber
      then Panic ''Page allocation failed: va = 0x%08x, errno = 0x%08x.'' else Ret (tf, u))"
    using assms(2,7,11-13) u(1) get_curid_on_cpu [of "trap_enter s"]
    by (simp add: trap_handle_def trap_enter_vm call_handler_def exception_handler_def pgflt_handler_def)
  have t: "trap w tf s = andThen (trap_handle w tf pid (trap_enter s)) (\<lambda>(tf', u).
    andThen (trap_leave w (this_cpu s) pid pid u) (\<lambda>t. Ret (tf', t)))"
    using trap_on_cpu [OF assms(2,7), of w tf] assms(8,11) by simp
  note rest = vm_rest_eq [OF u(3)]
  have k: "on_cpu u" "this_cpu u = this_cpu s" "pcpu_tab u = pcpu_tab s"
    using assms(2) rest trap_enter_vm [of s]
    by (auto simp: on_cpu_def this_cpu_def this_kstack_def cong: kstack_ref.case_cong)
  have "returns (trap_leave w (this_cpu s) pid pid u) (\<lambda>t. same_vm t u \<and> on_cpu t \<and> cr3 t = PDirPool_addr t + pid * 4096 \<and>
      last_active t (this_cpu s) = pid)"
    unfolding trap_leave_def using assms(4) pid kstack_switch_returns [of u ks w pid] k assms(9,10)
    by (auto simp: wp set_last_active_def set_cr3_def same_vm_def elim!: returns_mono)
  then have l: "returns (trap_leave w (this_cpu s) pid pid u) (\<lambda>t. walk t = walk u \<and> mpt_ok t \<and>
      cr3 t = PDirPool_addr t + pid * 4096 \<and> last_active t (this_cpu s) = pid)"
    using u(2) k(1) by (auto elim!: returns_mono dest: same_vm_walk same_vm_mpt)
  show ?thesis
  proof (cases "need \<le> ct_slack s pid")
    case True
    then have "r \<noteq> MagicNumber" using u(4) by simp
    moreover from this obtain p where "page_free s p" "walk u pid (cr2 s) = Some (push_bit 12 p OR (cr2 s AND 0xfff))"
      using u(5) by blast
    ultimately show ?thesis
      using l u(6) True unfolding t h by (auto simp: wp elim!: returns_mono)
  next
    case False
    then show ?thesis using u(4) unfolding t h by simp
  qed
qed

section \<open>Quotas across system calls\<close>

lemma container_alloc_unchecked:
  fixes s :: "'a mcont_scheme"
  assumes "mat_ok s" and "i < NUM_IDS" and "container_lks s i = unlocked" and "page_free s q"
    and "ct_usage (CONTAINER s i) + 1 \<le>s ct_quota (CONTAINER s i)"
  shows "returns (container_alloc i s) (\<lambda>(p, t). page_free s p \<and> p \<noteq> 0 \<and> \<not> page_free t p)"
proof -
  define u where "u = s\<lparr>container_lks := (container_lks s)(i := held_by (this_cpu s)),
    CONTAINER := (CONTAINER s)(i := (CONTAINER s i)\<lparr>ct_usage := ct_usage (CONTAINER s i) + 1\<rparr>)\<rparr>"
  have on: "on_cpu s" using assms(1) by (simp add: mat_ok_def)
  have "mat_ok u" using assms(1) by (simp add: u_def)
  then show ?thesis
  proof (cases rule: palloc_cases)
    case full
    with assms(4) show ?thesis by (simp add: u_def)
  next
    case (page p)
    have "page_free s p" "user_page p" using page(1) first_free_free first_free_user by (auto simp: u_def)
    then show ?thesis
      using assms(2,3,5) on page(2)
      by (auto simp: container_alloc_def container_lock_def spinlock_acquire_unlocked u_def container_unlock_def
          page_free_def user_page_20)
  qed
qed

lemma quota_wrap:
  fixes s :: "'a mcont_scheme"
  assumes "cont_ok s" and "ct_is_used s i" and "ct_nchildren (CONTAINER s i) < MAX_CHILDREN" and "ct_child i s < NUM_IDS"
    and "ct_quota (CONTAINER s i) \<noteq> 0" and "page_free s q"
  shows "container_can_consume i (- ct_usage (CONTAINER s i)) s = Ret True"
    and "returns (container_split i (- ct_usage (CONTAINER s i)) s) (\<lambda>(c, t). c = ct_child i s \<and> AT t = AT s \<and>
      ct_usage (CONTAINER t i) = 0 \<and> ct_quota (CONTAINER t i) = ct_quota (CONTAINER s i) \<and>
      returns (container_alloc i t) (\<lambda>(p, u). page_free s p \<and> \<not> page_free u p))"
proof -
  have i: "i < NUM_IDS" using assms(2) by (simp add: ct_is_used_def)
  then show "container_can_consume i (- ct_usage (CONTAINER s i)) s = Ret True"
    by (simp add: container_can_consume_def)
  let ?t = "ct_gave i (- ct_usage (CONTAINER s i)) s"
  note ci = ct_child_unat(2) [OF i assms(3)]
  have q: "unat (ct_quota (CONTAINER s i)) \<le> 2 ^ 20" "1 \<le> unat (ct_quota (CONTAINER s i))"
    using assms(1,2,5) by (auto simp: cont_ok_def ct_quotas_def Suc_le_eq unat_gt_0)
  have pf: "page_free ?t = page_free s" by (simp add: ct_gave_def page_free_def page_norm_def fun_eq_iff)
  have "returns (container_alloc i ?t) (\<lambda>(p, u). page_free ?t p \<and> p \<noteq> 0 \<and> \<not> page_free u p)"
    by (rule container_alloc_unchecked [of _ _ q])
      (use assms(1,6) i q sle_unat [of 1 "ct_quota (CONTAINER s i)"] in \<open>auto simp: ct_gave_def cont_ok_def\<close>)
  then show "returns (container_split i (- ct_usage (CONTAINER s i)) s) (\<lambda>(c, t). c = ct_child i s \<and> AT t = AT s \<and>
      ct_usage (CONTAINER t i) = 0 \<and> ct_quota (CONTAINER t i) = ct_quota (CONTAINER s i) \<and>
      returns (container_alloc i t) (\<lambda>(p, u). page_free s p \<and> \<not> page_free u p))"
    unfolding container_split_eq [OF assms(1) i assms(3,4)] pf
    by (auto simp: ct_gave_def elim!: returns_mono)
qed

section \<open>Gates\<close>

definition gate_offset :: "gatedesc \<Rightarrow> u32" where
  "gate_offset g = push_bit 16 (ucast (gd_off_31_16 g)) OR ucast (gd_off_15_0 g)"

text \<open>
  The entry point that belongs to a trap number: for the exceptions that the processor raises, the sixteen interrupt lines and
  the system call the one that pushes this number, and the default one for the others, the reserved exceptions 9 and 15 among them.
\<close>

definition gate_symbol :: "u8 \<Rightarrow> string" where
  "gate_symbol i =
     (if i \<in> {0, 1, 2, 3, 4, 5, 6, 7, 8} \<union> {10, 11, 12, 13, 14} \<union> {16, 17, 18} \<union>
          {32, 33, 34, 35, 36, 37, 38, 39, 40, 41, 42, 43, 44, 45, 46, 47} \<union> {48}
      then case find (\<lambda>(name, num, ec). num = i) trap_handlers of None \<Rightarrow> [] | Some (name, _) \<Rightarrow> name
      else ''Xdefault'')"

lemma gate_symbol_entries:
  "(case map_of idt_entries i of None \<Rightarrow> ''Xdefault'' | Some (name, _) \<Rightarrow> name) = gate_symbol i"
proof (cases "map_of idt_entries i")
  case None
  then have "i \<notin> fst ` set idt_entries" by (simp add: map_of_eq_None_iff)
  then show ?thesis using None by (simp add: idt_entries_def gate_symbol_def)
next
  case (Some x)
  have "\<forall>(i, name, dpl) \<in> set idt_entries. gate_symbol i = name"
    by (simp add: idt_entries_def gate_symbol_def trap_handlers_def)
  with map_of_SomeD [OF Some] Some show ?thesis by (cases x) auto
qed

lemma gate_offset_SETGATE: "gate_offset (SETGATE b sel off dpl) = off"
proof -
  have m: "(0xffff :: u32) = mask 16" by (simp add: mask_eq_exp_minus_1)
  show ?thesis
    by (rule bit_word_eqI) (auto simp: gate_offset_def SETGATE_def m bit_simps)
qed

lemma fold_idt:
  assumes "distinct (map fst xs)"
  shows "fold (\<lambda>(i, name, dpl) s. s\<lparr>idt := (idt s)(i := g name dpl)\<rparr>) xs s =
    s\<lparr>idt := (\<lambda>i. case map_of xs i of None \<Rightarrow> idt s i | Some (name, dpl) \<Rightarrow> g name dpl)\<rparr>"
  using assms
proof (induction xs arbitrary: s)
  case (Cons x xs)
  obtain i name dpl where x: "x = (i, name, dpl)" by (cases x)
  have "map_of xs i = None" using Cons.prems x by (simp add: map_of_eq_None_iff)
  then have "(\<lambda>k. case map_of xs k of None \<Rightarrow> if k = i then g name dpl else idt s k | Some (name, dpl) \<Rightarrow> g name dpl) =
      (\<lambda>k. case map_of (x # xs) k of None \<Rightarrow> idt s k | Some (name, dpl) \<Rightarrow> g name dpl)"
    by (auto simp: x fun_eq_iff split: option.splits)
  then show ?case using Cons by (simp add: x cong: option.case_cong)
qed simp

lemma idt_distinct: "distinct (map fst idt_entries)"
  by (simp add: idt_entries_def)

lemma gate_dpl: "(case map_of idt_entries i of None \<Rightarrow> 0 | Some (_, dpl) \<Rightarrow> dpl) = (if i \<in> {3, 4, 48} then 3 else 0)"
  by (simp add: idt_entries_def)

section \<open>Properties\<close>

text \<open>
  A machine in which process 1 of a memory state has been interrupted by an access to the first user
  page, with the handlers that \<^verbatim>\<open>trap_init\<close> registers.
\<close>

definition trap_frame0 :: tf_t where
  "trap_frame0 = \<lparr>tf_regs = \<lparr>pr_edi = 0, pr_esi = 0, pr_ebp = 0, pr_oesp = 0, pr_ebx = 0, pr_edx = 0, pr_ecx = 0, pr_eax = 99\<rparr>,
     tf_es = 0x23, tf_ds = 0x23, tf_trapno = 48, tf_err = 0, tf_eip = 0x40000000, tf_cs = 0x1b, tf_eflags = 0x202,
     tf_esp = 0xefffffec, tf_ss = 0x23\<rparr>"

definition user_state :: "mpt \<Rightarrow> mtrap" where
  "user_state s = mproc.extend (mfile.extend (mino.extend (mlog.extend (mbuf.extend (mintr.extend (mcons.extend (mio.extend
     (mthr.extend (mpt.extend (s\<lparr>cr2 := 0x40000000, pcpu_tab := (\<lambda>c. (pcpu_tab s c)\<lparr>pcpu_kstack := Some (Bsp 0)\<rparr>)\<rparr>) (mthr.fields (\<lambda>_. 1)
        (\<lambda>p. \<lparr>kc_stack = Proc p, kc_esp = 4096, kc_edi = 0, kc_esi = 0, kc_ebx = 0, kc_ebp = 0, kc_eip = p\<rparr>)
        (\<lambda>_. tcb_dead) (\<lambda>_. \<lparr>tq_head = NUM_IDS, tq_tail = NUM_IDS\<rparr>) unlocked (\<lambda>_. 0)))
     (mio.fields []))
     (mcons.fields 0x3D4 \<lparr>crt_buf = 0xB8000, crt_pos = 0, active_console = 0\<rparr> True
        \<lparr>cons_buf = (\<lambda>_. 0), cons_rpos = 0, cons_wpos = 0\<rparr> unlocked (\<lambda>_. 0) 0 (rl_held 0 0)))
     (mintr.fields 0xffff True 0 (\<lambda>_. 0) (\<lambda>_. 0) (\<lambda>_. 0) 0 0 0 True (\<lambda>_. SETGATE False 8 0 0) True 1000000 1 False True
        (\<lambda>_. \<lparr>pi_lapicid = 0, pi_bsp = True, pi_cpuid_high = 0, pi_vendor = (0, 0, 0), pi_cpu_vendor = INTEL, pi_family = 0, pi_model = 0,
           pi_step = 0, pi_ext_family = 0, pi_ext_model = 0, pi_brand_idx = 0, pi_clflush_size = 0, pi_max_cpu_id = 0, pi_apic_id = 0,
           pi_feature1 = 0, pi_feature2 = 0, pi_l1_cache_size = 0, pi_l1_cache_line_size = 0, pi_cpuid_exthigh = 0\<rparr>)))
     (mbuf.fields unlocked None True unlocked
        (\<lambda>_. \<lparr>b_flags = 0, b_dev = 0, b_sector = 0, b_prev = 0, b_next = 0, b_qnext = None, b_data = (\<lambda>_. 0)\<rparr>)))
     (mlog.fields \<lparr>log_lock = unlocked, log_start = 0, log_size = 0, log_busy = 0, log_dev = 0, log_lh = \<lparr>lh_n = 0, lh_sector = (\<lambda>_. 0)\<rparr>\<rparr>))
     (mino.fields unlocked (\<lambda>_. \<lparr>i_dev = 0, i_inum = 0, i_ref = 0, i_flags = 0, i_type = 0, i_major = 0, i_minor = 0, i_nlink = 0,
        i_size = 0, i_addrs = (\<lambda>_. 0)\<rparr>)))
     (mfile.fields unlocked (\<lambda>_. \<lparr>f_type = FD_NONE, f_ref = 0, f_readable = False, f_writable = False, f_ip = None, f_off = 0\<rparr>)))
     (mproc.fields (\<lambda>_. trap_frame0) True (\<lambda>_. 1) True))
     (mtrap.fields (\<lambda>_. trap_handler_for) True)"

lemma user_state_simps:
  "same_vm (user_state s) s" "on_cpu (user_state s) = on_cpu s" "this_cpu (user_state s) = this_cpu s"
  "CURID (user_state s) c = 1" "last_active (user_state s) c = 1" "TRAP_HANDLER (user_state s) c = trap_handler_for"
  "cr2 (user_state s) = 0x40000000" "pcpu_kstack (pcpu_tab (user_state s) c) = Some (Bsp 0)" "PDirPool (user_state s) = PDirPool s"
  by (simp_all add: user_state_def mproc.defs mfile.defs mino.defs mlog.defs mbuf.defs mintr.defs mcons.defs mio.defs mthr.defs
      mpt.defs mtrap.defs same_vm_def on_cpu_def this_cpu_def this_kstack_def cong: kstack_ref.case_cong)

lemma user_state_run:
  "returns mpt_run (\<lambda>s. mpt_ok (user_state s) \<and> on_cpu (user_state s) \<and> ct_is_used (user_state s) 1 \<and>
     ct_slack (user_state s) 1 = 2 \<and> PDirPool (user_state s) 1 256 = 0)"
proof (rule returns_mono [OF mpt_run_ok])
  fix s :: mpt
  assume s: "mpt_ok s \<and> ct_is_used s 1 \<and> ct_slack s 1 = 2 \<and> PDirPool s 1 256 = 0"
  then have "on_cpu s" by (simp add: mpt_ok_def cont_ok_def mat_ok_def)
  then show "mpt_ok (user_state s) \<and> on_cpu (user_state s) \<and> ct_is_used (user_state s) 1 \<and>
     ct_slack (user_state s) 1 = 2 \<and> PDirPool (user_state s) 1 256 = 0"
    using s same_vm_mpt [OF user_state_simps(1,2)] same_vm_ct [OF user_state_simps(1)] by (simp add: user_state_simps)
qed

text \<open>
  (C6) A page fault, from the trap to the return to the process. If the process that runs in user mode
  touches an unmapped address of the user range and has quota for the page (and for a page table,
  when there is none), \<^verbatim>\<open>trap\<close> returns the frame unchanged, in the address space of the process, with
  the address mapped to a page that was free, every other translation as before and the invariant
  kept. Without quota the kernel panics.
\<close>

theorem trap_page_fault:
  fixes s :: "'a mtrap_scheme"
  assumes "mpt_ok s" and "on_cpu s" and "ct_is_used s pid" and "0 < pid" and "VM_USERLO \<le> cr2 s" and "cr2 s < VM_USERHI"
    and "pid = CURID s (this_cpu s)" and "last_active s (this_cpu s) = pid"
    and "pcpu_kstack (pcpu_tab s (this_cpu s)) = Some ks" and "kstack_valid ks"
    and "tf_trapno tf = 14" and "TRAP_HANDLER s (this_cpu s) 14 = Some CB_exception_handler" and "tf_err tf AND 1 = 0"
  shows "if (if PDirPool s pid (PDE_ADDR (cr2 s)) = 0 then 2 else 1) \<le> ct_slack s pid
    then returns (trap w tf s) (\<lambda>(tf', t). tf' = tf \<and> mpt_ok t \<and>
        cr3 t = PDirPool_addr t + pid * 4096 \<and> last_active t (this_cpu s) = pid \<and>
        (\<exists>p. page_free s p \<and> walk t pid (cr2 s) = Some (push_bit 12 p OR (cr2 s AND 0xfff))) \<and>
        (\<forall>i vb. i < NUM_IDS \<longrightarrow> \<not> (i = pid \<and> drop_bit 12 vb = drop_bit 12 (cr2 s)) \<longrightarrow> walk t i vb = walk s i vb))
    else trap w tf s = Panic ''Page allocation failed: va = 0x%08x, errno = 0x%08x.''"
  by (rule trap_fault [OF assms])

theorem trap_page_fault_witness:
  "returns mpt_run (\<lambda>s. returns (trap uart_world (trap_frame0\<lparr>tf_trapno := 14\<rparr>) (user_state s)) (\<lambda>(_, t). mpt_ok t \<and>
     (\<exists>p. page_free (user_state s) p \<and> walk t 1 0x40000000 = Some (push_bit 12 p))))"
proof (rule returns_mono [OF user_state_run])
  fix s :: mpt
  assume s: "mpt_ok (user_state s) \<and> on_cpu (user_state s) \<and> ct_is_used (user_state s) 1 \<and>
     ct_slack (user_state s) 1 = 2 \<and> PDirPool (user_state s) 1 256 = 0"
  show "returns (trap uart_world (trap_frame0\<lparr>tf_trapno := 14\<rparr>) (user_state s)) (\<lambda>(_, t). mpt_ok t \<and>
     (\<exists>p. page_free (user_state s) p \<and> walk t 1 0x40000000 = Some (push_bit 12 p)))"
    using trap_page_fault [of "user_state s" 1 "Bsp 0" "trap_frame0\<lparr>tf_trapno := 14\<rparr>" uart_world] s
    by (auto simp: user_state_simps kstack_valid_def trap_handler_for_def trap_frame0_def PDE_ADDR_def elim!: returns_mono)
qed

text \<open>
  (C7) Whatever trap it is, if \<^verbatim>\<open>trap\<close> comes back, it comes back to the interrupted code: segments, stack,
  program counter and flags of the frame are as they were, only \<^verbatim>\<open>eax\<close> and \<^verbatim>\<open>ebx\<close> may differ, and those
  only after a system call. A trap from user mode returns with the page directory of the process
  loaded and the CPU marked as running that process.
\<close>

theorem trap_restores:
  assumes "on_cpu s" and "trap w tf s = Ret (tf', t)" and "pid = CURID s (this_cpu s)"
  shows "tf' = tf\<lparr>tf_regs := (tf_regs tf)\<lparr>pr_eax := pr_eax (tf_regs tf'), pr_ebx := pr_ebx (tf_regs tf')\<rparr>\<rparr> \<and>
    (TRAP_HANDLER s (this_cpu s) (tf_trapno tf) \<noteq> Some CB_syscall_dispatch \<longrightarrow> tf' = tf) \<and>
    (last_active s (this_cpu s) \<noteq> 0 \<longrightarrow> cr3 t = PDirPool_addr t + pid * 4096 \<and>
      last_active t (this_cpu s) = last_active s (this_cpu s))"
proof -
  obtain u where u: "trap_handle w tf pid (trap_enter s) = Ret (tf', u)"
    "trap_leave w (this_cpu s) pid (last_active s (this_cpu s)) u = Ret t"
    using assms(2) unfolding trap_on_cpu [OF assms(1,3)] by (auto simp: bounded_def andThen_eq_Ret split: if_splits)
  show ?thesis
    using endsD [OF trap_handle_frame u(1)] endsD [OF trap_leave_space u(2)]
    by (auto simp: trap_enter_vm same_frame_def)
qed

theorem trap_restores_witness:
  "returns mpt_run (\<lambda>s. \<exists>t. trap uart_world trap_frame0 (user_state s) =
      Ret (trap_frame0\<lparr>tf_regs := (tf_regs trap_frame0)\<lparr>pr_eax := E_INVAL_CALLNR\<rparr>\<rparr>, t) \<and> cr3 t = PDirPool_addr t + 4096)"
proof (rule returns_mono [OF user_state_run])
  fix s :: mpt
  assume "mpt_ok (user_state s) \<and> on_cpu (user_state s) \<and> ct_is_used (user_state s) 1 \<and>
     ct_slack (user_state s) 1 = 2 \<and> PDirPool (user_state s) 1 256 = 0"
  then have on: "on_cpu (user_state s)" by simp
  let ?s = "user_state s" and ?f = "trap_frame0\<lparr>tf_regs := (tf_regs trap_frame0)\<lparr>pr_eax := E_INVAL_CALLNR\<rparr>\<rparr>"
  have h: "trap_handle uart_world trap_frame0 1 (trap_enter ?s) = Ret (?f, trap_enter ?s)"
    by (simp add: trap_handle_def trap_enter_vm user_state_simps trap_handler_for_def call_handler_def syscall_dispatch_def
        syscall_get_arg1_def syscall_set_errno_def trap_frame0_def)
  let ?w = "uart_world :: mtrap world"
  have "returns (kstack_switch ?w 1 (trap_enter ?s)) (\<lambda>_. True)"
    using kstack_switch_returns [of "trap_enter ?s" "Bsp 0" ?w 1] on
    by (auto simp: trap_enter_vm user_state_simps kstack_valid_def elim!: returns_mono)
  then obtain v where v: "kstack_switch ?w 1 (trap_enter ?s) = Ret v" by (auto simp: returns_iff)
  then obtain t where t: "trap_leave ?w (this_cpu ?s) 1 1 (trap_enter ?s) = Ret t" by (simp add: trap_leave_def)
  have "trap uart_world trap_frame0 ?s = Ret (?f, t)"
    using h t trap_on_cpu [OF on, of 1 uart_world trap_frame0] by (simp add: user_state_simps trap_frame0_def)
  then show "\<exists>t. trap uart_world trap_frame0 ?s = Ret (?f, t) \<and> cr3 t = PDirPool_addr t + 4096"
    using trap_restores [OF on, of uart_world trap_frame0 ?f t 1] by (auto simp: user_state_simps)
qed

text \<open>
  (C36) Every gate of the table that \<^verbatim>\<open>intr_init_idt\<close> fills is a present interrupt gate into the kernel's
  code segment, at the entry point of \<^verbatim>\<open>idt.S\<close> that pushes its trap number, or the default one. A program in user mode can
  enter the kernel by an instruction through three of the 256 gates only: breakpoint, overflow and the
  system call.
\<close>

theorem idt_gates:
  "\<exists>t. intr_init_idt w s = Ret t \<and> (\<forall>i. gate_offset (idt t i) = w_local w (gate_symbol i) \<and>
     gd_dpl (idt t i) = (if i \<in> {3, 4, 48} then 3 else 0) \<and> gd_type (idt t i) = 0xE \<and> gd_ss (idt t i) = 0x08 \<and> gd_p (idt t i) = 1)"
proof -
  let ?g = "\<lambda>i. case map_of idt_entries i of None \<Rightarrow> SETGATE False 8 (w_local w ''Xdefault'') 0
    | Some (name, dpl) \<Rightarrow> SETGATE False 8 (w_local w name) dpl"
  have g: "?g i = SETGATE False 8 (w_local w (gate_symbol i)) (case map_of idt_entries i of None \<Rightarrow> 0 | Some (_, dpl) \<Rightarrow> dpl)" for i
    unfolding gate_symbol_entries [symmetric] by (auto split: option.splits)
  have "intr_init_idt w s = Ret (s\<lparr>idt := ?g\<rparr>)"
    unfolding intr_init_idt_def Let_def by (subst fold_idt [OF idt_distinct]) (simp cong: option.case_cong)
  then show ?thesis unfolding g gate_dpl by (auto simp: gate_offset_SETGATE) (simp_all add: SETGATE_def)
qed

text \<open>
  (C37) The quota check of \<^verbatim>\<open>sys_spawn\<close> can be passed with a quota that wraps around. A process that has
  used up its quota gets no page; when it asks for a child with the negated usage as quota, the check
  \<^verbatim>\<open>container_can_consume\<close> accepts it, \<^verbatim>\<open>container_split\<close> sets the usage of the parent to 0, although it
  still holds its pages, and the next \<^verbatim>\<open>container_alloc\<close> hands out a page beyond the quota.
\<close>

theorem spawn_quota_wraps:
  assumes "cont_ok s" and "ct_is_used s i" and "ct_nchildren (CONTAINER s i) < MAX_CHILDREN"
    and "i * MAX_CHILDREN + 1 + ct_nchildren (CONTAINER s i) < NUM_IDS"
    and "ct_usage (CONTAINER s i) = ct_quota (CONTAINER s i)" and "ct_quota (CONTAINER s i) \<noteq> 0" and "page_free s q"
  shows "container_alloc i s = Ret (0, s) \<and>
    container_can_consume i (- ct_usage (CONTAINER s i)) s = Ret True \<and>
    returns (container_split i (- ct_usage (CONTAINER s i)) s) (\<lambda>(c, t). c < NUM_IDS \<and> AT t = AT s \<and>
      ct_usage (CONTAINER t i) = 0 \<and> ct_quota (CONTAINER t i) = ct_quota (CONTAINER s i) \<and>
      returns (container_alloc i t) (\<lambda>(p, u). page_free s p \<and> \<not> page_free u p))"
proof -
  have c: "ct_child i s < NUM_IDS" using assms(4) by (simp add: ct_child_def)
  have "ct_slack s i = 0" using assms(5) by (simp add: ct_slack_def)
  then show ?thesis
    using container_alloc_full [OF assms(1,2)] quota_wrap [OF assms(1-3) c assms(6,7)] c by (auto elim!: returns_mono)
qed

text \<open>A child of the root container that has used its quota of one page.\<close>

lemma cont_full:
  obtains p where "cont_ok (ct_took 1 p (ct_gave 0 1 cont_boot))" and "p \<in> {0x40001, 0x40002}"
proof -
  have g: "cont_ok (ct_gave 0 1 cont_boot)" "ct_is_used (ct_gave 0 1 cont_boot) 1" "ct_slack (ct_gave 0 1 cont_boot) 1 = 1"
    using container_split_ok [OF cont_boot_ok, of 0 1] container_split_eq [OF cont_boot_ok, of 0 1]
    by (auto simp: ct_child_def ct_slack_def [of cont_boot])
  obtain p where p: "first_free (ct_gave 0 1 cont_boot) p"
    "container_alloc 1 (ct_gave 0 1 cont_boot) = Ret (p, ct_took 1 p (ct_gave 0 1 cont_boot))"
    using container_alloc_page [OF g(1,2)] g(3) by auto
  have "page_norm cont_boot p" using first_free_free [OF p(1)] by (simp add: ct_gave_def page_free_def page_norm_def)
  then have "p \<in> {0x40001, 0x40002}" using mat_boot_pages [of p] by (simp add: page_norm_def)
  with p(2) container_alloc_ok [OF g(1,2)] show thesis by (auto intro: that)
qed

theorem spawn_quota_wraps_witness:
  "\<exists>s :: mcont. container_alloc 1 s = Ret (0, s) \<and> container_can_consume 1 (- 1) s = Ret True \<and>
     returns (container_split 1 (- 1) s) (\<lambda>(c, t). AT t = AT s \<and> returns (container_alloc 1 t) (\<lambda>(p, u). page_free s p \<and> \<not> page_free u p))"
proof -
  obtain p where p: "cont_ok (ct_took 1 p (ct_gave 0 1 cont_boot))" "p \<in> {0x40001, 0x40002}" by (rule cont_full)
  let ?s = "ct_took 1 p (ct_gave 0 1 cont_boot)" and ?q = "if p = 0x40001 then 0x40002 else 0x40001 :: u32"
  have s: "CONTAINER ?s 1 = \<lparr>ct_quota = 1, ct_usage = 1, ct_parent = 0, ct_nchildren = 0, ct_used = 1\<rparr>"
    by (simp add: ct_took_def ct_gave_def ct_child_def)
  have "page_free ?s ?q"
    using p(2) mat_boot_pages [of ?q] by (auto simp: page_free_def page_norm_def ct_took_def ct_gave_def mat_boot_defs)
  then show ?thesis
    using spawn_quota_wraps [of ?s 1 ?q] p(1) by (intro exI [of _ ?s]) (auto simp: s ct_is_used_def elim!: returns_mono)
qed

end
