(* ===== verification/Ide_Spec.thy ===== *)
theory Ide_Spec
  imports Ide Partial Console_Spec "HOL-Library.Sublist"
begin

unbundle bit_operations_syntax

text \<open>
  What the disk driver promises to a thread that is alone: \<^verbatim>\<open>ide_rw\<close> moves one sector between a buffer and
  the disk and comes back. The disk is the ATA device that the port traffic drives; it answers a
  command while the thread sleeps.
\<close>

lemma disk_frame [simp]:
  "this_cpu (s\<lparr>ide_lk := a\<rparr>) = this_cpu s" "on_cpu (s\<lparr>ide_lk := a\<rparr>) = on_cpu s"
  "this_cpu (s\<lparr>idequeue := b\<rparr>) = this_cpu s" "on_cpu (s\<lparr>idequeue := b\<rparr>) = on_cpu s"
  "this_cpu (s\<lparr>bcache_lock := d\<rparr>) = this_cpu s" "on_cpu (s\<lparr>bcache_lock := d\<rparr>) = on_cpu s"
  "this_cpu (s\<lparr>bufs := e\<rparr>) = this_cpu s" "on_cpu (s\<lparr>bufs := e\<rparr>) = on_cpu s"
  "this_cpu (buf_put i f s) = this_cpu s" "on_cpu (buf_put i f s) = on_cpu s"
  by (simp_all add: buf_put_def on_cpu_def this_cpu_def this_kstack_def cong: kstack_ref.case_cong)

section \<open>A thread that is alone\<close>

text \<open>
  No thread sleeps, and no thread but the running one may be in the ready queue (where \<^verbatim>\<open>thread_wakeup\<close> puts a
  thread that went to sleep with nobody to switch to).
\<close>

definition alone :: "u32 \<Rightarrow> 'a mthr_scheme \<Rightarrow> bool" where
  "alone c s \<longleftrightarrow> on_cpu s \<and> sched_lk s = unlocked \<and> CURID s (this_cpu s) = c \<and> c < NUM_IDS \<and>
     (\<forall>p < NUM_IDS. tcb_state (TCBPool s p) \<noteq> TSTATE_SLEEP) \<and>
     (\<exists>Q. queues s Q \<and> set (Q NUM_IDS) \<subseteq> {c} \<and> (\<forall>q < NUM_QUEUES. q \<noteq> NUM_IDS \<longrightarrow> c \<notin> set (Q q)))"

definition asleep :: "u32 \<Rightarrow> u32 \<Rightarrow> 'a mthr_scheme \<Rightarrow> bool" where
  "asleep chan c s \<longleftrightarrow> on_cpu s \<and> sched_lk s = unlocked \<and> CURID s (this_cpu s) = c \<and> c < NUM_IDS \<and>
     (\<forall>p < NUM_IDS. tcb_state (TCBPool s p) = TSTATE_SLEEP \<longleftrightarrow> p = c) \<and> tcb_channel (TCBPool s c) = chan \<and>
     (\<exists>Q. queues s Q \<and> Q NUM_IDS = [] \<and> in_no_queue Q c)"

text \<open>Everything but the scheduler's own data.\<close>

definition sched_rest :: "'a mthr_scheme \<Rightarrow> 'a mthr_scheme" where
  "sched_rest s = s\<lparr>TCBPool := (\<lambda>_. tcb_dead), TQueuePool := (\<lambda>_. \<lparr>tq_head = 0, tq_tail = 0\<rparr>),
     kctx_pool := (\<lambda>_. \<lparr>kc_stack = Proc 0, kc_esp = 0, kc_edi = 0, kc_esi = 0, kc_ebx = 0, kc_ebp = 0, kc_eip = 0\<rparr>), sched_lk := unlocked\<rparr>"

lemma sched_rest_simps [simp]:
  "sched_rest (s\<lparr>TCBPool := a\<rparr>) = sched_rest s" "sched_rest (s\<lparr>TQueuePool := b\<rparr>) = sched_rest s"
  "sched_rest (s\<lparr>kctx_pool := k\<rparr>) = sched_rest s" "sched_rest (s\<lparr>sched_lk := l\<rparr>) = sched_rest s"
  "sched_rest (sched_release s) = sched_rest s"
  by (simp_all add: sched_rest_def sched_release_def)

lemma unlinked_rest: "unlinked t = unlinked s \<Longrightarrow> sched_rest t = sched_rest s"
proof -
  assume u: "unlinked t = unlinked s"
  have "sched_rest (unlinked s) = sched_rest s" for s :: "'a mthr_scheme" by (simp add: unlinked_def)
  with u show ?thesis by metis
qed

abbreviation (input) sched_kept :: "'a mthr_scheme \<Rightarrow> 'a mthr_scheme outcome \<Rightarrow> bool" where
  "sched_kept s r \<equiv> ends r (\<lambda>t. sched_rest t = sched_rest s)"

lemmas tcb_defs = tcb_put_def tcb_get_state_def tcb_get_chan_def tcb_set_state_def tcb_set_chan_def tcb_set_prev_def tcb_set_next_def
  tcb_get_next_def tqueue_put_def tqueue_set_head_def tqueue_set_tail_def tqueue_get_tail_def tqueue_get_head_def

lemma tqueue_enqueue_rest: "sched_kept s (tqueue_enqueue q p s)"
  by (simp add: tqueue_enqueue_def tcb_defs pc)

lemma thread_wakeup_rest: "sched_kept s (thread_wakeup chan s)"
proof -
  have "ends (forM (range32 0 64) (\<lambda>i s. andThen (tcb_get_state i s) (\<lambda>st. andThen (tcb_get_chan i s) (\<lambda>ch.
       if st = TSTATE_SLEEP \<and> ch = chan then
         andThen (tcb_set_state i TSTATE_READY s) (\<lambda>s. andThen (tcb_set_chan i 0 s) (\<lambda>s. tqueue_enqueue NUM_IDS i s))
       else Ret s))) u) (\<lambda>t. sched_rest t = sched_rest s)" if "sched_rest u = sched_rest s" for u
    by (rule ends_forM) (use that in \<open>auto simp: tcb_defs pc intro!: ends_mono [OF tqueue_enqueue_rest]\<close>)
  then show ?thesis
    unfolding thread_wakeup_def sched_acquire_def by (auto simp: pc intro!: endsI dest: endsD)
qed

lemma tcb_queues_put:
  "queues (s\<lparr>TCBPool := (TCBPool s)(p := (TCBPool s p)\<lparr>tcb_state := a, tcb_channel := b\<rparr>)\<rparr>) Q = queues s Q"
  "queues (s\<lparr>TCBPool := (TCBPool s)(p := (TCBPool s p)\<lparr>tcb_channel := b\<rparr>)\<rparr>) Q = queues s Q"
  by (auto intro!: queues_tcb)

lemma distinct_single:
  assumes "distinct xs" and "set xs \<subseteq> {c}"
  shows "xs = [] \<or> xs = [c]"
proof (cases xs)
  case (Cons x ys)
  then have "x = c" "c \<notin> set ys" "set ys \<subseteq> {c}" using assms by auto
  then show ?thesis using Cons by (cases ys) auto
qed simp

lemma sleep_alone:
  fixes s :: "'a mbuf_scheme"
  assumes "alone c s"
  shows "returns (thread_sleep chan (Some (ide_lk, \<lambda>l s. s\<lparr>ide_lk := l\<rparr>)) s)
    (\<lambda>t. asleep chan c t \<and> sched_rest t = sched_rest (s\<lparr>ide_lk := unlocked\<rparr>))"
proof -
  obtain Q where a: "on_cpu s" "sched_lk s = unlocked" "CURID s (this_cpu s) = c" "c < NUM_IDS"
    "\<forall>p < NUM_IDS. tcb_state (TCBPool s p) \<noteq> TSTATE_SLEEP"
    and Q: "queues s Q" "set (Q NUM_IDS) \<subseteq> {c}" "\<forall>q < NUM_QUEUES. q \<noteq> NUM_IDS \<longrightarrow> c \<notin> set (Q q)"
    using assms by (auto simp: alone_def)
  define u where "u = s\<lparr>TCBPool := (TCBPool s)(c := (TCBPool s c)\<lparr>tcb_state := TSTATE_SLEEP, tcb_channel := chan\<rparr>), ide_lk := unlocked, sched_lk := unlocked\<rparr>"
  have "queues (s\<lparr>TCBPool := (TCBPool s)(c := (TCBPool s c)\<lparr>tcb_state := TSTATE_SLEEP, tcb_channel := chan\<rparr>)\<rparr>) Q"
    using Q(1) by (simp only: tcb_queues_put)
  then have "queues u Q" by (simp add: u_def queues_def queue_is_def)
  then obtain y t where t: "tqueue_dequeue NUM_IDS u = Ret (y, t)" "y = hd (Q NUM_IDS @ [NUM_IDS])"
    "queues t (Q(NUM_IDS := tl (Q NUM_IDS)))" "unlinked t = unlinked u"
    using tq.deq_law [of u Q NUM_IDS] by (auto elim!: returnsE)
  have "distinct (Q NUM_IDS)" using Q(1) by (simp add: queues_def)
  then have "Q NUM_IDS = [] \<or> Q NUM_IDS = [c]" using Q(2) by (rule distinct_single)
  then have y: "(if y = NUM_IDS then c else y) = c" "tl (Q NUM_IDS) = []"
    using t(2) by auto
  note f = unlinked_same [OF t(4)] unlinked_cpu [OF t(4)]
  define v where "v = t\<lparr>kctx_pool := (kctx_pool t)(c := cswitch_save t)\<rparr>"
  have "cswitch_load (cswitch_save t) v = v"
    by (simp add: cswitch_load_def cswitch_save_def v_def)
  then have "thread_sleep chan (Some (ide_lk, \<lambda>l s. s\<lparr>ide_lk := l\<rparr>)) s = Ret v"
    using a t(1) y(1)
    by (simp add: thread_sleep_def get_curid_eq sched_acquire_eq tcb_ops sched_release_def u_def kctx_switch_def v_def Let_def)
  moreover have "asleep chan c v"
  proof -
    have "queues v (Q(NUM_IDS := []))" using t(3) y(2) by (simp add: v_def)
    moreover have "in_no_queue (Q(NUM_IDS := [])) c" using Q(3) by (auto simp: in_no_queue_def)
    ultimately show ?thesis
      using a f by (auto simp: asleep_def v_def u_def intro!: exI [of _ "Q(NUM_IDS := [])"])
  qed
  moreover have "sched_rest v = sched_rest (s\<lparr>ide_lk := unlocked\<rparr>)"
    using unlinked_rest [OF t(4)] by (simp add: v_def u_def sched_rest_def)
  ultimately show ?thesis by simp
qed

lemma wakeup_asleep:
  assumes "asleep chan c s"
  shows "returns (thread_wakeup chan s) (\<lambda>t. alone c t \<and> sched_rest t = sched_rest s)"
proof -
  obtain Q where a: "on_cpu s" "sched_lk s = unlocked" "CURID s (this_cpu s) = c" "c < NUM_IDS"
    "\<forall>p < NUM_IDS. tcb_state (TCBPool s p) = TSTATE_SLEEP \<longleftrightarrow> p = c" "tcb_channel (TCBPool s c) = chan"
    and Q: "queues s Q" "Q NUM_IDS = []" "in_no_queue Q c"
    using assms by (auto simp: asleep_def)
  have sl: "sleeper chan s p \<longleftrightarrow> p = c" if "p < NUM_IDS" for p using a(5,6) that by (auto simp: sleeper_def)
  have "set (filter (sleeper chan s) (range32 0 64)) \<subseteq> {c}"
    using sl by (auto simp: set_range32 u32_less_nat)
  moreover have "c \<notin> set (Q q)" if "q < NUM_QUEUES" for q using Q(3) that by (simp add: in_no_queue_def)
  ultimately have "alone c t" if "sched_lk t = unlocked \<and> woken chan s {p. p < NUM_IDS} Q (filter (sleeper chan s) (range32 0 64)) t" for t
    using that a sl Q(2) unfolding alone_def woken_def by (auto intro!: exI [of _ "Q(NUM_IDS := Q NUM_IDS @ filter (sleeper chan s) (range32 0 64))"])
  moreover have "in_no_queue Q p" if "p < NUM_IDS" "sleeper chan s p" for p using that sl Q(3) by blast
  ultimately show ?thesis
    by (intro returns_mono [OF returns_ends [OF thread_wakeup_ok [OF a(1,2) Q(1), of chan] thread_wakeup_rest]]) auto
qed

lemma wakeup_alone:
  assumes "alone c s"
  shows "returns (thread_wakeup chan s) (\<lambda>t. alone c t \<and> sched_rest t = sched_rest s)"
proof -
  obtain Q where a: "on_cpu s" "sched_lk s = unlocked" "CURID s (this_cpu s) = c" "c < NUM_IDS"
    "\<forall>p < NUM_IDS. tcb_state (TCBPool s p) \<noteq> TSTATE_SLEEP"
    and Q: "queues s Q" "set (Q NUM_IDS) \<subseteq> {c}" "\<forall>q < NUM_QUEUES. q \<noteq> NUM_IDS \<longrightarrow> c \<notin> set (Q q)"
    using assms by (auto simp: alone_def)
  have sl: "\<not> sleeper chan s p" if "p < NUM_IDS" for p using a(5) that by (auto simp: sleeper_def)
  then have e: "filter (sleeper chan s) (range32 0 64) = []"
    by (auto simp: filter_empty_conv set_range32 u32_less_nat)
  have "alone c t" if "sched_lk t = unlocked \<and> woken chan s {p. p < NUM_IDS} Q [] t" for t
    using that a sl Q unfolding alone_def woken_def by (auto intro!: exI [of _ Q])
  then show ?thesis
    using sl by (intro returns_mono [OF returns_ends [OF thread_wakeup_ok [OF a(1,2) Q(1), of chan] thread_wakeup_rest]])
      (auto simp: e)
qed

lemma resume_alone:
  fixes s :: "'a mbuf_scheme"
  assumes "alone c s" and "ide_lk s = unlocked"
  shows "returns (thread_sleep_resume c (Some (ide_lk, \<lambda>l s. s\<lparr>ide_lk := l\<rparr>)) s)
    (\<lambda>t. alone c t \<and> sched_rest t = sched_rest (s\<lparr>ide_lk := held_by (this_cpu s)\<rparr>))"
proof -
  obtain Q where a: "on_cpu s" "sched_lk s = unlocked" "CURID s (this_cpu s) = c" "c < NUM_IDS"
    "\<forall>p < NUM_IDS. tcb_state (TCBPool s p) \<noteq> TSTATE_SLEEP"
    and Q: "queues s Q" "set (Q NUM_IDS) \<subseteq> {c}" "\<forall>q < NUM_QUEUES. q \<noteq> NUM_IDS \<longrightarrow> c \<notin> set (Q q)"
    using assms by (auto simp: alone_def)
  let ?t = "s\<lparr>TCBPool := (TCBPool s)(c := (TCBPool s c)\<lparr>tcb_channel := 0\<rparr>), ide_lk := held_by (this_cpu s), sched_lk := unlocked\<rparr>"
  have "thread_sleep_resume c (Some (ide_lk, \<lambda>l s. s\<lparr>ide_lk := l\<rparr>)) s = Ret ?t"
    using a assms(2) by (simp add: thread_sleep_resume_def sched_acquire_eq tcb_ops spinlock_acquire_unlocked sched_release_def)
  moreover have "queues (s\<lparr>TCBPool := (TCBPool s)(c := (TCBPool s c)\<lparr>tcb_channel := 0\<rparr>)\<rparr>) Q"
    using Q(1) by (simp only: tcb_queues_put)
  then have "queues ?t Q" by (simp add: queues_def queue_is_def)
  then have "alone c ?t"
    using a Q(2,3) by (auto simp: alone_def intro!: exI [of _ Q])
  moreover have "sched_rest ?t = sched_rest (s\<lparr>ide_lk := held_by (this_cpu s)\<rparr>)" by (simp add: sched_rest_def)
  ultimately show ?thesis by simp
qed

lemma queues_disk [simp]:
  "queues (s\<lparr>ide_lk := a\<rparr>) Q = queues s Q" "queues (s\<lparr>idequeue := b\<rparr>) Q = queues s Q" "queues (s\<lparr>io := d\<rparr>) Q = queues s Q"
  "queues (s\<lparr>bufs := e\<rparr>) Q = queues s Q" "queues (s\<lparr>bcache_lock := a\<rparr>) Q = queues s Q" "queues (buf_put i f s) Q = queues s Q"
  by (simp_all add: queues_def queue_is_def buf_put_def)

lemma alone_disk [simp]:
  "alone c (s\<lparr>ide_lk := a\<rparr>) = alone c s" "alone c (s\<lparr>idequeue := b\<rparr>) = alone c s" "alone c (s\<lparr>io := d\<rparr>) = alone c s"
  "alone c (s\<lparr>bufs := e\<rparr>) = alone c s" "alone c (s\<lparr>bcache_lock := a\<rparr>) = alone c s" "alone c (buf_put i f s) = alone c s"
  "asleep ch c (s\<lparr>ide_lk := a\<rparr>) = asleep ch c s" "asleep ch c (s\<lparr>idequeue := b\<rparr>) = asleep ch c s" "asleep ch c (s\<lparr>io := d\<rparr>) = asleep ch c s"
  "asleep ch c (s\<lparr>bufs := e\<rparr>) = asleep ch c s" "asleep ch c (buf_put i f s) = asleep ch c s"
  by (simp_all add: alone_def asleep_def) (simp_all add: buf_put_def)

section \<open>The disk\<close>

text \<open>
  An ATA device on the primary channel: four address registers, a command register, and the sectors of
  its drives by address. The data of a write command goes to the addressed sector.
\<close>

type_synonym ata_addr = "u8 \<times> u8 \<times> u8 \<times> u8"

record ata =
  a_r3 :: u8
  a_r4 :: u8
  a_r5 :: u8
  a_r6 :: u8
  a_cmd :: u8
  a_disk :: "ata_addr \<Rightarrow> block"

definition ata_sel :: "ata \<Rightarrow> ata_addr" where
  "ata_sel a = (a_r6 a, a_r5 a, a_r4 a, a_r3 a)"

definition ata_step :: "io \<Rightarrow> ata \<Rightarrow> ata" where
  "ata_step ev a =
     (case ev of
        Outb p v \<Rightarrow>
          if p = 0x1f3 then a\<lparr>a_r3 := v\<rparr> else if p = 0x1f4 then a\<lparr>a_r4 := v\<rparr> else if p = 0x1f5 then a\<lparr>a_r5 := v\<rparr>
          else if p = 0x1f6 then a\<lparr>a_r6 := v\<rparr> else if p = 0x1f7 then a\<lparr>a_cmd := v\<rparr> else a
      | Outsl p d \<Rightarrow>
          if p = 0x1f0 \<and> a_cmd a = IDE_CMD_WRITE then a\<lparr>a_disk := (a_disk a)(ata_sel a := d), a_cmd := 0\<rparr> else a
      | _ \<Rightarrow> a)"

definition ata_of :: "ata \<Rightarrow> io list \<Rightarrow> ata" where
  "ata_of a0 e = foldr ata_step e a0"

definition lba :: "u32 \<Rightarrow> u32 \<Rightarrow> ata_addr" where
  "lba dev sector =
     (ucast (0xe0 OR push_bit 4 (dev AND 1) OR (drop_bit 24 sector AND 0x0f)), ucast (drop_bit 16 sector AND 0xff),
      ucast (drop_bit 8 sector AND 0xff), ucast (sector AND 0xff))"

text \<open>
  The world has this device, ready whenever it is asked and without faults, and the only thing that happens
  while the thread sleeps with a request in the queue is the interrupt of the disk.
\<close>

definition ide_env :: "('a mbuf_scheme, 'b) world_scheme \<Rightarrow> ata \<Rightarrow> bool" where
  "ide_env w a0 \<longleftrightarrow>
     (\<forall>e. w_inb w e 0x1f7 AND (IDE_BSY OR IDE_DRDY) = IDE_DRDY \<and> w_inb w e 0x1f7 AND (IDE_DF OR IDE_ERR) = 0) \<and>
     (\<forall>e. a_cmd (ata_of a0 e) = IDE_CMD_READ \<longrightarrow> w_insl w e 0x1f0 = a_disk (ata_of a0 e) (ata_sel (ata_of a0 e))) \<and>
     (\<forall>s. idequeue s \<noteq> None \<longrightarrow> w_others w s = ide_intr w s)"

lemma ide_wait_ready:
  assumes "ide_env w a0"
  shows "ide_wait w chk s = Ret (0, s\<lparr>io := Inb 0x1f7 # io s\<rparr>)"
  using assms by (simp add: ide_wait_def inb_def whileM_exit ide_env_def)

text \<open>The requests that start a command, newest first.\<close>

definition ide_cmd :: "buf \<Rightarrow> io list" where
  "ide_cmd x =
     (if b_flags x AND B_DIRTY \<noteq> 0 then [Outsl 0x1f0 (b_data x), Outb 0x1f7 IDE_CMD_WRITE] else [Outb 0x1f7 IDE_CMD_READ]) @
     [Outb 0x1f6 (fst (lba (b_dev x) (b_sector x))), Outb 0x1f5 (fst (snd (lba (b_dev x) (b_sector x)))),
      Outb 0x1f4 (fst (snd (snd (lba (b_dev x) (b_sector x))))), Outb 0x1f3 (snd (snd (snd (lba (b_dev x) (b_sector x))))),
      Outb 0x1f2 1, Outb 0x3f6 0, Inb 0x1f7]"

lemma ide_start_eq:
  assumes "ide_env w a0"
  shows "ide_start w (Some b) s = Ret (s\<lparr>io := ide_cmd (bufs s b) @ io s\<rparr>)"
  by (simp add: ide_start_def ide_wait_ready [OF assms] outb_def outsl_def ide_cmd_def lba_def Let_def)

lemma ata_of_cmd:
  "ata_of a0 (ide_cmd x @ e) = (ata_of a0 e)\<lparr>a_r3 := snd (snd (snd (lba (b_dev x) (b_sector x)))),
     a_r4 := fst (snd (snd (lba (b_dev x) (b_sector x)))), a_r5 := fst (snd (lba (b_dev x) (b_sector x))),
     a_r6 := fst (lba (b_dev x) (b_sector x)), a_cmd := (if b_flags x AND B_DIRTY \<noteq> 0 then 0 else IDE_CMD_READ),
     a_disk := (if b_flags x AND B_DIRTY \<noteq> 0 then (a_disk (ata_of a0 e))(lba (b_dev x) (b_sector x) := b_data x) else a_disk (ata_of a0 e))\<rparr>"
  by (simp add: ata_of_def ide_cmd_def ata_step_def ata_sel_def)

text \<open>The contents of the disk at every moment between two traces, the later of which extends the earlier.\<close>

definition disk_at :: "ata \<Rightarrow> io list \<Rightarrow> ata_addr \<Rightarrow> block" where
  "disk_at a0 e = a_disk (ata_of a0 e)"

definition moments :: "ata \<Rightarrow> io list \<Rightarrow> io list \<Rightarrow> (ata_addr \<Rightarrow> block) set" where
  "moments a0 e e' = disk_at a0 ` {x. suffix e x \<and> suffix x e'}"

lemma moments_refl [simp]: "moments a0 e e = {disk_at a0 e}"
proof -
  have "{x. suffix e x \<and> suffix x e} = {e}" by (auto intro: suffix_order.antisym)
  then show ?thesis by (simp add: moments_def)
qed

lemma moments_Cons: "suffix e e' \<Longrightarrow> moments a0 e (ev # e') = insert (disk_at a0 (ev # e')) (moments a0 e e')"
  by (auto simp: moments_def suffix_Cons)

lemma moments_trans:
  assumes "suffix e e'" and "suffix e' e''"
  shows "moments a0 e e'' = moments a0 e e' \<union> moments a0 e' e''"
proof -
  have "suffix x e' \<or> suffix e' x" if "suffix x e''" for x using that assms(2) by (rule suffix_same_cases)
  then show ?thesis using assms by (auto simp: moments_def intro: suffix_order.trans)
qed

lemma moments_end: "suffix e e' \<Longrightarrow> disk_at a0 e' \<in> moments a0 e e'" "suffix e e' \<Longrightarrow> disk_at a0 e \<in> moments a0 e e'"
  by (auto simp: moments_def)

lemma disk_at_quiet [simp]: "disk_at a0 (Inb p # e) = disk_at a0 e" "disk_at a0 (Outb p v # e) = disk_at a0 e" "disk_at a0 (Insl p # e) = disk_at a0 e"
  by (simp_all add: disk_at_def ata_of_def ata_step_def)

definition disk_put :: "buf \<Rightarrow> (ata_addr \<Rightarrow> block) \<Rightarrow> ata_addr \<Rightarrow> block" where
  "disk_put x d = (if b_flags x AND B_DIRTY \<noteq> 0 then d(lba (b_dev x) (b_sector x) := b_data x) else d)"

lemma disk_at_cmd: "disk_at a0 (ide_cmd x @ e) = disk_put x (disk_at a0 e)"
  by (simp add: disk_at_def ata_of_cmd disk_put_def)

lemma moments_cmd: "moments a0 e (ide_cmd x @ e) = {disk_at a0 e, disk_put x (disk_at a0 e)}"
  unfolding disk_at_cmd [symmetric] by (auto simp: ide_cmd_def moments_Cons suffix_Cons)

section \<open>One request\<close>

text \<open>Everything but the scheduler's data, the trace and the buffers.\<close>

definition disk_rest :: "'a mbuf_scheme \<Rightarrow> 'a mbuf_scheme" where
  "disk_rest s = (sched_rest s)\<lparr>io := [],
     bufs := (\<lambda>_. \<lparr>b_flags = 0, b_dev = 0, b_sector = 0, b_prev = 0, b_next = 0, b_qnext = None, b_data = (\<lambda>_. 0)\<rparr>)\<rparr>"

lemma disk_rest_simps [simp]:
  "disk_rest (s\<lparr>io := e\<rparr>) = disk_rest s" "disk_rest (s\<lparr>bufs := b\<rparr>) = disk_rest s" "disk_rest (buf_put i f s) = disk_rest s"
  by (simp_all add: disk_rest_def sched_rest_def buf_put_def)

text \<open>What a request leaves in its buffer.\<close>

definition buf_done :: "(ata_addr \<Rightarrow> block) \<Rightarrow> buf \<Rightarrow> buf" where
  "buf_done d x = x\<lparr>b_flags := (b_flags x OR B_VALID) AND NOT B_DIRTY, b_qnext := None,
     b_data := (if b_flags x AND B_DIRTY \<noteq> 0 then b_data x else d (lba (b_dev x) (b_sector x)))\<rparr>"

lemma sched_rest_sel:
  assumes "sched_rest t = sched_rest s"
  shows "io t = io s" "bufs t = bufs s" "idequeue t = idequeue s" "ide_lk t = ide_lk s" "disk_rest t = disk_rest s"
    "this_cpu t = this_cpu s"
proof -
  have "io (sched_rest x) = io x" "bufs (sched_rest x) = bufs x" "idequeue (sched_rest x) = idequeue x" "ide_lk (sched_rest x) = ide_lk x"
    "this_cpu (sched_rest x) = this_cpu x" for x :: "'a mbuf_scheme"
    by (simp_all add: sched_rest_def)
  then show "io t = io s" "bufs t = bufs s" "idequeue t = idequeue s" "ide_lk t = ide_lk s" "this_cpu t = this_cpu s"
    using assms by metis+
  show "disk_rest t = disk_rest s" using assms by (simp add: disk_rest_def)
qed

lemma disk_rest_cong:
  "disk_rest t = disk_rest s \<Longrightarrow> disk_rest (t\<lparr>ide_lk := l\<rparr>) = disk_rest (s\<lparr>ide_lk := l\<rparr>)"
  "disk_rest t = disk_rest s \<Longrightarrow> disk_rest (t\<lparr>idequeue := q\<rparr>) = disk_rest (s\<lparr>idequeue := q\<rparr>)"
proof -
  have "disk_rest (x\<lparr>ide_lk := l\<rparr>) = (disk_rest x)\<lparr>ide_lk := l\<rparr>" "disk_rest (x\<lparr>idequeue := q\<rparr>) = (disk_rest x)\<lparr>idequeue := q\<rparr>"
    for x :: "'a mbuf_scheme" by (simp_all add: disk_rest_def sched_rest_def)
  then show "disk_rest t = disk_rest s \<Longrightarrow> disk_rest (t\<lparr>ide_lk := l\<rparr>) = disk_rest (s\<lparr>ide_lk := l\<rparr>)"
    "disk_rest t = disk_rest s \<Longrightarrow> disk_rest (t\<lparr>idequeue := q\<rparr>) = disk_rest (s\<lparr>idequeue := q\<rparr>)" by simp_all
qed

lemma ide_intr_asleep:
  assumes env: "ide_env w a0" and slp: "asleep (w_buf w b) c s" and lk: "ide_lk s = unlocked" and q: "idequeue s = Some b"
    and qn: "b_qnext (bufs s b) = None"
    and rd: "b_flags (bufs s b) AND B_DIRTY = 0 \<Longrightarrow> a_cmd (ata_of a0 (io s)) = IDE_CMD_READ \<and>
      ata_sel (ata_of a0 (io s)) = lba (b_dev (bufs s b)) (b_sector (bufs s b))"
  shows "returns (ide_intr w s) (\<lambda>t. alone c t \<and> bufs t = (bufs s)(b := buf_done (disk_at a0 (io s)) (bufs s b)) \<and>
    ide_lk t = unlocked \<and> disk_rest t = disk_rest (s\<lparr>idequeue := None\<rparr>) \<and> suffix (io s) (io t) \<and>
    moments a0 (io s) (io t) = {disk_at a0 (io s)})"
proof -
  have on: "on_cpu s" using slp by (simp add: asleep_def)
  let ?x = "bufs s b" and ?d = "disk_at a0 (io s)"
  define e where "e = (if b_flags ?x AND B_DIRTY = 0 then [Insl 0x1f0, Inb 0x1f7] else []) @ io s"
  define v where "v = s\<lparr>ide_lk := held_by (this_cpu s), idequeue := None, io := e, bufs := (bufs s)(b := buf_done ?d ?x)\<rparr>"
  have data: "w_insl w (Inb 0x1f7 # io s) 0x1f0 = ?d (lba (b_dev ?x) (b_sector ?x))" if "b_flags ?x AND B_DIRTY = 0"
  proof -
    have "ata_of a0 (Inb 0x1f7 # io s) = ata_of a0 (io s)" by (simp add: ata_of_def ata_step_def)
    then show ?thesis using env rd [OF that] unfolding ide_env_def disk_at_def by metis
  qed
  have call: "ide_intr w s = andThen (thread_wakeup (w_buf w b) v) (\<lambda>t.
      andThen (if idequeue t \<noteq> None then ide_start w (idequeue t) t else Ret t) (\<lambda>t. Ret (ide_release t)))"
  proof (cases "b_flags ?x AND B_DIRTY = 0")
    case True
    have "?x\<lparr>b_data := ?d (lba (b_dev ?x) (b_sector ?x)), b_flags := (b_flags ?x OR 2) AND NOT 4\<rparr> = buf_done ?d ?x"
      using True qn by (simp add: buf_done_def)
    then show ?thesis
      using True on lk q qn data [OF True]
      by (simp add: ide_intr_def ide_acquire_def spinlock_acquire_unlocked ide_wait_ready [OF env] insl_def buf_put_def v_def e_def)
  next
    case False
    have "?x\<lparr>b_flags := (b_flags ?x OR 2) AND NOT 4\<rparr> = buf_done ?d ?x"
      using False qn by (simp add: buf_done_def)
    then show ?thesis
      using False on lk q qn by (simp add: ide_intr_def ide_acquire_def spinlock_acquire_unlocked buf_put_def v_def e_def)
  qed
  have "asleep (w_buf w b) c v" using slp by (simp add: v_def)
  from wakeup_asleep [OF this] obtain t where t: "thread_wakeup (w_buf w b) v = Ret t" "alone c t" "sched_rest t = sched_rest v"
    by (auto elim!: returnsE)
  note f = sched_rest_sel [OF t(3)]
  have "idequeue t = None" using f(3) by (simp add: v_def)
  then have "ide_intr w s = Ret (t\<lparr>ide_lk := unlocked\<rparr>)" unfolding call t(1) by (simp add: ide_release_def)
  moreover have "disk_rest (t\<lparr>ide_lk := unlocked\<rparr>) = disk_rest (s\<lparr>idequeue := None\<rparr>)"
    using disk_rest_cong(1) [OF f(5), of unlocked] lk by (simp add: v_def disk_rest_def sched_rest_def)
  moreover have "suffix (io s) e" "moments a0 (io s) e = {?d}" by (auto simp: e_def moments_Cons suffix_Cons)
  ultimately show ?thesis using t(2) f by (simp add: v_def)
qed

text \<open>The driver is idle: its lock is free and its queue empty.\<close>

definition ide_idle :: "'a mbuf_scheme \<Rightarrow> bool" where
  "ide_idle s \<longleftrightarrow> ide_lk s = unlocked \<and> idequeue s = None"

lemma sleep_on_disk:
  assumes env: "ide_env w a0" and al: "alone c s" and lk: "ide_lk s = held_by (this_cpu s)" and q: "idequeue s = Some b"
    and qn: "b_qnext (bufs s b) = None"
    and rd: "b_flags (bufs s b) AND B_DIRTY = 0 \<Longrightarrow> a_cmd (ata_of a0 (io s)) = IDE_CMD_READ \<and>
      ata_sel (ata_of a0 (io s)) = lba (b_dev (bufs s b)) (b_sector (bufs s b))"
  shows "returns (sleep_on w (w_buf w b) (Some (ide_lk, \<lambda>l s. s\<lparr>ide_lk := l\<rparr>)) s) (\<lambda>t. alone c t \<and>
    bufs t = (bufs s)(b := buf_done (disk_at a0 (io s)) (bufs s b)) \<and> disk_rest t = disk_rest (s\<lparr>idequeue := None\<rparr>) \<and>
    suffix (io s) (io t) \<and> moments a0 (io s) (io t) = {disk_at a0 (io s)})"
proof -
  have cur: "get_curid s = Ret c" using al by (auto simp: alone_def get_curid_eq)
  obtain t where t: "thread_sleep (w_buf w b) (Some (ide_lk, \<lambda>l s. s\<lparr>ide_lk := l\<rparr>)) s = Ret t" "asleep (w_buf w b) c t"
    "sched_rest t = sched_rest (s\<lparr>ide_lk := unlocked\<rparr>)"
    using sleep_alone [OF al, of "w_buf w b"] by (auto elim!: returnsE)
  note f = sched_rest_sel [OF t(3), simplified]
  have "returns (ide_intr w t) (\<lambda>u. alone c u \<and> bufs u = (bufs t)(b := buf_done (disk_at a0 (io t)) (bufs t b)) \<and>
    ide_lk u = unlocked \<and> disk_rest u = disk_rest (t\<lparr>idequeue := None\<rparr>) \<and> suffix (io t) (io u) \<and>
    moments a0 (io t) (io u) = {disk_at a0 (io t)})"
    by (rule ide_intr_asleep [OF env t(2)]) (use f q qn rd in auto)
  then obtain u where u: "ide_intr w t = Ret u" "alone c u" "bufs u = (bufs s)(b := buf_done (disk_at a0 (io s)) (bufs s b))"
    "ide_lk u = unlocked" "disk_rest u = disk_rest (t\<lparr>idequeue := None\<rparr>)" "suffix (io s) (io u)" "moments a0 (io s) (io u) = {disk_at a0 (io s)}"
    using f by (auto elim!: returnsE)
  have o: "w_others w t = Ret u" using env u(1) f q by (simp add: ide_env_def)
  from resume_alone [OF u(2,4)] obtain v where v: "thread_sleep_resume c (Some (ide_lk, \<lambda>l s. s\<lparr>ide_lk := l\<rparr>)) u = Ret v" "alone c v"
    "sched_rest v = sched_rest (u\<lparr>ide_lk := held_by (this_cpu u)\<rparr>)" by (auto elim!: returnsE)
  note g = sched_rest_sel [OF v(3), simplified]
  have cpu: "this_cpu x = this_cpu (disk_rest x)" for x :: "'a mbuf_scheme" by (simp add: disk_rest_def sched_rest_def)
  have c: "this_cpu u = this_cpu s" using u(5) f(6) cpu [of u] cpu [of "t\<lparr>idequeue := None\<rparr>"] by simp
  have "disk_rest v = disk_rest (s\<lparr>idequeue := None\<rparr>)"
  proof -
    have "disk_rest v = disk_rest (u\<lparr>ide_lk := held_by (this_cpu s)\<rparr>)" using g(5) c by simp
    also have "\<dots> = disk_rest (t\<lparr>idequeue := None, ide_lk := held_by (this_cpu s)\<rparr>)" by (rule disk_rest_cong(1) [OF u(5)])
    also have "\<dots> = disk_rest (s\<lparr>ide_lk := unlocked, idequeue := None, ide_lk := held_by (this_cpu s)\<rparr>)"
      by (rule disk_rest_cong(1) [OF disk_rest_cong(2) [OF f(5)]])
    also have "\<dots> = disk_rest (s\<lparr>idequeue := None\<rparr>)" using lk by (simp add: disk_rest_def sched_rest_def)
    finally show ?thesis .
  qed
  then show ?thesis using cur t(1) o v(1,2) g u by (simp add: sleep_on_def)
qed

lemma buf_done_flags: "b_flags (buf_done d x) AND (B_VALID OR B_DIRTY) = B_VALID"
proof -
  have "((f OR 2) AND NOT 4) AND 6 = (2 :: u32)" for f :: u32
    by (rule bit_word_eqI) (auto simp: bit_simps bit_numeral_rec split: nat.splits)
  then show ?thesis by (simp add: buf_done_def)
qed

lemma ide_rw_alone:
  assumes env: "ide_env w a0" and al: "alone c s" and idle: "ide_idle s" and busy: "b_flags (bufs s b) AND B_BUSY \<noteq> 0"
    and todo: "b_flags (bufs s b) AND (B_VALID OR B_DIRTY) \<noteq> B_VALID" and dev: "b_dev (bufs s b) \<noteq> 0 \<longrightarrow> havedisk1 s"
  shows "returns (ide_rw w b s) (\<lambda>t. alone c t \<and> bufs t = (bufs s)(b := buf_done (disk_at a0 (io s)) (bufs s b)) \<and>
    disk_rest t = disk_rest s \<and> suffix (io s) (io t) \<and> disk_at a0 (io t) = disk_put (bufs s b) (disk_at a0 (io s)) \<and>
    moments a0 (io s) (io t) = {disk_at a0 (io s), disk_put (bufs s b) (disk_at a0 (io s))})"
proof -
  have on: "on_cpu s" using al by (simp add: alone_def)
  let ?x = "bufs s b" and ?d = "disk_at a0 (io s)"
  let ?y = "?x\<lparr>b_qnext := None\<rparr>"
  have y: "ide_cmd ?y = ide_cmd ?x" "buf_done d ?y = buf_done d ?x" for d by (simp_all add: ide_cmd_def buf_done_def)
  define u where "u = s\<lparr>ide_lk := held_by (this_cpu s), bufs := (bufs s)(b := ?y), idequeue := Some b, io := ide_cmd ?x @ io s\<rparr>"
  let ?W = "whileM (\<lambda>s. b_flags (bufs s b) AND (B_VALID OR B_DIRTY) \<noteq> B_VALID) (sleep_on w (w_buf w b) (Some (ide_lk, \<lambda>l s. s\<lparr>ide_lk := l\<rparr>)))"
  have call: "ide_rw w b s = andThen (?W u) (\<lambda>s. Ret (ide_release s))"
    using busy todo dev idle on
    by (auto simp: ide_rw_def ide_acquire_def ide_idle_def spinlock_acquire_unlocked ide_append_def buf_put_def ide_start_eq [OF env] u_def y)
  have "returns (sleep_on w (w_buf w b) (Some (ide_lk, \<lambda>l s. s\<lparr>ide_lk := l\<rparr>)) u) (\<lambda>t. alone c t \<and>
    bufs t = (bufs u)(b := buf_done (disk_at a0 (io u)) (bufs u b)) \<and> disk_rest t = disk_rest (u\<lparr>idequeue := None\<rparr>) \<and>
    suffix (io u) (io t) \<and> moments a0 (io u) (io t) = {disk_at a0 (io u)})"
    by (rule sleep_on_disk [OF env]) (use al in \<open>simp_all add: u_def ata_of_cmd ata_sel_def\<close>)
  then obtain t where t: "sleep_on w (w_buf w b) (Some (ide_lk, \<lambda>l s. s\<lparr>ide_lk := l\<rparr>)) u = Ret t" "alone c t"
    "bufs t = (bufs u)(b := buf_done (disk_at a0 (io u)) (bufs u b))" "disk_rest t = disk_rest (u\<lparr>idequeue := None\<rparr>)"
    "suffix (io u) (io t)" "moments a0 (io u) (io t) = {disk_at a0 (io u)}" by (auto elim!: returnsE)
  have d: "disk_at a0 (io u) = disk_put ?x ?d" by (simp add: u_def disk_at_cmd)
  have "buf_done (disk_put ?x ?d) ?y = buf_done ?d ?x" by (simp add: buf_done_def disk_put_def)
  then have b: "bufs t = (bufs s)(b := buf_done ?d ?x)" using t(3) d by (simp add: u_def)
  have "b_flags (bufs u b) AND (B_VALID OR B_DIRTY) \<noteq> B_VALID" using todo by (simp add: u_def)
  then have "?W u = Ret t"
    using t(1) b buf_done_flags [of ?d ?x] by (subst whileM_unfold) (simp add: whileM_exit)
  then have "ide_rw w b s = Ret (t\<lparr>ide_lk := unlocked\<rparr>)" by (simp add: call ide_release_def)
  moreover have "disk_rest (t\<lparr>ide_lk := unlocked\<rparr>) = disk_rest s"
    using disk_rest_cong(1) [OF t(4), of unlocked] idle by (simp add: u_def ide_idle_def disk_rest_def sched_rest_def)
  moreover have "suffix (io s) (io u)" "moments a0 (io s) (io u) = {?d, disk_put ?x ?d}"
    by (simp_all add: u_def moments_cmd suffixI)
  then have "suffix (io s) (io t)" "moments a0 (io s) (io t) = {?d, disk_put ?x ?d}"
    using t(5,6) moments_trans [of "io s" "io u" "io t" a0] d by (auto intro: suffix_order.trans)
  moreover have "disk_at a0 (io t) = disk_put ?x ?d" using moments_end(1) [OF t(5), of a0] t(6) d by simp
  ultimately show ?thesis using t(2) b by simp
qed

end
