(* ===== verification/Disk_World.thy ===== *)
theory Disk_World
  imports Ide_Spec
begin

text \<open>
  A concrete machine with a disk, on which the properties of the disk driver, the buffer cache and the log
  are seen at work.
\<close>

section \<open>A machine with a disk\<close>

text \<open>A world with such a disk, and the state of the only CPU with nothing in its buffers.\<close>

definition disk_ports :: "ata \<Rightarrow> 's world" where
  "disk_ports a0 = uart_world\<lparr>w_inb := (\<lambda>_ _. IDE_DRDY), w_insl := (\<lambda>e _. a_disk (ata_of a0 e) (ata_sel (ata_of a0 e)))\<rparr>"

definition disk_world :: "ata \<Rightarrow> 'a mbuf_scheme world" where
  "disk_world a0 = (disk_ports a0)\<lparr>w_others := ide_intr (disk_ports a0 :: 'a mbuf_scheme world)\<rparr>"

text \<open>The driver does not use what other threads do while it waits.\<close>

lemma ide_others [simp]:
  fixes w :: "'a mbuf_scheme world"
  shows "ide_wait (w\<lparr>w_others := f\<rparr>) chk s = ide_wait w chk s" "ide_start (w\<lparr>w_others := f\<rparr>) q s = ide_start w q s"
    "idequeue s \<noteq> None \<Longrightarrow> ide_intr (w\<lparr>w_others := f\<rparr>) s = ide_intr w s"
proof -
  show [simp]: "ide_wait (w\<lparr>w_others := f\<rparr>) chk s = ide_wait w chk s" for chk s by (simp add: ide_wait_def inb_def)
  show [simp]: "ide_start (w\<lparr>w_others := f\<rparr>) q s = ide_start w q s" for q s by (cases q) (simp_all add: ide_start_def)
  show "ide_intr (w\<lparr>w_others := f\<rparr>) s = ide_intr w s" if "idequeue s \<noteq> None"
    using that by (cases "spinlock_acquire s (ide_lk s)") (auto simp: ide_intr_def insl_def ide_acquire_def Let_def cong: if_cong)
qed

lemma disk_world_env: "ide_env (disk_world a0) a0"
  by (simp add: ide_env_def disk_world_def) (simp add: disk_ports_def)

definition disk_boot :: mbuf where
  "disk_boot = mintr.extend (mcons.extend cons_idle
     (mintr.fields 0xffff True 0 (\<lambda>_. 0) (\<lambda>_. 0) (\<lambda>_. 0) 0 0 0 True (\<lambda>_. SETGATE False 8 0 0) True 1000000 1 False True
        (\<lambda>_. \<lparr>pi_lapicid = 0, pi_bsp = True, pi_cpuid_high = 0, pi_vendor = (0, 0, 0), pi_cpu_vendor = INTEL, pi_family = 0, pi_model = 0,
           pi_step = 0, pi_ext_family = 0, pi_ext_model = 0, pi_brand_idx = 0, pi_clflush_size = 0, pi_max_cpu_id = 0, pi_apic_id = 0,
           pi_feature1 = 0, pi_feature2 = 0, pi_l1_cache_size = 0, pi_l1_cache_line_size = 0, pi_cpuid_exthigh = 0\<rparr>)))
     (mbuf.fields unlocked None True unlocked
        (\<lambda>_. \<lparr>b_flags = 0, b_dev = 0, b_sector = 0, b_prev = 0, b_next = 0, b_qnext = None, b_data = (\<lambda>_. 0)\<rparr>))"

lemma disk_boot_simps:
  "io disk_boot = []" "ide_lk disk_boot = unlocked" "idequeue disk_boot = None" "havedisk1 disk_boot" "bcache_lock disk_boot = unlocked"
  "bufs disk_boot = (\<lambda>_. \<lparr>b_flags = 0, b_dev = 0, b_sector = 0, b_prev = 0, b_next = 0, b_qnext = None, b_data = (\<lambda>_. 0)\<rparr>)"
  by (simp_all add: disk_boot_def cons_idle_def mbuf.defs mintr.defs mcons.defs mio.defs mthr.defs)

lemma disk_boot_alone: "alone 0 disk_boot"
proof -
  have "on_cpu disk_boot = on_cpu thr_idle" "this_cpu disk_boot = this_cpu thr_idle" "queues disk_boot Q = queues thr_idle Q"
    "sched_lk disk_boot = sched_lk thr_idle" "CURID disk_boot = CURID thr_idle" "TCBPool disk_boot = TCBPool thr_idle" for Q
    by (simp_all add: disk_boot_def cons_idle_def mbuf.defs mintr.defs mcons.defs mio.defs mthr.defs on_cpu_def this_cpu_def this_kstack_def
        queues_def queue_is_def cong: kstack_ref.case_cong)
  then show ?thesis
    using thr_idle_queues by (auto simp: alone_def thr_idle_simps tcb_dead_def intro!: exI [of _ "\<lambda>_. []"])
qed

end
