(* ===== verification/Bufcache_Spec.thy ===== *)
theory Bufcache_Spec
  imports Bufcache Disk_World
begin

unbundle bit_operations_syntax

text \<open>
  What the buffer cache promises to a thread that is alone: the buffers are a list ordered by their last
  use, no sector has two buffers, and a buffer that is valid and not dirty holds what is on the disk.
\<close>

section \<open>Linked lists\<close>

text \<open>Following \<open>f\<close> from the first element leads through the list to the element behind it.\<close>

primrec linked :: "('a \<Rightarrow> 'a) \<Rightarrow> 'a list \<Rightarrow> 'a \<Rightarrow> bool" where
  "linked f [] e = True"
| "linked f (x # xs) e = (f x = hd (xs @ [e]) \<and> linked f xs e)"

lemma linked_append: "linked f (xs @ ys) e = (linked f xs (hd (ys @ [e])) \<and> linked f ys e)"
  by (induction xs) (auto simp: hd_append)

lemma linked_cong: "(\<And>x. x \<in> set xs \<Longrightarrow> f x = g x) \<Longrightarrow> linked f xs e = linked g xs e"
  by (induction xs) auto

lemma linked_last:
  assumes "linked f xs e" and "distinct xs" and "xs \<noteq> []"
  shows "linked (f(last xs := e')) xs e'"
  using assms
proof (induction xs)
  case (Cons x xs)
  show ?case
  proof (cases xs)
    case Nil
    then show ?thesis by simp
  next
    case (Cons y ys)
    then have "x \<noteq> last xs" using Cons.prems(2) by auto
    then show ?thesis using Cons.IH Cons.prems Cons by (auto simp: hd_append)
  qed
qed simp

lemma hd_two: "hd (xs @ [x, y]) = hd (xs @ [x])"
  by (cases xs) simp_all

text \<open>A search along the list.\<close>

lemma find_SomeD: "find P xs = Some x \<Longrightarrow> x \<in> set xs \<and> P x"
  by (auto simp: find_Some_iff)

lemma whileM_linked:
  assumes "linked f xs e" and "e \<notin> set xs"
  shows "whileM (\<lambda>b. b \<noteq> e \<and> \<not> P b) (\<lambda>b. Ret (f b)) (hd (xs @ [e])) = Ret (case find P xs of None \<Rightarrow> e | Some b \<Rightarrow> b)"
  using assms
proof (induction xs)
  case Nil
  then show ?case by (simp add: whileM_exit)
next
  case (Cons x xs)
  then show ?case by (cases "P x") (auto simp: whileM_exit whileM_step)
qed

section \<open>The invariant\<close>

abbreviation (input) buf_busy :: "buf \<Rightarrow> bool" where "buf_busy x \<equiv> b_flags x AND B_BUSY \<noteq> 0"
abbreviation (input) buf_valid :: "buf \<Rightarrow> bool" where "buf_valid x \<equiv> b_flags x AND B_VALID \<noteq> 0"
abbreviation (input) buf_dirty :: "buf \<Rightarrow> bool" where "buf_dirty x \<equiv> b_flags x AND B_DIRTY \<noteq> 0"

lemma flag_bits: "(f AND 1 = 0) = (\<not> bit f 0)" "(f AND 2 = 0) = (\<not> bit f 1)" "(f AND 4 = 0) = (\<not> bit f 2)" for f :: u32
proof -
  have "(1::u32) = push_bit 0 1" "(2::u32) = push_bit 1 1" "(4::u32) = push_bit 2 1" by simp_all
  then show "(f AND 1 = 0) = (\<not> bit f 0)" "(f AND 2 = 0) = (\<not> bit f 1)" "(f AND 4 = 0) = (\<not> bit f 2)"
    by (metis and_exp_eq_0_iff_not_bit push_bit_of_1)+
qed

lemma flag_const:
  "bit (1::u32) n \<longleftrightarrow> n = 0" "bit (2::u32) n \<longleftrightarrow> n = 1" "bit (4::u32) n \<longleftrightarrow> n = 2" "bit (6::u32) n \<longleftrightarrow> n = 1 \<or> n = 2"
  by (auto simp: bit_simps bit_numeral_rec split: nat.splits)

lemma flag_six: "(f AND 6 = 2) = (bit f 1 \<and> \<not> bit f 2)" for f :: u32
proof
  assume a: "f AND 6 = 2"
  have "bit (f AND 6) 1 = bit (2::u32) 1" "bit (f AND 6) 2 = bit (2::u32) 2" by (simp_all only: a)
  then show "bit f 1 \<and> \<not> bit f 2" by (simp add: bit_and_iff)
next
  assume "bit f 1 \<and> \<not> bit f 2"
  then show "f AND 6 = 2" by (intro bit_word_eqI) (auto simp only: bit_and_iff flag_const)
qed

lemmas flags = flag_bits flag_six bit_or_iff bit_and_iff bit_not_iff

text \<open>A buffer without its links.\<close>

definition unlink :: "buf \<Rightarrow> buf" where
  "unlink x = x\<lparr>b_prev := 0, b_next := 0, b_qnext := None\<rparr>"

definition slots :: "'a mbuf_scheme \<Rightarrow> u32 \<Rightarrow> buf" where
  "slots s b = unlink (bufs s b)"

lemma unlink_sel [simp]:
  "b_flags (unlink x) = b_flags x" "b_dev (unlink x) = b_dev x" "b_sector (unlink x) = b_sector x" "b_data (unlink x) = b_data x"
  by (simp_all add: unlink_def)

lemma slots_sel [simp]:
  "b_flags (slots s b) = b_flags (bufs s b)" "b_dev (slots s b) = b_dev (bufs s b)"
  "b_sector (slots s b) = b_sector (bufs s b)" "b_data (slots s b) = b_data (bufs s b)"
  by (simp_all add: slots_def)

text \<open>The order of the buffers, the most recently used first.\<close>

definition lru :: "'a mbuf_scheme \<Rightarrow> u32 list \<Rightarrow> bool" where
  "lru s xs \<longleftrightarrow> distinct xs \<and> set xs = {b. b < NBUF} \<and>
     linked (\<lambda>b. b_next (bufs s b)) (NBUF # xs) NBUF \<and> linked (\<lambda>b. b_prev (bufs s b)) (NBUF # rev xs) NBUF"

definition named :: "u32 \<Rightarrow> u32 \<Rightarrow> buf \<Rightarrow> bool" where
  "named dev sector x \<longleftrightarrow> b_dev x = dev \<and> b_sector x = sector"

text \<open>
  The cache over a disk with contents \<open>d\<close>, when the buffers of \<open>X\<close> are in the hands of the running thread.
  A buffer with another device than the two of the driver is one that has not been used yet.
\<close>

definition slots_ok :: "(ata_addr \<Rightarrow> block) \<Rightarrow> u32 set \<Rightarrow> (u32 \<Rightarrow> buf) \<Rightarrow> bool" where
  "slots_ok d X f \<longleftrightarrow> (\<forall>b < NBUF. (buf_busy (f b) \<longleftrightarrow> b \<in> X) \<and> (buf_dirty (f b) \<longrightarrow> buf_valid (f b)) \<and>
     (b_dev (f b) < 2 \<longrightarrow> b_sector (f b) < 2 ^ 28 \<and>
        (\<forall>b' < NBUF. b' \<noteq> b \<longrightarrow> \<not> named (b_dev (f b)) (b_sector (f b)) (f b')) \<and>
        (b \<notin> X \<longrightarrow> buf_valid (f b) \<longrightarrow> \<not> buf_dirty (f b) \<longrightarrow> b_data (f b) = d (lba (b_dev (f b)) (b_sector (f b))))))"

definition cache :: "(ata_addr \<Rightarrow> block) \<Rightarrow> u32 set \<Rightarrow> 'a mbuf_scheme \<Rightarrow> bool" where
  "cache d X s \<longleftrightarrow> bcache_lock s = unlocked \<and> ide_idle s \<and> havedisk1 s \<and> (\<exists>xs. lru s xs) \<and> slots_ok d X (slots s)"

section \<open>Finding a buffer\<close>

lemma lru_find:
  assumes "lru s xs"
  shows "bufcache_find dev sector s = Ret (case find (\<lambda>b. named dev sector (bufs s b)) xs of None \<Rightarrow> NBUF | Some b \<Rightarrow> b)"
proof -
  have l: "linked (\<lambda>b. b_next (bufs s b)) xs NBUF" "NBUF \<notin> set xs" "b_next (bufs s NBUF) = hd (xs @ [NBUF])"
    using assms by (auto simp: lru_def)
  show ?thesis
    unfolding bufcache_find_def l(3) using whileM_linked [OF l(1,2), of "\<lambda>b. named dev sector (bufs s b)"]
    by (simp add: named_def)
qed

lemma lru_victim:
  assumes "lru s xs"
  shows "bufcache_victim s = Ret (case find (\<lambda>b. \<not> buf_busy (bufs s b) \<and> \<not> buf_dirty (bufs s b)) (rev xs) of None \<Rightarrow> NBUF | Some b \<Rightarrow> b)"
proof -
  have l: "linked (\<lambda>b. b_prev (bufs s b)) (rev xs) NBUF" "NBUF \<notin> set (rev xs)" "b_prev (bufs s NBUF) = hd (rev xs @ [NBUF])"
    using assms by (auto simp: lru_def)
  show ?thesis
    unfolding bufcache_victim_def l(3) using whileM_linked [OF l(1,2), of "\<lambda>b. \<not> buf_busy (bufs s b) \<and> \<not> buf_dirty (bufs s b)"]
    by simp
qed

lemma lru_bufs:
  assumes "lru s xs" and "\<And>b. b_next (bufs t b) = b_next (bufs s b)" and "\<And>b. b_prev (bufs t b) = b_prev (bufs s b)"
  shows "lru t xs"
  using assms by (simp add: lru_def)

lemma bufcache_get_free:
  assumes al: "alone c s" and ca: "cache d X s" and free: "\<And>b. b < NBUF \<Longrightarrow> named dev sector (bufs s b) \<Longrightarrow> b \<notin> X"
    and some: "\<exists>b < NBUF. b \<notin> X \<and> \<not> buf_dirty (bufs s b)"
  shows "returns (bufcache_get w dev sector s) (\<lambda>(b, t). b < NBUF \<and> b \<notin> X \<and> (\<exists>x. t = s\<lparr>bufs := (bufs s)(b := x)\<rparr> \<and>
    (named dev sector (bufs s b) \<and> x = (bufs s b)\<lparr>b_flags := b_flags (bufs s b) OR B_BUSY\<rparr> \<or>
     (\<forall>b' < NBUF. \<not> named dev sector (bufs s b')) \<and> \<not> buf_dirty (bufs s b) \<and>
       x = (bufs s b)\<lparr>b_dev := dev, b_sector := sector, b_flags := B_BUSY\<rparr>)))"
proof -
  obtain xs where r: "lru s xs" and lk: "bcache_lock s = unlocked" using ca by (auto simp: cache_def)
  have xs: "b \<in> set xs \<longleftrightarrow> b < NBUF" for b using r by (simp add: lru_def)
  have bz: "buf_busy (bufs s b) \<longleftrightarrow> b \<in> X" if "b < NBUF" for b using ca that by (simp add: cache_def slots_ok_def)
  let ?s = "s\<lparr>bcache_lock := held_by (this_cpu s)\<rparr>"
  have r': "lru ?s xs" using r by (simp add: lru_def)
  have acq: "bcache_acquire s = Ret ?s" using lk al by (simp add: bcache_acquire_def spinlock_acquire_unlocked alone_def)
  have lk': "bcache_release (buf_put b f ?s) = s\<lparr>bufs := (bufs s)(b := f (bufs s b))\<rparr>" for b f
    using lk by (simp add: bcache_release_def buf_put_def)
  have get: "bufcache_get w dev sector s = Ret (b, t)" if "bufcache_pass w dev sector ?s = Ret (Some b, t)" for b t
    using that by (simp add: bufcache_get_def acq whileM_step whileM_exit)
  show ?thesis
  proof (cases "find (\<lambda>b. named dev sector (bufs s b)) xs")
    case (Some b)
    then have b: "b < NBUF" "named dev sector (bufs s b)" using xs by (auto dest: find_SomeD)
    then have "\<not> buf_busy (bufs s b)" using bz free by blast
    then have "bufcache_pass w dev sector ?s = Ret (Some b, s\<lparr>bufs := (bufs s)(b := (bufs s b)\<lparr>b_flags := b_flags (bufs s b) OR B_BUSY\<rparr>)\<rparr>)"
      using b(1) by (auto simp: bufcache_pass_def lru_find [OF r'] Some lk')
    from get [OF this] show ?thesis using b free [OF b] by simp blast
  next
    case None
    then have no: "\<forall>b < NBUF. \<not> named dev sector (bufs s b)" using xs by (auto simp: find_None_iff)
    let ?P = "\<lambda>b. \<not> buf_busy (bufs s b) \<and> \<not> buf_dirty (bufs s b)"
    have "find ?P (rev xs) \<noteq> None" unfolding find_None_iff using some bz xs by fastforce
    then obtain b where f: "find ?P (rev xs) = Some b" by blast
    have "b \<in> set (rev xs) \<and> ?P b" by (rule find_SomeD [OF f])
    then have b: "b < NBUF" "\<not> buf_busy (bufs s b)" "\<not> buf_dirty (bufs s b)" using xs by simp_all
    have "bufcache_victim ?s = Ret b" using lru_victim [OF r'] f by simp
    moreover have "b \<noteq> NBUF" using b(1) by auto
    ultimately have "bufcache_pass w dev sector ?s = Ret (Some b, s\<lparr>bufs := (bufs s)(b := (bufs s b)\<lparr>b_dev := dev, b_sector := sector, b_flags := B_BUSY\<rparr>)\<rparr>)"
      by (simp add: bufcache_pass_def lru_find [OF r'] None lk')
    from get [OF this] show ?thesis using b bz [OF b(1)] no by simp
  qed
qed

section \<open>Reading and writing a buffer\<close>

lemma slots_upd: "slots (s\<lparr>bufs := (bufs s)(b := x)\<rparr>) = (slots s)(b := unlink x)"
  by (auto simp: slots_def)

lemma and_take: "y AND 0xff = take_bit 8 y" "y AND 0x0f = take_bit 4 y" "y AND 1 = take_bit 1 y" for y :: u32
  by (simp_all add: take_bit_eq_mask mask_eq_exp_minus_1)

lemma drop_and: "ucast (drop_bit n x AND 0xff) = (ucast (drop_bit n x) :: u8)" "ucast (x AND 0xff) = (ucast x :: u8)" for x :: u32
  unfolding and_take by (auto intro!: bit_word_eqI simp: bit_simps)

lemma bit_e0: "bit (0xe0::u32) n \<longleftrightarrow> n = 5 \<or> n = 6 \<or> n = 7"
  by (auto simp: bit_simps bit_numeral_rec split: nat.splits)

lemma lba_inj:
  fixes dev sector dev' sector' :: u32
  assumes "dev < 2" and "sector < 2 ^ 28" and "dev' < 2" and "sector' < 2 ^ 28" and "lba dev sector = lba dev' sector'"
  shows "dev' = dev \<and> sector' = sector"
proof -
  let ?h = "\<lambda>(dev :: u32) (sector :: u32). ucast (0xe0 OR push_bit 4 (dev AND 1) OR (drop_bit 24 sector AND 0x0f)) :: u8"
  have h: "bit (?h dev sector) n = (n < 8 \<and> ((n = 5 \<or> n = 6 \<or> n = 7) \<or> n = 4 \<and> bit dev 0 \<or> n < 4 \<and> bit sector (24 + n)))" for dev sector n
    unfolding and_take bit_ucast_iff bit_or_iff bit_e0 by (auto simp: bit_simps bit_0)
  have eq: "?h dev sector = ?h dev' sector'" "(ucast (drop_bit 16 sector) :: u8) = ucast (drop_bit 16 sector')"
    "(ucast (drop_bit 8 sector) :: u8) = ucast (drop_bit 8 sector')" "(ucast sector :: u8) = ucast sector'"
    using assms(5) by (simp_all add: lba_def drop_and)
  have top: "bit x n = (n < k \<and> bit x n)" if "unat x < 2 ^ k" for x :: u32 and n k
  proof -
    have "unat (take_bit k x) = unat x" using that by (simp add: unsigned_take_bit_eq take_bit_nat_eq_self)
    then have "take_bit k x = x" by (rule unsigned_word_eqI)
    then have "bit x n = bit (take_bit k x) n" by simp
    then show ?thesis by (simp only: bit_take_bit_iff)
  qed
  have small: "unat dev < 2 ^ 1" "unat dev' < 2 ^ 1" "unat sector < 2 ^ 28" "unat sector' < 2 ^ 28"
    using assms(1-4) by (simp_all add: word_less_nat_alt)
  have low: "bit (ucast (drop_bit k x) :: u8) n = (n < 8 \<and> bit x (k + n))" for x :: u32 and n k
    by (auto simp: bit_simps)
  have "bit dev' n = bit dev n" for n
    using top [OF small(1), of n] top [OF small(2), of n] arg_cong [OF eq(1), of "\<lambda>x. bit x 4"] unfolding h by (cases "n = 0") simp_all
  moreover have "bit sector' n = bit sector n" for n
  proof -
    consider "n < 8" | "8 \<le> n" "n < 16" | "16 \<le> n" "n < 24" | "24 \<le> n" "n < 28" | "28 \<le> n" by linarith
    then show ?thesis
    proof cases
      case 1
      then show ?thesis using arg_cong [OF eq(4), of "\<lambda>x. bit x n"] by (simp add: bit_simps)
    next
      case 2
      then show ?thesis using arg_cong [OF eq(3), of "\<lambda>x. bit x (n - 8)"] unfolding low by (auto simp: less_diff_conv2)
    next
      case 3
      then show ?thesis using arg_cong [OF eq(2), of "\<lambda>x. bit x (n - 16)"] unfolding low by (auto simp: less_diff_conv2)
    next
      case 4
      then show ?thesis using arg_cong [OF eq(1), of "\<lambda>x. bit x (n - 24)"] unfolding h by (auto simp: less_diff_conv2)
    next
      case 5
      then show ?thesis using top [OF small(3), of n] top [OF small(4), of n] by simp
    qed
  qed
  ultimately show ?thesis by (auto intro: bit_word_eqI)
qed

lemma slots_okD:
  assumes "slots_ok d X f" and "b < NBUF"
  shows "buf_busy (f b) \<longleftrightarrow> b \<in> X" and "buf_dirty (f b) \<Longrightarrow> buf_valid (f b)" and "b_dev (f b) < 2 \<Longrightarrow> b_sector (f b) < 2 ^ 28"
    and "b_dev (f b) < 2 \<Longrightarrow> b' < NBUF \<Longrightarrow> named (b_dev (f b)) (b_sector (f b)) (f b') \<Longrightarrow> b' = b"
    and "b_dev (f b) < 2 \<Longrightarrow> b \<notin> X \<Longrightarrow> buf_valid (f b) \<Longrightarrow> \<not> buf_dirty (f b) \<Longrightarrow> b_data (f b) = d (lba (b_dev (f b)) (b_sector (f b)))"
  using assms unfolding slots_ok_def by blast+

text \<open>A buffer goes into the hands of the thread, and comes back from them.\<close>

lemma slots_ok_take:
  assumes ok: "slots_ok d X f" and x: "buf_busy x" "buf_dirty x \<Longrightarrow> buf_valid x" "b_dev x < 2" "b_sector x < 2 ^ 28"
    and uniq: "\<And>b'. b' < NBUF \<Longrightarrow> b' \<noteq> b \<Longrightarrow> \<not> named (b_dev x) (b_sector x) (f b')"
  shows "slots_ok d (insert b X) (f(b := x))"
  using ok x uniq unfolding slots_ok_def named_def by auto blast

lemma slots_ok_drop:
  assumes ok: "slots_ok d X f" and b: "b < NBUF" and x: "named (b_dev (f b)) (b_sector (f b)) x" "\<not> buf_busy x" "buf_dirty x \<Longrightarrow> buf_valid x"
    "\<not> buf_dirty x \<Longrightarrow> b_data x = d (lba (b_dev x) (b_sector x))"
  shows "slots_ok d (X - {b}) (f(b := x))"
  using ok b x unfolding slots_ok_def named_def by auto

text \<open>The sector of a held buffer changes on the disk.\<close>

lemma slots_ok_disk:
  assumes ok: "slots_ok d X f" and b: "b < NBUF" "b \<in> X" "b_dev (f b) < 2"
    and x: "named (b_dev (f b)) (b_sector (f b)) x" "buf_busy x" "buf_valid x"
  shows "slots_ok (d(lba (b_dev (f b)) (b_sector (f b)) := y)) X (f(b := x))"
proof -
  have "lba (b_dev (f b')) (b_sector (f b')) \<noteq> lba (b_dev (f b)) (b_sector (f b))" if "b' < NBUF" "b' \<noteq> b" "b_dev (f b') < 2" for b'
  proof
    assume "lba (b_dev (f b')) (b_sector (f b')) = lba (b_dev (f b)) (b_sector (f b))"
    then have "b_dev (f b) = b_dev (f b') \<and> b_sector (f b) = b_sector (f b')"
      by (intro lba_inj) (use slots_okD(3) [OF ok] that b in auto)
    then show False using slots_okD(4) [OF ok b(1,3) that(1)] that(2) by (simp add: named_def)
  qed
  then show ?thesis using ok b x unfolding slots_ok_def named_def by auto
qed

text \<open>
  A run of the thread that changes nothing but the buffers, the scheduler's data and the trace, and during
  which the disk has contents from \<open>M\<close>.
\<close>

definition goes :: "ata \<Rightarrow> u32 \<Rightarrow> (ata_addr \<Rightarrow> block) set \<Rightarrow> 'a mbuf_scheme \<Rightarrow> 'a mbuf_scheme \<Rightarrow> bool" where
  "goes a0 c M s t \<longleftrightarrow> alone c t \<and> disk_rest t = disk_rest s \<and> suffix (io s) (io t) \<and> moments a0 (io s) (io t) \<subseteq> M"

lemma goes_trans: "goes a0 c M s t \<Longrightarrow> goes a0 c N t u \<Longrightarrow> goes a0 c (M \<union> N) s u"
  unfolding goes_def using moments_trans [of "io s" "io t" "io u" a0] by (auto intro: suffix_order.trans)

lemma goes_mono: "goes a0 c M s t \<Longrightarrow> M \<subseteq> N \<Longrightarrow> goes a0 c N s t"
  unfolding goes_def by blast

lemma disk_rest_sel:
  assumes "disk_rest t = disk_rest s"
  shows "bcache_lock t = bcache_lock s" "ide_idle t = ide_idle s" "havedisk1 t = havedisk1 s" "this_cpu t = this_cpu s"
proof -
  have "bcache_lock (disk_rest x) = bcache_lock x" "ide_idle (disk_rest x) = ide_idle x" "havedisk1 (disk_rest x) = havedisk1 x"
    "this_cpu (disk_rest x) = this_cpu x" for x :: "'a mbuf_scheme"
    by (simp_all add: disk_rest_def sched_rest_def ide_idle_def)
  then show "bcache_lock t = bcache_lock s" "ide_idle t = ide_idle s" "havedisk1 t = havedisk1 s" "this_cpu t = this_cpu s"
    using assms by metis+
qed

lemma unlink_buf_done: "unlink (buf_done d x) = buf_done d (unlink x)"
  by (simp add: buf_done_def unlink_def)

text \<open>A buffer with a request to make goes through the driver.\<close>

lemma ide_rw_cache:
  assumes env: "ide_env w a0" and al: "alone c s" and ca: "bcache_lock s = unlocked" "ide_idle s" "havedisk1 s" "lru s xs"
    and busy: "buf_busy (bufs s b)" and todo: "\<not> buf_valid (bufs s b) \<or> buf_dirty (bufs s b)"
    and ok: "slots_ok (disk_put (bufs s b) (disk_at a0 (io s))) X ((slots s)(b := buf_done (disk_at a0 (io s)) (slots s b)))"
  shows "returns (ide_rw w b s) (\<lambda>t. goes a0 c {disk_at a0 (io s), disk_put (bufs s b) (disk_at a0 (io s))} s t \<and>
    disk_at a0 (io t) = disk_put (bufs s b) (disk_at a0 (io s)) \<and> cache (disk_put (bufs s b) (disk_at a0 (io s))) X t \<and>
    slots t = (slots s)(b := buf_done (disk_at a0 (io s)) (slots s b)))"
proof -
  let ?d = "disk_at a0 (io s)"
  have "b_flags (bufs s b) AND (B_VALID OR B_DIRTY) \<noteq> B_VALID" using todo by (simp add: flags)
  then obtain t where t: "ide_rw w b s = Ret t" "alone c t" "bufs t = (bufs s)(b := buf_done ?d (bufs s b))"
    "disk_rest t = disk_rest s" "suffix (io s) (io t)" "disk_at a0 (io t) = disk_put (bufs s b) ?d"
    "moments a0 (io s) (io t) = {?d, disk_put (bufs s b) ?d}"
    using ide_rw_alone [OF env al ca(2) busy] ca(3) by (auto elim!: returnsE)
  have slots: "slots t = (slots s)(b := buf_done ?d (slots s b))" using t(3) by (auto simp: slots_def unlink_buf_done)
  have "lru t xs" by (rule lru_bufs [OF ca(4)]) (simp_all add: t(3) buf_done_def)
  then have "cache (disk_put (bufs s b) ?d) X t"
    using disk_rest_sel [OF t(4)] ca ok unfolding cache_def slots by auto
  then show ?thesis using t slots by (simp add: goes_def)
qed

text \<open>
  What \<open>bufcache_read\<close> hands out: the buffer of the sector, with the contents of the disk unless the cache
  has newer contents. The buffer \<open>x\<close> that it was before is of the same sector or holds nothing that the disk
  does not.
\<close>

definition handed :: "(ata_addr \<Rightarrow> block) \<Rightarrow> u32 \<Rightarrow> u32 \<Rightarrow> buf \<Rightarrow> buf \<Rightarrow> bool" where
  "handed d dev sector x y \<longleftrightarrow> named dev sector y \<and> buf_valid y \<and> (named dev sector x \<or> \<not> buf_dirty x) \<and>
     (if buf_dirty y then named dev sector x \<and> buf_dirty x \<and> b_data y = b_data x else b_data y = d (lba dev sector))"

lemma bufcache_read_free:
  assumes env: "ide_env w a0" and al: "alone c s" and ca: "cache (disk_at a0 (io s)) X s" and dev: "dev < 2" "sector < 2 ^ 28"
    and free: "\<And>b. b < NBUF \<Longrightarrow> named dev sector (bufs s b) \<Longrightarrow> b \<notin> X" and some: "\<exists>b < NBUF. b \<notin> X \<and> \<not> buf_dirty (bufs s b)"
  shows "returns (bufcache_read w dev sector s) (\<lambda>(b, t). b < NBUF \<and> b \<notin> X \<and> goes a0 c {disk_at a0 (io s)} s t \<and>
    disk_at a0 (io t) = disk_at a0 (io s) \<and> cache (disk_at a0 (io s)) (insert b X) t \<and>
    (\<exists>y. slots t = (slots s)(b := y) \<and> handed (disk_at a0 (io s)) dev sector (slots s b) y))"
proof -
  let ?d = "disk_at a0 (io s)"
  obtain b x where b: "bufcache_get w dev sector s = Ret (b, s\<lparr>bufs := (bufs s)(b := x)\<rparr>)" "b < NBUF" "b \<notin> X"
    and x: "named dev sector (bufs s b) \<and> x = (bufs s b)\<lparr>b_flags := b_flags (bufs s b) OR B_BUSY\<rparr> \<or>
     (\<forall>b' < NBUF. \<not> named dev sector (bufs s b')) \<and> \<not> buf_dirty (bufs s b) \<and> x = (bufs s b)\<lparr>b_dev := dev, b_sector := sector, b_flags := B_BUSY\<rparr>"
    using bufcache_get_free [where w = w and dev = dev and sector = sector, OF al ca free some] by (auto elim!: returnsE)
  obtain xs where c: "bcache_lock s = unlocked" "ide_idle s" "havedisk1 s" "lru s xs" and ok: "slots_ok ?d X (slots s)"
    using ca by (auto simp: cache_def)
  let ?s = "s\<lparr>bufs := (bufs s)(b := x)\<rparr>"
  note o = slots_okD [OF ok b(2)]
  have nm: "named dev sector x" "buf_busy x" "buf_dirty x \<Longrightarrow> buf_valid x" using x o(2) by (elim disjE conjE; simp add: named_def flags)+
  have "b_next x = b_next (bufs s b)" "b_prev x = b_prev (bufs s b)" using x by (elim disjE conjE; simp)+
  then have r: "lru ?s xs" by (intro lru_bufs [OF c(4)]) simp_all
  have uniq: "\<not> named dev sector (slots s b')" if "b' < NBUF" "b' \<noteq> b" for b'
  proof (cases "named dev sector (bufs s b)")
    case True
    then show ?thesis using o(4) [of b'] that dev(1) by (auto simp: named_def)
  next
    case False
    then have "\<forall>b' < NBUF. \<not> named dev sector (bufs s b')" using x by blast
    then show ?thesis using that(1) by (simp add: named_def)
  qed
  have take: "slots_ok ?d (insert b X) ((slots s)(b := y))" if "named dev sector y" "buf_busy y" "buf_dirty y \<Longrightarrow> buf_valid y" for y
    by (rule slots_ok_take [OF ok]) (use that dev uniq in \<open>auto simp: named_def\<close>)
  show ?thesis
  proof (cases "buf_valid x")
    case True
    then have hit: "named dev sector (bufs s b)" "x = (bufs s b)\<lparr>b_flags := b_flags (bufs s b) OR B_BUSY\<rparr>"
      using x by (elim disjE conjE; simp add: flags)+
    have "slots_ok ?d (insert b X) (slots ?s)"
      unfolding slots_upd by (rule take) (use nm True in \<open>simp_all add: named_def\<close>)
    then have "cache ?d (insert b X) ?s" using c r unfolding cache_def by (auto simp: ide_idle_def)
    moreover have "handed ?d dev sector (slots s b) (unlink x)"
    proof (cases "buf_dirty (bufs s b)")
      case False
      then have "b_data (bufs s b) = ?d (lba dev sector)" using o(5) b(3) dev(1) hit True by (simp add: named_def flags)
      then show ?thesis using False True hit(1) unfolding hit(2) by (simp add: handed_def named_def flags)
    qed (use True hit(1) in \<open>simp add: hit(2) handed_def named_def flags\<close>)
    moreover have "goes a0 c {?d} s ?s" using al by (simp add: goes_def)
    ultimately show ?thesis using True b by (simp add: bufcache_read_def slots_upd) blast
  next
    case False
    then have nd: "\<not> buf_dirty x" using nm(3) by blast
    have p: "disk_put x ?d = ?d" using nd by (simp add: disk_put_def)
    have y: "named dev sector (buf_done ?d (unlink x))" "buf_busy (buf_done ?d (unlink x))" "buf_valid (buf_done ?d (unlink x))"
      "\<not> buf_dirty (buf_done ?d (unlink x))" "b_data (buf_done ?d (unlink x)) = ?d (lba dev sector)"
      using nm nd by (auto simp: buf_done_def named_def flags)
    have "returns (ide_rw w b ?s) (\<lambda>t. goes a0 c {?d} ?s t \<and> disk_at a0 (io t) = ?d \<and> cache ?d (insert b X) t \<and>
        slots t = (slots ?s)(b := buf_done ?d (slots ?s b)))"
      using ide_rw_cache [OF env _ _ _ _ r, of c b "insert b X"] al c nm(2) False p take [OF y(1,2)] y(3) nm by (simp add: slots_upd ide_idle_def)
    moreover have "named dev sector (slots s b) \<or> \<not> buf_dirty (slots s b)" using x by (auto simp: named_def)
    ultimately show ?thesis using False b y by (auto simp: bufcache_read_def slots_upd goes_def handed_def elim!: returnsE)
  qed
qed

text \<open>Writing a held buffer through to the disk.\<close>

lemma bufcache_write_held:
  assumes env: "ide_env w a0" and al: "alone c s" and ca: "cache (disk_at a0 (io s)) X s" and b: "b < NBUF" "b \<in> X" "b_dev (bufs s b) < 2"
  shows "returns (bufcache_write w b s) (\<lambda>t.
    let d = disk_at a0 (io s); d' = d(lba (b_dev (bufs s b)) (b_sector (bufs s b)) := b_data (bufs s b)) in
    goes a0 c {d, d'} s t \<and> disk_at a0 (io t) = d' \<and> cache d' X t \<and>
    slots t = (slots s)(b := (slots s b)\<lparr>b_flags := (b_flags (bufs s b) OR B_VALID) AND NOT B_DIRTY\<rparr>))"
proof -
  let ?d = "disk_at a0 (io s)" and ?x = "(bufs s b)\<lparr>b_flags := b_flags (bufs s b) OR B_DIRTY\<rparr>"
  let ?d' = "?d(lba (b_dev (bufs s b)) (b_sector (bufs s b)) := b_data (bufs s b))" and ?s = "s\<lparr>bufs := (bufs s)(b := ?x)\<rparr>"
  obtain xs where c: "bcache_lock s = unlocked" "ide_idle s" "havedisk1 s" "lru s xs" and ok: "slots_ok ?d X (slots s)"
    using ca by (auto simp: cache_def)
  have busy: "buf_busy (bufs s b)" using slots_okD(1) [OF ok b(1)] b(2) by simp
  have p: "disk_put ?x ?d = ?d'" by (simp add: disk_put_def flags)
  have f: "((f OR 4) OR 2) AND NOT 4 = (f OR 2) AND NOT (4::u32)" for f by (rule bit_word_eqI) (auto simp: bit_simps)
  have y: "buf_done ?d (unlink ?x) = (slots s b)\<lparr>b_flags := (b_flags (bufs s b) OR B_VALID) AND NOT B_DIRTY\<rparr>"
    by (simp add: buf_done_def slots_def flags) (simp add: unlink_def f [simplified])
  have "slots_ok ?d' X ((slots s)(b := buf_done ?d (unlink ?x)))"
    using slots_ok_disk [OF ok b(1,2)] b(3) busy by (simp add: y named_def flags)
  moreover have "lru ?s xs" by (rule lru_bufs [OF c(4)]) auto
  ultimately have "returns (ide_rw w b ?s) (\<lambda>t. goes a0 c {?d, ?d'} ?s t \<and> disk_at a0 (io t) = ?d' \<and> cache ?d' X t \<and>
      slots t = (slots ?s)(b := buf_done ?d (slots ?s b)))"
    using ide_rw_cache [OF env, of c ?s xs b X] al c busy p by (simp add: slots_upd ide_idle_def flags)
  then show ?thesis using busy y by (auto simp: bufcache_write_def buf_put_def slots_upd goes_def elim!: returnsE)
qed

section \<open>Giving a buffer back\<close>

text \<open>Taking an element out of the list and putting it first, by the assignments of the source.\<close>

lemma relink_next:
  assumes d: "distinct (N # ps @ b # qs)" and l: "linked nx (N # ps @ b # qs) N" and p: "p = last (N # ps)"
  shows "linked ((nx(p := nx b))(b := (nx(p := nx b)) N, N := b)) (N # b # ps @ qs) N"
proof -
  let ?f = "(nx(p := nx b))(b := (nx(p := nx b)) N, N := b)"
  have l': "linked nx (N # ps) b" "nx b = hd (qs @ [N])" "linked nx qs N"
    using l linked_append [of nx "N # ps" "b # qs" N] by auto
  have "p \<in> set (N # ps)" unfolding p by (rule last_in_set) simp
  then have "linked ?f qs N = linked nx qs N" using d by (intro linked_cong) auto
  moreover have "linked ?f ps (hd (qs @ [N]))" if "ps \<noteq> []"
  proof -
    have "linked (nx(last ps := hd (qs @ [N]))) ps (hd (qs @ [N]))"
      by (rule linked_last) (use l' d that in auto)
    moreover have "linked ?f ps e = linked (nx(last ps := hd (qs @ [N]))) ps e" for e
      using d p l'(2) that by (intro linked_cong) auto
    ultimately show ?thesis by blast
  qed
  ultimately show ?thesis
    using d p l' by (cases ps) (auto simp: linked_append)
qed

lemma relink_prev:
  assumes d: "distinct (N # ps @ b # qs)" and l: "linked pv (N # rev (ps @ b # qs)) N"
    and q: "q = hd (qs @ [N])" and n: "n = hd (ps @ qs @ [N])"
  shows "linked ((pv(q := pv b))(b := N, n := b)) (N # rev (b # ps @ qs)) N"
proof -
  let ?f = "(pv(q := pv b))(b := N, n := b)"
  have l': "linked pv (N # rev qs) b" "pv b = hd (rev ps @ [N])" "linked pv (rev ps) N"
    using l linked_append [of pv "N # rev qs" "b # rev ps" N] by auto
  have lq: "last (N # rev qs) = q" using q by (cases qs) auto
  have nb: "n \<noteq> b" using n d by (cases ps; cases qs) auto
  have "linked ?f (rev ps) b"
  proof (cases ps)
    case (Cons a as)
    have "linked (pv(last (rev ps) := b)) (rev ps) b"
      by (rule linked_last) (use l' d Cons in auto)
    moreover have "linked ?f (rev ps) b = linked (pv(last (rev ps) := b)) (rev ps) b"
      using d q n Cons by (intro linked_cong) (cases qs; auto)
    ultimately show ?thesis by blast
  qed simp
  moreover have "linked ?f (N # rev qs) (hd (rev ps @ [b]))"
  proof -
    have "linked (pv(last (N # rev qs) := hd (rev ps @ [b]))) (N # rev qs) (hd (rev ps @ [b]))"
      by (rule linked_last) (use l' d in auto)
    moreover have "linked ?f (N # rev qs) e = linked (pv(q := hd (rev ps @ [b]))) (N # rev qs) e" for e
      using d q n l'(2) by (intro linked_cong) (cases ps; cases qs; auto simp: hd_append)
    ultimately show ?thesis unfolding lq by blast
  qed
  ultimately show ?thesis
    using nb linked_append [of ?f "N # rev qs" "rev ps @ [b]" N] hd_two [of "rev ps" b N] by (simp add: linked_append)
qed

text \<open>The links after \<open>bufcache_release\<close>.\<close>

definition relinked :: "u32 \<Rightarrow> 'a mbuf_scheme \<Rightarrow> 'a mbuf_scheme" where
  "relinked b s =
     (let s = buf_put (b_next (bufs s b)) (\<lambda>x. x\<lparr>b_prev := b_prev (bufs s b)\<rparr>) s;
          s = buf_put (b_prev (bufs s b)) (\<lambda>x. x\<lparr>b_next := b_next (bufs s b)\<rparr>) s
      in bufcache_link b s)"

lemma put_link:
  "b_next (bufs (buf_put i (\<lambda>x. x\<lparr>b_prev := v\<rparr>) s) j) = b_next (bufs s j)"
  "b_prev (bufs (buf_put i (\<lambda>x. x\<lparr>b_prev := v\<rparr>) s) j) = (if j = i then v else b_prev (bufs s j))"
  "b_next (bufs (buf_put i (\<lambda>x. x\<lparr>b_next := v\<rparr>) s) j) = (if j = i then v else b_next (bufs s j))"
  "b_prev (bufs (buf_put i (\<lambda>x. x\<lparr>b_next := v\<rparr>) s) j) = b_prev (bufs s j)"
  "slots (buf_put i (\<lambda>x. x\<lparr>b_prev := v\<rparr>) s) = slots s" "slots (buf_put i (\<lambda>x. x\<lparr>b_next := v\<rparr>) s) = slots s"
  by (auto simp: buf_put_def slots_def unlink_def)

lemma relinked_sel:
  assumes "b \<noteq> NBUF" and "b_next (bufs s b) \<noteq> b" and "b_prev (bufs s b) \<noteq> b"
  defines "nx \<equiv> \<lambda>b. b_next (bufs s b)" and "pv \<equiv> \<lambda>b. b_prev (bufs s b)"
  shows "(\<lambda>i. b_next (bufs (relinked b s) i)) = (nx(pv b := nx b))(b := (nx(pv b := nx b)) NBUF, NBUF := b)"
    and "(\<lambda>i. b_prev (bufs (relinked b s) i)) = (pv(nx b := pv b))(b := NBUF, (nx(pv b := nx b)) NBUF := b)"
    and "slots (relinked b s) = slots s"
  using assms by (simp_all add: relinked_def bufcache_link_def put_link Let_def fun_eq_iff)

lemma lru_relinked:
  assumes r: "lru s xs" and b: "b < NBUF"
  shows "lru (relinked b s) (b # remove1 b xs)" and "slots (relinked b s) = slots s"
proof -
  have "b \<in> set xs" using r b by (simp add: lru_def)
  then obtain ps qs where xs: "xs = ps @ b # qs" "b \<notin> set ps" by (blast dest: split_list_first)
  have d: "distinct (NBUF # ps @ b # qs)" using r xs(1) by (auto simp: lru_def)
  have n: "linked (\<lambda>b. b_next (bufs s b)) (NBUF # ps @ b # qs) NBUF" and p: "linked (\<lambda>b. b_prev (bufs s b)) (NBUF # rev (ps @ b # qs)) NBUF"
    using r xs(1) by (auto simp: lru_def)
  have nb: "b_next (bufs s b) = hd (qs @ [NBUF])"
    using linked_append [of "\<lambda>b. b_next (bufs s b)" "NBUF # ps" "b # qs" NBUF] n by auto
  have pb: "b_prev (bufs s b) = last (NBUF # ps)"
  proof -
    have "b_prev (bufs s b) = hd (rev ps @ [NBUF])"
      using linked_append [of "\<lambda>b. b_prev (bufs s b)" "NBUF # rev qs" "b # rev ps" NBUF] p by auto
    then show ?thesis by (cases ps rule: rev_cases) auto
  qed
  have ne: "b \<noteq> NBUF" "b_next (bufs s b) \<noteq> b" "b_prev (bufs s b) \<noteq> b"
    using b nb pb d by (cases qs; cases ps rule: rev_cases; auto)+
  have hd: "((\<lambda>b. b_next (bufs s b))(b_prev (bufs s b) := b_next (bufs s b))) NBUF = hd (ps @ qs @ [NBUF])"
  proof (cases "ps = []")
    case False
    moreover have "NBUF \<notin> set ps" using d by simp
    ultimately have "last ps \<noteq> NBUF" using last_in_set [of ps] by metis
    then have "b_prev (bufs s b) \<noteq> NBUF" using pb False by simp
    then show ?thesis using n False by (cases ps) auto
  qed (use nb pb in simp)
  have x: "remove1 b xs = ps @ qs" using xs by (simp add: remove1_append)
  have "linked (\<lambda>i. b_next (bufs (relinked b s) i)) (NBUF # b # ps @ qs) NBUF"
    unfolding relinked_sel(1) [OF ne] by (rule relink_next [OF d n pb])
  moreover have "linked (\<lambda>i. b_prev (bufs (relinked b s) i)) (NBUF # rev (b # ps @ qs)) NBUF"
    unfolding relinked_sel(2) [OF ne] by (rule relink_prev [OF d p nb hd])
  moreover have "set (b # ps @ qs) = {b. b < NBUF}" using r xs(1) by (auto simp: lru_def)
  ultimately show "lru (relinked b s) (b # remove1 b xs)" using d unfolding lru_def x by simp
  show "slots (relinked b s) = slots s" by (rule relinked_sel(3) [OF ne])
qed

lemma io_buf_put [simp]: "io (buf_put i f s) = io s"
  by (simp add: buf_put_def)

lemma disk_rest_lock: "disk_rest t = disk_rest s \<Longrightarrow> disk_rest (t\<lparr>bcache_lock := l\<rparr>) = disk_rest (s\<lparr>bcache_lock := l\<rparr>)"
proof -
  assume a: "disk_rest t = disk_rest s"
  have "disk_rest (x\<lparr>bcache_lock := l\<rparr>) = (disk_rest x)\<lparr>bcache_lock := l\<rparr>" for x :: "'a mbuf_scheme"
    by (simp add: disk_rest_def sched_rest_def)
  with a show ?thesis by simp
qed

lemma bufcache_release_held:
  assumes al: "alone c s" and ca: "cache d X s" and b: "b < NBUF" "b \<in> X"
    and clean: "\<not> buf_dirty (bufs s b) \<Longrightarrow> b_data (bufs s b) = d (lba (b_dev (bufs s b)) (b_sector (bufs s b)))"
  shows "returns (bufcache_release w b s) (\<lambda>t. alone c t \<and> disk_rest t = disk_rest s \<and> io t = io s \<and> cache d (X - {b}) t \<and>
    slots t = (slots s)(b := (slots s b)\<lparr>b_flags := b_flags (bufs s b) AND NOT B_BUSY\<rparr>))"
proof -
  obtain xs where c: "bcache_lock s = unlocked" "ide_idle s" "havedisk1 s" "lru s xs" and ok: "slots_ok d X (slots s)"
    using ca by (auto simp: cache_def)
  have busy: "buf_busy (bufs s b)" using slots_okD(1) [OF ok b(1)] b(2) by simp
  let ?s = "s\<lparr>bcache_lock := held_by (this_cpu s)\<rparr>"
  let ?x = "(slots s b)\<lparr>b_flags := b_flags (bufs s b) AND NOT B_BUSY\<rparr>"
  define u where "u = buf_put b (\<lambda>x. x\<lparr>b_flags := b_flags x AND NOT B_BUSY\<rparr>) (relinked b ?s)"
  have acq: "bcache_acquire s = Ret ?s" using c(1) al by (simp add: bcache_acquire_def spinlock_acquire_unlocked alone_def)
  have call: "bufcache_release w b s = andThen (thread_wakeup (w_buf w b) u) (\<lambda>s. Ret (bcache_release s))"
    using busy by (simp add: bufcache_release_def acq u_def relinked_def Let_def)
  have "lru ?s xs" using c(4) by (simp add: lru_def)
  note rl = lru_relinked [OF this b(1)]
  have ru: "lru u (b # remove1 b xs)" by (rule lru_bufs [OF rl(1)]) (simp_all add: u_def buf_put_def)
  have sl: "slots (relinked b ?s) = slots s" using rl(2) by (simp add: slots_def fun_eq_iff)
  have su: "slots u = (slots s)(b := ?x)"
  proof -
    have "slots u = (slots (relinked b ?s))(b := (slots (relinked b ?s) b)\<lparr>b_flags := b_flags (slots (relinked b ?s) b) AND NOT B_BUSY\<rparr>)"
      by (auto simp: u_def buf_put_def slots_def unlink_def)
    then show ?thesis unfolding sl by simp
  qed
  have "alone c u" using al by (simp add: u_def relinked_def bufcache_link_def Let_def)
  from wakeup_alone [OF this, of "w_buf w b"] obtain t where t: "thread_wakeup (w_buf w b) u = Ret t" "alone c t" "sched_rest t = sched_rest u"
    by (auto elim!: returnsE)
  note f = sched_rest_sel [OF t(3)]
  let ?t = "bcache_release t"
  have "disk_rest u = disk_rest ?s" "io u = io s" by (simp_all add: u_def relinked_def bufcache_link_def Let_def)
  moreover have "disk_rest (s\<lparr>bcache_lock := unlocked\<rparr>) = disk_rest s" using c(1) by (simp add: disk_rest_def sched_rest_def)
  ultimately have rest: "disk_rest ?t = disk_rest s" "io ?t = io s" "bufs ?t = bufs u"
    using f(1,2) disk_rest_lock [OF f(5), of unlocked] disk_rest_lock [of u ?s unlocked] by (simp_all add: bcache_release_def)
  have "slots_ok d (X - {b}) (slots u)"
    unfolding su by (rule slots_ok_drop [OF ok b(1)])
      (use slots_okD(2) [OF ok b(1)] clean in \<open>simp_all add: named_def flags\<close>)
  moreover have "slots ?t = slots u" "lru ?t (b # remove1 b xs)" using rest(3) ru by (simp_all add: slots_def fun_eq_iff lru_def)
  ultimately have "cache d (X - {b}) ?t"
    using disk_rest_sel [OF rest(1)] c unfolding cache_def by auto
  then show ?thesis
    using call t(1,2) rest su \<open>slots ?t = slots u\<close> by (simp add: bcache_release_def)
qed

section \<open>The cache from its initialisation on\<close>

text \<open>A list of buffers in the ring, while it is being built.\<close>

definition ring_part :: "'a mbuf_scheme \<Rightarrow> u32 list \<Rightarrow> bool" where
  "ring_part s xs \<longleftrightarrow> distinct (NBUF # xs) \<and> linked (\<lambda>b. b_next (bufs s b)) (NBUF # xs) NBUF \<and> linked (\<lambda>b. b_prev (bufs s b)) (NBUF # rev xs) NBUF"

lemma link_sel:
  fixes s :: "'a mbuf_scheme"
  assumes "b \<noteq> NBUF"
  defines "nx \<equiv> \<lambda>b. b_next (bufs s b)" and "pv \<equiv> \<lambda>b. b_prev (bufs s b)"
  shows "(\<lambda>i. b_next (bufs (bufcache_link b s) i)) = nx(b := nx NBUF, NBUF := b)"
    and "(\<lambda>i. b_prev (bufs (bufcache_link b s) i)) = pv(b := NBUF, nx NBUF := b)"
    and "slots (bufcache_link b s) = slots s" and "disk_rest (bufcache_link b s) = disk_rest s"
  using assms by (simp_all add: bufcache_link_def put_link Let_def fun_eq_iff)

lemma ring_part_link:
  assumes r: "ring_part s xs" and b: "b \<noteq> NBUF" "b \<notin> set xs"
  shows "ring_part (bufcache_link b s) (b # xs)"
proof -
  let ?nx = "\<lambda>b. b_next (bufs s b)" and ?pv = "\<lambda>b. b_prev (bufs s b)"
  have d: "distinct (NBUF # xs)" and n: "linked ?nx (NBUF # xs) NBUF" and p: "linked ?pv (NBUF # rev xs) NBUF" using r by (simp_all add: ring_part_def)
  have nN: "?nx NBUF = hd (xs @ [NBUF])" using n by simp
  have last: "last (NBUF # rev xs) = hd (xs @ [NBUF])" by (cases xs) simp_all
  have "linked (?nx(b := ?nx NBUF, NBUF := b)) xs NBUF = linked ?nx xs NBUF" using d b by (intro linked_cong) auto
  then have nx: "linked (?nx(b := ?nx NBUF, NBUF := b)) (NBUF # b # xs) NBUF" using n b(1) by simp
  have hb: "hd (xs @ [NBUF]) \<noteq> b" using b by (cases xs) auto
  have "linked (?pv(last (NBUF # rev xs) := b)) (NBUF # rev xs) b" by (rule linked_last [OF p]) (use d in simp_all)
  moreover have "linked (?pv(b := NBUF, ?nx NBUF := b)) (NBUF # rev xs) b = linked (?pv(last (NBUF # rev xs) := b)) (NBUF # rev xs) b"
    unfolding nN last using b by (intro linked_cong) auto
  ultimately have pv: "linked (?pv(b := NBUF, ?nx NBUF := b)) ((NBUF # rev xs) @ [b]) NBUF"
    unfolding linked_append using hb nN by simp
  show ?thesis unfolding ring_part_def link_sel(1,2) [OF b(1)] using d b pv by (intro conjI nx) simp_all
qed

lemma bufcache_init_ok:
  assumes "\<forall>b < NBUF. b_flags (bufs s b) = 0" and "ide_idle s" and "havedisk1 s"
  shows "returns (bufcache_init s) (\<lambda>t. cache d {} t \<and> (\<forall>b < NBUF. b_dev (bufs t b) = -1 \<and> b_flags (bufs t b) = 0) \<and> io t = io s \<and> (alone c t \<longleftrightarrow> alone c s) \<and>
    disk_rest t = disk_rest (s\<lparr>bcache_lock := unlocked\<rparr>))"
proof -
  let ?s = "buf_put NBUF (\<lambda>x. x\<lparr>b_prev := NBUF, b_next := NBUF\<rparr>) (s\<lparr>bcache_lock := unlocked\<rparr>)"
  let ?I = "\<lambda>bs t. ring_part t (rev bs) \<and> disk_rest t = disk_rest ?s \<and> io t = io s \<and>
    (\<forall>b \<in> set bs. b_dev (slots t b) = -1) \<and> (\<forall>b < NBUF. b_flags (slots t b) = 0) \<and> (alone c t \<longleftrightarrow> alone c s)"
  have lk: "spinlock_init l = unlocked" for l by (simp add: spinlock_init_def)
  have "returns (forM (range32 0 10) (\<lambda>b s. Ret (bufcache_link b (buf_put b (\<lambda>x. x\<lparr>b_dev := -1\<rparr>) s))) ?s) (?I (range32 0 10))"
  proof (rule returns_forM)
    show "?I [] ?s" using assms(1) by (auto simp: ring_part_def buf_put_def)
  next
    fix pre b todo t assume r: "range32 0 10 = pre @ b # todo" and I: "?I pre t"
    have "distinct (range32 0 10)" by (simp add: distinct_range32)
    then have b: "b \<notin> set (rev pre)" unfolding r by simp
    have "b \<in> set (range32 0 10)" unfolding r by simp
    then have bN: "b \<noteq> NBUF" by (auto simp: set_range32)
    let ?t = "buf_put b (\<lambda>x. x\<lparr>b_dev := -1\<rparr>) t"
    have "b_next (bufs ?t i) = b_next (bufs t i)" "b_prev (bufs ?t i) = b_prev (bufs t i)" for i by (simp_all add: buf_put_def)
    then have "ring_part ?t (rev pre)" using I by (simp add: ring_part_def)
    then have "ring_part (bufcache_link b ?t) (rev (pre @ [b]))" using ring_part_link [OF _ bN b] by simp
    moreover have "io (bufcache_link b ?t) = io t" "alone c (bufcache_link b ?t) = alone c t" by (simp_all add: bufcache_link_def Let_def)
    moreover have "slots ?t = (slots t)(b := (slots t b)\<lparr>b_dev := -1\<rparr>)" by (auto simp: slots_def buf_put_def unlink_def)
    ultimately show "returns (Ret (bufcache_link b ?t)) (?I (pre @ [b]))"
      using I link_sel(3,4) [OF bN, of ?t] by (auto simp del: slots_sel)
  qed
  then obtain t where t: "bufcache_init s = Ret t" "ring_part t (rev (range32 0 10))" "disk_rest t = disk_rest ?s" "io t = io s"
    "\<forall>b < NBUF. b_dev (slots t b) = -1 \<and> b_flags (slots t b) = 0" "alone c t \<longleftrightarrow> alone c s"
    by (auto simp: bufcache_init_def lk set_range32 u32_less_nat elim!: returnsE)
  have "set (rev (range32 0 10)) = {b. b < NBUF}" by (auto simp: set_range32 u32_less_nat)
  then have "lru t (rev (range32 0 10))" using t(2) unfolding lru_def ring_part_def by auto
  moreover have "slots_ok d {} (slots t)" using t(5) by (simp add: slots_ok_def)
  moreover have "bcache_lock t = unlocked" "ide_idle t" "havedisk1 t"
    using disk_rest_sel [OF t(3)] assms(2,3) by (simp_all add: buf_put_def ide_idle_def)
  ultimately show ?thesis using t(1,3-6) unfolding cache_def by auto
qed



text \<open>
  (C11) \<^verbatim>\<open>bufcache_read\<close> of a sector that the thread does not hold already comes back, as long as one buffer is
  neither held nor dirty, with a buffer of that sector and no other buffer changed: its contents are
  those of the disk, or the newer ones of a dirty buffer of the sector. A buffer that was taken from
  another sector was not dirty. The disk does not change, and the cache stays coherent with it.
\<close>

theorem bufcache_read_correct:
  assumes "ide_env w a0" and "alone c s" and "cache (disk_at a0 (io s)) X s" and "dev < 2" and "sector < 2 ^ 28"
    and "\<And>b. b < NBUF \<Longrightarrow> named dev sector (bufs s b) \<Longrightarrow> b \<notin> X" and "\<exists>b < NBUF. b \<notin> X \<and> \<not> buf_dirty (bufs s b)"
  shows "returns (bufcache_read w dev sector s) (\<lambda>(b, t). b < NBUF \<and> b \<notin> X \<and> alone c t \<and> named dev sector (bufs t b) \<and>
    (named dev sector (bufs s b) \<or> \<not> buf_dirty (bufs s b)) \<and>
    (if buf_dirty (bufs t b) then named dev sector (bufs s b) \<and> b_data (bufs t b) = b_data (bufs s b)
     else b_data (bufs t b) = disk_at a0 (io s) (lba dev sector)) \<and>
    (\<forall>i. i \<noteq> b \<longrightarrow> slots t i = slots s i) \<and> disk_at a0 (io t) = disk_at a0 (io s) \<and> cache (disk_at a0 (io t)) (insert b X) t)"
proof (rule returns_mono [OF bufcache_read_free [OF assms]])
  fix x :: "u32 \<times> 'a mbuf_scheme"
  assume "case x of (b, t) \<Rightarrow> b < NBUF \<and> b \<notin> X \<and> goes a0 c {disk_at a0 (io s)} s t \<and>
    disk_at a0 (io t) = disk_at a0 (io s) \<and> cache (disk_at a0 (io s)) (insert b X) t \<and>
    (\<exists>y. slots t = (slots s)(b := y) \<and> handed (disk_at a0 (io s)) dev sector (slots s b) y)"
  then obtain b t y where x: "x = (b, t)" "b < NBUF" "b \<notin> X" "goes a0 c {disk_at a0 (io s)} s t" "disk_at a0 (io t) = disk_at a0 (io s)"
    "cache (disk_at a0 (io s)) (insert b X) t" "slots t = (slots s)(b := y)" "handed (disk_at a0 (io s)) dev sector (slots s b) y" by (cases x) auto
  have "b_flags (bufs t b) = b_flags y" "b_dev (bufs t b) = b_dev y" "b_sector (bufs t b) = b_sector y" "b_data (bufs t b) = b_data y"
    using slots_sel [of t b] x(7) by auto
  then show "case x of (b, t) \<Rightarrow> b < NBUF \<and> b \<notin> X \<and> alone c t \<and> named dev sector (bufs t b) \<and>
    (named dev sector (bufs s b) \<or> \<not> buf_dirty (bufs s b)) \<and>
    (if buf_dirty (bufs t b) then named dev sector (bufs s b) \<and> b_data (bufs t b) = b_data (bufs s b)
     else b_data (bufs t b) = disk_at a0 (io s) (lba dev sector)) \<and>
    (\<forall>i. i \<noteq> b \<longrightarrow> slots t i = slots s i) \<and> disk_at a0 (io t) = disk_at a0 (io s) \<and> cache (disk_at a0 (io t)) (insert b X) t"
    using x by (auto simp: handed_def named_def goes_def split: if_splits)
qed

definition ata_fives :: ata where
  "ata_fives = \<lparr>a_r3 = 0, a_r4 = 0, a_r5 = 0, a_r6 = 0, a_cmd = 0, a_disk = (\<lambda>_ _. 5)\<rparr>"

theorem bufcache_read_correct_witness:
  "returns (bufcache_init disk_boot) (\<lambda>s. returns (bufcache_read (disk_world ata_fives) 1 7 s) (\<lambda>(b, t). named 1 7 (bufs t b) \<and> b_data (bufs t b) = (\<lambda>_. 5)))"
proof (rule returns_mono [OF bufcache_init_ok [where c = 0 and d = "\<lambda>_ _. 5"]])
  fix s :: mbuf
  assume s: "cache (\<lambda>_ _. 5) {} s \<and> (\<forall>b < NBUF. b_dev (bufs s b) = -1 \<and> b_flags (bufs s b) = 0) \<and> io s = io disk_boot \<and> (alone 0 s \<longleftrightarrow> alone 0 disk_boot) \<and>
    disk_rest s = disk_rest (disk_boot\<lparr>bcache_lock := unlocked\<rparr>)"
  have d: "disk_at ata_fives (io s) = (\<lambda>_ _. 5)" using s by (simp add: disk_boot_simps disk_at_def ata_of_def ata_fives_def)
  have "returns (bufcache_read (disk_world ata_fives) 1 7 s) (\<lambda>(b, t). b < NBUF \<and> b \<notin> {} \<and> alone 0 t \<and> named 1 7 (bufs t b) \<and> (named 1 7 (bufs s b) \<or> \<not> buf_dirty (bufs s b)) \<and>
    (if buf_dirty (bufs t b) then named 1 7 (bufs s b) \<and> b_data (bufs t b) = b_data (bufs s b)
     else b_data (bufs t b) = disk_at ata_fives (io s) (lba 1 7)) \<and>
    (\<forall>i. i \<noteq> b \<longrightarrow> slots t i = slots s i) \<and> disk_at ata_fives (io t) = disk_at ata_fives (io s) \<and> cache (disk_at ata_fives (io t)) {b} t)"
    by (rule bufcache_read_correct [OF disk_world_env]) (use s d disk_boot_alone in \<open>auto intro!: exI [of _ 0]\<close>)
  then show "returns (bufcache_read (disk_world ata_fives) 1 7 s) (\<lambda>(b, t). named 1 7 (bufs t b) \<and> b_data (bufs t b) = (\<lambda>_. 5))"
    by (rule returns_mono) (use s d in \<open>auto simp: named_def split: if_splits\<close>)
qed (simp_all add: disk_boot_simps ide_idle_def)

end
