(* ===== verification/Log_Spec.thy ===== *)
theory Log_Spec
  imports Log Bufcache_Spec
begin

unbundle bit_operations_syntax

text \<open>
  What the log promises: a transaction is on the disk as a whole or not at all, whenever the machine
  stops. A stopped machine leaves the disk as it is at that moment of the trace, and recovery at the next
  start is a function of the disk.
\<close>

section \<open>The header block\<close>

lemma bload32_store [simp]: "bload32 (bstore32 a v d) a = v"
proof -
  have [simp]: "a + 1 \<noteq> a" "a + 2 \<noteq> a" "a + 3 \<noteq> a" "a + 2 \<noteq> a + 1" "a + 3 \<noteq> a + 1" "a + 3 \<noteq> a + 2" by simp_all
  show ?thesis
    unfolding bload32_def bstore32_def
    by (rule bit_word_eqI, rename_tac n) (case_tac "n < 8"; case_tac "n < 16"; case_tac "n < 24"; auto simp: bit_simps less_diff_conv2)
qed

lemma bload32_other:
  assumes "\<And>i j. i < 4 \<Longrightarrow> j < 4 \<Longrightarrow> b + i \<noteq> a + j"
  shows "bload32 (bstore32 a v d) b = bload32 d b"
proof -
  have "bstore32 a v d (b + i) = d (b + i)" if "i < 4" for i
    using assms [OF that, of 0] assms [OF that, of 1] assms [OF that, of 2] assms [OF that, of 3] by (simp add: bstore32_def)
  from this [of 0] this [of 1] this [of 2] this [of 3] show ?thesis by (simp add: bload32_def)
qed

lemma bstore32_same: "bload32 d a = v \<Longrightarrow> bstore32 a v d = d"
proof -
  assume v: "bload32 d a = v"
  have b: "bit v n = (n < 32 \<and> (if n < 8 then bit (d a) n else if n < 16 then bit (d (a + 1)) (n - 8)
      else if n < 24 then bit (d (a + 2)) (n - 16) else bit (d (a + 3)) (n - 24)))" for n
    unfolding v [symmetric] bload32_def by (auto simp: bit_simps dest: bit_imp_le_length)
  have "ucast v = d a" "ucast (drop_bit 8 v) = d (a + 1)" "ucast (drop_bit 16 v) = d (a + 2)" "ucast (drop_bit 24 v) = d (a + 3)"
    by (rule bit_word_eqI; simp add: bit_simps b)+
  then show ?thesis by (simp add: bstore32_def fun_eq_iff)
qed

text \<open>The sectors of the first \<open>k\<close> blocks, and the block that a header makes of the one in the buffer.\<close>

primrec put_sectors :: "(u32 \<Rightarrow> u32) \<Rightarrow> nat \<Rightarrow> block \<Rightarrow> block" where
  "put_sectors f 0 d = d"
| "put_sectors f (Suc k) d = bstore32 (lh_off (of_nat k)) (f (of_nat k)) (put_sectors f k d)"

definition head_block :: "logheader \<Rightarrow> block \<Rightarrow> block" where
  "head_block lh d = put_sectors (lh_sector lh) (unat (lh_n lh)) (bstore32 0 (lh_n lh) d)"

lemma lh_off_unat: "k < 10 \<Longrightarrow> i < 4 \<Longrightarrow> unat (lh_off (of_nat k) + i) = 4 + 4 * k + unat i"
proof -
  assume k: "k < 10" "i < 4"
  have "unat (of_nat k :: u32) = k" using k(1) by (simp add: unat_of_nat)
  then have "unat (4 + 4 * of_nat k :: u32) = 4 + 4 * k" using k(1) by (simp add: unat_word_ariths)
  then have "unat (lh_off (of_nat k)) = 4 + 4 * k" using k(1) by (simp add: lh_off_def unsigned_ucast_eq take_bit_nat_eq_self)
  then show ?thesis using k by (simp add: unat_word_ariths word_less_nat_alt)
qed

lemma head_block_load:
  assumes "unat (lh_n lh) \<le> 10"
  shows "bload32 (head_block lh d) 0 = lh_n lh"
    and "i < unat (lh_n lh) \<Longrightarrow> bload32 (head_block lh d) (lh_off (of_nat i)) = lh_sector lh (of_nat i)"
proof -
  have off: "lh_off (of_nat k) + i \<noteq> lh_off (of_nat k') + j" if "k < 10" "k' < 10" "k \<noteq> k'" "i < 4" "j < 4" for k k' i j
    using that lh_off_unat [of k i] lh_off_unat [of k' j] by (auto simp: word_less_nat_alt)
  have zero: "0 + i \<noteq> lh_off (of_nat k') + j" if "k' < 10" "i < 4" "j < 4" for k' i j
    using that lh_off_unat [of k' j] by (auto simp: word_less_nat_alt)
  have "bload32 (put_sectors f k x) 0 = bload32 x 0" if "k \<le> 10" for f k x
    using that by (induction k) (auto simp: bload32_other [OF zero])
  then show "bload32 (head_block lh d) 0 = lh_n lh" using assms by (simp add: head_block_def)
  have "bload32 (put_sectors f k x) (lh_off (of_nat i)) = f (of_nat i)" if "k \<le> 10" "i < k" for f k x i
    using that by (induction k) (auto simp: less_Suc_eq bload32_other [OF off])
  then show "i < unat (lh_n lh) \<Longrightarrow> bload32 (head_block lh d) (lh_off (of_nat i)) = lh_sector lh (of_nat i)"
    using assms by (simp add: head_block_def)
qed

section \<open>Recovery, on the disk\<close>

text \<open>The header and the blocks of the log, and the copy of the first \<open>k\<close> of them to their home sectors.\<close>

definition log_area :: "u32 \<Rightarrow> u32 \<Rightarrow> ata_addr set" where
  "log_area dev start = (\<lambda>i. lba dev (start + of_nat i)) ` {..10}"

primrec installed :: "u32 \<Rightarrow> u32 \<Rightarrow> (u32 \<Rightarrow> u32) \<Rightarrow> nat \<Rightarrow> (ata_addr \<Rightarrow> block) \<Rightarrow> ata_addr \<Rightarrow> block" where
  "installed dev start f 0 d = d"
| "installed dev start f (Suc k) d =
     (installed dev start f k d)(lba dev (f (of_nat k)) := installed dev start f k d (lba dev (start + of_nat k + 1)))"

definition homes :: "u32 \<Rightarrow> u32 \<Rightarrow> (u32 \<Rightarrow> u32) \<Rightarrow> nat \<Rightarrow> bool" where
  "homes dev start f n \<longleftrightarrow> n \<le> 10 \<and> (\<forall>k < n. f (of_nat k) < 2 ^ 28 \<and> lba dev (f (of_nat k)) \<notin> log_area dev start)"

text \<open>A committed transaction is one that the header of the log counts.\<close>

definition log_n :: "u32 \<Rightarrow> u32 \<Rightarrow> (ata_addr \<Rightarrow> block) \<Rightarrow> u32" where
  "log_n dev start d = bload32 (d (lba dev start)) 0"

definition log_sectors :: "u32 \<Rightarrow> u32 \<Rightarrow> (ata_addr \<Rightarrow> block) \<Rightarrow> u32 \<Rightarrow> u32" where
  "log_sectors dev start d i = bload32 (d (lba dev start)) (lh_off i)"

definition recover :: "u32 \<Rightarrow> u32 \<Rightarrow> (ata_addr \<Rightarrow> block) \<Rightarrow> ata_addr \<Rightarrow> block" where
  "recover dev start d =
     (installed dev start (log_sectors dev start d) (unat (log_n dev start d)) d)(lba dev start := bstore32 0 0 (d (lba dev start)))"

definition log_wf :: "u32 \<Rightarrow> u32 \<Rightarrow> (ata_addr \<Rightarrow> block) \<Rightarrow> bool" where
  "log_wf dev start d \<longleftrightarrow> homes dev start (log_sectors dev start d) (unat (log_n dev start d))"

lemma log_area_mem: "k < 10 \<Longrightarrow> lba dev (start + of_nat k + 1) \<in> log_area dev start" "lba dev start \<in> log_area dev start"
proof -
  show "lba dev (start + of_nat k + 1) \<in> log_area dev start" if "k < 10"
    unfolding log_area_def by (rule image_eqI [of _ _ "Suc k"]) (use that in \<open>simp_all add: ac_simps\<close>)
  show "lba dev start \<in> log_area dev start"
    unfolding log_area_def by (rule image_eqI [of _ _ 0]) simp_all
qed

lemma installed_other: "(\<And>i. i < k \<Longrightarrow> lba dev (f (of_nat i)) \<noteq> a) \<Longrightarrow> installed dev start f k d a = d a"
  by (induction k) auto

lemma installed_log: "homes dev start f n \<Longrightarrow> k \<le> n \<Longrightarrow> a \<in> log_area dev start \<Longrightarrow> installed dev start f k d a = d a"
  by (rule installed_other) (auto simp: homes_def)

lemma installed_cong: "(\<And>i. i < k \<Longrightarrow> f (of_nat i) = g (of_nat i)) \<Longrightarrow> installed dev start f k d = installed dev start g k d"
  by (induction k) auto

text \<open>What is copied depends on the log alone.\<close>

lemma installed_hit:
  assumes h: "homes dev start f n" and "m \<le> n" and eq: "\<And>k. k < 10 \<Longrightarrow> d (lba dev (start + of_nat k + 1)) = d' (lba dev (start + of_nat k + 1))"
    and "i < m" and "lba dev (f (of_nat i)) = a"
  shows "installed dev start f m d a = installed dev start f m d' a"
  using assms(2,4,5)
proof (induction m)
  case (Suc m)
  have m: "m < 10" using h Suc.prems(1) by (simp add: homes_def)
  from log_area_mem(1) [OF this] have "installed dev start f m x (lba dev (start + of_nat m + 1)) = x (lba dev (start + of_nat m + 1))" for x
    using h Suc.prems(1) by (intro installed_log) auto
  then show ?case using Suc eq [OF m] by (cases "lba dev (f (of_nat m)) = a") (auto simp: less_Suc_eq)
qed simp

lemma installed_twice:
  assumes h: "homes dev start f n" and k: "k \<le> n"
  shows "installed dev start f n (installed dev start f k d) = installed dev start f n d"
proof
  fix a
  show "installed dev start f n (installed dev start f k d) a = installed dev start f n d a"
  proof (cases "\<exists>i < n. lba dev (f (of_nat i)) = a")
    case True
    then obtain i where i: "i < n" "lba dev (f (of_nat i)) = a" by blast
    show ?thesis by (rule installed_hit [OF h order.refl _ i]) (rule installed_log [OF h k log_area_mem(1)])
  next
    case False
    then have "installed dev start f m d' a = d' a" if "m \<le> n" for m d' by (intro installed_other) (use that in auto)
    then show ?thesis using k by simp
  qed
qed

lemma installed_head:
  assumes "homes dev start f n" and "\<And>k. k < 10 \<Longrightarrow> d (lba dev (start + of_nat k + 1)) = d' (lba dev (start + of_nat k + 1))" and "d a = d' a"
  shows "installed dev start f n d a = installed dev start f n d' a"
proof (cases "\<exists>i < n. lba dev (f (of_nat i)) = a")
  case True
  then obtain i where i: "i < n" "lba dev (f (of_nat i)) = a" by blast
  show ?thesis by (rule installed_hit [OF assms(1) order.refl _ i]) (rule assms(2))
next
  case False
  then have "installed dev start f n x a = x a" for x by (intro installed_other) auto
  then show ?thesis using assms(3) by simp
qed

lemma recover_clear: "log_n dev start d = 0 \<Longrightarrow> recover dev start d = d"
  by (simp add: recover_def log_n_def bstore32_same)

lemma recover_cleared: "log_n dev start (recover dev start d) = 0"
  by (simp add: recover_def log_n_def)

lemma log_header:
  assumes "d (lba dev start) = d' (lba dev start)"
  shows "log_n dev start d = log_n dev start d'" "log_sectors dev start d = log_sectors dev start d'"
  using assms by (simp_all add: log_n_def log_sectors_def [abs_def])

lemma recover_installed:
  assumes "log_wf dev start d" and "k \<le> unat (log_n dev start d)"
  shows "recover dev start (installed dev start (log_sectors dev start d) k d) = recover dev start d"
proof -
  let ?f = "log_sectors dev start d"
  have h: "installed dev start ?f k d (lba dev start) = d (lba dev start)"
    using assms log_area_mem(2) unfolding log_wf_def by (intro installed_log) auto
  note e = log_header [of "installed dev start ?f k d" dev start d, OF h]
  show ?thesis
    using h e installed_twice assms unfolding recover_def log_wf_def by simp
qed

section \<open>The operations of the log\<close>

text \<open>
  Between two operations the thread holds no buffer, at least two buffers can be used, and no buffer of the
  log area is dirty (log blocks are always written through).
\<close>

definition dirties :: "(u32 \<Rightarrow> buf) \<Rightarrow> u32 set" where
  "dirties f = {b. b < NBUF \<and> buf_dirty (f b)}"

definition log_ready :: "ata \<Rightarrow> u32 \<Rightarrow> 'a mlog_scheme \<Rightarrow> bool" where
  "log_ready a0 c s \<longleftrightarrow> alone c s \<and> cache (disk_at a0 (io s)) {} s \<and> card (dirties (slots s)) \<le> 8 \<and>
     log_dev (log s) < 2 \<and> unat (log_start (log s)) + 10 < 2 ^ 28 \<and>
     (\<forall>b \<in> dirties (slots s). b_dev (slots s b) = log_dev (log s) \<longrightarrow>
        lba (log_dev (log s)) (b_sector (slots s b)) \<notin> log_area (log_dev (log s)) (log_start (log s)))"

lemma card_bufs: "finite {b :: u32. b < NBUF}" "card {b :: u32. b < NBUF} = 10"
proof -
  have "{b :: u32. b < NBUF} = set (range32 0 10)" by (auto simp: set_range32 u32_less_nat)
  moreover have "card (set (range32 0 10)) = 10" by (subst distinct_card) (simp_all add: distinct_range32, simp add: range32_def)
  ultimately show "finite {b :: u32. b < NBUF}" "card {b :: u32. b < NBUF} = 10" by simp_all
qed

lemma some_free:
  assumes "card (dirties f) \<le> 8" and "finite X" and "card X \<le> 1"
  shows "\<exists>b < NBUF. b \<notin> X \<and> \<not> buf_dirty (f b)"
proof (rule ccontr)
  assume "\<not> ?thesis"
  then have "{b. b < NBUF} \<subseteq> dirties f \<union> X" by (auto simp: dirties_def)
  moreover have "finite (dirties f)" by (rule finite_subset [OF _ card_bufs(1)]) (auto simp: dirties_def)
  ultimately have "card {b :: u32. b < NBUF} \<le> card (dirties f \<union> X)" using assms(2) by (intro card_mono) auto
  also have "\<dots> \<le> card (dirties f) + card X" by (rule card_Un_le)
  finally show False using assms card_bufs(2) by simp
qed

lemma disk_rest_log:
  fixes s t :: "'a mlog_scheme"
  assumes "disk_rest t = disk_rest s"
  shows "log t = log s"
proof -
  have "log (disk_rest x) = log x" for x :: "'a mlog_scheme" by (simp add: disk_rest_def sched_rest_def)
  then show ?thesis using assms by metis
qed

lemma sector_unat:
  assumes "unat start + 10 < 2 ^ 28" and "k < 10"
  shows "unat (start + of_nat k + 1 :: u32) = unat start + k + 1" and "start + of_nat k + 1 < (2 ^ 28 :: u32)"
proof -
  have "unat (of_nat k :: u32) = k" using assms(2) by (simp add: unat_of_nat)
  then show u: "unat (start + of_nat k + 1) = unat start + k + 1" using assms by (simp add: unat_word_ariths)
  then show "start + of_nat k + 1 < 2 ^ 28" using assms by (simp add: word_less_nat_alt)
qed

lemma head_not_block:
  assumes "dev < 2" and "unat start + 10 < 2 ^ 28" and "k < 10"
  shows "lba dev (start + of_nat k + 1) \<noteq> lba dev start"
proof
  assume e: "lba dev (start + of_nat k + 1) = lba dev start"
  have "start < 2 ^ 28" using assms(2) by (simp add: word_less_nat_alt)
  then have "start = start + of_nat k + 1" using lba_inj [OF assms(1) sector_unat(2) [OF assms(2,3)] assms(1) _ e] by simp
  from arg_cong [OF this, of unat] show False using sector_unat(1) [OF assms(2,3)] by simp
qed

text \<open>Buffers that stay dirty keep their sector.\<close>

definition tame :: "(u32 \<Rightarrow> buf) \<Rightarrow> (u32 \<Rightarrow> buf) \<Rightarrow> bool" where
  "tame f g \<longleftrightarrow> (\<forall>b \<in> dirties g. b \<in> dirties f \<and> named (b_dev (f b)) (b_sector (f b)) (g b))"

lemma tame_refl [simp]: "tame f f"
  by (simp add: tame_def named_def)

lemma tame_trans: "tame f g \<Longrightarrow> tame g h \<Longrightarrow> tame f h"
  unfolding tame_def named_def by force

lemma tame_upd: "(buf_dirty y \<Longrightarrow> buf_dirty (f b) \<and> named (b_dev (f b)) (b_sector (f b)) y) \<Longrightarrow> tame f (f(b := y))"
  by (auto simp: tame_def dirties_def named_def)

lemma tame_handed: "handed d dev sector (f b) y \<Longrightarrow> tame f (f(b := y))"
  by (rule tame_upd) (auto simp: handed_def named_def)

lemma tame_card: "tame f g \<Longrightarrow> card (dirties g) \<le> card (dirties f)"
  by (rule card_mono) (auto simp: tame_def intro: finite_subset [OF _ card_bufs(1)] simp: dirties_def)

lemma log_ready_next:
  assumes r: "log_ready a0 c s" and g: "goes a0 c M s t" and ca: "cache (disk_at a0 (io t)) {} t" and tm: "tame (slots s) (slots t)"
  shows "log_ready a0 c t"
proof -
  have al: "alone c t" and l: "log t = log s" using g disk_rest_log by (auto simp: goes_def)
  have "card (dirties (slots t)) \<le> 8" using r tame_card [OF tm] by (simp add: log_ready_def)
  then show ?thesis
    using r ca al tm unfolding log_ready_def l tame_def named_def by auto
qed

text \<open>New contents for a held buffer, written through.\<close>

lemma cache_put_data:
  assumes "cache d X s" and "b \<in> X"
  shows "cache d X (buf_put b (\<lambda>x. x\<lparr>b_data := v\<rparr>) s)"
    and "slots (buf_put b (\<lambda>x. x\<lparr>b_data := v\<rparr>) s) = (slots s)(b := (slots s b)\<lparr>b_data := v\<rparr>)"
proof -
  show sl: "slots (buf_put b (\<lambda>x. x\<lparr>b_data := v\<rparr>) s) = (slots s)(b := (slots s b)\<lparr>b_data := v\<rparr>)"
    by (auto simp: slots_def buf_put_def unlink_def)
  obtain xs where r: "lru s xs" using assms by (auto simp: cache_def)
  have "lru (buf_put b (\<lambda>x. x\<lparr>b_data := v\<rparr>) s) xs" by (rule lru_bufs [OF r]) (simp_all add: buf_put_def)
  moreover have "slots_ok d X ((slots s)(b := (slots s b)\<lparr>b_data := v\<rparr>))"
    using assms unfolding cache_def slots_ok_def named_def by auto
  ultimately show "cache d X (buf_put b (\<lambda>x. x\<lparr>b_data := v\<rparr>) s)"
    using assms unfolding cache_def sl by (auto simp: ide_idle_def buf_put_def)
qed

lemma write_through:
  assumes env: "ide_env w a0" and al: "alone c s" and ca: "cache (disk_at a0 (io s)) X s" and b: "b < NBUF" "b \<in> X"
    and nm: "named dev sector (slots s b)" "dev < 2"
  shows "returns (bufcache_write w b (buf_put b (\<lambda>x. x\<lparr>b_data := v\<rparr>) s)) (\<lambda>t.
    goes a0 c {disk_at a0 (io s), (disk_at a0 (io s))(lba dev sector := v)} s t \<and> disk_at a0 (io t) = (disk_at a0 (io s))(lba dev sector := v) \<and>
    cache (disk_at a0 (io t)) X t \<and> (\<exists>z. slots t = (slots s)(b := z) \<and> named dev sector z \<and> \<not> buf_dirty z \<and> b_data z = v))"
proof -
  let ?s = "buf_put b (\<lambda>x. x\<lparr>b_data := v\<rparr>) s"
  note p = cache_put_data [OF ca b(2), of v]
  have "bufs ?s b = (bufs s b)\<lparr>b_data := v\<rparr>" by (simp add: buf_put_def)
  with bufcache_write_held [OF env _ _ b, of c ?s] al p(1) nm obtain t where t: "bufcache_write w b ?s = Ret t"
    "goes a0 c {disk_at a0 (io s), (disk_at a0 (io s))(lba dev sector := v)} ?s t"
    "disk_at a0 (io t) = (disk_at a0 (io s))(lba dev sector := v)" "cache ((disk_at a0 (io s))(lba dev sector := v)) X t"
    "slots t = (slots ?s)(b := (slots ?s b)\<lparr>b_flags := (b_flags (bufs s b) OR B_VALID) AND NOT B_DIRTY\<rparr>)"
    by (auto simp: named_def Let_def elim!: returnsE)
  define z where "z = (slots s b)\<lparr>b_data := v, b_flags := (b_flags (bufs s b) OR B_VALID) AND NOT B_DIRTY\<rparr>"
  have "slots t = (slots s)(b := z)" using t(5) by (simp add: p(2) z_def)
  moreover have "named dev sector z" "\<not> buf_dirty z" "b_data z = v" using nm by (simp_all add: z_def named_def flags)
  ultimately show ?thesis using t by (auto simp: goes_def)
qed

lemma log_fetch:
  assumes env: "ide_env w a0" and al: "alone c s" and ca: "cache (disk_at a0 (io s)) X s" and few: "card (dirties (slots s)) \<le> 8"
    and X: "finite X" "card X \<le> 1" and dev: "dev < 2" "sector < 2 ^ 28" and free: "\<forall>b \<in> X. \<not> named dev sector (slots s b)"
  shows "returns (bufcache_read w dev sector s) (\<lambda>(b, t). b < NBUF \<and> b \<notin> X \<and> goes a0 c {disk_at a0 (io s)} s t \<and>
    disk_at a0 (io t) = disk_at a0 (io s) \<and> cache (disk_at a0 (io t)) (insert b X) t \<and> tame (slots s) (slots t) \<and>
    (\<exists>y. slots t = (slots s)(b := y) \<and> handed (disk_at a0 (io s)) dev sector (slots s b) y))"
proof -
  have "b \<notin> X" if "named dev sector (bufs s b)" for b using that free by (auto simp: named_def)
  moreover have "\<exists>b < NBUF. b \<notin> X \<and> \<not> buf_dirty (bufs s b)" using some_free [OF few X] by simp
  ultimately have "returns (bufcache_read w dev sector s) (\<lambda>(b, t). b < NBUF \<and> b \<notin> X \<and> goes a0 c {disk_at a0 (io s)} s t \<and>
    disk_at a0 (io t) = disk_at a0 (io s) \<and> cache (disk_at a0 (io s)) (insert b X) t \<and>
    (\<exists>y. slots t = (slots s)(b := y) \<and> handed (disk_at a0 (io s)) dev sector (slots s b) y))"
    by (intro bufcache_read_free [OF env al ca dev])
  then show ?thesis by (rule returns_mono) (auto intro: tame_handed)
qed

lemma give_back:
  assumes al: "alone c s" and ca: "cache (disk_at a0 (io s)) X s" and b: "b < NBUF" "b \<in> X"
    and clean: "\<not> buf_dirty (slots s b) \<Longrightarrow> b_data (slots s b) = disk_at a0 (io s) (lba (b_dev (slots s b)) (b_sector (slots s b)))"
  shows "returns (bufcache_release w b s) (\<lambda>t. goes a0 c {disk_at a0 (io s)} s t \<and> disk_at a0 (io t) = disk_at a0 (io s) \<and>
    cache (disk_at a0 (io t)) (X - {b}) t \<and> tame (slots s) (slots t) \<and> (\<forall>i. i \<noteq> b \<longrightarrow> slots t i = slots s i))"
proof -
  have "tame (slots s) ((slots s)(b := (slots s b)\<lparr>b_flags := b_flags (bufs s b) AND NOT B_BUSY\<rparr>))"
    by (rule tame_upd) (simp add: named_def flags)
  then show ?thesis
    by (intro returns_mono [OF bufcache_release_held [OF al ca b]]) (use clean in \<open>auto simp: goes_def\<close>)
qed

text \<open>The block of the header, with the buffer that holds it.\<close>

lemma log_block_clean:
  assumes r: "\<forall>b \<in> dirties (slots s). b_dev (slots s b) = dev \<longrightarrow> lba dev (b_sector (slots s b)) \<notin> log_area dev start"
    and h: "handed d dev sector (slots s b) y" and b: "b < NBUF" and a: "lba dev sector \<in> log_area dev start"
  shows "\<not> buf_dirty y" and "b_data y = d (lba dev sector)" and "named dev sector y"
proof -
  show n: "\<not> buf_dirty y"
  proof
    assume y: "buf_dirty y"
    then have "b \<in> dirties (slots s)" "b_dev (slots s b) = dev" "b_sector (slots s b) = sector"
      using h b by (auto simp: handed_def named_def dirties_def)
    then show False using r a by auto
  qed
  show "b_data y = d (lba dev sector)" "named dev sector y" using h n by (simp_all add: handed_def)
qed

lemma log_area_clean:
  assumes r: "log_ready a0 c s" and h: "handed d (log_dev (log s)) sector (slots s b) y" and b: "b < NBUF"
    and a: "lba (log_dev (log s)) sector \<in> log_area (log_dev (log s)) (log_start (log s))"
  shows "\<not> buf_dirty y" and "b_data y = d (lba (log_dev (log s)) sector)" and "named (log_dev (log s)) sector y"
proof -
  have "\<forall>b \<in> dirties (slots s). b_dev (slots s b) = log_dev (log s) \<longrightarrow>
      lba (log_dev (log s)) (b_sector (slots s b)) \<notin> log_area (log_dev (log s)) (log_start (log s))" using r by (simp add: log_ready_def)
  from log_block_clean [OF this h b a]
  show "\<not> buf_dirty y" "b_data y = d (lba (log_dev (log s)) sector)" "named (log_dev (log s)) sector y" by simp_all
qed

lemma write_head_loop:
  assumes n: "unat (lh_n (log_lh (log s))) \<le> 10"
  shows "whileM (\<lambda>(i, s). i <s lh_n (log_lh (log s)))
       (\<lambda>(i, s). bounded LOGSIZE i (Ret (i + 1, buf_put b (\<lambda>x.
          x\<lparr>b_data := bstore32 (lh_off i) (lh_sector (log_lh (log s)) i) (b_data x)\<rparr>) s)))
       (0, buf_put b (\<lambda>x. x\<lparr>b_data := bstore32 0 (lh_n (log_lh (log s))) (b_data x)\<rparr>) s)
    = Ret (lh_n (log_lh (log s)), buf_put b (\<lambda>x. x\<lparr>b_data := head_block (log_lh (log s)) (b_data (bufs s b))\<rparr>) s)"
    (is "whileM ?C ?B _ = _")
proof -
  let ?lh = "log_lh (log s)" and ?x = "b_data (bufs s b)"
  let ?u = "\<lambda>k. buf_put b (\<lambda>x. x\<lparr>b_data := put_sectors (lh_sector ?lh) k (bstore32 0 (lh_n ?lh) ?x)\<rparr>) s"
  have "whileM ?C ?B (of_nat k, ?u k) = Ret (lh_n ?lh, ?u (unat (lh_n ?lh)))" if "k \<le> unat (lh_n ?lh)" for k
    using that
  proof (induction "unat (lh_n ?lh) - k" arbitrary: k)
    case 0
    then have k: "k = unat (lh_n ?lh)" by simp
    then show ?case by (simp add: whileM_exit buf_put_def)
  next
    case (Suc m)
    then have k: "k < unat (lh_n ?lh)" by simp
    then have uk: "unat (of_nat k :: u32) = k" using n by (simp add: unat_of_nat)
    have "(of_nat k :: u32) <s lh_n ?lh" "(of_nat k :: u32) < LOGSIZE" using k n uk by (simp_all add: sle_unat word_less_nat_alt)
    moreover have "buf_put b (\<lambda>x. x\<lparr>b_data := bstore32 (lh_off (of_nat k)) (lh_sector ?lh (of_nat k)) (b_data x)\<rparr>) (?u k) = ?u (Suc k)"
      by (simp add: buf_put_def)
    moreover have "whileM ?C ?B (of_nat (Suc k), ?u (Suc k)) = Ret (lh_n ?lh, ?u (unat (lh_n ?lh)))" using Suc k by (intro Suc.hyps) auto
    ultimately show ?case by (simp add: whileM_step buf_put_def bounded_def add.commute)
  qed
  from this [of 0] show ?thesis by (simp add: head_block_def buf_put_def)
qed

text \<open>A run of the log code: the log data stay, and the disk has the given contents on the way and at the end.\<close>

definition log_goes :: "ata \<Rightarrow> u32 \<Rightarrow> (ata_addr \<Rightarrow> block) set \<Rightarrow> (ata_addr \<Rightarrow> block) \<Rightarrow> 'a mlog_scheme \<Rightarrow> 'a mlog_scheme \<Rightarrow> bool" where
  "log_goes a0 c M d s t \<longleftrightarrow> log_ready a0 c t \<and> goes a0 c M s t \<and> disk_at a0 (io t) = d"

lemma log_goes_log: "log_goes a0 c M d s t \<Longrightarrow> log t = log s"
  using disk_rest_log by (auto simp: log_goes_def goes_def)

lemma log_goes_trans: "log_goes a0 c M d s t \<Longrightarrow> log_goes a0 c N e t u \<Longrightarrow> log_goes a0 c (M \<union> N) e s u"
  unfolding log_goes_def using goes_trans by blast

lemma write_head_ok:
  assumes env: "ide_env w a0" and r: "log_ready a0 c s" and n: "unat (lh_n (log_lh (log s))) \<le> 10"
  defines "d \<equiv> disk_at a0 (io s)" and "h \<equiv> lba (log_dev (log s)) (log_start (log s))"
  shows "returns (write_head w s) (log_goes a0 c {d, d(h := head_block (log_lh (log s)) (d h))} (d(h := head_block (log_lh (log s)) (d h))) s)"
proof -
  let ?dev = "log_dev (log s)" and ?st = "log_start (log s)"
  have dev: "?dev < 2" "?st < 2 ^ 28" and rs: "alone c s" "cache d {} s" "card (dirties (slots s)) \<le> 8"
    using r by (auto simp: log_ready_def d_def word_less_nat_alt)
  obtain b t y where b: "bufcache_read w ?dev ?st s = Ret (b, t)" "b < NBUF" "goes a0 c {d} s t" "disk_at a0 (io t) = d"
    "cache d {b} t" "tame (slots s) (slots t)" "slots t = (slots s)(b := y)" "handed d ?dev ?st (slots s b) y"
    using log_fetch [OF env rs(1) rs(2) [unfolded d_def] rs(3) _ _ dev] unfolding d_def by (auto elim!: returnsE)
  note y = log_area_clean [OF r b(8,2)]
  have al: "alone c t" and lt: "log t = log s" using b(3) disk_rest_log [of t s] by (auto simp: goes_def)
  have yb: "named ?dev ?st (slots t b)" "b_data (bufs t b) = d h"
    using y log_area_mem(2) [of ?dev ?st] b(7) slots_sel(4) [of t b] by (auto simp: h_def)
  let ?v = "head_block (log_lh (log s)) (d h)"
  obtain u z where u: "bufcache_write w b (buf_put b (\<lambda>x. x\<lparr>b_data := ?v\<rparr>) t) = Ret u" "goes a0 c {d, d(h := ?v)} t u"
    "disk_at a0 (io u) = d(h := ?v)" "cache (d(h := ?v)) {b} u" "slots u = (slots t)(b := z)" "named ?dev ?st z" "\<not> buf_dirty z" "b_data z = ?v"
    using write_through [OF env al _ b(2) _ yb(1) dev(1), of "{b}" ?v] b(4,5) unfolding h_def by (auto elim!: returnsE)
  have "alone c u" using u(2) by (simp add: goes_def)
  from give_back [OF this, of a0 "{b}" b w] obtain v where v: "bufcache_release w b u = Ret v" "goes a0 c {d(h := ?v)} u v"
    "disk_at a0 (io v) = d(h := ?v)" "cache (d(h := ?v)) {} v" "tame (slots u) (slots v)"
    using u b(2) by (auto simp: named_def h_def elim!: returnsE)
  have g: "goes a0 c {d, d(h := ?v)} s v"
    by (rule goes_mono [OF goes_trans [OF b(3) goes_trans [OF u(2) v(2)]]]) auto
  have "tame (slots t) (slots u)" unfolding u(5) by (rule tame_upd) (use u(7) in simp)
  then have "tame (slots s) (slots v)" using b(6) v(5) by (blast intro: tame_trans)
  then have "log_goes a0 c {d, d(h := ?v)} (d(h := ?v)) s v"
    unfolding log_goes_def using log_ready_next [OF r g] g v(3,4) by auto
  moreover have "write_head w s = Ret v"
    using write_head_loop [of t b] n b(1) u(1) v(1) unfolding write_head_def lt yb(2) by (simp add: lt)
  ultimately show ?thesis by simp
qed

text \<open>One block of the log goes to its home sector.\<close>

definition install_step :: "('a mlog_scheme, 'b) world_scheme \<Rightarrow> u32 \<times> 'a mlog_scheme \<Rightarrow> (u32 \<times> 'a mlog_scheme) outcome" where
  "install_step w = (\<lambda>(tail, s).
          andThen (bufcache_read w (log_dev (log s)) (log_start (log s) + tail + 1) s) (\<lambda>(lbuf, s).
          bounded LOGSIZE tail (
          andThen (bufcache_read w (log_dev (log s)) (lh_sector (log_lh (log s)) tail) s) (\<lambda>(dbuf, s).
          let s = buf_put dbuf (\<lambda>x. x\<lparr>b_data := b_data (bufs s lbuf)\<rparr>) s in
          andThen (bufcache_write w dbuf s) (\<lambda>s.
          andThen (bufcache_release w lbuf s) (\<lambda>s.
          andThen (bufcache_release w dbuf s) (\<lambda>s.
          Ret (tail + 1, s))))))))"

lemma install_trans_step:
  "install_trans w s = andThen (whileM (\<lambda>(tail, s). tail <s lh_n (log_lh (log s))) (install_step w) (0, s)) (\<lambda>(_, s). Ret s)"
  by (simp add: install_trans_def install_step_def)

lemma install_step_ok:
  assumes env: "ide_env w a0" and r: "log_ready a0 c s" and k: "k < 10" and home: "lh_sector (log_lh (log s)) (of_nat k) < 2 ^ 28"
    "lba (log_dev (log s)) (lh_sector (log_lh (log s)) (of_nat k)) \<notin> log_area (log_dev (log s)) (log_start (log s))"
  defines "d \<equiv> disk_at a0 (io s)" and "a \<equiv> lba (log_dev (log s)) (lh_sector (log_lh (log s)) (of_nat k))"
    and "l \<equiv> lba (log_dev (log s)) (log_start (log s) + of_nat k + 1)"
  shows "returns (install_step w (of_nat k, s)) (\<lambda>(i, t). i = of_nat (Suc k) \<and> log_goes a0 c {d, d(a := d l)} (d(a := d l)) s t)"
proof -
  let ?dev = "log_dev (log s)" and ?ls = "log_start (log s) + of_nat k + 1" and ?hs = "lh_sector (log_lh (log s)) (of_nat k)"
  have dev: "?dev < 2" "?ls < 2 ^ 28" and rs: "alone c s" "cache d {} s" "card (dirties (slots s)) \<le> 8"
    using r sector_unat(2) [OF _ k] by (auto simp: log_ready_def d_def)
  have la: "l \<in> log_area ?dev (log_start (log s))" unfolding l_def by (rule log_area_mem(1) [OF k])
  then have ne: "?hs \<noteq> ?ls" "a \<noteq> l" using home(2) by (auto simp: a_def l_def)
  obtain lb t y where t: "bufcache_read w ?dev ?ls s = Ret (lb, t)" "lb < NBUF" "goes a0 c {d} s t" "disk_at a0 (io t) = d"
    "cache d {lb} t" "tame (slots s) (slots t)" "slots t = (slots s)(lb := y)" "handed d ?dev ?ls (slots s lb) y"
    using log_fetch [OF env rs(1) rs(2) [unfolded d_def] rs(3) _ _ dev] unfolding d_def by (auto elim!: returnsE)
  note y = log_area_clean [OF r t(8,2) la [unfolded l_def]]
  have al: "alone c t" and lt: "log t = log s" using t(3) disk_rest_log [of t s] by (auto simp: goes_def)
  have few: "card (dirties (slots t)) \<le> 8" using tame_card [OF t(6)] rs(3) by simp
  obtain db u x where u: "bufcache_read w ?dev ?hs t = Ret (db, u)" "db < NBUF" "db \<noteq> lb" "goes a0 c {d} t u" "disk_at a0 (io u) = d"
    "cache d {db, lb} u" "tame (slots t) (slots u)" "slots u = (slots t)(db := x)" "handed d ?dev ?hs (slots t db) x"
    using log_fetch [OF env al _ few _ _ dev(1) home(1), of "{lb}"] t(4,5,7) y(3) ne(1) by (auto simp: named_def elim!: returnsE)
  have au: "alone c u" using u(4) by (simp add: goes_def)
  have ul: "slots u lb = y" "b_data (bufs u lb) = d l" using u(3,8) t(7) y(2) slots_sel(4) [of u lb] by (auto simp: l_def)
  have un: "named ?dev ?hs (slots u db)" using u(8,9) by (simp add: handed_def)
  obtain v z where v: "bufcache_write w db (buf_put db (\<lambda>x. x\<lparr>b_data := d l\<rparr>) u) = Ret v" "goes a0 c {d, d(a := d l)} u v"
    "disk_at a0 (io v) = d(a := d l)" "cache (d(a := d l)) {db, lb} v" "slots v = (slots u)(db := z)" "named ?dev ?hs z" "\<not> buf_dirty z" "b_data z = d l"
    using write_through [OF env au _ u(2) _ un dev(1), of "{db, lb}" "d l"] u(5,6) unfolding a_def by (auto elim!: returnsE)
  have av: "alone c v" and vl: "slots v lb = y" using v(2,5) u(3) ul(1) by (auto simp: goes_def)
  have cl: "b_data (slots v lb) = disk_at a0 (io v) (lba (b_dev (slots v lb)) (b_sector (slots v lb)))"
    using y ne(2) unfolding vl v(3) by (simp add: named_def l_def)
  have cv: "cache (disk_at a0 (io v)) {db, lb} v" using v(3,4) by simp
  from give_back [OF av cv t(2) _ cl, of w] obtain p where p: "bufcache_release w lb v = Ret p" "goes a0 c {d(a := d l)} v p"
    "disk_at a0 (io p) = d(a := d l)" "cache (d(a := d l)) {db} p" "tame (slots v) (slots p)" "slots p db = z"
    using v(3,5) u(3) by (auto simp: insert_Diff_if elim!: returnsE)
  have ap: "alone c p" using p(2) by (simp add: goes_def)
  from give_back [OF ap, of a0 "{db}" db w] obtain q where q: "bufcache_release w db p = Ret q" "goes a0 c {d(a := d l)} p q"
    "disk_at a0 (io q) = d(a := d l)" "cache (d(a := d l)) {} q" "tame (slots p) (slots q)"
    using p u(2) v(6-8) by (auto simp: named_def a_def elim!: returnsE)
  have g: "goes a0 c {d, d(a := d l)} s q"
    by (rule goes_mono [OF goes_trans [OF t(3) goes_trans [OF u(4) goes_trans [OF v(2) goes_trans [OF p(2) q(2)]]]]]) auto
  have "tame (slots u) (slots v)" unfolding v(5) by (rule tame_upd) (use v(7) in simp)
  then have "tame (slots s) (slots q)" using t(6) u(7) p(5) q(5) by (blast intro: tame_trans)
  then have "log_goes a0 c {d, d(a := d l)} (d(a := d l)) s q"
    unfolding log_goes_def using log_ready_next [OF r g] g q(3,4) by auto
  moreover have "(of_nat k :: u32) < LOGSIZE" using k by (simp add: word_less_nat_alt unat_of_nat)
  ultimately show ?thesis
    using t(1) u(1) v(1) p(1) q(1) lt ul(2) by (simp add: install_step_def bounded_def add.commute)
qed

lemma install_trans_ok:
  assumes env: "ide_env w a0" and r: "log_ready a0 c s"
  defines "dev \<equiv> log_dev (log s)" and "start \<equiv> log_start (log s)" and "f \<equiv> lh_sector (log_lh (log s))"
    and "n \<equiv> unat (lh_n (log_lh (log s)))" and "d \<equiv> disk_at a0 (io s)"
  assumes h: "homes dev start f n"
  shows "returns (install_trans w s) (log_goes a0 c ((\<lambda>k. installed dev start f k d) ` {..n}) (installed dev start f n d) s)"
proof -
  let ?I = "\<lambda>k (i, t). i = of_nat k \<and> k \<le> n \<and> log_goes a0 c ((\<lambda>k. installed dev start f k d) ` {..k}) (installed dev start f k d) s t"
  have small: "unat (of_nat k :: u32) = k" if "k \<le> n" for k using that h by (simp add: homes_def unat_of_nat)
  have n31: "n \<le> 10" using h by (simp add: homes_def)
  have "returns (whileM (\<lambda>(tail, s). tail <s lh_n (log_lh (log s))) (install_step w) (0, s)) (?I n)"
  proof (rule returns_whileM_count [where I = ?I and N = n])
    show "?I 0 (0, s)" using r by (simp add: log_goes_def goes_def d_def log_ready_def)
  next
    fix k x assume I: "?I k x" and b: "case x of (tail, s) \<Rightarrow> tail <s lh_n (log_lh (log s))"
    obtain t where x: "x = (of_nat k, t)" and kn: "k \<le> n"
      and g: "log_goes a0 c ((\<lambda>k. installed dev start f k d) ` {..k}) (installed dev start f k d) s t" using I by (cases x) auto
    have lt: "log t = log s" by (rule log_goes_log [OF g])
    have k: "k < n" using b kn small [OF kn] n31 by (simp add: x lt sle_unat n_def)
    have "returns (install_step w (of_nat k, t)) (\<lambda>(i, u). i = of_nat (Suc k) \<and>
        log_goes a0 c {installed dev start f k d, installed dev start f (Suc k) d} (installed dev start f (Suc k) d) t u)"
      using install_step_ok [OF env, of c t k] g h k n31
      by (simp add: log_goes_def lt homes_def dev_def start_def f_def)
    then obtain u where u: "install_step w (of_nat k, t) = Ret (of_nat (Suc k), u)"
      "log_goes a0 c {installed dev start f k d, installed dev start f (Suc k) d} (installed dev start f (Suc k) d) t u"
      by (auto elim!: returnsE)
    have "(\<lambda>k. installed dev start f k d) ` {..k} \<union> {installed dev start f k d, installed dev start f (Suc k) d}
        = (\<lambda>k. installed dev start f k d) ` {..Suc k}" by (auto simp: atMost_Suc)
    then have "log_goes a0 c ((\<lambda>k. installed dev start f k d) ` {..Suc k}) (installed dev start f (Suc k) d) s u"
      using log_goes_trans [OF g u(2)] by (simp only:)
    then show "k < n \<and> returns (install_step w x) (?I (Suc k))" using k u(1) unfolding x by simp
  next
    fix k x assume I: "?I k x" and b: "\<not> (case x of (tail, s) \<Rightarrow> tail <s lh_n (log_lh (log s)))"
    obtain t where x: "x = (of_nat k, t)" and kn: "k \<le> n"
      and g: "log_goes a0 c ((\<lambda>k. installed dev start f k d) ` {..k}) (installed dev start f k d) s t" using I by (cases x) auto
    have lt: "log t = log s" by (rule log_goes_log [OF g])
    have "k = n" using b kn small [OF kn] n31 by (simp add: x lt sle_unat n_def)
    then show "?I n x" using I by simp
  qed
  then show ?thesis unfolding install_trans_step by (auto elim!: returnsE)
qed

text \<open>A run that may also change the header in memory.\<close>

definition log_run :: "ata \<Rightarrow> u32 \<Rightarrow> (ata_addr \<Rightarrow> block) set \<Rightarrow> (ata_addr \<Rightarrow> block) \<Rightarrow> 'a mlog_scheme \<Rightarrow> 'a mlog_scheme \<Rightarrow> bool" where
  "log_run a0 c M d s t \<longleftrightarrow> log_ready a0 c t \<and> suffix (io s) (io t) \<and> moments a0 (io s) (io t) \<subseteq> M \<and> disk_at a0 (io t) = d"

lemma log_run_trans: "log_run a0 c M d s t \<Longrightarrow> log_run a0 c N e t u \<Longrightarrow> log_run a0 c (M \<union> N) e s u"
  unfolding log_run_def using moments_trans [of "io s" "io t" "io u" a0] by (auto intro: suffix_order.trans)

lemma log_goes_run: "log_goes a0 c M d s t \<Longrightarrow> log_run a0 c M d s t"
  by (simp add: log_goes_def goes_def log_run_def)

lemma log_frame [simp]:
  fixes s :: "'a mlog_scheme"
  shows "this_cpu (s\<lparr>log := l\<rparr>) = this_cpu s" "on_cpu (s\<lparr>log := l\<rparr>) = on_cpu s" "queues (s\<lparr>log := l\<rparr>) Q = queues s Q"
    "alone c (s\<lparr>log := l\<rparr>) = alone c s" "slots (s\<lparr>log := l\<rparr>) = slots s" "lru (s\<lparr>log := l\<rparr>) xs = lru s xs"
    "ide_idle (s\<lparr>log := l\<rparr>) = ide_idle s" "cache d X (s\<lparr>log := l\<rparr>) = cache d X s"
proof -
  show a [simp]: "this_cpu (s\<lparr>log := l\<rparr>) = this_cpu s" "on_cpu (s\<lparr>log := l\<rparr>) = on_cpu s"
    by (simp_all add: on_cpu_def this_cpu_def this_kstack_def cong: kstack_ref.case_cong)
  show [simp]: "queues (s\<lparr>log := l\<rparr>) Q = queues s Q" for Q by (simp add: queues_def queue_is_def)
  show "alone c (s\<lparr>log := l\<rparr>) = alone c s" by (simp add: alone_def)
  show [simp]: "slots (s\<lparr>log := l\<rparr>) = slots s" by (simp add: slots_def fun_eq_iff)
  show [simp]: "lru (s\<lparr>log := l\<rparr>) xs = lru s xs" for xs by (simp add: lru_def)
  show [simp]: "ide_idle (s\<lparr>log := l\<rparr>) = ide_idle s" by (simp add: ide_idle_def)
  show "cache d X (s\<lparr>log := l\<rparr>) = cache d X s" by (simp add: cache_def)
qed

lemma log_ready_set [simp]: "log_ready a0 c (s\<lparr>log := (log s)\<lparr>log_lh := h\<rparr>\<rparr>) = log_ready a0 c s" "log_ready a0 c (log_set_n k s) = log_ready a0 c s"
  by (simp_all add: log_ready_def log_set_n_def)

text \<open>Installing what the header in memory says, and erasing it.\<close>

lemma install_and_clear:
  assumes env: "ide_env w a0" and r: "log_ready a0 c s" and d: "d = disk_at a0 (io s)" and wf: "log_wf (log_dev (log s)) (log_start (log s)) d"
    and n: "lh_n (log_lh (log s)) = log_n (log_dev (log s)) (log_start (log s)) d"
    and f: "\<And>i. i < unat (lh_n (log_lh (log s))) \<Longrightarrow> lh_sector (log_lh (log s)) (of_nat i) = log_sectors (log_dev (log s)) (log_start (log s)) d (of_nat i)"
  defines "dev \<equiv> log_dev (log s)" and "start \<equiv> log_start (log s)"
  shows "returns (andThen (install_trans w s) (\<lambda>s. write_head w (log_set_n 0 s))) (\<lambda>t. log t = (log s)\<lparr>log_lh := (log_lh (log s))\<lparr>lh_n := 0\<rparr>\<rparr> \<and>
    log_run a0 c (insert (recover dev start d) ((\<lambda>k. installed dev start (log_sectors dev start d) k d) ` {..unat (log_n dev start d)}))
      (recover dev start d) s t)"
proof -
  let ?n = "unat (log_n dev start d)" and ?f = "log_sectors dev start d"
  let ?M = "(\<lambda>k. installed dev start ?f k d) ` {..?n}" and ?e = "installed dev start ?f ?n d"
  have eq: "installed dev start (lh_sector (log_lh (log s))) k d = installed dev start ?f k d" if "k \<le> ?n" for k
    by (rule installed_cong) (use that f n in \<open>auto simp: dev_def start_def\<close>)
  have h: "homes dev start ?f ?n" using wf by (simp add: log_wf_def dev_def start_def)
  then have h': "homes dev start (lh_sector (log_lh (log s))) (unat (lh_n (log_lh (log s))))"
    using f n by (auto simp: homes_def dev_def start_def)
  have "?M = (\<lambda>k. installed dev start (lh_sector (log_lh (log s))) k d) ` {..?n}" by (rule image_cong) (simp_all add: eq)
  with install_trans_ok [OF env r] h' obtain t where t: "install_trans w s = Ret t" "log_goes a0 c ?M ?e s t"
    using eq [of ?n] n by (auto simp: dev_def start_def d elim!: returnsE)
  have lt: "log t = log s" by (rule log_goes_log [OF t(2)])
  have e: "?e (lba dev start) = d (lba dev start)" by (rule installed_log [OF h]) (simp_all add: log_area_mem)
  have "log_ready a0 c (log_set_n 0 t)" "io (log_set_n 0 t) = io t" "disk_at a0 (io t) = ?e" using t(2) by (simp_all add: log_goes_def) (simp add: log_set_n_def)
  then obtain u where u: "write_head w (log_set_n 0 t) = Ret u" "log_goes a0 c {?e, recover dev start d} (recover dev start d) (log_set_n 0 t) u"
    using write_head_ok [OF env, of c "log_set_n 0 t"] e
    by (auto simp: log_set_n_def lt head_block_def recover_def dev_def start_def elim!: returnsE)
  have "log u = (log s)\<lparr>log_lh := (log_lh (log s))\<lparr>lh_n := 0\<rparr>\<rparr>" using log_goes_log [OF u(2)] lt by (simp add: log_set_n_def)
  moreover have "log_run a0 c {?e, recover dev start d} (recover dev start d) t u" using log_goes_run [OF u(2)] by (simp add: log_run_def log_set_n_def)
  from log_run_trans [OF log_goes_run [OF t(2)] this] have "log_run a0 c (insert (recover dev start d) ?M) (recover dev start d) s u"
    by (simp add: log_run_def) blast
  ultimately show ?thesis using t(1) u(1) by simp
qed

text \<open>The header of the disk comes into memory.\<close>

definition head_of :: "logheader \<Rightarrow> block \<Rightarrow> nat \<Rightarrow> logheader" where
  "head_of lh x k = lh\<lparr>lh_n := bload32 x 0, lh_sector := (\<lambda>i. if unat i < k then bload32 x (lh_off i) else lh_sector lh i)\<rparr>"

lemma read_head_loop:
  fixes s :: "'a mlog_scheme"
  assumes n: "unat (bload32 x 0) \<le> 10"
  shows "whileM (\<lambda>(i, s). i <s lh_n (log_lh (log s)))
      (\<lambda>(i, s). andThen (log_set_sector i (bload32 x (lh_off i)) s) (\<lambda>s. Ret (i + 1, s))) (0, log_set_n (bload32 x 0) s)
    = Ret (bload32 x 0, s\<lparr>log := (log s)\<lparr>log_lh := head_of (log_lh (log s)) x (unat (bload32 x 0))\<rparr>\<rparr>)"
    (is "whileM ?C ?B _ = _")
proof -
  let ?n = "bload32 x 0" and ?u = "\<lambda>k. s\<lparr>log := (log s)\<lparr>log_lh := head_of (log_lh (log s)) x k\<rparr>\<rparr>"
  have "whileM ?C ?B (of_nat k, ?u k) = Ret (?n, ?u (unat ?n))" if "k \<le> unat ?n" for k
    using that
  proof (induction "unat ?n - k" arbitrary: k)
    case 0
    then have "k = unat ?n" by simp
    then show ?case by (simp add: whileM_exit head_of_def)
  next
    case (Suc m)
    then have k: "k < unat ?n" by simp
    then have uk: "unat (of_nat k :: u32) = k" using n by (simp add: unat_of_nat)
    have lt: "(of_nat k :: u32) <s ?n" "(of_nat k :: u32) < LOGSIZE" using k n uk by (simp_all add: sle_unat word_less_nat_alt)
    have "i = of_nat k \<longleftrightarrow> unat i = k" for i :: u32 using uk by (auto simp: word_unat_eq_iff)
    then have "(\<lambda>i. if unat i < k then bload32 x (lh_off i) else lh_sector (log_lh (log s)) i)(of_nat k := bload32 x (lh_off (of_nat k)))
        = (\<lambda>i. if unat i < Suc k then bload32 x (lh_off i) else lh_sector (log_lh (log s)) i)" by (auto simp: fun_eq_iff)
    then have "log_set_sector (of_nat k) (bload32 x (lh_off (of_nat k))) (?u k) = Ret (?u (Suc k))"
      using lt(2) by (simp add: log_set_sector_def bounded_def head_of_def)
    moreover have "whileM ?C ?B (of_nat (Suc k), ?u (Suc k)) = Ret (?n, ?u (unat ?n))" using Suc k by (intro Suc.hyps) auto
    ultimately show ?case using lt(1) by (simp add: whileM_step head_of_def add.commute)
  qed
  from this [of 0] show ?thesis by (simp add: head_of_def log_set_n_def)
qed

lemma read_head_ok:
  assumes env: "ide_env w a0" and r: "log_ready a0 c s"
  defines "d \<equiv> disk_at a0 (io s)" and "h \<equiv> lba (log_dev (log s)) (log_start (log s))"
  assumes n: "unat (bload32 (d h) 0) \<le> 10"
  shows "returns (read_head w s) (\<lambda>t. log_run a0 c {d} d s t \<and> log t = (log s)\<lparr>log_lh := head_of (log_lh (log s)) (d h) (unat (bload32 (d h) 0))\<rparr>)"
proof -
  let ?dev = "log_dev (log s)" and ?st = "log_start (log s)"
  have dev: "?dev < 2" "?st < 2 ^ 28" and rs: "alone c s" "cache d {} s" "card (dirties (slots s)) \<le> 8"
    using r by (auto simp: log_ready_def d_def word_less_nat_alt)
  obtain b t y where b: "bufcache_read w ?dev ?st s = Ret (b, t)" "b < NBUF" "goes a0 c {d} s t" "disk_at a0 (io t) = d"
    "cache d {b} t" "tame (slots s) (slots t)" "slots t = (slots s)(b := y)" "handed d ?dev ?st (slots s b) y"
    using log_fetch [OF env rs(1) rs(2) [unfolded d_def] rs(3) _ _ dev] unfolding d_def by (auto elim!: returnsE)
  note y = log_area_clean [OF r b(8,2) log_area_mem(2)]
  have al: "alone c t" and lt: "log t = log s" using b(3) disk_rest_log [of t s] by (auto simp: goes_def)
  have yb: "slots t b = y" "b_data (bufs t b) = d h" using y(2) b(7) slots_sel(4) [of t b] by (auto simp: h_def)
  let ?lh = "head_of (log_lh (log s)) (d h) (unat (bload32 (d h) 0))"
  let ?u = "t\<lparr>log := (log s)\<lparr>log_lh := ?lh\<rparr>\<rparr>"
  have cl: "b_data (slots ?u b) = disk_at a0 (io ?u) (lba (b_dev (slots ?u b)) (b_sector (slots ?u b)))"
    using y(2,3) b(4) by (simp del: slots_sel add: yb(1) named_def)
  have "alone c ?u" "cache (disk_at a0 (io ?u)) {b} ?u" using al b(4,5) by simp_all
  from give_back [OF this b(2) _ cl, of w] obtain v where v: "bufcache_release w b ?u = Ret v" "goes a0 c {d} ?u v"
    "disk_at a0 (io v) = d" "cache d {} v" "tame (slots t) (slots v)"
    using b(4) by (auto elim!: returnsE)
  have lv: "log v = (log s)\<lparr>log_lh := ?lh\<rparr>" using v(2) disk_rest_log [of v ?u] by (simp add: goes_def)
  have g: "goes a0 c {d} (s\<lparr>log := (log s)\<lparr>log_lh := ?lh\<rparr>\<rparr>) v"
  proof -
    have e: "disk_rest (x\<lparr>log := l\<rparr>) = (disk_rest x)\<lparr>log := l\<rparr>" for x :: "'a mlog_scheme" and l by (simp add: disk_rest_def sched_rest_def)
    have "goes a0 c {d} (s\<lparr>log := (log s)\<lparr>log_lh := ?lh\<rparr>\<rparr>) ?u" using b(3) by (simp add: goes_def e)
    from goes_trans [OF this v(2)] show ?thesis by simp
  qed
  have "tame (slots s) (slots v)" using b(6) v(5) by (rule tame_trans)
  then have "log_ready a0 c v" using log_ready_next [OF _ g] r v(3,4) by simp
  then have "log_run a0 c {d} d s v" using g v(3) by (simp add: log_run_def goes_def)
  moreover have "read_head w s = Ret v"
    using read_head_loop [OF n, of t] b(1) v(1) unfolding read_head_def lt by (simp add: yb(2) lt)
  ultimately show ?thesis using lv by simp
qed

section \<open>Crash safety\<close>

text \<open>The header of the log lists the blocks of memory once it is written.\<close>

lemma committed_wf:
  assumes h: "homes dev start (lh_sector lh) (unat (lh_n lh))" and e: "e (lba dev start) = head_block lh x"
  shows "log_wf dev start e" and "log_n dev start e = lh_n lh" and "i < unat (lh_n lh) \<Longrightarrow> lh_sector lh (of_nat i) = log_sectors dev start e (of_nat i)"
proof -
  have n: "unat (lh_n lh) \<le> 10" using h by (simp add: homes_def)
  show n': "log_n dev start e = lh_n lh" using head_block_load(1) [OF n] e by (simp add: log_n_def)
  show "i < unat (lh_n lh) \<Longrightarrow> lh_sector lh (of_nat i) = log_sectors dev start e (of_nat i)" for i
    using head_block_load(2) [OF n] e by (simp add: log_sectors_def)
  then show "log_wf dev start e" using h by (simp add: log_wf_def homes_def n')
qed

lemma commit_run:
  assumes env: "ide_env w a0" and r: "log_ready a0 c s" and n: "0 <s lh_n (log_lh (log s))"
  defines "dev \<equiv> log_dev (log s)" and "start \<equiv> log_start (log s)" and "lh \<equiv> log_lh (log s)" and "d \<equiv> disk_at a0 (io s)"
  assumes h: "homes dev start (lh_sector lh) (unat (lh_n lh))" and clear: "log_n dev start d = 0"
  shows "returns (andThen (write_head w s) (\<lambda>s. andThen (install_trans w s) (\<lambda>s. write_head w (log_set_n 0 s)))) (\<lambda>t.
    \<exists>M. log_run a0 c M (disk_at a0 (io t)) s t \<and> log t = (log s)\<lparr>log_lh := lh\<lparr>lh_n := 0\<rparr>\<rparr> \<and> log_n dev start (disk_at a0 (io t)) = 0 \<and>
      (\<forall>a. a \<noteq> lba dev start \<longrightarrow> disk_at a0 (io t) a = installed dev start (lh_sector lh) (unat (lh_n lh)) d a) \<and>
      (\<forall>e \<in> M. recover dev start e \<in> {d, disk_at a0 (io t)}))"
proof -
  let ?h = "lba dev start" and ?n = "unat (lh_n lh)" and ?f = "lh_sector lh"
  define e where "e = d(?h := head_block lh (d ?h))"
  note wf = committed_wf [OF h, of e "d ?h"]
  have n10: "?n \<le> 10" using h by (simp add: homes_def)
  obtain t where t: "write_head w s = Ret t" "log_goes a0 c {d, e} e s t"
    using write_head_ok [OF env r] n10 by (auto simp: e_def d_def dev_def start_def lh_def elim!: returnsE)
  have lt: "log t = log s" by (rule log_goes_log [OF t(2)])
  have rt: "log_ready a0 c t" "disk_at a0 (io t) = e" using t(2) by (simp_all add: log_goes_def)
  let ?M = "(\<lambda>k. installed dev start (log_sectors dev start e) k e) ` {..?n}"
  obtain u where u: "andThen (install_trans w t) (\<lambda>s. write_head w (log_set_n 0 s)) = Ret u"
    "log u = (log s)\<lparr>log_lh := lh\<lparr>lh_n := 0\<rparr>\<rparr>" "log_run a0 c (insert (recover dev start e) ?M) (recover dev start e) t u"
    using install_and_clear [OF env rt(1) rt(2) [symmetric]] wf by (auto simp: lt e_def dev_def start_def lh_def elim!: returnsE)
  have run: "log_run a0 c ({d, e} \<union> insert (recover dev start e) ?M) (recover dev start e) s u"
    by (rule log_run_trans [OF log_goes_run [OF t(2)] u(3)])
  have "log_wf dev start e" "log_n dev start e = lh_n lh" using wf by (simp_all add: e_def)
  then have M: "recover dev start x = recover dev start e" if "x \<in> insert (recover dev start e) ?M" for x
    using that recover_installed [of dev start e] recover_clear [OF recover_cleared] by auto
  have "recover dev start e = recover dev start (installed dev start (log_sectors dev start e) 0 e)" by simp
  then have "\<forall>x \<in> {d, e} \<union> insert (recover dev start e) ?M. recover dev start x \<in> {d, recover dev start e}"
    using M recover_clear [OF clear] by auto
  moreover have "recover dev start e a = installed dev start ?f ?n d a" if a: "a \<noteq> ?h" for a
  proof -
    have "installed dev start ?f ?n e a = installed dev start ?f ?n d a"
    proof (rule installed_head)
      show "e (lba dev (start + of_nat k + 1)) = d (lba dev (start + of_nat k + 1))" if "k < 10" for k
        using head_not_block [of dev start k] that r by (simp add: e_def log_ready_def dev_def start_def)
    qed (use h a in \<open>simp_all add: e_def\<close>)
    moreover have "installed dev start (log_sectors dev start e) ?n e = installed dev start ?f ?n e"
      by (rule installed_cong) (use wf(3) in \<open>simp add: e_def\<close>)
    ultimately show ?thesis using a wf(2) by (simp add: recover_def e_def)
  qed
  moreover have "disk_at a0 (io u) = recover dev start e" using run by (simp add: log_run_def)
  ultimately have "\<exists>M. log_run a0 c M (disk_at a0 (io u)) s u \<and> log u = (log s)\<lparr>log_lh := lh\<lparr>lh_n := 0\<rparr>\<rparr> \<and> log_n dev start (disk_at a0 (io u)) = 0 \<and>
      (\<forall>a. a \<noteq> lba dev start \<longrightarrow> disk_at a0 (io u) a = installed dev start ?f ?n d a) \<and>
      (\<forall>e \<in> M. recover dev start e \<in> {d, disk_at a0 (io u)})"
    using run u(2) recover_cleared [of dev start e] by (intro exI [of _ "{d, e} \<union> insert (recover dev start e) ?M"]) simp
  then show ?thesis using t(1) u(1) by simp
qed

lemma commit_end:
  assumes al: "alone c s" and lk: "log_lock (log s) = unlocked"
  shows "returns (andThen (log_acquire s) (\<lambda>s. andThen (thread_wakeup ch (s\<lparr>log := (log s)\<lparr>log_busy := 0\<rparr>\<rparr>)) (\<lambda>s. Ret (log_release s))))
    (\<lambda>t. alone c t \<and> io t = io s \<and> log t = (log s)\<lparr>log_busy := 0\<rparr> \<and> disk_rest t = disk_rest (s\<lparr>log := (log s)\<lparr>log_busy := 0\<rparr>\<rparr>) \<and> bufs t = bufs s)"
proof -
  let ?u = "s\<lparr>log := (log s)\<lparr>log_lock := held_by (this_cpu s), log_busy := 0\<rparr>\<rparr>"
  have "alone c ?u" using al by simp
  from wakeup_alone [OF this, of ch] obtain t where t: "thread_wakeup ch ?u = Ret t" "alone c t" "sched_rest t = sched_rest ?u" by (auto elim!: returnsE)
  note f = sched_rest_sel [OF t(3)]
  have lt: "log t = log ?u" by (rule disk_rest_log [OF f(5)])
  have on: "on_cpu s" using al by (simp add: alone_def)
  have l: "(log s)\<lparr>log_busy := 0, log_lock := unlocked\<rparr> = (log s)\<lparr>log_busy := 0\<rparr>" using lk by (cases "log s") simp
  have e: "disk_rest (x\<lparr>log := y\<rparr>) = (disk_rest x)\<lparr>log := y\<rparr>" for x :: "'a mlog_scheme" and y by (simp add: disk_rest_def sched_rest_def)
  have "disk_rest (log_release t) = disk_rest (s\<lparr>log := (log s)\<lparr>log_busy := 0\<rparr>\<rparr>)"
    using f(5) lt by (simp add: log_release_def e l)
  then show ?thesis
    using t(1,2) f lt lk on by (simp add: log_acquire_def spinlock_acquire_unlocked log_release_def l)
qed

text \<open>
  (C2) A transaction is on the disk as a whole or not at all. \<^verbatim>\<open>commit_trans\<close> returns with every block of the
  transaction at its home sector, the other sectors as they were and the log empty; and at every moment
  on the way, recovery from what is on the disk gives exactly the contents from before the commit or
  exactly those after it. The disk answers without faults, the thread is the only one, it holds no
  buffer, two buffers are not dirty, and the log on the disk was empty.
\<close>

theorem commit_crash_safe:
  assumes "ide_env w a0" and "log_ready a0 c s" and "log_lock (log s) = unlocked"
    and "homes (log_dev (log s)) (log_start (log s)) (lh_sector (log_lh (log s))) (unat (lh_n (log_lh (log s))))"
    and "log_n (log_dev (log s)) (log_start (log s)) (disk_at a0 (io s)) = 0"
  shows "returns (commit_trans w s) (\<lambda>t. log_ready a0 c t \<and> log_busy (log t) = 0 \<and> lh_n (log_lh (log t)) = 0 \<and>
    log_n (log_dev (log s)) (log_start (log s)) (disk_at a0 (io t)) = 0 \<and>
    (\<forall>a. a \<noteq> lba (log_dev (log s)) (log_start (log s)) \<longrightarrow> disk_at a0 (io t) a =
       installed (log_dev (log s)) (log_start (log s)) (lh_sector (log_lh (log s))) (unat (lh_n (log_lh (log s)))) (disk_at a0 (io s)) a) \<and>
    (\<forall>d \<in> moments a0 (io s) (io t). recover (log_dev (log s)) (log_start (log s)) d \<in> {disk_at a0 (io s), disk_at a0 (io t)}))"
proof -
  let ?c = "if 0 <s lh_n (log_lh (log s)) then andThen (write_head w s) (\<lambda>s. andThen (install_trans w s) (\<lambda>s. write_head w (log_set_n 0 s))) else Ret s"
  let ?d = "disk_at a0 (io s)" and ?dev = "log_dev (log s)" and ?start = "log_start (log s)" and ?lh = "log_lh (log s)"
  have "returns ?c (\<lambda>t. \<exists>M. log_run a0 c M (disk_at a0 (io t)) s t \<and> log t = (log s)\<lparr>log_lh := ?lh\<lparr>lh_n := 0\<rparr>\<rparr> \<and> log_n ?dev ?start (disk_at a0 (io t)) = 0 \<and>
      (\<forall>a. a \<noteq> lba ?dev ?start \<longrightarrow> disk_at a0 (io t) a = installed ?dev ?start (lh_sector ?lh) (unat (lh_n ?lh)) ?d a) \<and>
      (\<forall>e \<in> M. recover ?dev ?start e \<in> {?d, disk_at a0 (io t)}))"
  proof (cases "0 <s lh_n ?lh")
    case True
    then show ?thesis using commit_run [OF assms(1,2) _ assms(4,5)] by simp
  next
    case False
    moreover have "unat (lh_n ?lh) \<le> 10" using assms(4) by (simp add: homes_def)
    ultimately have z: "lh_n ?lh = 0" by (simp add: sle_unat unat_eq_0)
    then have "log s = (log s)\<lparr>log_lh := ?lh\<lparr>lh_n := 0\<rparr>\<rparr>" by (metis log_t.surjective log_t.update_convs(6) logheader.surjective logheader.update_convs(1) logheader.select_convs(1))
    then show ?thesis
      using False z assms(2,5) recover_clear [OF assms(5)] by (auto simp: log_run_def intro!: exI [of _ "{?d}"])
  qed
  then obtain t M where t: "?c = Ret t" "log_run a0 c M (disk_at a0 (io t)) s t" "log t = (log s)\<lparr>log_lh := ?lh\<lparr>lh_n := 0\<rparr>\<rparr>"
    "log_n ?dev ?start (disk_at a0 (io t)) = 0" "\<forall>a. a \<noteq> lba ?dev ?start \<longrightarrow> disk_at a0 (io t) a = installed ?dev ?start (lh_sector ?lh) (unat (lh_n ?lh)) ?d a"
    "\<forall>e \<in> M. recover ?dev ?start e \<in> {?d, disk_at a0 (io t)}" by (auto elim!: returnsE)
  have al: "alone c t" and r: "log_ready a0 c t" using t(2) by (simp_all add: log_run_def log_ready_def)
  obtain u where u: "commit_trans w s = Ret u" "alone c u" "io u = io t" "log u = (log t)\<lparr>log_busy := 0\<rparr>"
    "disk_rest u = disk_rest (t\<lparr>log := (log t)\<lparr>log_busy := 0\<rparr>\<rparr>)" "bufs u = bufs t"
    using commit_end [OF al, of "w_log w"] t(1,3) assms(3) unfolding commit_trans_def by (auto elim!: returnsE)
  have "log_ready a0 c u"
  proof (rule log_ready_next [where M = UNIV and s = "t\<lparr>log := (log t)\<lparr>log_busy := 0\<rparr>\<rparr>"])
    have "cache (disk_at a0 (io t)) {} t" using r by (simp add: log_ready_def)
    then show "cache (disk_at a0 (io u)) {} u"
      using disk_rest_sel [OF u(5)] u(3,6) by (simp add: cache_def lru_def slots_def [abs_def])
  qed (use r u in \<open>simp_all add: log_ready_def goes_def slots_def [abs_def]\<close>)
  then show ?thesis using t(2-6) u(1,3,4) by (auto simp: log_run_def)
qed

text \<open>
  (C9) Recovery does on the kernel's side what the transaction needs: \<^verbatim>\<open>recover_from_log\<close> returns with the disk that
  \<open>recover\<close> says, and if the machine stops on the way, recovery from what is on the disk then gives the same.
\<close>

theorem recover_from_log_correct:
  assumes "ide_env w a0" and "log_ready a0 c s" and "log_wf (log_dev (log s)) (log_start (log s)) (disk_at a0 (io s))"
  shows "returns (recover_from_log w s) (\<lambda>t. log_ready a0 c t \<and> lh_n (log_lh (log t)) = 0 \<and>
    disk_at a0 (io t) = recover (log_dev (log s)) (log_start (log s)) (disk_at a0 (io s)) \<and>
    (\<forall>d \<in> moments a0 (io s) (io t). recover (log_dev (log s)) (log_start (log s)) d =
       recover (log_dev (log s)) (log_start (log s)) (disk_at a0 (io s))))"
proof -
  let ?d = "disk_at a0 (io s)" and ?dev = "log_dev (log s)" and ?start = "log_start (log s)"
  let ?n = "unat (log_n ?dev ?start ?d)" and ?h = "?d (lba ?dev ?start)"
  have n: "?n \<le> 10" using assms(3) by (simp add: log_wf_def homes_def)
  then obtain t where t: "read_head w s = Ret t" "log_run a0 c {?d} ?d s t" "log t = (log s)\<lparr>log_lh := head_of (log_lh (log s)) ?h ?n\<rparr>"
    using read_head_ok [OF assms(1,2)] by (auto simp: log_n_def elim!: returnsE)
  have r: "log_ready a0 c t" "disk_at a0 (io t) = ?d" using t(2) by (simp_all add: log_run_def)
  let ?M = "(\<lambda>k. installed ?dev ?start (log_sectors ?dev ?start ?d) k ?d) ` {..?n}"
  have sec: "unat (of_nat i :: u32) = i" if "i < ?n" for i using that n by (simp add: unat_of_nat)
  have "returns (andThen (install_trans w t) (\<lambda>s. write_head w (log_set_n 0 s))) (\<lambda>u. log u = (log t)\<lparr>log_lh := (log_lh (log t))\<lparr>lh_n := 0\<rparr>\<rparr> \<and>
    log_run a0 c (insert (recover ?dev ?start ?d) ?M) (recover ?dev ?start ?d) t u)"
    using install_and_clear [OF assms(1) r(1) r(2) [symmetric]] assms(3) sec
    by (simp add: t(3) head_of_def log_n_def log_sectors_def)
  then obtain u where u: "recover_from_log w s = Ret u" "log u = (log t)\<lparr>log_lh := (log_lh (log t))\<lparr>lh_n := 0\<rparr>\<rparr>"
    "log_run a0 c (insert (recover ?dev ?start ?d) ?M) (recover ?dev ?start ?d) t u"
    using t(1) by (auto simp: recover_from_log_def elim!: returnsE)
  have run: "log_run a0 c ({?d} \<union> insert (recover ?dev ?start ?d) ?M) (recover ?dev ?start ?d) s u" by (rule log_run_trans [OF t(2) u(3)])
  have "recover ?dev ?start x = recover ?dev ?start ?d" if "x \<in> {?d} \<union> insert (recover ?dev ?start ?d) ?M" for x
    using that recover_installed [OF assms(3)] recover_clear [OF recover_cleared] by auto
  moreover have "moments a0 (io s) (io u) \<subseteq> {?d} \<union> insert (recover ?dev ?start ?d) ?M" using run by (simp add: log_run_def)
  ultimately have "\<forall>d \<in> moments a0 (io s) (io u). recover ?dev ?start d = recover ?dev ?start ?d" by blast
  moreover have "log_ready a0 c u" "disk_at a0 (io u) = recover ?dev ?start ?d" using run by (simp_all add: log_run_def)
  ultimately show ?thesis using u(1,2) by simp
qed

section \<open>Adding a block to the transaction\<close>

text \<open>With distinct home sectors, each block goes from its place in the log to its home.\<close>

definition distinct_homes :: "(u32 \<Rightarrow> u32) \<Rightarrow> nat \<Rightarrow> bool" where
  "distinct_homes f n \<longleftrightarrow> (\<forall>i < n. \<forall>j < n. f (of_nat i) = f (of_nat j) \<longrightarrow> i = j)"

lemma installed_at:
  assumes h: "homes dev start f n" and dist: "distinct_homes f n" and dev: "dev < 2" and i: "i < m" "m \<le> n"
  shows "installed dev start f m d (lba dev (f (of_nat i))) = d (lba dev (start + of_nat i + 1))"
  using i
proof (induction m)
  case (Suc m)
  show ?case
  proof (cases "i = m")
    case True
    then show ?thesis using Suc.prems h by (auto simp: homes_def intro!: installed_log [OF h] log_area_mem(1))
  next
    case False
    then have "f (of_nat m) \<noteq> f (of_nat i)" using dist Suc.prems by (auto simp: distinct_homes_def)
    then have "lba dev (f (of_nat m)) \<noteq> lba dev (f (of_nat i))"
      using lba_inj [OF dev _ dev, of "f (of_nat m)" "f (of_nat i)"] h Suc.prems by (auto simp: homes_def)
    then show ?thesis using Suc False by simp
  qed
qed simp

lemma block_not_block:
  assumes "dev < 2" and "unat start + 10 < 2 ^ 28" and "i < 10" and "j < 10" and "i \<noteq> j"
  shows "lba dev (start + of_nat i + 1) \<noteq> lba dev (start + of_nat j + 1)"
proof
  assume "lba dev (start + of_nat i + 1) = lba dev (start + of_nat j + 1)"
  then have "start + of_nat j + 1 = start + of_nat i + 1"
    using lba_inj [OF assms(1) sector_unat(2) [OF assms(2,3)] assms(1) sector_unat(2) [OF assms(2,4)]] by simp
  from arg_cong [OF this, of unat] show False using sector_unat(1) [OF assms(2)] assms(3-5) by simp
qed

lemma installed_write:
  fixes d :: "ata_addr \<Rightarrow> block" and v :: block
  assumes h: "homes dev start f n" and dist: "distinct_homes f n" and dev: "dev < 2" and st: "unat start + 10 < 2 ^ 28"
    and i: "i \<le> n" "i < 10" "i < n \<Longrightarrow> f (of_nat i) = sec" "\<And>j. j < i \<Longrightarrow> f (of_nat j) \<noteq> sec"
    and sec: "sec < 2 ^ 28" "lba dev sec \<notin> log_area dev start"
  defines "f' \<equiv> f(of_nat i := sec)" and "n' \<equiv> (if i = n then n + 1 else n)" and "d' \<equiv> d(lba dev (start + of_nat i + 1) := v)"
  shows "homes dev start f' n'" and "distinct_homes f' n'"
    and "a \<notin> log_area dev start \<Longrightarrow> installed dev start f' n' d' a = ((installed dev start f n d)(lba dev sec := v)) a"
proof -
  have n: "n \<le> 10" "n' \<le> 10" "i < n'" using h i by (auto simp: homes_def n'_def)
  have of: "(of_nat k :: u32) = of_nat i \<longleftrightarrow> k = i" if "k < 10" for k
    using that i(2) by (auto simp: word_unat_eq_iff unat_of_nat)
  have f': "f' (of_nat k) = (if k = i then sec else f (of_nat k))" if "k < n'" for k
    using of [of k] that n by (simp add: f'_def)
  have old: "f (of_nat k) \<noteq> sec" if "k < n'" "k \<noteq> i" for k
    using that dist i(1,3) i(4) [of k] by (cases "i = n") (auto simp: n'_def distinct_homes_def dest: le_neq_implies_less)
  have low: "k < n" if "k < n'" "k \<noteq> i" for k using that by (auto simp: n'_def split: if_splits)
  show h': "homes dev start f' n'" unfolding homes_def
  proof (intro conjI allI impI n)
    fix k assume "k < n'"
    then show "f' (of_nat k) < 2 ^ 28" "lba dev (f' (of_nat k)) \<notin> log_area dev start"
      using f' [of k] low [of k] h sec by (cases "k = i"; simp add: homes_def)+
  qed
  have in': "j = k" if "j < n'" "k < n'" "f' (of_nat j) = f' (of_nat k)" for j k
    using that(3) f' [OF that(1)] f' [OF that(2)] old [OF that(1)] old [OF that(2)] low [OF that(1)] low [OF that(2)] dist
    by (cases "j = i"; cases "k = i") (simp_all add: distinct_homes_def)
  then show d': "distinct_homes f' n'" by (simp add: distinct_homes_def)
  have blk: "d' (lba dev (start + of_nat k + 1)) = (if k = i then v else d (lba dev (start + of_nat k + 1)))" if "k < 10" for k
    using block_not_block [OF dev st that i(2)] by (auto simp: d'_def)
  assume a: "a \<notin> log_area dev start"
  show "installed dev start f' n' d' a = ((installed dev start f n d)(lba dev sec := v)) a"
  proof (cases "\<exists>k < n'. lba dev (f' (of_nat k)) = a")
    case True
    then obtain k where k: "k < n'" "lba dev (f' (of_nat k)) = a" by blast
    then have "installed dev start f' n' d' a = (if k = i then v else d (lba dev (start + of_nat k + 1)))"
      using installed_at [OF h' d' dev k(1) order.refl, of d'] blk [of k] n by simp
    moreover have "a \<noteq> lba dev sec" "installed dev start f n d a = d (lba dev (start + of_nat k + 1))" if "k \<noteq> i"
    proof -
      have e: "f' (of_nat k) = f (of_nat k)" using f' [OF k(1)] that by simp
      show "installed dev start f n d a = d (lba dev (start + of_nat k + 1))"
        using installed_at [OF h dist dev low [OF k(1) that] order.refl, of d] k(2) e by simp
      show "a \<noteq> lba dev sec"
        using lba_inj [OF dev sec(1) dev, of "f (of_nat k)"] old [OF k(1) that] h low [OF k(1) that] k(2) e by (auto simp: homes_def)
    qed
    ultimately show ?thesis using k f' [OF k(1)] by auto
  next
    case False
    then have no: "lba dev (f' (of_nat k)) \<noteq> a" if "k < n'" for k using that by blast
    have "lba dev (f (of_nat k)) \<noteq> a" if "k < n" for k
    proof (cases "k = i")
      case True
      then show ?thesis using no [OF n(3)] f' [OF n(3)] i(3) that by simp
    next
      case False
      moreover have "k < n'" using that by (simp add: n'_def)
      ultimately show ?thesis using no [of k] f' [of k] by simp
    qed
    then have "installed dev start f n d a = d a" by (rule installed_other)
    moreover have "installed dev start f' n' d' a = d' a" using no by (rule installed_other)
    moreover have "d' a = d a" using a log_area_mem(1) [OF i(2), of dev start] by (auto simp: d'_def)
    moreover have "a \<noteq> lba dev sec" using no [OF n(3)] f' [OF n(3)] by auto
    ultimately show ?thesis by simp
  qed
qed

text \<open>The thread holds one buffer, of a home sector.\<close>

definition log_holding :: "ata \<Rightarrow> u32 \<Rightarrow> u32 \<Rightarrow> 'a mlog_scheme \<Rightarrow> bool" where
  "log_holding a0 c b s \<longleftrightarrow> alone c s \<and> cache (disk_at a0 (io s)) {b} s \<and> b < NBUF \<and> log_dev (log s) < 2 \<and> unat (log_start (log s)) + 10 < 2 ^ 28 \<and>
     (\<forall>b \<in> dirties (slots s). b_dev (slots s b) = log_dev (log s) \<longrightarrow>
        lba (log_dev (log s)) (b_sector (slots s b)) \<notin> log_area (log_dev (log s)) (log_start (log s))) \<and>
     b_dev (bufs s b) = log_dev (log s) \<and> lba (log_dev (log s)) (b_sector (bufs s b)) \<notin> log_area (log_dev (log s)) (log_start (log s))"

lemma log_search:
  fixes n :: u32
  assumes "unat n \<le> 10"
  shows "returns (whileM (\<lambda>i. i <s n \<and> f i \<noteq> sec) (\<lambda>i. Ret (i + 1)) 0) (\<lambda>r. \<exists>i \<le> unat n. r = of_nat i \<and>
    (i < unat n \<longrightarrow> f (of_nat i) = sec) \<and> (\<forall>j < i. f (of_nat j) \<noteq> sec))"
proof (rule returns_whileM_count [where I = "\<lambda>k r. r = of_nat k \<and> k \<le> unat n \<and> (\<forall>j < k. f (of_nat j) \<noteq> sec)" and N = "unat n"])
  have u: "unat (of_nat k :: u32) = k" if "k \<le> unat n" for k using that assms by (simp add: unat_of_nat)
  show "k < unat n \<and> returns (Ret (r + 1)) (\<lambda>r. r = of_nat (Suc k) \<and> Suc k \<le> unat n \<and> (\<forall>j < Suc k. f (of_nat j) \<noteq> sec))"
    if "r = of_nat k \<and> k \<le> unat n \<and> (\<forall>j < k. f (of_nat j) \<noteq> sec)" "r <s n \<and> f r \<noteq> sec" for k r
  proof -
    have "k < unat n" using that u [of k] assms by (simp add: sle_unat)
    then show ?thesis using that by (simp add: less_Suc_eq add.commute)
  qed
  show "\<exists>i \<le> unat n. r = of_nat i \<and> (i < unat n \<longrightarrow> f (of_nat i) = sec) \<and> (\<forall>j < i. f (of_nat j) \<noteq> sec)"
    if "r = of_nat k \<and> k \<le> unat n \<and> (\<forall>j < k. f (of_nat j) \<noteq> sec)" "\<not> (r <s n \<and> f r \<noteq> sec)" for k r
    using that u [of k] assms by (intro exI [of _ k]) (auto simp: sle_unat)
qed simp

text \<open>The block in the buffer goes to the log.\<close>

lemma log_append:
  assumes env: "ide_env w a0" and h: "log_holding a0 c b s" and few: "card (dirties (slots s)) \<le> 8" and i: "i < 10"
  defines "d \<equiv> disk_at a0 (io s)" and "l \<equiv> lba (log_dev (log s)) (log_start (log s) + of_nat i + 1)"
  shows "returns (andThen (bufcache_read w (log_dev (log s)) (log_start (log s) + of_nat i + 1) s) (\<lambda>(lbuf, u).
      let u = buf_put lbuf (\<lambda>x. x\<lparr>b_data := b_data (bufs u b)\<rparr>) u in
      andThen (bufcache_write w lbuf u) (bufcache_release w lbuf)))
    (\<lambda>t. alone c t \<and> log t = log s \<and> disk_at a0 (io t) = d(l := b_data (bufs s b)) \<and> cache (disk_at a0 (io t)) {b} t \<and>
      tame (slots s) (slots t) \<and> slots t b = slots s b)"
proof -
  let ?dev = "log_dev (log s)" and ?ls = "log_start (log s) + of_nat i + 1" and ?v = "b_data (bufs s b)"
  have al: "alone c s" and ca: "cache d {b} s" and b: "b < NBUF" and dev: "?dev < 2" "?ls < 2 ^ 28"
    using h sector_unat(2) [OF _ i] by (auto simp: log_holding_def d_def)
  have la: "l \<in> log_area ?dev (log_start (log s))" unfolding l_def by (rule log_area_mem(1) [OF i])
  have nb: "\<not> named ?dev ?ls (slots s b)" using h la by (auto simp: log_holding_def named_def l_def)
  obtain lb t y where t: "bufcache_read w ?dev ?ls s = Ret (lb, t)" "lb < NBUF" "lb \<noteq> b" "goes a0 c {d} s t" "disk_at a0 (io t) = d"
    "cache d {lb, b} t" "tame (slots s) (slots t)" "slots t = (slots s)(lb := y)" "handed d ?dev ?ls (slots s lb) y"
    using log_fetch [OF env al ca [unfolded d_def] few _ _ dev] nb unfolding d_def by (auto elim!: returnsE)
  have nm: "named ?dev ?ls (slots t lb)" using t(8,9) by (simp add: handed_def)
  have at: "alone c t" and lt: "log t = log s" using t(4) disk_rest_log [of t s] by (auto simp: goes_def)
  have tb: "slots t b = slots s b" "b_data (bufs t b) = ?v" using t(3,8) slots_sel(4) [of t b] by auto
  obtain u z where u: "bufcache_write w lb (buf_put lb (\<lambda>x. x\<lparr>b_data := ?v\<rparr>) t) = Ret u" "goes a0 c {d, d(l := ?v)} t u"
    "disk_at a0 (io u) = d(l := ?v)" "cache (d(l := ?v)) {lb, b} u" "slots u = (slots t)(lb := z)" "named ?dev ?ls z" "\<not> buf_dirty z" "b_data z = ?v"
    using write_through [OF env at _ t(2) _ nm dev(1), of "{lb, b}" ?v] t(5,6) unfolding l_def by (auto elim!: returnsE)
  have au: "alone c u" and lu: "log u = log s" using u(2) lt disk_rest_log [of u t] by (auto simp: goes_def)
  have cl: "b_data (slots u lb) = disk_at a0 (io u) (lba (b_dev (slots u lb)) (b_sector (slots u lb)))"
    using u(3,5,6,8) by (simp add: named_def l_def del: slots_sel)
  have "cache (disk_at a0 (io u)) {lb, b} u" using u(3,4) by simp
  from give_back [OF au this t(2) _ cl, of w] obtain v where v: "bufcache_release w lb u = Ret v" "goes a0 c {d(l := ?v)} u v"
    "disk_at a0 (io v) = d(l := ?v)" "cache (d(l := ?v)) {b} v" "tame (slots u) (slots v)" "slots v b = slots u b"
    using u(3) t(3) by (auto simp: insert_Diff_if elim!: returnsE)
  have "tame (slots t) (slots u)" unfolding u(5) by (rule tame_upd) (use u(7) in simp)
  then have "tame (slots s) (slots v)" using t(7) v(5) by (blast intro: tame_trans)
  moreover have "alone c v" "log v = log s" using v(2) lu disk_rest_log [of v u] by (auto simp: goes_def)
  moreover have "slots v b = slots s b" using v(6) u(5) t(3) tb(1) by simp
  ultimately show ?thesis using t(1) tb(2) u(1) v(1,3,4) by simp
qed

lemma cache_put_dirty:
  assumes "cache d X s" and "b \<in> X" and "buf_valid (bufs s b)"
  shows "cache d X (buf_put b (\<lambda>x. x\<lparr>b_flags := b_flags x OR B_DIRTY\<rparr>) s)"
proof -
  let ?s = "buf_put b (\<lambda>x. x\<lparr>b_flags := b_flags x OR B_DIRTY\<rparr>) s"
  have sl: "slots ?s = (slots s)(b := (slots s b)\<lparr>b_flags := b_flags (bufs s b) OR B_DIRTY\<rparr>)"
    by (auto simp: slots_def buf_put_def unlink_def)
  obtain xs where r: "lru s xs" using assms by (auto simp: cache_def)
  have "lru ?s xs" by (rule lru_bufs [OF r]) (simp_all add: buf_put_def)
  moreover have "slots_ok d X ((slots s)(b := (slots s b)\<lparr>b_flags := b_flags (bufs s b) OR B_DIRTY\<rparr>))"
    using assms unfolding cache_def slots_ok_def named_def by (auto simp: flags)
  ultimately show ?thesis using assms(1) unfolding cache_def sl by (auto simp: ide_idle_def buf_put_def)
qed

text \<open>
  (C10) \<^verbatim>\<open>log_write\<close> adds the block of a held buffer to the transaction: what \<^verbatim>\<open>commit_trans\<close> is going to install has the
  contents of the buffer at the home sector of the block and is otherwise unchanged, whether the sector
  was already in the transaction or not; no sector outside the log area changes yet, and the buffer
  stays in the cache as dirty.
\<close>

theorem log_write_adds:
  assumes "ide_env w a0" and h: "log_holding a0 c b s" and "buf_valid (bufs s b)" and few: "card (dirties (slots s)) \<le> 8"
    and "homes (log_dev (log s)) (log_start (log s)) (lh_sector (log_lh (log s))) (unat (lh_n (log_lh (log s))))"
    and "distinct_homes (lh_sector (log_lh (log s))) (unat (lh_n (log_lh (log s))))"
    and n: "lh_n (log_lh (log s)) < LOGSIZE" and "\<not> log_size (log s) - 1 \<le>s lh_n (log_lh (log s))" and "log_busy (log s) \<noteq> 0"
  shows "returns (log_write w b s) (\<lambda>t. cache (disk_at a0 (io t)) {b} t \<and> buf_dirty (bufs t b) \<and> b_data (bufs t b) = b_data (bufs s b) \<and>
    homes (log_dev (log s)) (log_start (log s)) (lh_sector (log_lh (log t))) (unat (lh_n (log_lh (log t)))) \<and>
    distinct_homes (lh_sector (log_lh (log t))) (unat (lh_n (log_lh (log t)))) \<and>
    (\<forall>a. a \<notin> log_area (log_dev (log s)) (log_start (log s)) \<longrightarrow> disk_at a0 (io t) a = disk_at a0 (io s) a \<and>
      installed (log_dev (log s)) (log_start (log s)) (lh_sector (log_lh (log t))) (unat (lh_n (log_lh (log t)))) (disk_at a0 (io t)) a =
      ((installed (log_dev (log s)) (log_start (log s)) (lh_sector (log_lh (log s))) (unat (lh_n (log_lh (log s)))) (disk_at a0 (io s)))
         (lba (log_dev (log s)) (b_sector (bufs s b)) := b_data (bufs s b))) a))"
proof -
  let ?dev = "log_dev (log s)" and ?start = "log_start (log s)" and ?f = "lh_sector (log_lh (log s))" and ?n = "unat (lh_n (log_lh (log s)))"
  let ?sec = "b_sector (bufs s b)" and ?d = "disk_at a0 (io s)" and ?v = "b_data (bufs s b)"
  have n10: "?n < 10" using n by (simp add: word_less_nat_alt)
  then obtain i where i: "whileM (\<lambda>i. i <s lh_n (log_lh (log s)) \<and> ?f i \<noteq> ?sec) (\<lambda>i. Ret (i + 1)) 0 = Ret (of_nat i)" "i \<le> ?n"
    "i < ?n \<Longrightarrow> ?f (of_nat i) = ?sec" "\<And>j. j < i \<Longrightarrow> ?f (of_nat j) \<noteq> ?sec"
    using log_search [of "lh_n (log_lh (log s))" ?f ?sec] by (auto elim!: returnsE)
  have i10: "i < 10" "(of_nat i :: u32) < LOGSIZE" "unat (of_nat i :: u32) = i" using i(2) n10 by (simp_all add: word_less_nat_alt unat_of_nat)
  let ?lh = "(log_lh (log s))\<lparr>lh_sector := ?f(of_nat i := ?sec)\<rparr>"
  let ?s = "s\<lparr>log := (log s)\<lparr>log_lh := ?lh\<rparr>\<rparr>"
  have "log_holding a0 c b ?s" using h by (simp add: log_holding_def)
  from log_append [OF assms(1) this _ i10(1)] few obtain lb u v t where
    t: "bufcache_read w ?dev (?start + of_nat i + 1) ?s = Ret (lb, u)" "bufcache_write w lb (buf_put lb (\<lambda>x. x\<lparr>b_data := b_data (bufs u b)\<rparr>) u) = Ret v"
      "bufcache_release w lb v = Ret t" "log t = log ?s" "disk_at a0 (io t) = ?d(lba ?dev (?start + of_nat i + 1) := ?v)"
      "cache (disk_at a0 (io t)) {b} t" "slots t b = slots s b"
    by (auto simp: Let_def andThen_eq_Ret elim!: returnsE)
  let ?n' = "if i = ?n then ?n + 1 else ?n"
  let ?t = "if of_nat i = lh_n (log_lh (log s)) then log_set_n (lh_n (log_lh (log s)) + 1) t else t"
  let ?u = "buf_put b (\<lambda>x. x\<lparr>b_flags := b_flags x OR B_DIRTY\<rparr>) ?t"
  have tb: "bufs ?t = bufs t" "io ?u = io t" "b_flags (bufs t b) = b_flags (bufs s b)" "b_data (bufs t b) = ?v"
    using arg_cong [OF t(7), of b_flags] arg_cong [OF t(7), of b_data] by (simp_all add: log_set_n_def)
  have "LOGSIZE \<le>s lh_n (log_lh (log s)) \<longleftrightarrow> False" using n10 by (simp add: sle_unat)
  then have call: "log_write w b s = Ret ?u"
    using assms(8,9) i(1) t(1-4) i10(2) h by (simp add: log_write_def Let_def log_set_sector_def bounded_def log_holding_def)
  have l: "lh_sector (log_lh (log ?u)) = ?f(of_nat i := ?sec)" "unat (lh_n (log_lh (log ?u))) = ?n'"
    using t(4) i10(3) n10 by (auto simp: log_set_n_def buf_put_def unat_word_ariths)
  have "cache (disk_at a0 (io t)) {b} ?u"
    by (rule cache_put_dirty) (use t(6) assms(3) tb in \<open>simp_all add: log_set_n_def\<close>)
  moreover have "?sec < 2 ^ 28" using h slots_okD(3) [of ?d "{b}" "slots s" b] by (simp add: log_holding_def cache_def)
  note w = installed_write [OF assms(5,6) _ _ i(2) i10(1) i(3,4) this]
  have "homes ?dev ?start (?f(of_nat i := ?sec)) ?n'" "distinct_homes (?f(of_nat i := ?sec)) ?n'"
    using w(1,2) h by (simp_all add: log_holding_def)
  moreover have "installed ?dev ?start (?f(of_nat i := ?sec)) ?n' (?d(lba ?dev (?start + of_nat i + 1) := ?v)) a =
      ((installed ?dev ?start ?f ?n ?d)(lba ?dev ?sec := ?v)) a" "(?d(lba ?dev (?start + of_nat i + 1) := ?v)) a = ?d a"
    if "a \<notin> log_area ?dev ?start" for a
    using w(3) [OF _ _ _ _ _ that, of ?d ?v] h that log_area_mem(1) [OF i10(1), of ?dev ?start] by (auto simp: log_holding_def)
  moreover have "buf_dirty (bufs ?u b)" "b_data (bufs ?u b) = ?v" using tb by (simp_all add: buf_put_def flags log_set_n_def)
  ultimately show ?thesis unfolding call l [symmetric] using t(5) tb(2) by (simp add: l)
qed

section \<open>The log at work\<close>

text \<open>A machine whose log starts at sector 100, with the log block 101 on the disk filled with nines.\<close>

definition log_boot :: "u32 \<Rightarrow> mlog" where
  "log_boot n = mbuf.extend disk_boot (mlog.fields \<lparr>log_lock = unlocked, log_start = 100, log_size = 11, log_busy = 1, log_dev = 1,
     log_lh = \<lparr>lh_n = n, lh_sector = (\<lambda>_. 5)\<rparr>\<rparr>)"

definition ata_log :: "block \<Rightarrow> ata" where
  "ata_log x = \<lparr>a_r3 = 0, a_r4 = 0, a_r5 = 0, a_r6 = 0, a_cmd = 0, a_disk = ((\<lambda>_ _. 0)(lba 1 100 := x, lba 1 101 := (\<lambda>_. 9)))\<rparr>"

lemma log_boot_simps:
  "io (log_boot n) = []" "bufs (log_boot n) = bufs disk_boot" "ide_idle (log_boot n)" "havedisk1 (log_boot n)"
  "log (log_boot n) = \<lparr>log_lock = unlocked, log_start = 100, log_size = 11, log_busy = 1, log_dev = 1, log_lh = \<lparr>lh_n = n, lh_sector = (\<lambda>_. 5)\<rparr>\<rparr>"
  "alone 0 (log_boot n)"
proof -
  show "io (log_boot n) = []" "bufs (log_boot n) = bufs disk_boot" "ide_idle (log_boot n)" "havedisk1 (log_boot n)"
    "log (log_boot n) = \<lparr>log_lock = unlocked, log_start = 100, log_size = 11, log_busy = 1, log_dev = 1, log_lh = \<lparr>lh_n = n, lh_sector = (\<lambda>_. 5)\<rparr>\<rparr>"
    using disk_boot_simps by (simp_all add: log_boot_def mbuf.defs mlog.defs ide_idle_def)
  have "alone 0 (log_boot n) = alone 0 disk_boot"
    by (simp add: log_boot_def mbuf.defs mlog.defs alone_def on_cpu_def this_cpu_def this_kstack_def queues_def queue_is_def cong: kstack_ref.case_cong)
  then show "alone 0 (log_boot n)" using disk_boot_alone by simp
qed

lemma log_addr [simp]: "lba 1 5 \<notin> log_area 1 100" "lba 1 101 \<noteq> lba 1 100" "lba 1 5 \<noteq> lba 1 100" "lba 1 5 \<noteq> lba 1 101" "lba 1 100 \<noteq> lba 1 101"
proof -
  have i: "lba 1 x = lba 1 y \<Longrightarrow> x = y" if "x < 2 ^ 28" "y < 2 ^ 28" for x y using lba_inj [of 1 x 1 y] that by simp
  have "lba 1 5 \<noteq> lba 1 (100 + of_nat k)" if "k \<le> 10" for k
  proof
    have u: "unat (100 + of_nat k :: u32) = 100 + k" using that by (simp add: unat_word_ariths unat_of_nat)
    assume "lba 1 5 = lba 1 (100 + of_nat k)"
    then have "5 = (100 + of_nat k :: u32)" by (rule i [rotated 2]) (use u that in \<open>simp_all add: word_less_nat_alt\<close>)
    from arg_cong [OF this, of unat] show False using u by simp
  qed
  then show "lba 1 5 \<notin> log_area 1 100" by (auto simp: log_area_def)
  show "lba 1 101 \<noteq> lba 1 100" "lba 1 5 \<noteq> lba 1 100" "lba 1 5 \<noteq> lba 1 101" "lba 1 100 \<noteq> lba 1 101" using i [of 101 100] i [of 5 100] i [of 5 101] by auto
qed

lemma log_boot_ready:
  "returns (bufcache_init (log_boot n)) (\<lambda>s. log_ready (ata_log x) 0 s \<and> log s = log (log_boot n) \<and> io s = [] \<and> dirties (slots s) = {})"
proof (rule returns_mono [OF bufcache_init_ok [where c = 0 and d = "disk_at (ata_log x) []"]])
  fix s :: mlog
  assume s: "cache (disk_at (ata_log x) []) {} s \<and> (\<forall>b < NBUF. b_dev (bufs s b) = -1 \<and> b_flags (bufs s b) = 0) \<and> io s = io (log_boot n) \<and>
    (alone 0 s \<longleftrightarrow> alone 0 (log_boot n)) \<and> disk_rest s = disk_rest ((log_boot n)\<lparr>bcache_lock := unlocked\<rparr>)"
  have "log s = log (log_boot n)" using disk_rest_log [of s "(log_boot n)\<lparr>bcache_lock := unlocked\<rparr>"] s by simp
  moreover have "dirties (slots s) = {}" using s by (auto simp: dirties_def)
  ultimately show "log_ready (ata_log x) 0 s \<and> log s = log (log_boot n) \<and> io s = [] \<and> dirties (slots s) = {}"
    using s by (simp add: log_ready_def log_boot_simps)
qed (simp_all add: log_boot_simps disk_boot_simps)

lemma ata_log_disk: "disk_at (ata_log x) [] = (\<lambda>_ _. 0)(lba 1 100 := x, lba 1 101 := (\<lambda>_. 9))"
  by (simp add: disk_at_def ata_of_def ata_log_def)

theorem commit_crash_safe_witness:
  "returns (bufcache_init (log_boot 1)) (\<lambda>s. returns (commit_trans (disk_world (ata_log (\<lambda>_. 0))) s) (\<lambda>t.
     disk_at (ata_log (\<lambda>_. 0)) (io t) (lba 1 5) = (\<lambda>_. 9) \<and> disk_at (ata_log (\<lambda>_. 0)) (io s) (lba 1 5) = (\<lambda>_. 0) \<and>
     recover 1 100 ` moments (ata_log (\<lambda>_. 0)) (io s) (io t) \<subseteq> {disk_at (ata_log (\<lambda>_. 0)) (io s), disk_at (ata_log (\<lambda>_. 0)) (io t)}))"
proof (rule returns_mono [OF log_boot_ready [of 1 "\<lambda>_. 0"]])
  fix s :: mlog
  let ?a = "ata_log (\<lambda>_. 0)"
  assume s: "log_ready ?a 0 s \<and> log s = log (log_boot 1) \<and> io s = [] \<and> dirties (slots s) = {}"
  have h: "homes 1 100 (\<lambda>_. 5) 1" "log_n 1 100 (disk_at ?a []) = 0" by (simp_all add: homes_def log_n_def bload32_def ata_log_disk)
  have c: "returns (commit_trans (disk_world ?a) s) (\<lambda>t. (\<forall>a. a \<noteq> lba 1 100 \<longrightarrow> disk_at ?a (io t) a = installed 1 100 (\<lambda>_. 5) 1 (disk_at ?a (io s)) a) \<and>
      (\<forall>d \<in> moments ?a (io s) (io t). recover 1 100 d \<in> {disk_at ?a (io s), disk_at ?a (io t)}))"
    by (rule returns_mono [OF commit_crash_safe [OF disk_world_env, of ?a 0 s]]) (use h s in \<open>simp_all add: log_boot_simps\<close>)
  show "returns (commit_trans (disk_world ?a) s) (\<lambda>t. disk_at ?a (io t) (lba 1 5) = (\<lambda>_. 9) \<and> disk_at ?a (io s) (lba 1 5) = (\<lambda>_. 0) \<and>
     recover 1 100 ` moments ?a (io s) (io t) \<subseteq> {disk_at ?a (io s), disk_at ?a (io t)})"
  proof (rule returns_mono [OF c])
    fix t assume t: "(\<forall>a. a \<noteq> lba 1 100 \<longrightarrow> disk_at ?a (io t) a = installed 1 100 (\<lambda>_. 5) 1 (disk_at ?a (io s)) a) \<and>
      (\<forall>d \<in> moments ?a (io s) (io t). recover 1 100 d \<in> {disk_at ?a (io s), disk_at ?a (io t)})"
    then have "disk_at ?a (io t) (lba 1 5) = installed 1 100 (\<lambda>_. 5) 1 (disk_at ?a (io s)) (lba 1 5)" using log_addr(3) by blast
    moreover have "recover 1 100 ` moments ?a (io s) (io t) \<subseteq> {disk_at ?a (io s), disk_at ?a (io t)}" using t by blast
    ultimately show "disk_at ?a (io t) (lba 1 5) = (\<lambda>_. 9) \<and> disk_at ?a (io s) (lba 1 5) = (\<lambda>_. 0) \<and>
     recover 1 100 ` moments ?a (io s) (io t) \<subseteq> {disk_at ?a (io s), disk_at ?a (io t)}" using s by (simp add: ata_log_disk)
  qed
qed

theorem recover_from_log_correct_witness:
  "returns (bufcache_init (log_boot 0)) (\<lambda>s. returns (recover_from_log (disk_world (ata_log (head_block \<lparr>lh_n = 1, lh_sector = (\<lambda>_. 5)\<rparr> (\<lambda>_. 0)))) s) (\<lambda>t.
     disk_at (ata_log (head_block \<lparr>lh_n = 1, lh_sector = (\<lambda>_. 5)\<rparr> (\<lambda>_. 0))) (io t) (lba 1 5) = (\<lambda>_. 9)))"
proof (rule returns_mono [OF log_boot_ready [of 0 "head_block \<lparr>lh_n = 1, lh_sector = (\<lambda>_. 5)\<rparr> (\<lambda>_. 0)"]])
  fix s :: mlog
  let ?lh = "\<lparr>lh_n = 1, lh_sector = (\<lambda>_. 5)\<rparr> :: logheader"
  let ?a = "ata_log (head_block ?lh (\<lambda>_. 0))"
  assume s: "log_ready ?a 0 s \<and> log s = log (log_boot 0) \<and> io s = [] \<and> dirties (slots s) = {}"
  have "homes 1 100 (lh_sector ?lh) (unat (lh_n ?lh))" by (simp add: homes_def)
  note wf = committed_wf [OF this, of "disk_at ?a []" "\<lambda>_. 0"]
  have "recover 1 100 (disk_at ?a []) (lba 1 5) = (\<lambda>_. 9)"
    using wf(2) wf(3) [of 0] by (simp add: recover_def ata_log_disk)
  then show "returns (recover_from_log (disk_world ?a) s) (\<lambda>t. disk_at ?a (io t) (lba 1 5) = (\<lambda>_. 9))"
    using recover_from_log_correct [OF disk_world_env, of ?a 0 s] wf(1) s by (auto simp: log_boot_simps ata_log_disk elim!: returns_mono)
qed

theorem log_write_adds_witness:
  "returns (bufcache_init (log_boot 0)) (\<lambda>s. returns (bufcache_read (disk_world (ata_log (\<lambda>_. 0))) 1 5 s) (\<lambda>(b, t).
     returns (log_write (disk_world (ata_log (\<lambda>_. 0))) b t) (\<lambda>u. buf_dirty (bufs u b) \<and>
       installed 1 100 (lh_sector (log_lh (log u))) (unat (lh_n (log_lh (log u)))) (disk_at (ata_log (\<lambda>_. 0)) (io u)) (lba 1 5) = (\<lambda>_. 0))))"
proof (rule returns_mono [OF log_boot_ready [of 0 "\<lambda>_. 0"]])
  fix s :: mlog
  let ?a = "ata_log (\<lambda>_. 0)"
  assume s: "log_ready ?a 0 s \<and> log s = log (log_boot 0) \<and> io s = [] \<and> dirties (slots s) = {}"
  have al: "alone 0 s" and ca: "cache (disk_at ?a (io s)) {} s" and few: "card (dirties (slots s)) \<le> 8"
    using s unfolding log_ready_def by blast+
  from log_fetch [OF disk_world_env al ca few, of 1 5] obtain b t y where t: "bufcache_read (disk_world ?a) 1 5 s = Ret (b, t)" "b < NBUF"
    "goes ?a 0 {disk_at ?a (io s)} s t" "cache (disk_at ?a (io t)) {b} t" "tame (slots s) (slots t)"
    "slots t = (slots s)(b := y)" "handed (disk_at ?a (io s)) 1 5 (slots s b) y"
    by (auto elim!: returnsE)
  have lt: "log t = \<lparr>log_lock = unlocked, log_start = 100, log_size = 11, log_busy = 1, log_dev = 1, log_lh = \<lparr>lh_n = 0, lh_sector = (\<lambda>_. 5)\<rparr>\<rparr>"
    using disk_rest_log [of t s] t(3) s by (simp add: goes_def log_boot_simps)
  have d: "dirties (slots t) = {}" using t(5) s by (auto simp: tame_def)
  then have "\<not> buf_dirty y" using t(2,6) by (auto simp: dirties_def)
  then have y: "b_dev (bufs t b) = 1" "b_sector (bufs t b) = 5" "buf_valid (bufs t b)" "b_data (bufs t b) = (\<lambda>_. 0)"
    using slots_sel [of t b] t(6,7) s by (auto simp: handed_def named_def ata_log_disk)
  have "log_holding ?a 0 b t" using t(2-4) d y lt by (simp add: log_holding_def goes_def)
  moreover have "\<not> (10 :: u32) \<le>s 0" by (simp add: sle_unat)
  ultimately have c: "returns (log_write (disk_world ?a) b t) (\<lambda>u. buf_dirty (bufs u b) \<and> (\<forall>a. a \<notin> log_area 1 100 \<longrightarrow>
      installed 1 100 (lh_sector (log_lh (log u))) (unat (lh_n (log_lh (log u)))) (disk_at ?a (io u)) a =
      ((installed 1 100 (\<lambda>_. 5) 0 (disk_at ?a (io t)))(lba 1 5 := (\<lambda>_. 0))) a))"
    by (intro returns_mono [OF log_write_adds [OF disk_world_env, of ?a 0 b t]]) (use d y lt in \<open>simp_all add: homes_def distinct_homes_def\<close>)
  have "returns (log_write (disk_world ?a) b t) (\<lambda>u. buf_dirty (bufs u b) \<and>
       installed 1 100 (lh_sector (log_lh (log u))) (unat (lh_n (log_lh (log u)))) (disk_at ?a (io u)) (lba 1 5) = (\<lambda>_. 0))"
    by (rule returns_mono [OF c]) (use log_addr(1) in fastforce)
  then show "returns (bufcache_read (disk_world ?a) 1 5 s) (\<lambda>(b, t).
     returns (log_write (disk_world ?a) b t) (\<lambda>u. buf_dirty (bufs u b) \<and>
       installed 1 100 (lh_sector (log_lh (log u))) (unat (lh_n (log_lh (log u)))) (disk_at ?a (io u)) (lba 1 5) = (\<lambda>_. 0)))"
    using t(1) by simp
qed

end
