(* ===== verification/Boot_Loader.thy ===== *)
theory Boot_Loader
  imports Console
begin

unbundle bit_operations_syntax

text \<open>
  The second stage of the boot loader, \<^verbatim>\<open>boot/boot1/boot1lib.c\<close> and \<^verbatim>\<open>boot/boot1/boot1main.c\<close>: it finds the
  bootable partition, hands on the memory map of the BIOS and loads the kernel from the disk. Memory is
  physical and byte-addressed; strings are the lists of their characters up to the null byte.
\<close>

text \<open>
  The variables of the loader. Of \<^verbatim>\<open>mboot_info\<close> it sets the flags and the place of the memory map only;
  the two variants of the union \<^verbatim>\<open>syms\<close> are four words each.
\<close>

record boot_device_t =
  driver :: u8
  part1 :: u8
  part2 :: u8
  part3 :: u8

record mboot_info =
  mb_flags :: u32
  mem_lower :: u32
  mem_upper :: u32
  boot_device :: boot_device_t
  cmdline :: u32
  mods_count :: u32
  mods_addr :: u32
  syms :: "u32 \<times> u32 \<times> u32 \<times> u32"
  mmap_length :: u32
  mmap_addr :: u32
  drives_length :: u32
  drives_addr :: u32
  config_table :: u32
  boot_loader_name :: u32
  apm_table :: u32
  vbe_control_info :: u32
  vbe_mode_info :: u32
  vbe_mode :: u32
  vbe_interface_seg :: u32
  vbe_interface_off :: u32
  vbe_interface_len :: u32

record mloader = mio +
  row :: u32
  mboot_info :: mboot_info

section \<open>Screen\<close>

abbreviation (input) boot_video :: u32 where "boot_video \<equiv> 0xB8000"

definition boot_putc :: "u32 \<Rightarrow> u8 \<Rightarrow> char \<Rightarrow> 'a machine_scheme \<Rightarrow> 'a machine_scheme" where
  "boot_putc l color ch s =
     (let p = boot_video + l * 2 in s\<lparr>mem := (mem s)(p := of_char ch, p + 1 := color)\<rparr>)"

primrec boot_puts_at :: "u32 \<Rightarrow> u8 \<Rightarrow> string \<Rightarrow> 'a machine_scheme \<Rightarrow> 'a machine_scheme" where
  "boot_puts_at l color [] s = s"
| "boot_puts_at l color (c # cs) s = boot_puts_at (l + 1) color cs (boot_putc l color c s)"

definition boot_puts :: "u32 \<Rightarrow> u32 \<Rightarrow> u8 \<Rightarrow> string \<Rightarrow> 'a machine_scheme \<Rightarrow> 'a machine_scheme" where
  "boot_puts r c color str s = boot_puts_at (r * 80 + c) color str s"

abbreviation (input) CRT_ROWS :: u32 where "CRT_ROWS \<equiv> 25"
abbreviation (input) VGA_CLR_BLACK :: u8 where "VGA_CLR_BLACK \<equiv> 0"
abbreviation (input) VGA_CLR_RED :: u8 where "VGA_CLR_RED \<equiv> 4"
abbreviation (input) VGA_CLR_WHITE :: u8 where "VGA_CLR_WHITE \<equiv> 15"

definition putline :: "string \<Rightarrow> 'a mloader_scheme \<Rightarrow> 'a mloader_scheme" where
  "putline str s =
     (let s = s\<lparr>row := if CRT_ROWS \<le>s row s then 0 else row s + 1\<rparr>;
          s = boot_puts (row s) 0 VGA_CLR_BLACK (replicate 80 (CHR '' '')) s
      in boot_puts (row s) 0 VGA_CLR_WHITE str s)"

definition roll :: "u32 \<Rightarrow> 'a mloader_scheme \<Rightarrow> 'a mloader_scheme" where
  "roll r s = s\<lparr>row := r\<rparr>"

text \<open>\<^verbatim>\<open>panic\<close> prints its message and halts for good.\<close>

definition boot_panic :: "string \<Rightarrow> 'b outcome" where
  "boot_panic m = Panic m"

section \<open>Numbers\<close>

text \<open>\<^verbatim>\<open>reverse\<close> swaps the characters from both ends, by index.\<close>

function reverse_loop :: "nat \<Rightarrow> nat \<Rightarrow> string \<Rightarrow> string" where
  "reverse_loop i j s = (if i < j then reverse_loop (i + 1) (j - 1) (s[i := s ! j, j := s ! i]) else s)"
  by pat_completeness auto

termination reverse_loop
  by (relation "measure (\<lambda>(i, j, s). j)") auto

declare reverse_loop.simps [simp del]

definition reverse :: "string \<Rightarrow> string" where
  "reverse s = (if s = [] then s else reverse_loop 0 (length s - 1) s)"

text \<open>
  The digits, the least significant first. The argument is an \<^verbatim>\<open>int\<close> and its remainder would index before
  the table if it were negative, as the negation of the smallest number is.
\<close>

function itox_loop :: "u32 \<Rightarrow> u32 \<Rightarrow> string \<Rightarrow> string outcome" where
  "itox_loop n root table =
     (if n <s 0 \<or> root <s 2 then Undef
      else
        andThen (if 0 <s n div root then itox_loop (n div root) root table else Ret []) (\<lambda>cs.
        Ret (table ! unat (n mod root) # cs)))"
  by pat_completeness auto

termination itox_loop
proof (relation "measure (\<lambda>(n, root, table). unat n)", simp, clarsimp)
  fix n root :: u32
  assume a: "\<not> n <s 0" "\<not> root <s 2" "0 <s n div root"
  have r: "2 \<le> unat root"
  proof (rule ccontr)
    assume "\<not> 2 \<le> unat root"
    then have "root <s 2" by (subst sle_unat(2)) simp_all
    then show False using a(2) by simp
  qed
  have "0 < unat (n div root)" using a(3) by (cases "n div root = 0") (auto simp: unat_gt_0)
  then have "0 < unat n" by (cases "unat n = 0") (simp_all add: unat_div)
  then show "unat (n div root) < unat n" using r by (simp add: unat_div)
qed

declare itox_loop.simps [simp del]

definition itox :: "u32 \<Rightarrow> u32 \<Rightarrow> string \<Rightarrow> string outcome" where
  "itox n root table =
     andThen (itox_loop (if n <s 0 then - n else n) root table) (\<lambda>s.
     Ret (reverse (if n <s 0 then s @ ''-'' else s)))"

definition itoa :: "u32 \<Rightarrow> string outcome" where
  "itoa n = itox n 10 ''0123456789''"

definition itoh :: "u32 \<Rightarrow> string outcome" where
  "itoh n = itox n 16 ''0123456789abcdef''"

text \<open>The longest result has 11 characters, and the buffer 40.\<close>

definition puti :: "u32 \<Rightarrow> 'a mloader_scheme \<Rightarrow> 'a mloader_scheme outcome" where
  "puti i s = andThen (itoh i) (\<lambda>str. Ret (putline str s))"

section \<open>Disk\<close>

definition waitdisk :: "('s, 'b) world_scheme \<Rightarrow> 'a mio_scheme \<Rightarrow> 'a mio_scheme outcome" where
  "waitdisk w s =
     andThen (whileM (\<lambda>(r, s). r AND 0xC0 \<noteq> 0x40) (\<lambda>(r, s). Ret (inb w 0x1F7 s)) (inb w 0x1F7 s)) (\<lambda>(_, s).
     Ret s)"

text \<open>What \<^verbatim>\<open>insl\<close> does to the memory at \<^verbatim>\<open>dst\<close>.\<close>

definition put_sector :: "u32 \<Rightarrow> block \<Rightarrow> memory \<Rightarrow> memory" where
  "put_sector dst d m = (\<lambda>a. if unat (a - dst) < 512 then d (ucast (a - dst)) else m a)"

definition readsector :: "('s, 'b) world_scheme \<Rightarrow> u32 \<Rightarrow> u32 \<Rightarrow> 'a mio_scheme \<Rightarrow> 'a mio_scheme outcome" where
  "readsector w dst offset s =
     andThen (waitdisk w s) (\<lambda>s.
     let s = outb 0x1F2 1 s;
         s = outb 0x1F3 (ucast offset) s;
         s = outb 0x1F4 (ucast (drop_bit 8 offset)) s;
         s = outb 0x1F5 (ucast (drop_bit 16 offset)) s;
         s = outb 0x1F6 (ucast (drop_bit 24 offset OR 0xE0)) s;
         s = outb 0x1F7 0x20 s in
     andThen (waitdisk w s) (\<lambda>s.
     let (data, s) = insl w 0x1F0 s in
     Ret (s\<lparr>mem := put_sector dst data (mem s)\<rparr>)))"

definition readsection :: "('s, 'b) world_scheme \<Rightarrow> u32 \<Rightarrow> u32 \<Rightarrow> u32 \<Rightarrow> u32 \<Rightarrow> 'a mio_scheme \<Rightarrow> 'a mio_scheme outcome" where
  "readsection w va count offset lba s =
     (let va = va AND 0xFFFFFF; end_va = va + count; va = va AND NOT 511; offset = offset div 512 + lba in
      andThen (whileM (\<lambda>(va, offset, s). va < end_va)
        (\<lambda>(va, offset, s). andThen (readsector w va offset s) (\<lambda>s. Ret (va + 512, offset + 1, s))) (va, offset, s)) (\<lambda>(_, _, s).
      Ret s))"

section \<open>The kernel\<close>

abbreviation (input) ELFHDR :: u32 where "ELFHDR \<equiv> 0x20000"
abbreviation (input) BOOT_ELF_MAGIC :: u32 where "BOOT_ELF_MAGIC \<equiv> 0x464C457F"

text \<open>The fields of the headers that are used, at their offsets.\<close>

definition boot_e_magic :: "memory \<Rightarrow> u32" where "boot_e_magic m = load32 m ELFHDR"
definition boot_e_entry :: "memory \<Rightarrow> u32" where "boot_e_entry m = load32 m (ELFHDR + 24)"
definition boot_e_phoff :: "memory \<Rightarrow> u32" where "boot_e_phoff m = load32 m (ELFHDR + 28)"
definition boot_e_phnum :: "memory \<Rightarrow> u16" where "boot_e_phnum m = load16 m (ELFHDR + 44)"
definition boot_p_offset :: "memory \<Rightarrow> u32 \<Rightarrow> u32" where "boot_p_offset m ph = load32 m (ph + 4)"
definition boot_p_va :: "memory \<Rightarrow> u32 \<Rightarrow> u32" where "boot_p_va m ph = load32 m (ph + 8)"
definition boot_p_memsz :: "memory \<Rightarrow> u32 \<Rightarrow> u32" where "boot_p_memsz m ph = load32 m (ph + 20)"

definition load_kernel :: "('s, 'b) world_scheme \<Rightarrow> u32 \<Rightarrow> 'a mio_scheme \<Rightarrow> (u32 \<times> 'a mio_scheme) outcome" where
  "load_kernel w dkernel s =
     andThen (readsection w ELFHDR (512 * 8) 0 dkernel s) (\<lambda>s.
     if boot_e_magic (mem s) \<noteq> BOOT_ELF_MAGIC then boot_panic ''Kernel is not a valid elf.''
     else
       let ph = ELFHDR + boot_e_phoff (mem s); eph = ph + 32 * ucast (boot_e_phnum (mem s)) in
       andThen (whileM (\<lambda>(ph, s). ph < eph)
         (\<lambda>(ph, s). andThen (readsection w (boot_p_va (mem s) ph) (boot_p_memsz (mem s) ph) (boot_p_offset (mem s) ph) dkernel s) (\<lambda>s.
            Ret (ph + 32, s))) (ph, s)) (\<lambda>(_, s).
       Ret (boot_e_entry (mem s) AND 0xFFFFFF, s)))"

text \<open>An entry of the memory map has 24 bytes: the size, the base, the length and the type.\<close>

definition parse_e820 :: "u32 \<Rightarrow> 'a mloader_scheme \<Rightarrow> 'a mloader_scheme outcome" where
  "parse_e820 smap s =
     andThen (whileM (\<lambda>(p, len, s). load32 (mem s) (p + 4) \<noteq> 0 \<or> load32 (mem s) (p + 8) \<noteq> 0 \<or> load32 (mem s) (p + 12) \<noteq> 0 \<or>
          load32 (mem s) (p + 16) \<noteq> 0 \<or> load32 (mem s) (p + 20) \<noteq> 0)
       (\<lambda>(p, len, s). andThen (puti (load32 (mem s) (p + 4)) s) (\<lambda>s. Ret (p + 24, len + 24, s)))
       (smap, 0, putline ''* E820 Memory Map *'' s)) (\<lambda>(_, len, s).
     Ret (s\<lparr>mboot_info := (mboot_info s)\<lparr>mmap_length := len, mmap_addr := smap\<rparr>\<rparr>))"

text \<open>Entry \<open>i\<close> of the partition table: whether it is bootable, and its first sector.\<close>

definition mbr_bootable :: "u32 \<Rightarrow> u32 \<Rightarrow> memory \<Rightarrow> u8" where "mbr_bootable mbr i m = m (mbr + 446 + 16 * i)"
definition mbr_first_lba :: "u32 \<Rightarrow> u32 \<Rightarrow> memory \<Rightarrow> u32" where "mbr_first_lba mbr i m = load32 m (mbr + 446 + 16 * i + 8)"

text \<open>
  \<^verbatim>\<open>exec_kernel\<close> jumps to the entry point with the address of \<^verbatim>\<open>mboot_info\<close> in a register and does not come back;
  the model ends there, with the entry point.
\<close>

definition boot1main :: "('s, 'b) world_scheme \<Rightarrow> u32 \<Rightarrow> u32 \<Rightarrow> 'a mloader_scheme \<Rightarrow> (u32 \<times> 'a mloader_scheme) outcome" where
  "boot1main w mbr smap s =
     (let s = putline ''Start boot1 main ...'' (roll 3 s) in
      andThen (whileM (\<lambda>i. i <s 4 \<and> mbr_bootable mbr i (mem s) \<noteq> 0x80) (\<lambda>i. Ret (i + 1)) 0) (\<lambda>i.
      if i = 4 then boot_panic ''Cannot find bootable partition!''
      else
        let bootable_lba = mbr_first_lba mbr i (mem s) in
        andThen (parse_e820 smap s) (\<lambda>s.
        andThen (load_kernel w bootable_lba (putline (''Load kernel ...'' @ [CHR 0x0A]) s)) (\<lambda>(entry, s).
        Ret (entry, putline (''Start kernel ...'' @ [CHR 0x0A]) s)))))"

end
