(* ===== verification/Boot_Loader_Spec.thy ===== *)
theory Boot_Loader_Spec
  imports Boot_Loader Disk_World
begin

unbundle bit_operations_syntax

text \<open>
  What the boot loader promises: \<^verbatim>\<open>readsection\<close> copies whole sectors of the disk to memory, and \<^verbatim>\<open>load_kernel\<close> leaves
  every segment of the kernel where its program header says.
\<close>

section \<open>Numbers\<close>

lemma reverse_loop_rev:
  assumes "i + j + 1 = length s" and "\<And>k. k < i \<Longrightarrow> s ! k = x ! (length s - 1 - k)" and "\<And>k. j < k \<Longrightarrow> k < length s \<Longrightarrow> s ! k = x ! (length s - 1 - k)"
    and "\<And>k. i \<le> k \<Longrightarrow> k \<le> j \<Longrightarrow> s ! k = x ! k" and "length x = length s"
  shows "reverse_loop i j s = rev x"
  using assms
proof (induction i j s rule: reverse_loop.induct)
  case (1 i j s)
  then have len: "length s = Suc (i + j)" by simp
  show ?case
  proof (cases "i < j")
    case True
    let ?s = "s[i := s ! j, j := s ! i]"
    have e: "s ! i = x ! i" "s ! j = x ! j" using 1(5) [of i] 1(5) [of j] True by auto
    have "reverse_loop (i + 1) (j - 1) ?s = rev x"
    proof (rule 1(1) [OF True])
      show "?s ! k = x ! (length ?s - 1 - k)" if "k < i + 1" for k
        using 1(3) [of k] that e True by (cases "k = i") (auto simp: len)
      show "?s ! k = x ! (length ?s - 1 - k)" if "j - 1 < k" "k < length ?s" for k
        using 1(4) [of k] that e True by (cases "k = j") (auto simp: len)
      show "?s ! k = x ! k" if "i + 1 \<le> k" "k \<le> j - 1" for k using 1(5) [of k] that True by auto
    qed (use 1 True in auto)
    then show ?thesis using True by (subst reverse_loop.simps) simp
  next
    case False
    have mid: "i + j - k = k" if "i \<le> k" "k \<le> j" for k using False that by linarith
    have "s ! k = x ! (length s - 1 - k)" if "k < length s" for k
      using 1(3) [of k] 1(4) [of k] 1(5) [of k] that False by (cases "k < i"; cases "j < k") (auto simp: len not_less mid)
    then have "s = rev x" using 1(6) by (intro nth_equalityI) (auto simp: rev_nth)
    then show ?thesis using False by (subst reverse_loop.simps) simp
  qed
qed

lemma reverse_rev: "reverse s = rev s"
proof (cases "s = []")
  case False
  then have "reverse_loop 0 (length s - 1) s = rev s" by (intro reverse_loop_rev) auto
  then show ?thesis using False by (simp add: reverse_def)
qed (simp add: reverse_def)

section \<open>One sector\<close>

text \<open>The disk as the ports show it, without the interrupts.\<close>

definition ata_env :: "('s, 'b) world_scheme \<Rightarrow> ata \<Rightarrow> bool" where
  "ata_env w a0 \<longleftrightarrow>
     (\<forall>e. w_inb w e 0x1f7 AND (IDE_BSY OR IDE_DRDY) = IDE_DRDY) \<and>
     (\<forall>e. a_cmd (ata_of a0 e) = IDE_CMD_READ \<longrightarrow> w_insl w e 0x1f0 = a_disk (ata_of a0 e) (ata_sel (ata_of a0 e)))"

lemma waitdisk_ready: "ata_env w a0 \<Longrightarrow> waitdisk w s = Ret (s\<lparr>io := Inb 0x1F7 # io s\<rparr>)"
  by (simp add: waitdisk_def inb_def ata_env_def whileM_exit)

lemma lba_boot:
  assumes "offset < (2 ^ 28 :: u32)"
  shows "(ucast (drop_bit 24 offset OR 0xE0), ucast (drop_bit 16 offset), ucast (drop_bit 8 offset), ucast offset) = lba 0 offset"
proof -
  have "unat offset < 2 ^ 28" using assms by (simp add: word_less_nat_alt)
  then have "unat (take_bit 28 offset) = unat offset" by (simp add: unsigned_take_bit_eq take_bit_nat_eq_self)
  then have t: "take_bit 28 offset = offset" by (rule unsigned_word_eqI)
  have "drop_bit 24 (take_bit 28 offset) = take_bit 4 (drop_bit 24 offset)" by (simp add: drop_bit_take_bit)
  then have d: "take_bit 4 (drop_bit 24 offset) = drop_bit 24 offset" using t by simp
  have f: "y AND 0xff = take_bit 8 y" "y AND 0x0f = take_bit 4 y" for y :: u32
    by (simp_all add: take_bit_eq_mask mask_eq_exp_minus_1)
  have "(ucast (take_bit 8 x) :: u8) = ucast x" for x :: u32 by (rule bit_word_eqI) (auto simp: bit_simps)
  then show ?thesis unfolding lba_def f using d by (simp add: or.commute)
qed

lemma readsector_ready:
  assumes env: "ata_env w a0" and off: "offset < 2 ^ 28"
  shows "\<exists>e. readsector w dst offset s = Ret (s\<lparr>mem := put_sector dst (disk_at a0 (io s) (lba 0 offset)) (mem s), io := e\<rparr>) \<and> disk_at a0 e = disk_at a0 (io s)"
proof -
  let ?e = "[Inb 0x1F7, Outb 0x1F7 0x20, Outb 0x1F6 (ucast (drop_bit 24 offset OR 0xE0)), Outb 0x1F5 (ucast (drop_bit 16 offset)),
    Outb 0x1F4 (ucast (drop_bit 8 offset)), Outb 0x1F3 (ucast offset), Outb 0x1F2 1, Inb 0x1F7] @ io s"
  have "ata_sel (ata_of a0 ?e) = lba 0 offset" "a_cmd (ata_of a0 ?e) = IDE_CMD_READ" "a_disk (ata_of a0 ?e) = disk_at a0 (io s)"
    unfolding lba_boot [OF off, symmetric] by (simp_all add: ata_of_def ata_step_def ata_sel_def disk_at_def)
  then have "w_insl w ?e 0x1F0 = disk_at a0 (io s) (lba 0 offset)" using env unfolding ata_env_def by metis
  then have "readsector w dst offset s = Ret (s\<lparr>mem := put_sector dst (disk_at a0 (io s) (lba 0 offset)) (mem s), io := Insl 0x1F0 # ?e\<rparr>)"
    by (simp add: readsector_def waitdisk_ready [OF env] outb_def insl_def)
  then show ?thesis by (intro exI [of _ "Insl 0x1F0 # ?e"]) simp
qed

section \<open>Many sectors\<close>

text \<open>The memory after \<open>n\<close> sectors from \<open>o\<close> on have been put at \<open>v\<close>.\<close>

definition section_put :: "u32 \<Rightarrow> u32 \<Rightarrow> nat \<Rightarrow> (ata_addr \<Rightarrow> block) \<Rightarrow> memory \<Rightarrow> memory" where
  "section_put v off n d m = (\<lambda>a. if unat (a - v) < 512 * n then d (lba 0 (off + of_nat (unat (a - v) div 512))) (ucast (a - v)) else m a)"

lemma section_put_0 [simp]: "section_put v off 0 d m = m"
  by (simp add: section_put_def)

lemma ucast9: "(ucast (x :: u32) :: 9 word) = of_nat (unat x mod 512)"
  by (simp add: word_unat_eq_iff unsigned_ucast_eq unat_of_nat take_bit_eq_mod)

lemma put_sector_section:
  assumes "512 * Suc n \<le> 2 ^ 32"
  shows "put_sector (v + 512 * of_nat n) (d (lba 0 (off + of_nat n))) (section_put v off n d m) = section_put v off (Suc n) d m"
proof
  fix a
  let ?x = "unat (a - v)" and ?y = "unat (a - (v + 512 * of_nat n))"
  have "unat (512 * of_nat n :: u32) = 512 * n" using assms by (simp add: unat_word_ariths unat_of_nat)
  then have y: "?y = (if 512 * n \<le> ?x then ?x - 512 * n else ?x + 2 ^ 32 - 512 * n)"
    unfolding diff_diff_eq [symmetric] by (simp add: unat_sub_if' word_le_nat_alt)
  have lt: "?x < 2 ^ 32" using unat_u32_less [of "a - v"] by simp
  show "put_sector (v + 512 * of_nat n) (d (lba 0 (off + of_nat n))) (section_put v off n d m) a = section_put v off (Suc n) d m a"
  proof (cases "?y < 512")
    case True
    then have x: "?x = 512 * n + ?y" using y lt assms by (auto split: if_splits)
    have "x < 512 * Suc n \<and> x div 512 = n \<and> x mod 512 = y" if "x = 512 * n + y" "y < 512" for x y :: nat using that by simp
    note k = this [OF x True]
    have "section_put v off (Suc n) d m a = d (lba 0 (off + of_nat n)) (of_nat (?x mod 512))"
      using k by (simp only: section_put_def ucast9 if_True)
    moreover have "?y mod 512 = ?x mod 512" using k True by (simp only: mod_less)
    ultimately show ?thesis using True by (simp only: put_sector_def ucast9 if_True)
  next
    case False
    then have "\<not> (512 * n \<le> ?x \<and> ?x < 512 * Suc n)" using y by (auto split: if_splits)
    then show ?thesis using False by (auto simp: put_sector_def section_put_def)
  qed
qed

text \<open>The bytes of the kernel image, which starts at sector \<open>dk\<close>.\<close>

definition image :: "u32 \<Rightarrow> (ata_addr \<Rightarrow> block) \<Rightarrow> nat \<Rightarrow> u8" where
  "image dk d x = d (lba 0 (dk + of_nat (x div 512))) (of_nat (x mod 512))"

text \<open>The place of a section: its sectors in memory, rounded down and up.\<close>

definition sec_va :: "u32 \<Rightarrow> nat" where
  "sec_va va = unat va mod 2 ^ 24"

definition sec_lo :: "u32 \<Rightarrow> nat" where
  "sec_lo va = 512 * (sec_va va div 512)"

definition sec_n :: "u32 \<Rightarrow> u32 \<Rightarrow> nat" where
  "sec_n va count = (sec_va va mod 512 + unat count + 511) div 512"

lemma and_mask: "unat (va AND 0xFFFFFF) = sec_va va" "unat ((va AND 0xFFFFFF) AND NOT 511) = sec_lo va"
proof -
  have "va AND 0xFFFFFF = take_bit 24 va" by (simp add: take_bit_eq_mask mask_eq_exp_minus_1)
  then show v: "unat (va AND 0xFFFFFF) = sec_va va" by (simp add: sec_va_def take_bit_eq_mod unat_mod)
  have m: "(511 :: u32) = mask 9" by (simp add: mask_eq_exp_minus_1)
  have "x AND NOT 511 = push_bit 9 (drop_bit 9 x)" for x :: u32 unfolding m by (rule bit_word_eqI) (auto simp: bit_simps)
  then have "unat (x AND NOT 511) = 512 * (unat x div 512)" for x :: u32
    using order.strict_trans1 [OF div_times_less_eq_dividend unat_u32_less, of x 512]
    by (simp add: drop_bit_eq_div push_bit_eq_mult unat_word_ariths unat_div mult.commute)
  from this [of "va AND 0xFFFFFF"] v show "unat ((va AND 0xFFFFFF) AND NOT 511) = sec_lo va" by (simp add: sec_lo_def)
qed

lemma readsection_ok:
  assumes env: "ata_env w a0" and fit: "sec_va va + unat count + 511 < 2 ^ 32" and disk: "unat offset div 512 + unat dk + sec_n va count < 2 ^ 28"
  shows "returns (readsection w va count offset dk s) (\<lambda>t. \<exists>e. disk_at a0 e = disk_at a0 (io s) \<and>
    t = s\<lparr>mem := section_put (of_nat (sec_lo va)) (offset div 512 + dk) (sec_n va count) (disk_at a0 (io s)) (mem s), io := e\<rparr>)"
proof -
  let ?v = "(va AND 0xFFFFFF) AND NOT 511" and ?e = "(va AND 0xFFFFFF) + count" and ?o = "offset div 512 + dk" and ?n = "sec_n va count"
  let ?d = "disk_at a0 (io s)"
  have e: "unat ?e = sec_va va + unat count" using fit by (simp add: unat_word_ariths and_mask)
  have lo: "sec_va va = sec_lo va + sec_va va mod 512" by (simp add: sec_lo_def)
  have n: "512 * ?n < sec_va va mod 512 + unat count + 512" "sec_va va mod 512 + unat count \<le> 512 * ?n" by (simp_all add: sec_n_def)
  have v: "unat (?v + 512 * of_nat k) = sec_lo va + 512 * k" if "k \<le> ?n" for k
  proof -
    have "512 * k < 2 ^ 32" "sec_lo va + 512 * k < 2 ^ 32" using that n(1) fit lo by linarith+
    then show ?thesis using and_mask(2) [of va] by (simp add: unat_word_ariths unat_of_nat)
  qed
  have "unat (offset div 512) = unat offset div 512" by (simp add: unat_div)
  then have o: "?o + of_nat k < 2 ^ 28" if "k < ?n" for k
    using that disk by (simp add: word_less_nat_alt unat_word_ariths unat_of_nat)
  let ?I = "\<lambda>k (va', off, t). k \<le> ?n \<and> va' = ?v + 512 * of_nat k \<and> off = ?o + of_nat k \<and>
    (\<exists>e. disk_at a0 e = ?d \<and> t = s\<lparr>mem := section_put ?v ?o k ?d (mem s), io := e\<rparr>)"
  have "returns (whileM (\<lambda>(va, offset, s). va < ?e)
      (\<lambda>(va, offset, s). andThen (readsector w va offset s) (\<lambda>s. Ret (va + 512, offset + 1, s))) (?v, ?o, s)) (?I ?n)"
  proof (rule returns_whileM_count [where I = ?I and N = ?n])
    show "?I 0 (?v, ?o, s)" by (auto intro!: exI [of _ "io s"])
  next
    fix k x assume I: "?I k x" and c: "case x of (va, offset, s) \<Rightarrow> va < ?e"
    obtain e where x: "x = (?v + 512 * of_nat k, ?o + of_nat k, s\<lparr>mem := section_put ?v ?o k ?d (mem s), io := e\<rparr>)" "k \<le> ?n" "disk_at a0 e = ?d"
      using I by (cases x) auto
    have k: "k < ?n" using c v [OF x(2)] e n lo by (simp add: x(1) word_less_nat_alt)
    have "512 * Suc k \<le> 512 * ?n" using k by simp
    then have p: "512 * Suc k \<le> 2 ^ 32" using n(1) fit lo by linarith
    let ?V = "?v + 512 * of_nat k" and ?O = "?o + of_nat k" and ?S = "s\<lparr>mem := section_put ?v ?o k ?d (mem s), io := e\<rparr>"
    obtain e' where r: "readsector w ?V ?O ?S = Ret (?S\<lparr>mem := put_sector ?V (?d (lba 0 ?O)) (mem ?S), io := e'\<rparr>)" "disk_at a0 e' = ?d"
      using readsector_ready [OF env o [OF k], of ?V ?S] x(3) by auto
    have s: "put_sector ?V (?d (lba 0 ?O)) (section_put ?v ?o k ?d (mem s)) = section_put ?v ?o (Suc k) ?d (mem s)" by (rule put_sector_section [OF p])
    have "?V + 512 = ?v + 512 * of_nat (Suc k)" "?O + 1 = ?o + of_nat (Suc k)" by (simp_all add: algebra_simps)
    then show "k < ?n \<and> returns (case x of (va, offset, s) \<Rightarrow> andThen (readsector w va offset s) (\<lambda>s. Ret (va + 512, offset + 1, s))) (?I (Suc k))"
      using k r s unfolding x(1) by (auto simp del: of_nat_Suc)
  next
    fix k x assume I: "?I k x" and c: "\<not> (case x of (va, offset, s) \<Rightarrow> va < ?e)"
    then have "k = ?n" using v [of k] e n lo by (cases x) (auto simp: word_less_nat_alt)
    then show "?I ?n x" using I by simp
  qed
  moreover have "?v = of_nat (sec_lo va)" unfolding and_mask(2) [symmetric] by simp
  ultimately show ?thesis unfolding readsection_def Let_def by (auto elim!: returnsE)
qed

section \<open>The kernel\<close>

lemma section_image:
  "section_put v (offset div 512 + dk) n d m a =
     (if unat (a - v) < 512 * n then image dk d (512 * (unat offset div 512) + unat (a - v)) else m a)"
proof -
  have "offset div 512 = of_nat (unat offset div 512)"
    by (simp add: word_unat_eq_iff unat_div unat_of_nat less_imp_diff_less) (use unat_u32_less [of offset] in \<open>simp add: div_less_dividend\<close>)
  then have "offset div 512 + dk + of_nat (x div 512) = dk + of_nat ((512 * (unat offset div 512) + x) div 512)" for x by simp
  then show ?thesis by (simp add: section_put_def image_def ucast9 ac_simps)
qed

text \<open>Addresses inside and outside of a range.\<close>

lemma in_range:
  assumes "A < 2 ^ 32" and "lo + n \<le> 2 ^ 32" and "lo < 2 ^ 32"
  shows "unat (of_nat A - of_nat lo :: u32) < n \<longleftrightarrow> lo \<le> A \<and> A < lo + n"
    and "lo \<le> A \<Longrightarrow> unat (of_nat A - of_nat lo :: u32) = A - lo"
  using assms by (auto simp: unat_sub_if' unat_of_nat word_le_nat_alt)

text \<open>Numbers in the image, little-endian.\<close>

definition img32 :: "(nat \<Rightarrow> u8) \<Rightarrow> nat \<Rightarrow> u32" where
  "img32 f x = load32 (\<lambda>a. f (x + unat a)) 0"

definition img16 :: "(nat \<Rightarrow> u8) \<Rightarrow> nat \<Rightarrow> u16" where
  "img16 f x = load16 (\<lambda>a. f (x + unat a)) 0"

definition head_in :: "memory \<Rightarrow> (nat \<Rightarrow> u8) \<Rightarrow> bool" where
  "head_in m f \<longleftrightarrow> (\<forall>k < 4096. m (of_nat (0x20000 + k)) = f k)"

lemma head_load: "head_in m f \<Longrightarrow> x + 4 \<le> 4096 \<Longrightarrow> load32 m (of_nat (0x20000 + x)) = img32 f x"
  "head_in m f \<Longrightarrow> x + 4 \<le> 4096 \<Longrightarrow> load16 m (of_nat (0x20000 + x)) = img16 f x"
proof -
  assume h: "head_in m f" "x + 4 \<le> 4096"
  have "m (of_nat (0x20000 + x) + of_nat k) = f (x + k)" if "k < 4" for k
    using h that unfolding head_in_def by (auto simp: algebra_simps dest!: spec [of _ "x + k"])
  from this [of 0] this [of 1] this [of 2] this [of 3]
  show "load32 m (of_nat (0x20000 + x)) = img32 f x" "load16 m (of_nat (0x20000 + x)) = img16 f x"
    by (simp_all add: load32_def load16_def img32_def img16_def)
qed

text \<open>The program headers of an image.\<close>

definition ph_at :: "(nat \<Rightarrow> u8) \<Rightarrow> nat \<Rightarrow> nat" where
  "ph_at f i = unat (img32 f 28) + 32 * i"

definition seg_va :: "(nat \<Rightarrow> u8) \<Rightarrow> nat \<Rightarrow> u32" where "seg_va f i = img32 f (ph_at f i + 8)"
definition seg_sz :: "(nat \<Rightarrow> u8) \<Rightarrow> nat \<Rightarrow> u32" where "seg_sz f i = img32 f (ph_at f i + 20)"
definition seg_off :: "(nat \<Rightarrow> u8) \<Rightarrow> nat \<Rightarrow> u32" where "seg_off f i = img32 f (ph_at f i + 4)"
definition seg_num :: "(nat \<Rightarrow> u8) \<Rightarrow> nat" where "seg_num f = unat (img16 f 44)"

definition seg_lo :: "(nat \<Rightarrow> u8) \<Rightarrow> nat \<Rightarrow> nat" where "seg_lo f i = sec_lo (seg_va f i)"
definition seg_hi :: "(nat \<Rightarrow> u8) \<Rightarrow> nat \<Rightarrow> nat" where "seg_hi f i = sec_lo (seg_va f i) + 512 * sec_n (seg_va f i) (seg_sz f i)"

text \<open>
  An image that can be loaded from sector \<open>dk\<close>: the headers are in its first eight sectors, and each segment
  has the same place in its sector in the file and in memory, ends below the 28-bit sectors of the disk
  and overlaps neither the headers at their place in memory nor an earlier segment, in whole sectors.
\<close>

definition loadable :: "u32 \<Rightarrow> (nat \<Rightarrow> u8) \<Rightarrow> bool" where
  "loadable dk f \<longleftrightarrow> unat dk + 8 < 2 ^ 28 \<and> img32 f 0 = BOOT_ELF_MAGIC \<and> ph_at f (seg_num f) \<le> 4096 \<and>
     (\<forall>i < seg_num f. sec_va (seg_va f i) mod 512 = unat (seg_off f i) mod 512 \<and> sec_va (seg_va f i) + unat (seg_sz f i) + 511 < 2 ^ 32 \<and>
        unat (seg_off f i) div 512 + unat dk + sec_n (seg_va f i) (seg_sz f i) < 2 ^ 28 \<and>
        (seg_hi f i \<le> 0x20000 \<or> 0x21000 \<le> seg_lo f i) \<and> (\<forall>j < i. seg_hi f i \<le> seg_lo f j \<or> seg_hi f j \<le> seg_lo f i))"

definition seg_loaded :: "memory \<Rightarrow> (nat \<Rightarrow> u8) \<Rightarrow> nat \<Rightarrow> bool" where
  "seg_loaded m f i \<longleftrightarrow> (\<forall>k < unat (seg_sz f i). m (of_nat (sec_va (seg_va f i) + k)) = f (unat (seg_off f i) + k))"

lemma seg_range:
  assumes "sec_va (seg_va f i) + unat (seg_sz f i) + 511 < 2 ^ 32"
  shows "k < unat (seg_sz f i) \<Longrightarrow> seg_lo f i \<le> sec_va (seg_va f i) + k \<and> sec_va (seg_va f i) + k < seg_hi f i"
    and "seg_hi f i < 2 ^ 32" and "seg_lo f i < 2 ^ 32"
proof -
  define v z where "v = sec_va (seg_va f i)" and "z = unat (seg_sz f i)"
  have "512 * (v div 512) + v mod 512 = v" by simp
  moreover have "v mod 512 + z \<le> 512 * ((v mod 512 + z + 511) div 512)" "512 * ((v mod 512 + z + 511) div 512) < v mod 512 + z + 512" by simp_all
  ultimately have "512 * (v div 512) \<le> v" "v + z \<le> 512 * (v div 512) + 512 * ((v mod 512 + z + 511) div 512)"
    "512 * (v div 512) + 512 * ((v mod 512 + z + 511) div 512) \<le> v + z + 511" by linarith+
  then show "k < unat (seg_sz f i) \<Longrightarrow> seg_lo f i \<le> sec_va (seg_va f i) + k \<and> sec_va (seg_va f i) + k < seg_hi f i"
    and "seg_hi f i < 2 ^ 32" and "seg_lo f i < 2 ^ 32"
    using assms unfolding seg_lo_def seg_hi_def sec_lo_def sec_n_def v_def [symmetric] z_def [symmetric] by linarith+
qed

definition seg_put :: "u32 \<Rightarrow> (ata_addr \<Rightarrow> block) \<Rightarrow> nat \<Rightarrow> memory \<Rightarrow> memory" where
  "seg_put dk d i m = (let f = image dk d in
     section_put (of_nat (seg_lo f i)) (seg_off f i div 512 + dk) (sec_n (seg_va f i) (seg_sz f i)) d m)"

lemma seg_put_other:
  assumes "seg_hi (image dk d) i < 2 ^ 32" and "seg_lo (image dk d) i < 2 ^ 32" and "A < 2 ^ 32"
    and "A < seg_lo (image dk d) i \<or> seg_hi (image dk d) i \<le> A"
  shows "seg_put dk d i m (of_nat A) = m (of_nat A)"
proof -
  define f where "f = image dk d"
  have "\<not> unat (of_nat A - of_nat (seg_lo f i) :: u32) < 512 * sec_n (seg_va f i) (seg_sz f i)"
    using assms in_range(1) [of A "seg_lo f i" "512 * sec_n (seg_va f i) (seg_sz f i)"] unfolding f_def [symmetric] seg_hi_def seg_lo_def by linarith
  then show ?thesis by (simp add: seg_put_def Let_def section_image f_def)
qed

lemma seg_put_loaded:
  assumes "sec_va (seg_va (image dk d) i) mod 512 = unat (seg_off (image dk d) i) mod 512"
    and fit: "sec_va (seg_va (image dk d) i) + unat (seg_sz (image dk d) i) + 511 < 2 ^ 32"
  shows "seg_loaded (seg_put dk d i m) (image dk d) i"
proof -
  define f where "f = image dk d"
  have "seg_put dk d i m (of_nat (sec_va (seg_va f i) + k)) = f (unat (seg_off f i) + k)" if "k < unat (seg_sz f i)" for k
  proof -
    define A where "A = sec_va (seg_va f i) + k"
    have r: "seg_lo f i \<le> A" "A < seg_hi f i" "seg_hi f i < 2 ^ 32" "seg_lo f i < 2 ^ 32"
      using seg_range [OF fit [folded f_def]] that by (auto simp: A_def)
    then have "unat (of_nat A - of_nat (seg_lo f i) :: u32) = A - seg_lo f i"
      "unat (of_nat A - of_nat (seg_lo f i) :: u32) < 512 * sec_n (seg_va f i) (seg_sz f i)"
      using in_range [of A "seg_lo f i" "512 * sec_n (seg_va f i) (seg_sz f i)"] unfolding seg_hi_def seg_lo_def by linarith+
    moreover have "512 * (unat (seg_off f i) div 512) + (A - seg_lo f i) = unat (seg_off f i) + k"
      using assms(1) mult_div_mod_eq [of 512 "unat (seg_off f i)"] mult_div_mod_eq [of 512 "sec_va (seg_va f i)"]
      unfolding f_def [symmetric] A_def seg_lo_def sec_lo_def by linarith
    ultimately show ?thesis unfolding A_def [symmetric] by (simp add: seg_put_def Let_def section_image f_def [symmetric])
  qed
  then show ?thesis by (simp add: seg_loaded_def f_def)
qed

lemma seg_put_step:
  assumes l: "loadable dk f" and f: "f = image dk d" and i: "i < seg_num f" and h: "head_in m f" and "\<forall>j < i. seg_loaded m f j"
  shows "head_in (seg_put dk d i m) f" and "\<forall>j < Suc i. seg_loaded (seg_put dk d i m) f j"
proof -
  have fit: "sec_va (seg_va f j) + unat (seg_sz f j) + 511 < 2 ^ 32" if "j \<le> i" for j using l i that unfolding loadable_def by auto
  note lim = seg_range [OF fit [OF order_refl]]
  have dis: "seg_hi f i \<le> 0x20000 \<or> 0x21000 \<le> seg_lo f i" using l i unfolding loadable_def by blast
  show "head_in (seg_put dk d i m) f"
    unfolding head_in_def
  proof (intro allI impI)
    fix k :: nat assume k: "k < 4096"
    have "seg_put dk d i m (of_nat (0x20000 + k)) = m (of_nat (0x20000 + k))"
      using dis k by (intro seg_put_other [of dk d, folded f, OF lim(2,3)]) auto
    then show "seg_put dk d i m (of_nat (0x20000 + k)) = f k" using h k unfolding head_in_def by metis
  qed
  have "seg_loaded (seg_put dk d i m) f j" if j: "j < i" for j
  proof -
    have "seg_hi f i \<le> seg_lo f j \<or> seg_hi f j \<le> seg_lo f i" using l i j unfolding loadable_def by blast
    then have "seg_put dk d i m (of_nat (sec_va (seg_va f j) + k)) = m (of_nat (sec_va (seg_va f j) + k))" if "k < unat (seg_sz f j)" for k
      using seg_range(2) [OF fit [OF less_imp_le [OF j]]] seg_range(1) [OF fit [OF less_imp_le [OF j]] that] by (intro seg_put_other [of dk d, folded f, OF lim(2,3)]) auto
    then show ?thesis using assms(5) j unfolding seg_loaded_def by (metis (no_types))
  qed
  moreover have "seg_loaded (seg_put dk d i m) f i" using seg_put_loaded [of dk d i m, folded f] l i unfolding loadable_def by blast
  ultimately show "\<forall>j < Suc i. seg_loaded (seg_put dk d i m) f j" by (auto simp: less_Suc_eq)
qed

lemma head_load_ph:
  assumes "head_in m f" and "ph_at f (seg_num f) \<le> 4096" and "i < seg_num f"
  shows "boot_p_va m (ELFHDR + of_nat (ph_at f i)) = seg_va f i" "boot_p_memsz m (ELFHDR + of_nat (ph_at f i)) = seg_sz f i"
    "boot_p_offset m (ELFHDR + of_nat (ph_at f i)) = seg_off f i"
proof -
  have "ph_at f i + 32 \<le> 4096" using assms(2,3) by (simp add: ph_at_def)
  then have "load32 m (of_nat (0x20000 + (ph_at f i + k))) = img32 f (ph_at f i + k)" if "k \<le> 28" for k
    using that by (intro head_load [OF assms(1)]) simp
  from this [of 8] this [of 20] this [of 4]
  show "boot_p_va m (ELFHDR + of_nat (ph_at f i)) = seg_va f i" "boot_p_memsz m (ELFHDR + of_nat (ph_at f i)) = seg_sz f i"
    "boot_p_offset m (ELFHDR + of_nat (ph_at f i)) = seg_off f i"
    by (simp_all add: boot_p_va_def boot_p_memsz_def boot_p_offset_def seg_va_def seg_sz_def seg_off_def algebra_simps)
qed

lemma load_segments:
  assumes env: "ata_env w a0" and d: "d = disk_at a0 (io s)" and f: "f = image dk d" and l: "loadable dk f" and h: "head_in (mem s) f"
  shows "returns (whileM (\<lambda>(ph, s). ph < ELFHDR + of_nat (ph_at f (seg_num f)))
      (\<lambda>(ph, s). andThen (readsection w (boot_p_va (mem s) ph) (boot_p_memsz (mem s) ph) (boot_p_offset (mem s) ph) dk s) (\<lambda>s.
         Ret (ph + 32, s))) (ELFHDR + of_nat (ph_at f 0), s))
    (\<lambda>(_, t). disk_at a0 (io t) = d \<and> head_in (mem t) f \<and> (\<forall>i < seg_num f. seg_loaded (mem t) f i))"
    (is "returns (whileM ?b ?c _) _")
proof -
  let ?I = "\<lambda>i (ph, t). i \<le> seg_num f \<and> ph = ELFHDR + of_nat (ph_at f i) \<and> disk_at a0 (io t) = d \<and> head_in (mem t) f \<and> (\<forall>j < i. seg_loaded (mem t) f j)"
  have num: "ph_at f (seg_num f) \<le> 4096" using l by (simp add: loadable_def)
  have lt: "ELFHDR + of_nat (ph_at f i) < ELFHDR + of_nat (ph_at f (seg_num f)) \<longleftrightarrow> i < seg_num f" if "i \<le> seg_num f" for i
  proof -
    have "ph_at f i \<le> 4096" using that num by (simp add: ph_at_def)
    then have "unat (ELFHDR + of_nat (ph_at f i)) = 0x20000 + ph_at f i" "unat (ELFHDR + of_nat (ph_at f (seg_num f))) = 0x20000 + ph_at f (seg_num f)"
      using num by (simp_all add: unat_word_ariths unat_of_nat)
    then show ?thesis by (simp add: word_less_nat_alt ph_at_def)
  qed
  show ?thesis
  proof (rule returns_whileM_count [where I = ?I and N = "seg_num f"])
    show "?I 0 (ELFHDR + of_nat (ph_at f 0), s)" using h d by simp
  next
    fix i x assume I: "?I i x" and c: "?b x"
    obtain t where x: "x = (ELFHDR + of_nat (ph_at f i), t)" and t: "i \<le> seg_num f" "disk_at a0 (io t) = d" "head_in (mem t) f" "\<forall>j < i. seg_loaded (mem t) f j"
      using I by (cases x) auto
    have i: "i < seg_num f" using c lt [OF t(1)] by (simp add: x)
    have "sec_va (seg_va f i) + unat (seg_sz f i) + 511 < 2 ^ 32" "unat (seg_off f i) div 512 + unat dk + sec_n (seg_va f i) (seg_sz f i) < 2 ^ 28"
      using l i unfolding loadable_def by blast+
    from readsection_ok [OF env this, of t]
    obtain e where r: "readsection w (seg_va f i) (seg_sz f i) (seg_off f i) dk t = Ret (t\<lparr>mem := seg_put dk d i (mem t), io := e\<rparr>)" "disk_at a0 e = d"
      by (auto simp: seg_put_def Let_def t(2) f [symmetric] seg_lo_def elim!: returnsE)
    have "ELFHDR + of_nat (ph_at f i) + 32 = ELFHDR + of_nat (ph_at f (Suc i))" by (simp add: ph_at_def algebra_simps)
    then show "i < seg_num f \<and> returns (?c x) (?I (Suc i))"
      using i r seg_put_step [OF l f i t(3,4)] unfolding x by (simp add: head_load_ph [OF t(3) num i])
  next
    fix i x assume "?I i x" "\<not> ?b x"
    then show "case x of (_, t) \<Rightarrow> disk_at a0 (io t) = d \<and> head_in (mem t) f \<and> (\<forall>i < seg_num f. seg_loaded (mem t) f i)"
      using lt [of i] by (cases x) auto
  qed
qed

lemma load_head:
  assumes env: "ata_env w a0" and "unat dk + 8 < 2 ^ 28" and f: "f = image dk (disk_at a0 (io s))"
  shows "returns (readsection w ELFHDR (512 * 8) 0 dk s) (\<lambda>t. disk_at a0 (io t) = disk_at a0 (io s) \<and> head_in (mem t) f)"
proof -
  have v: "sec_va ELFHDR = 0x20000" "sec_lo ELFHDR = 0x20000" "sec_n ELFHDR 4096 = 8" by (simp_all add: sec_va_def sec_lo_def sec_n_def)
  have "section_put 0x20000 dk 8 (disk_at a0 (io s)) m (of_nat (0x20000 + k)) = f k" if "k < 4096" for m k
    using that section_image [where v = "0x20000" and offset = 0 and a = "of_nat (0x20000 + k)"] f by (simp add: unat_of_nat)
  then show ?thesis
    using readsection_ok [OF env, of ELFHDR "512 * 8" 0 dk s] assms(2) by (auto simp: v head_in_def elim!: returnsE)
qed

lemma load_kernel_image:
  assumes env: "ata_env w a0" and f: "f = image dk (disk_at a0 (io s))" and l: "loadable dk f"
  shows "returns (load_kernel w dk s) (\<lambda>(entry, t). entry = img32 f 24 AND 0xFFFFFF \<and> disk_at a0 (io t) = disk_at a0 (io s) \<and>
    (\<forall>i < seg_num f. seg_loaded (mem t) f i))"
proof -
  obtain t where t: "readsection w ELFHDR (512 * 8) 0 dk s = Ret t" "disk_at a0 (io t) = disk_at a0 (io s)" "head_in (mem t) f"
    using load_head [OF env _ f] l by (auto simp: loadable_def elim!: returnsE)
  have hd: "boot_e_magic m = img32 f 0" "boot_e_entry m = img32 f 24" "boot_e_phoff m = img32 f 28" "boot_e_phnum m = img16 f 44" if "head_in m f" for m
    using head_load(1) [OF that, of 0] head_load(1) [OF that, of 24] head_load(1) [OF that, of 28] head_load(2) [OF that, of 44]
    by (simp_all add: boot_e_magic_def boot_e_entry_def boot_e_phoff_def boot_e_phnum_def)
  have ph: "ELFHDR + img32 f 28 = ELFHDR + of_nat (ph_at f 0)" by (simp add: ph_at_def)
  have eph: "ELFHDR + of_nat (ph_at f 0) + 32 * ucast (img16 f 44) = ELFHDR + of_nat (ph_at f (seg_num f))"
    by (simp add: ph_at_def seg_num_def)
  have "boot_e_magic (mem t) = BOOT_ELF_MAGIC" using l t(3) by (simp add: hd loadable_def)
  then show ?thesis
    using load_segments [OF env t(2) [symmetric] f l t(3)] t(1)
    unfolding load_kernel_def by (auto simp: Let_def hd [OF t(3)] ph eph t(2) simp del: of_nat_add elim!: returnsE dest: hd)
qed

text \<open>
  The boot loader puts the kernel in memory (C12): with a disk that works and a kernel at sector \<open>dk\<close> that can be loaded, \<^const>\<open>load_kernel\<close>
  comes to an end without a panic, writes nothing to the disk, and returns the entry point of the ELF header without its top byte; every
  byte of every segment of the image is then at its address in memory, whatever the order of the program headers.
\<close>

theorem load_kernel_correct:
  assumes "ata_env w a0" and "loadable dk (image dk (disk_at a0 (io s)))"
  shows "returns (load_kernel w dk s) (\<lambda>(entry, t). disk_at a0 (io t) = disk_at a0 (io s) \<and>
    (let f = image dk (disk_at a0 (io s)) in entry = img32 f 24 AND 0xFFFFFF \<and>
      (\<forall>i < seg_num f. \<forall>k < unat (seg_sz f i). mem t (of_nat (unat (seg_va f i) mod 2 ^ 24 + k)) = f (unat (seg_off f i) + k))))"
  by (rule returns_mono [OF load_kernel_image [OF assms(1) refl assms(2)]]) (auto simp: Let_def seg_loaded_def sec_va_def)

text \<open>A kernel of one segment of 600 bytes at 1 MB, at sector 63 of the disk.\<close>

definition kernel_head :: block where
  "kernel_head = (\<lambda>_. 0)(0 := 0x7F, 1 := 0x45, 2 := 0x4C, 3 := 0x46, 24 := 0x0C, 26 := 0x10, 28 := 52, 44 := 1, 57 := 2, 62 := 0x10, 72 := 88, 73 := 2)"

definition ata_kernel :: ata where
  "ata_kernel = \<lparr>a_r3 = 0, a_r4 = 0, a_r5 = 0, a_r6 = 0, a_cmd = 0, a_disk = (\<lambda>_ _. 0x90)(lba 0 63 := kernel_head)\<rparr>"

lemma ata_kernel_image:
  defines "f \<equiv> image 63 (disk_at ata_kernel [])"
  shows "x < 512 \<Longrightarrow> f x = kernel_head (of_nat x)" and "512 \<le> x \<Longrightarrow> x < 2048 \<Longrightarrow> f x = 0x90"
proof -
  have a: "f x = (if lba 0 (63 + of_nat (x div 512)) = lba 0 63 then kernel_head (of_nat (x mod 512)) else 0x90)" for x
    by (simp add: f_def image_def disk_at_def ata_of_def ata_kernel_def)
  show "x < 512 \<Longrightarrow> f x = kernel_head (of_nat x)" by (simp add: a)
  assume x: "512 \<le> x" "x < 2048"
  then have "x div 512 = 1 \<or> x div 512 = 2 \<or> x div 512 = 3" by auto
  then show "f x = 0x90" unfolding a by (elim disjE) (simp_all add: lba_def)
qed

lemma ata_kernel_values:
  defines "f \<equiv> image 63 (disk_at ata_kernel [])"
  shows "img32 f 0 = BOOT_ELF_MAGIC" "img32 f 24 = 0x10000C" "ph_at f i = 52 + 32 * i" "seg_num f = 1"
    "seg_va f 0 = 0x100000" "seg_sz f 0 = 600" "seg_off f 0 = 512"
proof -
  note e = f_def ata_kernel_image kernel_head_def img32_def img16_def load32_def load16_def ph_at_def seg_num_def seg_va_def seg_sz_def seg_off_def
  show "img32 f 0 = BOOT_ELF_MAGIC" "img32 f 24 = 0x10000C" "seg_num f = 1" by (simp_all add: e)
  show ph: "ph_at f i = 52 + 32 * i" for i by (simp add: e)
  show "seg_va f 0 = 0x100000" "seg_sz f 0 = 600" "seg_off f 0 = 512"
    unfolding seg_va_def seg_sz_def seg_off_def ph by (simp_all add: e)
qed

theorem load_kernel_correct_witness:
  "returns (load_kernel (disk_ports ata_kernel :: mbuf world) 63 disk_boot) (\<lambda>(entry, t). entry = 0x10000C \<and> mem t 0x100000 = 0x90 \<and> mem t 0x100257 = 0x90)"
proof -
  let ?f = "image 63 (disk_at ata_kernel (io disk_boot))"
  note v = ata_kernel_values [folded disk_boot_simps(1)]
  have "loadable 63 ?f" by (simp add: loadable_def v seg_lo_def seg_hi_def sec_lo_def sec_va_def sec_n_def)
  moreover have "ata_env (disk_ports ata_kernel :: mbuf world) ata_kernel" by (simp add: ata_env_def disk_ports_def)
  ultimately have "returns (load_kernel (disk_ports ata_kernel :: mbuf world) 63 disk_boot) (\<lambda>(entry, t). disk_at ata_kernel (io t) = disk_at ata_kernel (io disk_boot) \<and>
    (let f = ?f in entry = img32 f 24 AND 0xFFFFFF \<and>
      (\<forall>i < seg_num f. \<forall>k < unat (seg_sz f i). mem t (of_nat (unat (seg_va f i) mod 2 ^ 24 + k)) = f (unat (seg_off f i) + k))))"
    by (intro load_kernel_correct)
  then show ?thesis
  proof (rule returns_mono, clarify)
    fix entry t assume r: "let f = ?f in entry = img32 f 24 AND 0xFFFFFF \<and>
      (\<forall>i < seg_num f. \<forall>k < unat (seg_sz f i). mem t (of_nat (unat (seg_va f i) mod 2 ^ 24 + k)) = f (unat (seg_off f i) + k))"
    then have "mem t (of_nat (0x100000 + k)) = ?f (512 + k)" if "k < 600" for k using that by (simp add: Let_def v)
    from this [of 0] this [of 599] r show "entry = 0x10000C \<and> mem t 0x100000 = 0x90 \<and> mem t 0x100257 = 0x90"
      by (simp add: Let_def v ata_kernel_image(2) [folded disk_boot_simps(1)])
  qed
qed

end
