(* ===== verification/User_Lib.thy ===== *)
theory User_Lib
  imports KString Console
begin

unbundle bit_operations_syntax

text \<open>
  The library of the user programs: \<^verbatim>\<open>user/lib/string.c\<close>, \<^verbatim>\<open>atoi.c\<close>, \<^verbatim>\<open>printfmt.c\<close>, \<^verbatim>\<open>printf.c\<close>, \<^verbatim>\<open>debug.c\<close>, \<^verbatim>\<open>proc.c\<close> and
  \<^verbatim>\<open>spinlock.c\<close>, and the system call stubs of \<^verbatim>\<open>user/include/syscall.h\<close>. Memory is the address space of the
  process; a page that is not there yet is one that the page fault handler of the kernel adds. The kernel is
  behind the trap instruction, which is a parameter of the stubs.
\<close>

section \<open>Strings (string.c)\<close>

text \<open>
  The operations return their pointer, where they return one, and the memory they leave. A string without
  a null byte makes an unbounded loop go round the address space for ever. The routines that \<^verbatim>\<open>kern/lib/string.c\<close> has
  with the same text are those of the kernel.
\<close>

definition u_strlen :: "u32 \<Rightarrow> memory \<Rightarrow> u32 outcome" where
  "u_strlen s m =
     andThen (whileM (\<lambda>(n, s). m s \<noteq> 0) (\<lambda>(n, s). Ret (n + 1, s + 1)) (0, s)) (\<lambda>(n, _). Ret n)"

definition u_strnlen :: "u32 \<Rightarrow> u32 \<Rightarrow> memory \<Rightarrow> u32" where
  "u_strnlen s n m = of_nat (strnlen s (unat n) m)"

definition u_strcpy :: "u32 \<Rightarrow> u32 \<Rightarrow> memory \<Rightarrow> (u32 \<times> memory) outcome" where
  "u_strcpy dst src m =
     andThen (whileM (\<lambda>(d, s, m). m s \<noteq> 0) (\<lambda>(d, s, m). Ret (d + 1, s + 1, m(d := m s))) (dst, src, m)) (\<lambda>(d, s, m).
     Ret (dst, m(d := m s)))"

primrec u_strncpy_loop :: "nat \<Rightarrow> u32 \<Rightarrow> u32 \<Rightarrow> memory \<Rightarrow> memory" where
  "u_strncpy_loop 0 dst src m = m"
| "u_strncpy_loop (Suc n) dst src m =
     (let m' = m(dst := m src) in u_strncpy_loop n (dst + 1) (if m' src \<noteq> 0 then src + 1 else src) m')"

definition u_strncpy :: "u32 \<Rightarrow> u32 \<Rightarrow> u32 \<Rightarrow> memory \<Rightarrow> u32 \<times> memory" where
  "u_strncpy dst src n m = (dst, u_strncpy_loop (unat n) dst src m)"

text \<open>The first argument is the size after \<^verbatim>\<open>--size\<close>.\<close>

primrec u_strlcpy_loop :: "nat \<Rightarrow> u32 \<Rightarrow> u32 \<Rightarrow> memory \<Rightarrow> u32 \<times> memory" where
  "u_strlcpy_loop 0 dst src m = (dst, m)"
| "u_strlcpy_loop (Suc n) dst src m =
     (if m src \<noteq> 0 then u_strlcpy_loop n (dst + 1) (src + 1) (m(dst := m src)) else (dst, m))"

definition u_strlcpy :: "u32 \<Rightarrow> u32 \<Rightarrow> u32 \<Rightarrow> memory \<Rightarrow> u32 \<times> memory" where
  "u_strlcpy dst src n m =
     (if n > 0 then let (d, m) = u_strlcpy_loop (unat n - 1) dst src m in (d - dst, m(d := 0)) else (0, m))"

definition u_strcmp :: "u32 \<Rightarrow> u32 \<Rightarrow> memory \<Rightarrow> int outcome" where
  "u_strcmp p q m = strcmp p q m"

definition u_strncmp :: "u32 \<Rightarrow> u32 \<Rightarrow> u32 \<Rightarrow> memory \<Rightarrow> int" where
  "u_strncmp p q n m = strncmp (unat n) p q m"

definition u_strchr :: "u32 \<Rightarrow> u8 \<Rightarrow> memory \<Rightarrow> u32 outcome" where
  "u_strchr s c m = strchr s c m"

definition u_strfind :: "u32 \<Rightarrow> u8 \<Rightarrow> memory \<Rightarrow> u32 outcome" where
  "u_strfind s c m = whileM (\<lambda>s. m s \<noteq> 0 \<and> m s \<noteq> c) (\<lambda>s. Ret (s + 1)) s"

text \<open>
  The value of a character as a digit, \<open>None\<close> for one that is none. Signed characters from 128 on are below
  the digits and unsigned ones above the letters: neither is a digit.
\<close>

definition char_digit :: "u8 \<Rightarrow> u32 option" where
  "char_digit c =
     (if of_char (CHR ''0'') \<le> c \<and> c \<le> of_char (CHR ''9'') then Some (ucast c - of_char (CHR ''0''))
      else if of_char (CHR ''a'') \<le> c \<and> c \<le> of_char (CHR ''z'') then Some (ucast c - of_char (CHR ''a'') + 10)
      else if of_char (CHR ''A'') \<le> c \<and> c \<le> of_char (CHR ''Z'') then Some (ucast c - of_char (CHR ''A'') + 10)
      else None)"

definition strtol_digit :: "u32 \<Rightarrow> u8 \<Rightarrow> u32 option" where
  "strtol_digit base c = (case char_digit c of None \<Rightarrow> None | Some dig \<Rightarrow> if base \<le>s dig then None else Some dig)"

text \<open>
  The result of signed arithmetic on an \<^verbatim>\<open>int\<close> or, with the same width, a \<^verbatim>\<open>long\<close>. C leaves it undefined when it is not
  representable, and the readers of numbers do not guard against that.
\<close>

definition c_int :: "int \<Rightarrow> u32 outcome" where
  "c_int k = (if - (2 ^ 31) \<le> k \<and> k < 2 ^ 31 then Ret (word_of_int k) else Undef)"

definition u_strtol :: "u32 \<Rightarrow> u32 \<Rightarrow> u32 \<Rightarrow> memory \<Rightarrow> (u32 \<times> memory) outcome" where
  "u_strtol s endptr base m =
     andThen (whileM (\<lambda>s. m s = of_char (CHR '' '') \<or> m s = 9) (\<lambda>s. Ret (s + 1)) s) (\<lambda>s.
     let (s, neg) = (if m s = of_char (CHR ''+'') then (s + 1, False) else if m s = of_char (CHR ''-'') then (s + 1, True) else (s, False));
         (s, base) = (if (base = 0 \<or> base = 16) \<and> m s = of_char (CHR ''0'') \<and> m (s + 1) = of_char (CHR ''x'') then (s + 2, 16)
                      else if base = 0 \<and> m s = of_char (CHR ''0'') then (s + 1, 8)
                      else if base = 0 then (s, 10) else (s, base)) in
     andThen (whileM (\<lambda>(s, val). strtol_digit base (m s) \<noteq> None) (\<lambda>(s, val).
       andThen (c_int (sint val * sint base)) (\<lambda>val.
       andThen (c_int (sint val + sint (the (strtol_digit base (m s))))) (\<lambda>val.
       Ret (s + 1, val)))) (s, 0)) (\<lambda>(s, val).
     andThen (if neg then c_int (- sint val) else Ret val) (\<lambda>r.
     Ret (r, if endptr \<noteq> 0 then store32 endptr s m else m))))"

definition u_memset :: "u32 \<Rightarrow> u32 \<Rightarrow> u32 \<Rightarrow> memory \<Rightarrow> u32 \<times> memory" where
  "u_memset v c n m = (v, memset v c n m)"

definition u_memmove :: "u32 \<Rightarrow> u32 \<Rightarrow> u32 \<Rightarrow> memory \<Rightarrow> u32 \<times> memory" where
  "u_memmove dst src n m = (dst, memmove dst src n m)"

definition u_memcpy :: "u32 \<Rightarrow> u32 \<Rightarrow> u32 \<Rightarrow> memory \<Rightarrow> u32 \<times> memory" where
  "u_memcpy dst src n m = u_memmove dst src n m"

definition u_memcmp :: "u32 \<Rightarrow> u32 \<Rightarrow> u32 \<Rightarrow> memory \<Rightarrow> int" where
  "u_memcmp v1 v2 n m = memcmp (unat n) v1 v2 m"

definition u_memchr :: "u32 \<Rightarrow> u32 \<Rightarrow> u32 \<Rightarrow> memory \<Rightarrow> u32 outcome" where
  "u_memchr s c n m =
     (let ends = s + n in
      andThen (whileM (\<lambda>s. s < ends \<and> m s \<noteq> ucast c) (\<lambda>s. Ret (s + 1)) s) (\<lambda>s. Ret (if s < ends then s else 0)))"

definition u_memzero :: "u32 \<Rightarrow> u32 \<Rightarrow> memory \<Rightarrow> u32 \<times> memory" where
  "u_memzero v n m = u_memset v 0 n m"

section \<open>Numbers (atoi.c)\<close>

definition dec_digit :: "u8 \<Rightarrow> bool" where
  "dec_digit c \<longleftrightarrow> of_char (CHR ''0'') \<le> c \<and> c \<le> of_char (CHR ''9'')"

definition u_atoi :: "u32 \<Rightarrow> u32 \<Rightarrow> memory \<Rightarrow> (u32 \<times> memory) outcome" where
  "u_atoi buf i m =
     (let (loc, negative) = (if m buf = of_char (CHR ''+'') then (1, False) else if m buf = of_char (CHR ''-'') then (1, True) else (0, False));
          numstart = loc in
      andThen (whileM (\<lambda>(loc, acc). dec_digit (m (buf + loc)))
        (\<lambda>(loc, acc).
          andThen (c_int (sint acc * 10)) (\<lambda>acc10.
          andThen (c_int (sint acc10 + (uint (m (buf + loc)) - of_char (CHR ''0'')))) (\<lambda>acc.
          andThen (c_int (sint loc + 1)) (\<lambda>loc.
          Ret (loc, acc))))) (loc, 0)) (\<lambda>(loc, acc).
      if numstart = loc then Ret (0, m)
      else
        andThen (if negative then c_int (- sint acc) else Ret acc) (\<lambda>acc.
        Ret (loc, store32 i acc m))))"

section \<open>Formatted printing (printfmt.c)\<close>

text \<open>
  \<^verbatim>\<open>printnum\<close>, \<^verbatim>\<open>getuint\<close>, \<^verbatim>\<open>getint\<close> and the conversions have the text of \<^verbatim>\<open>kern/lib/printfmt.c\<close>, but for \<^verbatim>\<open>%o\<close>, which
  the user library, where \<^verbatim>\<open>SOL\<close> is not defined, prints as three letters.
\<close>

definition u_fmt_conv ::
    "(char \<Rightarrow> 'd \<Rightarrow> 'd outcome) \<Rightarrow> fspec \<Rightarrow> char \<Rightarrow> va_arg list \<Rightarrow> 'd \<Rightarrow> (va_arg list option \<times> 'd) outcome" where
  "u_fmt_conv put f c ap d =
     (if c = CHR ''o'' then andThen (put_all put ''XXX'' d) (\<lambda>d. Ret (Some ap, d)) else fmt_conv put f c ap d)"

function u_vprintfmt :: "(char \<Rightarrow> 'd \<Rightarrow> 'd outcome) \<Rightarrow> 'd \<Rightarrow> string \<Rightarrow> va_arg list \<Rightarrow> 'd outcome" where
  "u_vprintfmt put d [] ap = Ret d"
| "u_vprintfmt put d (c # cs) ap =
     (if c \<noteq> CHR ''%'' then andThen (put c d) (\<lambda>d. u_vprintfmt put d cs ap)
      else
        andThen (fmt_spec fspec_init ap cs) (\<lambda>(f, ap', rest).
        case rest of
          [] \<Rightarrow> andThen (put (CHR ''%'') d) (\<lambda>d. u_vprintfmt put d cs ap')
        | conv # rest' \<Rightarrow>
            andThen (u_fmt_conv put f conv ap' d) (\<lambda>(r, d).
            case r of
              None \<Rightarrow> u_vprintfmt put d cs ap'
            | Some ap'' \<Rightarrow> u_vprintfmt put d rest' ap'')))"
  by pat_completeness auto

termination u_vprintfmt
  by (relation "measure (\<lambda>(put, d, cs, ap). length cs)") (auto dest!: fmt_spec_length)

definition u_printfmt :: "(char \<Rightarrow> 'd \<Rightarrow> 'd outcome) \<Rightarrow> 'd \<Rightarrow> string \<Rightarrow> va_arg list \<Rightarrow> 'd outcome" where
  "u_printfmt put putdat fmt ap = u_vprintfmt put putdat fmt ap"

record sprintbuf =
  sp_buf :: u32
  sp_ebuf :: u32
  sp_cnt :: u32

definition sprintputch :: "char \<Rightarrow> sprintbuf \<times> memory \<Rightarrow> (sprintbuf \<times> memory) outcome" where
  "sprintputch ch = (\<lambda>(b, m).
     let b = b\<lparr>sp_cnt := sp_cnt b + 1\<rparr> in
     if sp_buf b < sp_ebuf b then Ret (b\<lparr>sp_buf := sp_buf b + 1\<rparr>, m(sp_buf b := of_char ch)) else Ret (b, m))"

definition u_vsprintf :: "u32 \<Rightarrow> string \<Rightarrow> va_arg list \<Rightarrow> memory \<Rightarrow> (u32 \<times> memory) outcome" where
  "u_vsprintf buf fmt ap m =
     andThen (u_vprintfmt sprintputch (\<lparr>sp_buf = buf, sp_ebuf = NOT 0, sp_cnt = 0\<rparr>, m) fmt ap) (\<lambda>(b, m).
     Ret (sp_cnt b, m(sp_buf b := 0)))"

definition u_sprintf :: "u32 \<Rightarrow> string \<Rightarrow> va_arg list \<Rightarrow> memory \<Rightarrow> (u32 \<times> memory) outcome" where
  "u_sprintf buf fmt ap m = u_vsprintf buf fmt ap m"

definition u_vsnprintf :: "u32 \<Rightarrow> u32 \<Rightarrow> string \<Rightarrow> va_arg list \<Rightarrow> memory \<Rightarrow> (u32 \<times> memory) outcome" where
  "u_vsnprintf buf n fmt ap m =
     andThen (u_vprintfmt sprintputch (\<lparr>sp_buf = buf, sp_ebuf = buf + n - 1, sp_cnt = 0\<rparr>, m) fmt ap) (\<lambda>(b, m).
     Ret (sp_cnt b, m(sp_buf b := 0)))"

definition u_snprintf :: "u32 \<Rightarrow> u32 \<Rightarrow> string \<Rightarrow> va_arg list \<Rightarrow> memory \<Rightarrow> (u32 \<times> memory) outcome" where
  "u_snprintf buf n fmt ap m = u_vsnprintf buf n fmt ap m"

section \<open>System calls (syscall.h, proc.c)\<close>

text \<open>
  The state of the process is its memory and what the kernel keeps for it. The instruction \<^verbatim>\<open>int\<close> with the vector
  of the system calls takes the number of the call, the registers \<open>EBX\<close>, \<open>ECX\<close> and \<open>EDX\<close> as far as the stub sets
  them, and gives back \<open>EAX\<close> and \<open>EBX\<close>. The stubs return -1 on an error, whatever its number is.
\<close>

record uproc =
  umem :: memory

abbreviation (input) SYS_puts :: u32 where "SYS_puts \<equiv> 0"
abbreviation (input) SYS_spawn :: u32 where "SYS_spawn \<equiv> 1"
abbreviation (input) SYS_yield :: u32 where "SYS_yield \<equiv> 2"
abbreviation (input) SYS_open :: u32 where "SYS_open \<equiv> 3"
abbreviation (input) SYS_close :: u32 where "SYS_close \<equiv> 4"
abbreviation (input) SYS_read :: u32 where "SYS_read \<equiv> 5"
abbreviation (input) SYS_write :: u32 where "SYS_write \<equiv> 6"
abbreviation (input) SYS_mkdir :: u32 where "SYS_mkdir \<equiv> 7"
abbreviation (input) SYS_chdir :: u32 where "SYS_chdir \<equiv> 8"
abbreviation (input) SYS_link :: u32 where "SYS_link \<equiv> 9"
abbreviation (input) SYS_unlink :: u32 where "SYS_unlink \<equiv> 10"
abbreviation (input) SYS_stat :: u32 where "SYS_stat \<equiv> 11"

type_synonym 'u gate = "u32 \<Rightarrow> u32 list \<Rightarrow> 'u \<Rightarrow> (u32 \<times> u32 \<times> 'u) outcome"

definition u_sys_puts :: "'u gate \<Rightarrow> u32 \<Rightarrow> u32 \<Rightarrow> 'u \<Rightarrow> 'u outcome" where
  "u_sys_puts intr s len u = andThen (intr SYS_puts [s, len] u) (\<lambda>(_, _, u). Ret u)"

definition u_sys_spawn :: "'u gate \<Rightarrow> u32 \<Rightarrow> u32 \<Rightarrow> 'u \<Rightarrow> (u32 \<times> 'u) outcome" where
  "u_sys_spawn intr elf_id quota u =
     andThen (intr SYS_spawn [elf_id, quota] u) (\<lambda>(errno, pid, u). Ret (if errno \<noteq> 0 then -1 else pid, u))"

definition u_sys_yield :: "'u gate \<Rightarrow> 'u \<Rightarrow> 'u outcome" where
  "u_sys_yield intr u = andThen (intr SYS_yield [] u) (\<lambda>(_, _, u). Ret u)"

definition u_sys_read :: "'u gate \<Rightarrow> u32 \<Rightarrow> u32 \<Rightarrow> u32 \<Rightarrow> 'u \<Rightarrow> (u32 \<times> 'u) outcome" where
  "u_sys_read intr fd buf n u =
     andThen (intr SYS_read [fd, buf, n] u) (\<lambda>(errno, ret, u). Ret (if errno \<noteq> 0 then -1 else ret, u))"

definition u_sys_write :: "'u gate \<Rightarrow> u32 \<Rightarrow> u32 \<Rightarrow> u32 \<Rightarrow> 'u \<Rightarrow> (u32 \<times> 'u) outcome" where
  "u_sys_write intr fd p n u =
     andThen (intr SYS_write [fd, p, n] u) (\<lambda>(errno, ret, u). Ret (if errno \<noteq> 0 then -1 else ret, u))"

definition u_sys_close :: "'u gate \<Rightarrow> u32 \<Rightarrow> 'u \<Rightarrow> (u32 \<times> 'u) outcome" where
  "u_sys_close intr fd u = andThen (intr SYS_close [fd] u) (\<lambda>(errno, _, u). Ret (if errno \<noteq> 0 then -1 else 0, u))"

definition u_sys_fstat :: "'u gate \<Rightarrow> u32 \<Rightarrow> u32 \<Rightarrow> 'u \<Rightarrow> (u32 \<times> 'u) outcome" where
  "u_sys_fstat intr fd st u = andThen (intr SYS_stat [fd, st] u) (\<lambda>(errno, _, u). Ret (if errno \<noteq> 0 then -1 else 0, u))"

definition u_sys_link :: "'u gate \<Rightarrow> u32 \<Rightarrow> u32 \<Rightarrow> 'u \<Rightarrow> (u32 \<times> 'u) outcome" where
  "u_sys_link intr old new u = andThen (intr SYS_link [old, new] u) (\<lambda>(errno, _, u). Ret (if errno \<noteq> 0 then -1 else 0, u))"

definition u_sys_unlink :: "'u gate \<Rightarrow> u32 \<Rightarrow> 'u \<Rightarrow> (u32 \<times> 'u) outcome" where
  "u_sys_unlink intr path u = andThen (intr SYS_unlink [path] u) (\<lambda>(errno, _, u). Ret (if errno \<noteq> 0 then -1 else 0, u))"

definition u_sys_open :: "'u gate \<Rightarrow> u32 \<Rightarrow> u32 \<Rightarrow> 'u \<Rightarrow> (u32 \<times> 'u) outcome" where
  "u_sys_open intr path omode u =
     andThen (intr SYS_open [path, omode] u) (\<lambda>(errno, fd, u). Ret (if errno \<noteq> 0 then -1 else fd, u))"

definition u_sys_mkdir :: "'u gate \<Rightarrow> u32 \<Rightarrow> 'u \<Rightarrow> (u32 \<times> 'u) outcome" where
  "u_sys_mkdir intr path u = andThen (intr SYS_mkdir [path] u) (\<lambda>(errno, _, u). Ret (if errno \<noteq> 0 then -1 else 0, u))"

definition u_sys_chdir :: "'u gate \<Rightarrow> u32 \<Rightarrow> 'u \<Rightarrow> (u32 \<times> 'u) outcome" where
  "u_sys_chdir intr path u = andThen (intr SYS_chdir [path] u) (\<lambda>(errno, _, u). Ret (if errno \<noteq> 0 then -1 else 0, u))"

definition spawn :: "'u gate \<Rightarrow> u32 \<Rightarrow> u32 \<Rightarrow> 'u \<Rightarrow> (u32 \<times> 'u) outcome" where
  "spawn intr exec quota u = u_sys_spawn intr exec quota u"

definition yield :: "'u gate \<Rightarrow> 'u \<Rightarrow> 'u outcome" where
  "yield intr u = u_sys_yield intr u"

section \<open>Output (printf.c, debug.c)\<close>

text \<open>
  Characters are collected in a buffer on the stack, at the address \<open>sp\<close>, and given to the kernel when it is full and at the end.
  The index and the count of the buffer are kept apart from the memory: no pointer to them is passed on.
\<close>

abbreviation (input) MAX_BUF :: u32 where "MAX_BUF \<equiv> 512"

record printbuf =
  pb_idx :: u32
  pb_cnt :: u32

definition u_putch :: "'a uproc_scheme gate \<Rightarrow> u32 \<Rightarrow> char \<Rightarrow> printbuf \<times> 'a uproc_scheme \<Rightarrow> (printbuf \<times> 'a uproc_scheme) outcome" where
  "u_putch intr sp ch = (\<lambda>(b, u).
     bounded MAX_BUF (pb_idx b) (
     let u = u\<lparr>umem := (umem u)(sp + pb_idx b := of_char ch)\<rparr>; b = b\<lparr>pb_idx := pb_idx b + 1\<rparr> in
     if pb_idx b = MAX_BUF - 1 then
       andThen (u_sys_puts intr sp (pb_idx b) (u\<lparr>umem := (umem u)(sp + pb_idx b := 0)\<rparr>)) (\<lambda>u.
       Ret (b\<lparr>pb_idx := 0, pb_cnt := pb_cnt b + 1\<rparr>, u))
     else Ret (b\<lparr>pb_cnt := pb_cnt b + 1\<rparr>, u)))"

definition u_vcprintf :: "'a uproc_scheme gate \<Rightarrow> u32 \<Rightarrow> string \<Rightarrow> va_arg list \<Rightarrow> 'a uproc_scheme \<Rightarrow> (u32 \<times> 'a uproc_scheme) outcome" where
  "u_vcprintf intr sp fmt ap u =
     andThen (u_vprintfmt (u_putch intr sp) (\<lparr>pb_idx = 0, pb_cnt = 0\<rparr>, u) fmt ap) (\<lambda>(b, u).
     andThen (u_sys_puts intr sp (pb_idx b) (u\<lparr>umem := (umem u)(sp + pb_idx b := 0)\<rparr>)) (\<lambda>u.
     Ret (pb_cnt b, u)))"

definition u_printf :: "'a uproc_scheme gate \<Rightarrow> u32 \<Rightarrow> string \<Rightarrow> va_arg list \<Rightarrow> 'a uproc_scheme \<Rightarrow> (u32 \<times> 'a uproc_scheme) outcome" where
  "u_printf intr sp fmt ap u = u_vcprintf intr sp fmt ap u"

definition u_message :: "string \<Rightarrow> 'a uproc_scheme gate \<Rightarrow> u32 \<Rightarrow> string \<Rightarrow> u32 \<Rightarrow> string \<Rightarrow> va_arg list \<Rightarrow> 'a uproc_scheme \<Rightarrow> 'a uproc_scheme outcome" where
  "u_message tag intr sp file_name line fmt ap u =
     andThen (u_printf intr sp (tag @ '' %s:%d: '') [VStr (Some file_name), VInt line] u) (\<lambda>(_, u).
     andThen (u_vcprintf intr sp fmt ap u) (\<lambda>(_, u). Ret u))"

definition u_debug :: "'a uproc_scheme gate \<Rightarrow> u32 \<Rightarrow> string \<Rightarrow> u32 \<Rightarrow> string \<Rightarrow> va_arg list \<Rightarrow> 'a uproc_scheme \<Rightarrow> 'a uproc_scheme outcome" where
  "u_debug intr sp file_name line fmt ap u = u_message ''[D]'' intr sp file_name line fmt ap u"

definition u_warn :: "'a uproc_scheme gate \<Rightarrow> u32 \<Rightarrow> string \<Rightarrow> u32 \<Rightarrow> string \<Rightarrow> va_arg list \<Rightarrow> 'a uproc_scheme \<Rightarrow> 'a uproc_scheme outcome" where
  "u_warn intr sp file_name line fmt ap u = u_message ''[W]'' intr sp file_name line fmt ap u"

definition u_panic :: "'a uproc_scheme gate \<Rightarrow> u32 \<Rightarrow> string \<Rightarrow> u32 \<Rightarrow> string \<Rightarrow> va_arg list \<Rightarrow> 'a uproc_scheme \<Rightarrow> 'a uproc_scheme outcome" where
  "u_panic intr sp file_name line fmt ap u =
     andThen (u_message ''[P]'' intr sp file_name line fmt ap u) (whileM (\<lambda>_. True) (yield intr))"

section \<open>Spin locks (spinlock.c)\<close>

text \<open>A lock is a word in memory; \<^verbatim>\<open>xchg\<close> is one step.\<close>

definition u_xchg :: "u32 \<Rightarrow> u32 \<Rightarrow> memory \<Rightarrow> u32 \<times> memory" where
  "u_xchg addr newval m = (load32 m addr, store32 addr newval m)"

definition u_spinlock_init :: "u32 \<Rightarrow> memory \<Rightarrow> memory" where
  "u_spinlock_init lk m = store32 lk 0 m"

text \<open>One attempt of the loop of \<^verbatim>\<open>spinlock_acquire\<close>, and the loop of a process that runs alone.\<close>

definition u_spinlock_try :: "u32 \<Rightarrow> memory \<Rightarrow> bool \<times> memory" where
  "u_spinlock_try lk m = (let (old, m) = u_xchg lk 1 m in (old = 0, m))"

definition u_spinlock_acquire :: "u32 \<Rightarrow> memory \<Rightarrow> memory outcome" where
  "u_spinlock_acquire lk m =
     andThen (whileM (\<lambda>(got, m). \<not> got) (\<lambda>(got, m). Ret (u_spinlock_try lk m)) (False, m)) (\<lambda>(_, m). Ret m)"

definition u_spinlock_holding :: "u32 \<Rightarrow> memory \<Rightarrow> bool" where
  "u_spinlock_holding lk m \<longleftrightarrow> load32 m lk \<noteq> 0"

definition u_spinlock_release :: "u32 \<Rightarrow> memory \<Rightarrow> memory" where
  "u_spinlock_release lk m = (if \<not> u_spinlock_holding lk m then m else snd (u_xchg lk 0 m))"

section \<open>Programs (idle.c, ping.c, pong.c, ding.c)\<close>

definition idle_main :: "'a uproc_scheme gate \<Rightarrow> u32 \<Rightarrow> 'a uproc_scheme \<Rightarrow> (u32 \<times> 'a uproc_scheme) outcome" where
  "idle_main intr sp u =
     andThen (u_printf intr sp (''idle'' @ [CHR 0x0A]) [] u) (\<lambda>(_, u).
     andThen (spawn intr 4 1000 u) (\<lambda>(fstest_pid, u).
     andThen (if fstest_pid \<noteq> -1 then u_printf intr sp (''fstest in process %d.'' @ [CHR 0x0A]) [VInt fstest_pid] u
              else u_printf intr sp (''Failed to launch fstest.'' @ [CHR 0x0A]) [] u) (\<lambda>(_, u).
     Ret (0, u))))"

definition ping_main :: "'a uproc_scheme gate \<Rightarrow> u32 \<Rightarrow> 'a uproc_scheme \<Rightarrow> (u32 \<times> 'a uproc_scheme) outcome" where
  "ping_main intr sp u = andThen (u_printf intr sp (''ping started.'' @ [CHR 0x0A]) [] u) (\<lambda>(_, u). Ret (0, u))"

definition pong_main :: "'a uproc_scheme gate \<Rightarrow> u32 \<Rightarrow> 'a uproc_scheme \<Rightarrow> (u32 \<times> 'a uproc_scheme) outcome" where
  "pong_main intr sp u = andThen (u_printf intr sp (''pong started.'' @ [CHR 0x0A]) [] u) (\<lambda>(_, u). Ret (0, u))"

definition ding_main :: "'a uproc_scheme gate \<Rightarrow> u32 \<Rightarrow> 'a uproc_scheme \<Rightarrow> (u32 \<times> 'a uproc_scheme) outcome" where
  "ding_main intr sp u = andThen (u_printf intr sp (''ding started.'' @ [CHR 0x0A]) [] u) (\<lambda>(_, u). Ret (0, u))"

end
