(* ===== verification/User_Lib_Spec.thy ===== *)
theory User_Lib_Spec
  imports User_Lib Console_Spec
begin

unbundle bit_operations_syntax

text \<open>
  Properties of the user library: what the printing routines put where and give to the kernel, whatever the format, and that
  \<^verbatim>\<open>atoi\<close> reads back what \<^verbatim>\<open>snprintf\<close> has printed.
\<close>

section \<open>Printing to two places\<close>

text \<open>
  Two receivers of characters that stay in a relation \<open>R\<close> with every character are still in it after any
  formatted output, or the output fails for both in the same way.
\<close>

lemma rel_andThen:
  assumes "rel_outcome R r r'" and "\<And>x y. R x y \<Longrightarrow> rel_outcome S (f x) (g y)"
  shows "rel_outcome S (andThen r f) (andThen r' g)"
  using assms by (cases r; cases r') auto

lemma rel_if:
  "(b \<Longrightarrow> rel_outcome R r s) \<Longrightarrow> (\<not> b \<Longrightarrow> rel_outcome R r' s') \<Longrightarrow> rel_outcome R (if b then r else r') (if b then s else s')"
  by simp

lemma put_all_rel:
  assumes "\<And>c x y. R x y \<Longrightarrow> rel_outcome R (p c x) (q c y)" and "R x y"
  shows "rel_outcome R (put_all p cs x) (put_all q cs y)"
  using assms(2) by (induction cs arbitrary: x y) (auto intro: rel_andThen assms(1))

lemma printnum_rel:
  assumes p: "\<And>c x y. R x y \<Longrightarrow> rel_outcome R (p c x) (q c y)" and "R x y"
  shows "rel_outcome R (printnum p num base width padc x) (printnum q num base width padc y)"
  using assms(2)
proof (induction "unat num" arbitrary: num width x y rule: less_induct)
  case less
  have d: "unat (num div base) < unat num" if "\<not> base < 2" "base \<le> num"
    using that by (simp add: unat_div word_less_nat_alt word_le_nat_alt)
  show ?case
    unfolding printnum.simps [of p num] printnum.simps [of q num]
    using less d by (auto intro!: rel_andThen [where R = R] p put_all_rel [where R = R])
qed

lemma fmt_conv_rel:
  assumes p: "\<And>c x y. R x y \<Longrightarrow> rel_outcome R (p c x) (q c y)" and "R x y"
  shows "rel_outcome (rel_prod (=) R) (u_fmt_conv p f c ap x) (u_fmt_conv q f c ap y)"
proof -
  have number: "rel_outcome (rel_prod (=) R) (andThen (printnum p num base (fs_width f) (fs_padc f) x) (\<lambda>d. Ret (Some ap, d)))
      (andThen (printnum q num base (fs_width f) (fs_padc f) y) (\<lambda>d. Ret (Some ap, d)))" if "R x y" for num base ap x y
    by (rule rel_andThen [OF printnum_rel [where R = R, OF p that]]) simp_all
  have puts: "rel_outcome (rel_prod (=) R) (andThen (put_all p cs x) (\<lambda>d. Ret (r, d))) (andThen (put_all q cs y) (\<lambda>d. Ret (r, d)))" for cs r
    by (rule rel_andThen [OF put_all_rel [where R = R, OF p assms(2)]]) simp_all
  have put: "rel_outcome (rel_prod (=) R) (andThen (p c x) (\<lambda>d. Ret (r, d))) (andThen (q c y) (\<lambda>d. Ret (r, d)))" for c r
    by (rule rel_andThen [OF p [OF assms(2)]]) simp
  have sign: "rel_outcome (rel_prod (=) R) (andThen (p c x) (\<lambda>d. andThen (printnum p num base (fs_width f) (fs_padc f) d) (\<lambda>d. Ret (Some ap, d))))
      (andThen (q c y) (\<lambda>d. andThen (printnum q num base (fs_width f) (fs_padc f) d) (\<lambda>d. Ret (Some ap, d))))" for c num base ap
    by (rule rel_andThen [OF p [OF assms(2)]]) (rule number)
  have prefix: "rel_outcome (rel_prod (=) R) (andThen (put_all p cs x) (\<lambda>d. andThen (printnum p num base (fs_width f) (fs_padc f) d) (\<lambda>d. Ret (Some ap, d))))
      (andThen (put_all q cs y) (\<lambda>d. andThen (printnum q num base (fs_width f) (fs_padc f) d) (\<lambda>d. Ret (Some ap, d))))" for cs num base ap
    by (rule rel_andThen [OF put_all_rel [where R = R, OF p assms(2)]]) (assumption, rule number)
  have get: "rel_outcome S (andThen r (\<lambda>(num :: u64, ap :: va_arg list). g num ap)) (andThen r (\<lambda>(num, ap). h num ap))"
    if "\<And>num ap. rel_outcome S (g num ap) (h num ap)" for r g h and S :: "'c \<Rightarrow> 'd \<Rightarrow> bool"
    using that by (cases r) auto
  show ?thesis
    unfolding u_fmt_conv_def fmt_conv_def Let_def
    by (intro rel_if puts put get number [OF assms(2)] sign) (auto intro: puts put number [OF assms(2)] prefix simp del: put_all.simps split: list.split va_arg.split)
qed

lemma u_vprintfmt_rel:
  assumes p: "\<And>c x y. R x y \<Longrightarrow> rel_outcome R (p c x) (q c y)" and "R x y"
  shows "rel_outcome R (u_vprintfmt p x fmt ap) (u_vprintfmt q y fmt ap)"
  using assms(2)
proof (induction "length fmt" arbitrary: fmt ap x y rule: less_induct)
  case less
  show ?case
  proof (cases fmt)
    case (Cons c cs)
    have rest: "rel_outcome R (u_vprintfmt p x cs ap) (u_vprintfmt q y cs ap)" if "R x y" for x y ap
      using less(1) [OF _ that] Cons by simp
    have conv: "rel_outcome R (case rest of [] \<Rightarrow> andThen (p (CHR ''%'') x) (\<lambda>d. u_vprintfmt p d cs ap')
        | conv # rest' \<Rightarrow> andThen (u_fmt_conv p f conv ap' x) (\<lambda>(r, d). case r of None \<Rightarrow> u_vprintfmt p d cs ap' | Some ap'' \<Rightarrow> u_vprintfmt p d rest' ap''))
      (case rest of [] \<Rightarrow> andThen (q (CHR ''%'') y) (\<lambda>d. u_vprintfmt q d cs ap')
        | conv # rest' \<Rightarrow> andThen (u_fmt_conv q f conv ap' y) (\<lambda>(r, d). case r of None \<Rightarrow> u_vprintfmt q d cs ap' | Some ap'' \<Rightarrow> u_vprintfmt q d rest' ap''))"
      if "fmt_spec fspec_init ap cs = Ret (f, ap', rest)" for f ap' rest
    proof (cases rest)
      case Nil
      then show ?thesis using rel_andThen [OF p [OF less(2)] rest] by simp
    next
      case (Cons conv rest')
      then have "length rest' < length fmt" using fmt_spec_length [OF that] \<open>fmt = c # cs\<close> by simp
      then show ?thesis
        unfolding Cons list.case
        by (intro rel_andThen [OF fmt_conv_rel [where R = R, OF p less(2)]]) (auto split: option.split intro: rest less(1))
    qed
    show ?thesis
    proof (cases "c = CHR ''%''")
      case True
      then show ?thesis using conv unfolding Cons by (cases "fmt_spec fspec_init ap cs") auto
    next
      case False
      then show ?thesis using rel_andThen [OF p [OF less(2)] rest] unfolding Cons by simp
    qed
  qed (simp add: less(2))
qed

section \<open>Printing to a buffer\<close>

text \<open>The characters that a format and its arguments stand for, and a string at an address, with its null byte.\<close>

definition formatted :: "string \<Rightarrow> va_arg list \<Rightarrow> string outcome" where
  "formatted fmt ap = u_vprintfmt (\<lambda>c out. Ret (out @ [c])) [] fmt ap"

definition put_chars :: "u32 \<Rightarrow> string \<Rightarrow> memory \<Rightarrow> memory" where
  "put_chars buf cs m = (\<lambda>a. if unat (a - buf) < length cs then of_char (cs ! unat (a - buf)) else m a)"

definition put_string :: "u32 \<Rightarrow> string \<Rightarrow> memory \<Rightarrow> memory" where
  "put_string buf cs m = (\<lambda>a. if unat (a - buf) < length cs then of_char (cs ! unat (a - buf)) else if unat (a - buf) = length cs then 0 else m a)"

lemma put_chars_snoc:
  assumes "length cs < 2 ^ 32"
  shows "(put_chars buf cs m)(buf + of_nat (length cs) := x) = (\<lambda>a. if unat (a - buf) < length cs then of_char (cs ! unat (a - buf)) else if unat (a - buf) = length cs then x else m a)"
proof
  fix a
  have "a = buf + of_nat (length cs) \<longleftrightarrow> unat (a - buf) = length cs"
  proof
    assume "unat (a - buf) = length cs"
    then have "a - buf = of_nat (length cs)" by (metis of_nat_unat ucast_id)
    then show "a = buf + of_nat (length cs)" by (simp add: algebra_simps)
  qed (use assms in \<open>simp add: unat_of_nat\<close>)
  then show "((put_chars buf cs m)(buf + of_nat (length cs) := x)) a =
      (if unat (a - buf) < length cs then of_char (cs ! unat (a - buf)) else if unat (a - buf) = length cs then x else m a)"
    by (auto simp: put_chars_def)
qed

lemma put_chars_null: "length cs < 2 ^ 32 \<Longrightarrow> (put_chars buf cs m)(buf + of_nat (length cs) := 0) = put_string buf cs m"
  by (simp only: put_chars_snoc put_string_def)

lemma put_chars_one: "length cs < 2 ^ 32 \<Longrightarrow> (put_chars buf cs m)(buf + of_nat (length cs) := of_char c) = put_chars buf (cs @ [c]) m"
  by (simp only: put_chars_snoc) (auto simp: put_chars_def nth_append less_Suc_eq)

definition sprinted :: "u32 \<Rightarrow> u32 \<Rightarrow> memory \<Rightarrow> string \<Rightarrow> sprintbuf \<times> memory \<Rightarrow> bool" where
  "sprinted buf n m out = (\<lambda>(b, m').
     b = \<lparr>sp_buf = buf + of_nat (min (length out) (unat n - 1)), sp_ebuf = buf + n - 1, sp_cnt = of_nat (length out)\<rparr> \<and>
     m' = put_chars buf (take (unat n - 1) out) m)"

lemma sprintputch_sprinted:
  assumes "0 < n" and "unat buf + unat n \<le> 2 ^ 32" and s: "sprinted buf n m out x"
  shows "rel_outcome (sprinted buf n m) (Ret (out @ [c])) (sprintputch c x)"
proof -
  obtain b m' where x: "x = (b, m')" by (cases x)
  have e: "unat (buf + n - 1) = unat buf + unat n - 1"
  proof -
    have "buf + n - 1 = of_nat (unat buf + unat n - 1)" using assms(1) by (simp add: word_less_nat_alt of_nat_diff)
    then have "unat (buf + n - 1) = (unat buf + unat n - 1) mod 2 ^ 32" by (simp only: unat_of_nat) simp
    then show ?thesis using assms(1,2) by (simp add: word_less_nat_alt)
  qed
  show ?thesis
  proof (cases "length out < unat n - 1")
    case True
    then have "unat (buf + of_nat (length out)) = unat buf + length out" using assms(2) by (simp add: unat_word_ariths unat_of_nat)
    then have "buf + of_nat (length out) < buf + n - 1" using True e by (simp add: word_less_nat_alt)
    then show ?thesis
      using s True assms(2) put_chars_one [of out buf m c] by (auto simp: x sprinted_def sprintputch_def algebra_simps Suc_le_eq)
  next
    case False
    have "unat (buf + of_nat (unat n - 1)) = unat (buf + n - 1)"
      using assms(1) by (simp add: word_less_nat_alt of_nat_diff add_diff_eq)
    then have "\<not> buf + of_nat (unat n - 1) < buf + n - 1" by (simp add: word_less_nat_alt)
    then show ?thesis using s False by (auto simp: x sprinted_def sprintputch_def min_def)
  qed
qed

lemma u_snprintf_formatted:
  assumes "0 < n" and "unat buf + unat n \<le> 2 ^ 32"
  shows "u_snprintf buf n fmt ap m = andThen (formatted fmt ap) (\<lambda>out. Ret (of_nat (length out), put_string buf (take (unat n - 1) out) m))"
proof -
  let ?b = "\<lparr>sp_buf = buf, sp_ebuf = buf + n - 1, sp_cnt = 0\<rparr>"
  have "sprinted buf n m [] (?b, m)" by (simp add: sprinted_def put_chars_def)
  then have "rel_outcome (sprinted buf n m) (formatted fmt ap) (u_vprintfmt sprintputch (?b, m) fmt ap)"
    unfolding formatted_def by (intro u_vprintfmt_rel [where R = "sprinted buf n m"] sprintputch_sprinted [OF assms])
  moreover have "min (length out) (unat n - 1) < 2 ^ 32" for out :: string using unat_u32_less [of n] by auto
  then have "(put_chars buf (take (unat n - 1) out) m)(buf + of_nat (min (length out) (unat n - 1)) := 0) = put_string buf (take (unat n - 1) out) m" for out
    using put_chars_null [of "take (unat n - 1) out" buf m] by simp
  ultimately show ?thesis
    unfolding u_snprintf_def u_vsnprintf_def
    by (cases "formatted fmt ap"; cases "u_vprintfmt sprintputch (?b, m) fmt ap") (auto simp: sprinted_def)
qed

section \<open>Formatting and output\<close>

text \<open>
  A routine that puts characters does the same as if its whole text were computed first and then put. \<open>emits\<close> says so of a
  routine over the receiver that collects characters and the same routine over another receiver; in \<open>emits_val\<close> it has a result
  as well.
\<close>

definition collect :: "char \<Rightarrow> string \<Rightarrow> string outcome" where
  "collect c out = Ret (out @ [c])"

definition emits :: "(char \<Rightarrow> 'd \<Rightarrow> 'd outcome) \<Rightarrow> (string \<Rightarrow> string outcome) \<Rightarrow> ('d \<Rightarrow> 'd outcome) \<Rightarrow> bool" where
  "emits put f g \<longleftrightarrow> (\<forall>x out. f x = Ret out \<longrightarrow> (\<exists>cs. out = x @ cs \<and> (\<forall>d. g d = put_all put cs d)))"

definition emits_val :: "(char \<Rightarrow> 'd \<Rightarrow> 'd outcome) \<Rightarrow> (string \<Rightarrow> ('r \<times> string) outcome) \<Rightarrow> ('d \<Rightarrow> ('r \<times> 'd) outcome) \<Rightarrow> bool" where
  "emits_val put f g \<longleftrightarrow> (\<forall>x r out. f x = Ret (r, out) \<longrightarrow>
     (\<exists>cs. out = x @ cs \<and> (\<forall>d. g d = andThen (put_all put cs d) (\<lambda>d. Ret (r, d)))))"

lemma emits_put: "emits put (collect c) (put c)"
  unfolding emits_def collect_def put_all_single [symmetric] by auto

lemma emits_all: "emits put (put_all collect cs) (put_all put cs)"
proof -
  have "put_all collect cs x = Ret (x @ cs)" for x by (induction cs arbitrary: x) (simp_all add: collect_def)
  then show ?thesis by (simp add: emits_def)
qed

lemma emits_andThen:
  assumes "emits put f f'" and "emits put g g'"
  shows "emits put (\<lambda>x. andThen (f x) g) (\<lambda>d. andThen (f' d) g')"
  unfolding emits_def
proof (intro allI impI)
  fix x out
  assume "andThen (f x) g = Ret out"
  then obtain y where y: "f x = Ret y" "g y = Ret out" by (cases "f x") auto
  obtain cs where cs: "y = x @ cs" "\<forall>d. f' d = put_all put cs d" using assms(1) y(1) unfolding emits_def by blast
  obtain ds where ds: "out = y @ ds" "\<forall>d. g' d = put_all put ds d" using assms(2) y(2) unfolding emits_def by blast
  have "g' = put_all put ds" using ds(2) by auto
  with cs ds(1) show "\<exists>cs. out = x @ cs \<and> (\<forall>d. andThen (f' d) g' = put_all put cs d)"
    by (intro exI [of _ "cs @ ds"]) (simp add: put_all_append)
qed

lemma emits_val_andThen:
  assumes "emits put f f'" and "emits_val put g g'"
  shows "emits_val put (\<lambda>x. andThen (f x) g) (\<lambda>d. andThen (f' d) g')"
  unfolding emits_val_def
proof (intro allI impI)
  fix x r out
  assume "andThen (f x) g = Ret (r, out)"
  then obtain y where y: "f x = Ret y" "g y = Ret (r, out)" by (cases "f x") auto
  obtain cs where cs: "y = x @ cs" "\<forall>d. f' d = put_all put cs d" using assms(1) y(1) unfolding emits_def by blast
  obtain ds where ds: "out = y @ ds" "\<forall>d. g' d = andThen (put_all put ds d) (\<lambda>d. Ret (r, d))" using assms(2) y(2) unfolding emits_val_def by blast
  have "g' = (\<lambda>d. andThen (put_all put ds d) (\<lambda>d. Ret (r, d)))" using ds(2) by auto
  with cs ds(1) show "\<exists>cs. out = x @ cs \<and> (\<forall>d. andThen (f' d) g' = andThen (put_all put cs d) (\<lambda>d. Ret (r, d)))"
    by (intro exI [of _ "cs @ ds"]) (simp add: put_all_append andThen_assoc)
qed

lemma emits_val_bind:
  assumes "emits_val put f f'" and "\<And>r. emits put (\<lambda>x. g r x) (\<lambda>d. g' r d)"
  shows "emits put (\<lambda>x. andThen (f x) (\<lambda>(r, x). g r x)) (\<lambda>d. andThen (f' d) (\<lambda>(r, d). g' r d))"
  unfolding emits_def
proof (intro allI impI)
  fix x out
  assume "andThen (f x) (\<lambda>(r, x). g r x) = Ret out"
  then obtain r y where y: "f x = Ret (r, y)" "g r y = Ret out" by (cases "f x") auto
  obtain cs where cs: "y = x @ cs" "\<forall>d. f' d = andThen (put_all put cs d) (\<lambda>d. Ret (r, d))" using assms(1) y(1) unfolding emits_val_def by blast
  obtain ds where ds: "out = y @ ds" "\<forall>d. g' r d = put_all put ds d" using assms(2) [of r] y(2) unfolding emits_def by blast
  from cs ds show "\<exists>cs. out = x @ cs \<and> (\<forall>d. andThen (f' d) (\<lambda>(r, d). g' r d) = put_all put cs d)"
    by (intro exI [of _ "cs @ ds"]) (simp add: put_all_append andThen_assoc)
qed

lemma emits_if: "(b \<Longrightarrow> emits put f f') \<Longrightarrow> (\<not> b \<Longrightarrow> emits put g g') \<Longrightarrow> emits put (\<lambda>x. if b then f x else g x) (\<lambda>d. if b then f' d else g' d)"
  by (cases b) simp_all

lemma emits_val_simple:
  "emits_val put (\<lambda>x. Ret (r, x)) (\<lambda>d. Ret (r, d))" "emits_val put (\<lambda>x. Undef) g"
  "(b \<Longrightarrow> emits_val put h h') \<Longrightarrow> (\<not> b \<Longrightarrow> emits_val put k k') \<Longrightarrow> emits_val put (\<lambda>x. if b then h x else k x) (\<lambda>d. if b then h' d else k' d)"
  by (cases b; simp add: emits_val_def)+

lemma emits_val_get:
  assumes "\<And>num ap. emits_val put (f num ap) (g num ap)"
  shows "emits_val put (\<lambda>x. andThen r (\<lambda>(num, ap). f num ap x)) (\<lambda>d. andThen r (\<lambda>(num, ap). g num ap d))"
  using assms unfolding emits_val_def by (cases r) auto

lemma printnum_emits: "emits put (printnum collect num base width padc) (printnum put num base width padc)"
proof (induction "unat num" arbitrary: num width rule: less_induct)
  case less
  have d: "unat (num div base) < unat num" if "\<not> base < 2" "base \<le> num"
    using that by (simp add: unat_div word_less_nat_alt word_le_nat_alt)
  have eq: "printnum p num base width padc = (\<lambda>x. if base < 2 then Undef else andThen (if num \<ge> base then printnum p (num div base) base (width - 1) padc x
      else put_all p (replicate (nat (width - 1)) padc) x) (p (digit (num mod base))))" for p :: "char \<Rightarrow> 'x \<Rightarrow> 'x outcome"
    by (rule ext) (subst printnum.simps, simp)
  show ?case
  proof (cases "base < 2")
    case True
    then show ?thesis by (simp add: eq [of collect] eq [of put] emits_def)
  next
    case False
    then show ?thesis
      unfolding eq [of collect] eq [of put] using less [OF d]
      by (simp only: if_False) (intro emits_andThen emits_if emits_all emits_put, blast)
  qed
qed

lemma fmt_conv_emits: "emits_val put (u_fmt_conv collect f c ap) (u_fmt_conv put f c ap)"
proof -
  have number: "emits_val put (\<lambda>x. andThen (printnum collect num base (fs_width f) (fs_padc f) x) (\<lambda>d. Ret (r, d)))
      (\<lambda>d. andThen (printnum put num base (fs_width f) (fs_padc f) d) (\<lambda>d. Ret (r, d)))" for num base and r :: "va_arg list option"
    by (rule emits_val_andThen [OF printnum_emits emits_val_simple(1)])
  note put = emits_val_andThen [OF emits_put emits_val_simple(1)] and all = emits_val_andThen [OF emits_all emits_val_simple(1)]
    and sign = emits_val_andThen [OF emits_put number] and prefix = emits_val_andThen [OF emits_all number]
  have int_arg: "emits_val put (\<lambda>x. case ap of VInt n # ap \<Rightarrow> g n ap x | _ \<Rightarrow> Undef) (\<lambda>d. case ap of VInt n # ap \<Rightarrow> h n ap d | _ \<Rightarrow> Undef)"
    if "\<And>n ap. emits_val put (g n ap) (h n ap)" for ap g and h :: "u32 \<Rightarrow> va_arg list \<Rightarrow> 'a \<Rightarrow> (va_arg list option \<times> 'a) outcome"
    by (cases ap; cases "hd ap") (simp_all add: emits_val_simple(2) that)
  have str_arg: "emits_val put (\<lambda>x. case ap of VStr p # ap \<Rightarrow> g p ap x | _ \<Rightarrow> Undef) (\<lambda>d. case ap of VStr p # ap \<Rightarrow> h p ap d | _ \<Rightarrow> Undef)"
    if "\<And>p ap. emits_val put (g p ap) (h p ap)" for ap g and h :: "string option \<Rightarrow> va_arg list \<Rightarrow> 'a \<Rightarrow> (va_arg list option \<times> 'a) outcome"
    by (cases ap; cases "hd ap") (simp_all add: emits_val_simple(2) that)
  show ?thesis
    unfolding u_fmt_conv_def [abs_def] fmt_conv_def [abs_def] Let_def
    by (intro emits_val_simple(3) emits_val_get int_arg str_arg put all sign prefix number)
qed

lemma u_vprintfmt_emits: "emits put (\<lambda>x. u_vprintfmt collect x fmt ap) (\<lambda>d. u_vprintfmt put d fmt ap)"
proof (induction "length fmt" arbitrary: fmt ap rule: less_induct)
  case less
  show ?case
  proof (cases fmt)
    case Nil
    then show ?thesis by (simp add: emits_def)
  next
    case (Cons c cs)
    have rest: "emits put (\<lambda>x. u_vprintfmt collect x cs ap) (\<lambda>d. u_vprintfmt put d cs ap)" for ap using less Cons by simp
    show ?thesis
    proof (cases "c = CHR ''%''")
      case False
      then show ?thesis using emits_andThen [OF emits_put rest] Cons by simp
    next
      case True
      show ?thesis
      proof (cases "fmt_spec fspec_init ap cs")
        case (Ret y)
        obtain f ap' tl where y: "y = (f, ap', tl)" by (cases y)
        then have tl: "length tl \<le> length cs" using fmt_spec_length Ret by blast
        show ?thesis
        proof (cases tl)
          case Nil
          then show ?thesis using emits_andThen [OF emits_put rest] Cons True Ret y by simp
        next
          case (Cons conv tl')
          have k: "emits put (\<lambda>x. case r of None \<Rightarrow> u_vprintfmt collect x cs ap' | Some ap'' \<Rightarrow> u_vprintfmt collect x tl' ap'')
              (\<lambda>d. case r of None \<Rightarrow> u_vprintfmt put d cs ap' | Some ap'' \<Rightarrow> u_vprintfmt put d tl' ap'')" for r
            using rest less [of tl'] tl Cons \<open>fmt = c # cs\<close> by (cases r) auto
          show ?thesis
            using emits_val_bind [OF fmt_conv_emits k] True Ret y Cons by (simp add: \<open>fmt = c # cs\<close>)
        qed
      qed (simp_all add: Cons True emits_def)
    qed
  qed
qed

lemma u_vprintfmt_formatted: "formatted fmt ap = Ret out \<Longrightarrow> u_vprintfmt put d fmt ap = put_all put out d"
  using u_vprintfmt_emits [of put fmt ap] unfolding emits_def formatted_def collect_def [abs_def] by fastforce

section \<open>Printing to the console\<close>

text \<open>
  What \<^verbatim>\<open>printf\<close> gives to the kernel: the text in pieces of the size of its buffer without the null byte, and a last one
  that is shorter.
\<close>

fun pieces :: "string \<Rightarrow> string list" where
  "pieces cs = (if length cs < 511 then [cs] else take 511 cs # pieces (drop 511 cs))"

declare pieces.simps [simp del]

lemma concat_pieces: "concat (pieces cs) = cs"
  by (induction cs rule: pieces.induct) (subst pieces.simps, simp)

lemma length_pieces: "p \<in> set (pieces cs) \<Longrightarrow> length p \<le> 511"
proof (induction cs rule: pieces.induct)
  case (1 cs)
  then show ?case by (subst (asm) (2) pieces.simps) (auto split: if_splits)
qed

definition puts_piece :: "'a uproc_scheme gate \<Rightarrow> u32 \<Rightarrow> string \<Rightarrow> 'a uproc_scheme \<Rightarrow> 'a uproc_scheme outcome" where
  "puts_piece intr sp cs u = u_sys_puts intr sp (of_nat (length cs)) (u\<lparr>umem := put_string sp cs (umem u)\<rparr>)"

text \<open>The characters of the process at an address.\<close>

definition mem_chars :: "memory \<Rightarrow> u32 \<Rightarrow> nat \<Rightarrow> string" where
  "mem_chars m s n = map (\<lambda>i. char_of (unat (m (s + of_nat i)))) [0..<n]"

lemma char_of_byte: "char_of (unat (of_char c :: u8)) = c"
proof -
  have "unat (of_char c :: u8) = of_char c" by (subst of_nat_of_char [symmetric]) (simp add: unat_of_nat)
  then show ?thesis by simp
qed

lemma mem_chars_put:
  assumes "length cs < 2 ^ 32"
  shows "mem_chars (put_string sp cs m) sp (length cs) = cs"
  using assms by (auto simp: mem_chars_def put_string_def unat_of_nat char_of_byte intro!: nth_equalityI)

lemma buffer_end:
  assumes "length cs < 512"
  shows "u\<lparr>umem := put_chars sp cs m, umem := (umem (u\<lparr>umem := put_chars sp cs m\<rparr>))(sp + of_nat (length cs) := 0)\<rparr> = u\<lparr>umem := put_string sp cs m\<rparr>"
  using assms by (cases u) (simp add: put_chars_null [symmetric])

text \<open>The end of \<^verbatim>\<open>vcprintf\<close>, after the formatting.\<close>

definition print_rest :: "'a uproc_scheme gate \<Rightarrow> u32 \<Rightarrow> printbuf \<times> 'a uproc_scheme \<Rightarrow> (u32 \<times> 'a uproc_scheme) outcome" where
  "print_rest intr sp = (\<lambda>(b, u).
     andThen (u_sys_puts intr sp (pb_idx b) (u\<lparr>umem := (umem u)(sp + pb_idx b := 0)\<rparr>)) (\<lambda>u. Ret (pb_cnt b, u)))"

text \<open>The buffer holds the characters \<open>new\<close>, and the characters \<open>out\<close> are still to come.\<close>

lemma u_putch_pieces:
  assumes "length new < 511"
  shows "andThen (put_all (u_putch intr sp) out (\<lparr>pb_idx = of_nat (length new), pb_cnt = cnt\<rparr>, u\<lparr>umem := put_chars sp new (umem u)\<rparr>)) (print_rest intr sp) =
    andThen (forM (pieces (new @ out)) (puts_piece intr sp) u) (\<lambda>u. Ret (cnt + of_nat (length out), u))"
  using assms
proof (induction out arbitrary: new cnt u)
  case Nil
  have "forM (pieces new) (puts_piece intr sp) u = u_sys_puts intr sp (of_nat (length new)) (u\<lparr>umem := put_string sp new (umem u)\<rparr>)"
    using Nil by (simp add: pieces.simps [of new] puts_piece_def)
  then show ?case
    using Nil by (simp only: print_rest_def put_all.simps andThen.simps prod.case printbuf.simps buffer_end append_Nil2 list.size) simp
next
  case (Cons c out)
  let ?u = "u\<lparr>umem := put_chars sp (new @ [c]) (umem u)\<rparr>"
  have step: "u_putch intr sp c (\<lparr>pb_idx = of_nat (length new), pb_cnt = cnt\<rparr>, u\<lparr>umem := put_chars sp new (umem u)\<rparr>) =
      (if length (new @ [c]) = 511
       then andThen (puts_piece intr sp (new @ [c]) u) (\<lambda>u. Ret (\<lparr>pb_idx = of_nat (length []), pb_cnt = cnt + 1\<rparr>, u\<lparr>umem := put_chars sp [] (umem u)\<rparr>))
       else Ret (\<lparr>pb_idx = of_nat (length (new @ [c])), pb_cnt = cnt + 1\<rparr>, ?u))"
  proof (cases "length new = 510")
    case True
    have "(put_chars sp new m)(sp + 510 := of_char c) = put_chars sp (new @ [c]) m" "(put_chars sp (new @ [c]) m)(sp + 511 := 0) = put_string sp (new @ [c]) m"
      "put_chars sp [] m = m" for m
      using True put_chars_one [of new sp m c] put_chars_null [of "new @ [c]" sp m] by (simp_all add: put_chars_def [of _ "[]"])
    then show ?thesis using True by (cases u) (simp add: u_putch_def bounded_def Let_def puts_piece_def)
  next
    case False
    have "(put_chars sp new m)(sp + of_nat (length new) := of_char c) = put_chars sp (new @ [c]) m" for m using Cons(2) by (intro put_chars_one) simp
    moreover have "(of_nat (length new) :: u32) < 512" "(of_nat (length new) :: u32) \<noteq> 510"
      using Cons(2) False by (simp_all add: word_less_nat_alt word_unat_eq_iff unat_of_nat)
    ultimately show ?thesis using False by (cases u) (simp add: u_putch_def bounded_def Let_def add.commute)
  qed
  show ?case
  proof (cases "length (new @ [c]) = 511")
    case True
    then have l: "pieces (new @ c # out) = (new @ [c]) # pieces out" by (subst pieces.simps) simp
    have "cnt + 1 + of_nat (length out) = cnt + of_nat (length (c # out))" by simp
    then show ?thesis
      using Cons(1) [of "[]" "cnt + 1"] unfolding l put_all.simps
      by (subst step, subst if_P [OF True]) (simp add: andThen_assoc del: of_nat_Suc)
  next
    case False
    then have "length (new @ [c]) < 511" using Cons(2) by simp
    from Cons(1) [OF this, of "cnt + 1"] show ?thesis
      unfolding put_all.simps by (subst step, subst if_not_P [OF False]) (simp add: add.assoc)
  qed
qed

lemma u_printf_pieces:
  assumes "formatted fmt ap = Ret out"
  shows "u_printf intr sp fmt ap u = andThen (forM (pieces out) (puts_piece intr sp) u) (\<lambda>u. Ret (of_nat (length out), u))"
proof -
  have "u\<lparr>umem := put_chars sp [] (umem u)\<rparr> = u" by (simp add: put_chars_def)
  then show ?thesis
    using u_putch_pieces [of "[]" intr sp out 0 u] by (simp add: u_printf_def u_vcprintf_def u_vprintfmt_formatted [OF assms] print_rest_def [abs_def])
qed

section \<open>Reading numbers back\<close>

fun decimal :: "nat \<Rightarrow> string" where
  "decimal n = (if n < 10 then [char_of (48 + n)] else decimal (n div 10) @ [char_of (48 + n mod 10)])"

declare decimal.simps [simp del]

lemma digit_char:
  assumes "n < 10"
  shows "digit n = char_of (48 + unat n)"
proof -
  have "\<forall>k \<in> set [0..<10]. ''0123456789abcdef'' ! k = (char_of (48 + k) :: char)" by (simp add: upt_rec) (simp add: char_of_def bit_Suc_0_iff)
  moreover have "unat n < 10" using assms by (simp add: word_less_nat_alt)
  ultimately show ?thesis by (simp add: digit_def)
qed

lemma printnum_decimal:
  "width \<le> 0 \<Longrightarrow> printnum (\<lambda>c out. Ret (out @ [c])) num 10 width padc out = Ret (out @ decimal (unat num))"
proof (induction "unat num" arbitrary: num width rule: less_induct)
  case less
  have "num mod 10 < 10" by (simp add: word_less_nat_alt unat_mod)
  then have d: "digit (num mod 10) = char_of (48 + unat num mod 10)" by (simp add: digit_char unat_mod)
  show ?case
  proof (cases "num \<ge> 10")
    case True
    then have "unat (num div 10) < unat num" by (simp add: unat_div word_le_nat_alt)
    then have "printnum (\<lambda>c out. Ret (out @ [c])) (num div 10) 10 (width - 1) padc out = Ret (out @ decimal (unat (num div 10)))"
      using less by simp
    then show ?thesis using True by (simp add: printnum.simps [of _ num] decimal.simps [of "unat num"] d unat_div word_le_nat_alt)
  next
    case False
    then show ?thesis using less(2) by (simp add: printnum.simps [of _ num] decimal.simps [of "unat num"] d word_le_nat_alt)
  qed
qed

lemma decimal_length: "n < 10 ^ Suc k \<Longrightarrow> 0 < length (decimal n) \<and> length (decimal n) \<le> Suc k"
proof (induction k arbitrary: n)
  case (Suc k)
  then show ?case by (cases "n < 10") (simp_all add: decimal.simps [of n] less_mult_imp_div_less mult.commute)
qed (simp add: decimal.simps)

definition dec_char :: "char \<Rightarrow> bool" where
  "dec_char c \<longleftrightarrow> (\<exists>k < 10. c = char_of (48 + k :: nat))"

lemma decimal_chars: "c \<in> set (decimal n) \<Longrightarrow> dec_char c"
proof (induction n rule: decimal.induct)
  case (1 n)
  then show ?case
    by (subst (asm) (2) decimal.simps) (force simp: dec_char_def split: if_splits)
qed

lemma of_dec_char: "k < 10 \<Longrightarrow> (of_char (char_of (48 + k :: nat)) :: 'a::len word) = of_nat (48 + k)"
  by (subst of_nat_of_char [symmetric]) (simp add: of_char_of)

lemma dec_char_digit: "dec_char c \<Longrightarrow> dec_digit (of_char c)" "dec_char c \<Longrightarrow> (of_char c :: u8) \<noteq> of_char (CHR ''-'')" "dec_char c \<Longrightarrow> (of_char c :: u8) \<noteq> of_char (CHR ''+'')"
proof -
  assume "dec_char c"
  then obtain k :: nat where k: "k < 10" "c = char_of (48 + k)" by (auto simp: dec_char_def)
  have "(of_char c :: u8) = of_nat (48 + k)" using k by (simp only: of_dec_char)
  then have "unat (of_char c :: u8) = 48 + k" using k(1) by (simp add: unat_word_ariths unat_of_nat)
  then show "dec_digit (of_char c)" "(of_char c :: u8) \<noteq> of_char (CHR ''-'')" "(of_char c :: u8) \<noteq> of_char (CHR ''+'')"
    using k(1) by (auto simp: dec_digit_def word_le_nat_alt)
qed

text \<open>The value of a numeral that continues the number \<open>a\<close>, and the loop of \<^verbatim>\<open>atoi\<close> over it, which overflows from \<open>2 ^ 31\<close> on.\<close>

definition numeral_value :: "nat \<Rightarrow> string \<Rightarrow> nat" where
  "numeral_value = foldl (\<lambda>a c. a * 10 + (of_char c - 48))"

lemma numeral_value_simps [simp]:
  "numeral_value a [] = a" "numeral_value a (c # cs) = numeral_value (a * 10 + (of_char c - 48)) cs"
  by (simp_all add: numeral_value_def)

lemma numeral_value_mono: "a \<le> numeral_value a ds"
proof (induction ds arbitrary: a)
  case (Cons c ds)
  have "a \<le> a * 10 + (of_char c - 48)" by simp
  also have "\<dots> \<le> numeral_value (a * 10 + (of_char c - 48)) ds" by (rule Cons)
  finally show ?case by simp
qed simp

lemma numeral_value_decimal: "numeral_value 0 (decimal n) = n"
proof (induction n rule: decimal.induct)
  case (1 n)
  have "of_char (char_of (48 + k :: nat)) = 48 + k" if "k < 10" for k using that by (simp add: of_char_of)
  then show ?case using 1 by (simp add: decimal.simps [of n] numeral_value_def)
qed

lemma dec_char_value:
  assumes "dec_char c"
  shows "uint (of_char c :: u8) - of_char (CHR ''0'') = int (of_char c - 48)"
proof -
  obtain k :: nat where k: "k < 10" "c = char_of (48 + k)" using assms by (auto simp: dec_char_def)
  have "(of_char c :: u8) = of_nat (48 + k)" "(of_char c :: nat) = 48 + k" using k of_dec_char [OF k(1)] by (simp_all add: of_char_of)
  then show ?thesis using k(1) by (simp add: uint_nat unat_word_ariths unat_of_nat)
qed

lemma c_int_nat: "c_int (int k) = (if k < 2 ^ 31 then Ret (of_nat k) else Undef)"
  by (auto simp: c_int_def)

lemma sint_nat: "k < 2 ^ 31 \<Longrightarrow> sint (of_nat k :: u32) = int k"
  by (simp add: signed_of_nat signed_take_bit_int_eq_self)

lemma atoi_loop:
  assumes "\<And>j. j < length ds \<Longrightarrow> m (buf + of_nat (k + j)) = of_char (ds ! j)" and "m (buf + of_nat (k + length ds)) = 0"
    and "\<forall>c \<in> set ds. dec_char c" and "a < 2 ^ 31" and "k + length ds < 2 ^ 31"
  shows "whileM (\<lambda>(loc, acc). dec_digit (m (buf + loc)))
      (\<lambda>(loc, acc).
        andThen (c_int (sint acc * 10)) (\<lambda>acc10.
        andThen (c_int (sint acc10 + (uint (m (buf + loc)) - of_char (CHR ''0'')))) (\<lambda>acc.
        andThen (c_int (sint loc + 1)) (\<lambda>loc.
        Ret (loc, acc))))) (of_nat k, of_nat a) =
    (if numeral_value a ds < 2 ^ 31 then Ret (of_nat (k + length ds), of_nat (numeral_value a ds)) else Undef)"
  using assms
proof (induction ds arbitrary: k a)
  case Nil
  then show ?case by (simp add: whileM_exit dec_digit_def)
next
  case (Cons c ds)
  define d :: nat where "d = of_char c - 48"
  have c: "m (buf + of_nat k) = of_char c" "dec_char c" using Cons(2) [of 0] Cons(4) by simp_all
  have v: "numeral_value a (c # ds) = numeral_value (a * 10 + d) ds" by (simp add: d_def)
  have k: "sint (of_nat k :: u32) + 1 = int (Suc k)" "Suc k < 2 ^ 31" using Cons(6) by (simp_all add: sint_nat)
  have mul: "c_int (sint (of_nat a :: u32) * 10) = (if a * 10 < 2 ^ 31 then Ret (of_nat (a * 10)) else Undef)"
    using c_int_nat [of "a * 10"] Cons(5) by (simp add: sint_nat)
  have add: "c_int (sint (of_nat (a * 10) :: u32) + (uint (m (buf + of_nat k)) - of_char (CHR ''0''))) =
      (if a * 10 + d < 2 ^ 31 then Ret (of_nat (a * 10 + d)) else Undef)" if "a * 10 < 2 ^ 31"
    unfolding c(1) dec_char_value [OF c(2)] sint_nat [OF that] using c_int_nat [of "a * 10 + d"] by (simp only: of_nat_add d_def)
  have loc: "c_int (sint (of_nat k :: u32) + 1) = Ret (of_nat (Suc k))" unfolding k(1) c_int_nat using k(2) by (simp only: if_True)
  have g: "dec_digit (m (buf + of_nat k))" using c dec_char_digit(1) by simp
  show ?case
  proof (cases "a * 10 + d < 2 ^ 31")
    case True
    then have "a * 10 < 2 ^ 31" by simp
    moreover have "m (buf + of_nat (Suc k + j)) = of_char (ds ! j)" if "j < length ds" for j using Cons(2) [of "Suc j"] that by simp
    moreover have "m (buf + of_nat (Suc k + length ds)) = 0" using Cons(3) by simp
    ultimately show ?thesis unfolding v
      using Cons(1) [of "Suc k" "a * 10 + d"] Cons(4,6) True g mul add loc by (simp add: whileM_step del: of_nat_Suc of_nat_add of_nat_mult)
  next
    case False
    then have "\<not> numeral_value (a * 10 + d) ds < 2 ^ 31" using numeral_value_mono [of "a * 10 + d" ds] by simp
    then show ?thesis unfolding v
      using False g mul add by (cases "a * 10 < 2 ^ 31") (simp_all add: whileM_step del: of_nat_add of_nat_mult)
  qed
qed

lemma formatted_d:
  "formatted ''%d'' [VInt v] = Ret (if v <s 0 then CHR ''-'' # decimal (unat (- scast v :: u64)) else decimal (unat (scast v :: u64)))"
proof -
  have "sint (scast v :: u64) = sint v"
    using sint_ge [of v] sint_lt [of v] by (simp add: signed_scast_eq signed_take_bit_int_eq_self)
  then have "(scast v :: u64) <s 0 \<longleftrightarrow> v <s 0" by (simp add: word_sless_alt)
  then show ?thesis
    by (simp add: formatted_def u_fmt_conv_def fmt_conv_def getint_def fspec_init_def is_digit_def printnum_decimal)
qed

lemma int_digits:
  fixes v :: u32
  shows "v <s 0 \<Longrightarrow> unat (- scast v :: u64) = nat (- sint v)" and "\<not> v <s 0 \<Longrightarrow> unat (scast v :: u64) = nat (sint v)"
    and "v <s 0 \<longleftrightarrow> sint v < 0" and "- (2 ^ 31) \<le> sint v" and "sint v < 2 ^ 31"
proof -
  have s: "(scast v :: u64) = word_of_int (sint v)" "- (scast v :: u64) = word_of_int (- sint v)" by (simp_all only: scast_eq of_int_minus)
  show b: "- (2 ^ 31) \<le> sint v" "sint v < 2 ^ 31" "v <s 0 \<longleftrightarrow> sint v < 0" using sint_ge [of v] sint_lt [of v] by (simp_all add: word_sless_alt)
  have w: "unat (word_of_int k :: u64) = nat k" if "0 \<le> k" "k \<le> 2 ^ 31" for k
    using that by (simp add: unat_eq_nat_uint uint_word_of_int)
  show "unat (- scast v :: u64) = nat (- sint v)" if "v <s 0" unfolding s(2) using that b by (intro w) linarith+
  show "unat (scast v :: u64) = nat (sint v)" if "\<not> v <s 0" unfolding s(1) using that b by (intro w) linarith+
qed

lemma sint_most_negative: "sint v = - (2 ^ 31) \<longleftrightarrow> v = (0x80000000 :: u32)"
proof
  assume s: "sint v = - (2 ^ 31)"
  have "v = word_of_int (sint v)" by simp
  also have "\<dots> = 0x80000000" unfolding s by simp
  finally show "v = 0x80000000" .
qed simp

text \<open>A numeral at an address, read by \<^verbatim>\<open>atoi\<close>.\<close>

lemma u_atoi_string:
  assumes "\<forall>c \<in> set ds. dec_char c" and "ds \<noteq> []" and "length ds < 2 ^ 30" and "m' = put_string buf ds m"
  shows "u_atoi buf i m' =
    (if numeral_value 0 ds < 2 ^ 31 then Ret (of_nat (length ds), store32 i (of_nat (numeral_value 0 ds)) m') else Undef)"
proof -
  have c: "m' (buf + of_nat j) = of_char (ds ! j)" if "j < length ds" for j using that assms(3,4) by (simp add: put_string_def unat_of_nat)
  have z: "m' (buf + of_nat (length ds)) = 0" using assms(3,4) by (simp add: put_string_def unat_of_nat)
  have "m' buf \<noteq> of_char (CHR ''-'')" "m' buf \<noteq> of_char (CHR ''+'')"
    using c [of 0] assms(1,2) dec_char_digit(2,3) [of "ds ! 0"] by auto
  moreover have "(of_nat (length ds) :: u32) \<noteq> 0" using assms(2,3) by (simp add: word_unat_eq_iff unat_of_nat)
  ultimately show ?thesis using atoi_loop [of ds m' buf 0 0] c z assms(1,3) by (simp add: u_atoi_def)
qed

lemma u_atoi_negative:
  assumes "\<forall>c \<in> set ds. dec_char c" and "ds \<noteq> []" and "length ds < 2 ^ 30" and "m' = put_string buf (CHR ''-'' # ds) m"
  shows "u_atoi buf i m' =
    (if numeral_value 0 ds < 2 ^ 31 then Ret (of_nat (Suc (length ds)), store32 i (- of_nat (numeral_value 0 ds)) m') else Undef)"
proof -
  have c: "m' (buf + of_nat j) = of_char ((CHR ''-'' # ds) ! j)" if "j < Suc (length ds)" for j using that assms(3,4) by (simp add: put_string_def unat_of_nat)
  have z: "m' (buf + of_nat (Suc (length ds))) = 0" using assms(3,4) by (simp add: put_string_def unat_of_nat del: of_nat_Suc)
  have "m' (buf + of_nat (1 + j)) = of_char (ds ! j)" if "j < length ds" for j using c [of "Suc j"] that by simp
  moreover have "m' (buf + of_nat (1 + length ds)) = 0" using z by simp
  moreover have "(of_nat (Suc (length ds)) :: u32) \<noteq> 1" using assms(2,3) by (simp add: word_unat_eq_iff unat_word_ariths unat_of_nat)
  moreover have "c_int (- sint (of_nat k :: u32)) = Ret (- of_nat k)" if "k < 2 ^ 31" for k using that by (simp add: sint_nat c_int_def)
  ultimately show ?thesis using atoi_loop [of ds m' buf 1 0] c [of 0] assms(1,3) by (simp add: u_atoi_def)
qed

section \<open>Properties\<close>

text \<open>
  (C22) \<^verbatim>\<open>snprintf\<close> stays in its buffer: with room for one character at least, in a buffer that does not wrap around, it prints the
  first \<open>n - 1\<close> characters of the formatted text and a null byte, changes nothing else, and returns the length that the
  whole text has, so that a caller sees that it was cut; a format that does not fit its arguments fails in the same way as
  without the limit.
\<close>

theorem u_snprintf_correct:
  assumes "0 < n" and "unat buf + unat n \<le> 2 ^ 32"
  shows "u_snprintf buf n fmt ap m = andThen (formatted fmt ap) (\<lambda>out. Ret (of_nat (length out),
    (\<lambda>a. let k = unat (a - buf); l = min (length out) (unat n - 1) in if k < l then of_char (out ! k) else if k = l then 0 else m a)))"
  using u_snprintf_formatted [OF assms, of fmt ap m] by (simp add: put_string_def Let_def cong: if_cong)

theorem u_snprintf_correct_witness:
  "returns (u_snprintf 0x1000 6 ''x = %d'' [VInt 42] (\<lambda>_. 7)) (\<lambda>(len, m). len = 6 \<and> m 0x1004 = of_char (CHR ''4'') \<and> m 0x1005 = 0 \<and> m 0x1006 = 7)"
proof -
  have f: "formatted ''x = %d'' [VInt 42] = Ret ''x = 42''"
    by (simp add: formatted_def u_fmt_conv_def fmt_conv_def getint_def fspec_init_def is_digit_def printnum.simps digit_def word_sless_alt)
  have "u_snprintf 0x1000 6 ''x = %d'' [VInt 42] (\<lambda>_. 7) = andThen (formatted ''x = %d'' [VInt 42]) (\<lambda>out. Ret (of_nat (length out),
    (\<lambda>a. let k = unat (a - 0x1000); l = min (length out) (unat (6 :: u32) - 1) in if k < l then of_char (out ! k) else if k = l then 0 else 7)))"
    by (rule u_snprintf_correct) simp_all
  then show ?thesis by (simp add: f Let_def)
qed

text \<open>
  (C23) \<^verbatim>\<open>atoi\<close> reads back what \<^verbatim>\<open>snprintf\<close> prints: for every \<^verbatim>\<open>int\<close> but the most negative one and every buffer of 12 bytes or more,
  \<^verbatim>\<open>atoi\<close> of the printed number returns the length that \<^verbatim>\<open>snprintf\<close> has returned and stores the number, without a signed
  overflow on the way. The most negative number, which \<^verbatim>\<open>snprintf\<close> prints as well, overflows the accumulator of \<^verbatim>\<open>atoi\<close>, which is
  undefined in C.
\<close>

theorem snprintf_atoi_roundtrip:
  assumes "12 \<le> n" and "unat buf + unat n \<le> 2 ^ 32"
  shows "returns (u_snprintf buf n ''%d'' [VInt v] m) (\<lambda>(len, m').
    u_atoi buf i m' = (if v = 0x80000000 then Undef else Ret (len, store32 i v m')))"
proof -
  have n: "0 < n" "12 \<le> unat n" using assms(1) by (auto simp: word_le_nat_alt word_less_nat_alt)
  note b = int_digits(3-5) [of v]
  show ?thesis
  proof (cases "v <s 0")
    case True
    let ?ds = "decimal (nat (- sint v))"
    have l: "0 < length ?ds" "length ?ds \<le> 10" using decimal_length [of "nat (- sint v)" 9] b True by simp_all
    have "u_atoi buf i (put_string buf (CHR ''-'' # ?ds) m) = (if nat (- sint v) < 2 ^ 31
        then Ret (of_nat (Suc (length ?ds)), store32 i (- of_nat (nat (- sint v))) (put_string buf (CHR ''-'' # ?ds) m)) else Undef)"
      by (subst u_atoi_negative [OF _ _ _ refl]) (use l in \<open>auto simp: numeral_value_decimal dest: decimal_chars\<close>)
    moreover have "nat (- sint v) < 2 ^ 31 \<longleftrightarrow> v \<noteq> 0x80000000" "- of_nat (nat (- sint v)) = v"
      using b True sint_most_negative [of v] by auto
    ultimately show ?thesis
      using True n l by (simp add: u_snprintf_formatted [OF n(1) assms(2)] formatted_d int_digits(1))
  next
    case False
    let ?ds = "decimal (nat (sint v))"
    have l: "0 < length ?ds" "length ?ds \<le> 10" using decimal_length [of "nat (sint v)" 9] b False by simp_all
    have "nat (sint v) < 2 ^ 31" "of_nat (nat (sint v)) = v" "v \<noteq> 0x80000000" using b False by (auto simp: word_sless_alt)
    moreover have "u_atoi buf i (put_string buf ?ds m) = (if nat (sint v) < 2 ^ 31
        then Ret (of_nat (length ?ds), store32 i (of_nat (nat (sint v))) (put_string buf ?ds m)) else Undef)"
      by (subst u_atoi_string [OF _ _ _ refl]) (use l in \<open>auto simp: numeral_value_decimal dest: decimal_chars\<close>)
    ultimately show ?thesis
      using False n l by (simp add: u_snprintf_formatted [OF n(1) assms(2)] formatted_d int_digits(2))
  qed
qed

theorem snprintf_atoi_roundtrip_witness:
  "returns (u_snprintf 0x40001000 16 ''%d'' [VInt 0x80000001] (\<lambda>_. 0)) (\<lambda>(len, m'). u_atoi 0x40001000 0x40002000 m' = Ret (len, store32 0x40002000 0x80000001 m'))"
  using snprintf_atoi_roundtrip [of 16 "0x40001000" "0x80000001" "\<lambda>_. 0" "0x40002000"] by simp

text \<open>
  (C24) \<^verbatim>\<open>printf\<close> of a user program gives the whole text to the kernel, in order and without a loss, however long it is, and returns its
  length. Whatever the kernel does with the calls, and whether or not they come back, \<^verbatim>\<open>printf\<close> behaves as if the formatted text were cut into
  pieces of 511 characters and a last shorter one, and each piece put into the buffer on the stack with a null byte
  and given to \<^verbatim>\<open>SYS_puts\<close> with its length. The pieces make up the text.
\<close>

theorem u_printf_correct:
  assumes "formatted fmt ap = Ret out"
  shows "u_printf intr sp fmt ap u = andThen (forM (pieces out) (puts_piece intr sp) u) (\<lambda>u. Ret (of_nat (length out), u)) \<and>
    concat (pieces out) = out \<and> (\<forall>p \<in> set (pieces out). length p \<le> 511)"
  using u_printf_pieces [OF assms] concat_pieces length_pieces by blast

text \<open>
  A process with a screen of its own, and a system call that treats its arguments as \<^verbatim>\<open>sys_puts\<close> of the kernel does: a buffer outside the
  user range is refused, and of the bytes those before the first null byte are shown.
\<close>

record uscreen = uproc +
  shown :: string

definition screen_gate :: "uscreen gate" where
  "screen_gate nr args u = (case args of
     [s, len] \<Rightarrow>
       if nr \<noteq> SYS_puts then Undef
       else if \<not> (VM_USERLO \<le> s \<and> s + len \<le> VM_USERHI) then Ret (4, s, u)
       else Ret (0, s, u\<lparr>shown := shown u @ takeWhile (\<lambda>c. c \<noteq> CHR 0x00) (mem_chars (umem u) s (unat len))\<rparr>)
   | _ \<Rightarrow> Undef)"

lemma screen_gate_piece:
  assumes "VM_USERLO \<le> sp" and "sp + of_nat (length cs) \<le> VM_USERHI" and "length cs \<le> 511" and "CHR 0x00 \<notin> set cs"
  shows "puts_piece screen_gate sp cs u = Ret (u\<lparr>umem := put_string sp cs (umem u), shown := shown u @ cs\<rparr>)"
proof -
  have "takeWhile (\<lambda>c. c \<noteq> CHR 0x00) cs = cs" using assms(4) by (auto simp: takeWhile_eq_all_conv)
  moreover have "mem_chars (put_string sp cs (umem u)) sp (length cs) = cs" using assms(3) by (intro mem_chars_put) simp
  moreover have "unat (of_nat (length cs) :: u32) = length cs" using assms(3) by (simp add: unat_of_nat)
  ultimately show ?thesis using assms(1,2) by (simp add: puts_piece_def u_sys_puts_def screen_gate_def)
qed

lemma formatted_plain: "CHR ''%'' \<notin> set cs \<Longrightarrow> formatted cs ap = Ret cs"
proof -
  have "CHR ''%'' \<notin> set cs \<Longrightarrow> u_vprintfmt (\<lambda>c out. Ret (out @ [c])) x cs ap = Ret (x @ cs)" for x by (induction cs arbitrary: x) auto
  then show "CHR ''%'' \<notin> set cs \<Longrightarrow> formatted cs ap = Ret cs" by (simp add: formatted_def)
qed

theorem u_printf_correct_witness:
  "returns (u_printf screen_gate 0xEFFFE000 (replicate 600 (CHR ''x'')) [] \<lparr>umem = (\<lambda>_. 0), shown = ''> ''\<rparr>)
     (\<lambda>(cnt, t). cnt = 600 \<and> shown t = ''> '' @ replicate 600 (CHR ''x''))"
proof -
  have f: "formatted (replicate 600 (CHR ''x'')) [] = Ret (replicate 600 (CHR ''x''))" by (rule formatted_plain) simp
  have p: "pieces (replicate 600 (CHR ''x'')) = [replicate 511 (CHR ''x''), replicate 89 (CHR ''x'')]"
    by (simp add: pieces.simps)
  have r: "replicate 511 c @ replicate 89 c = replicate 600 c" for c :: char by (simp flip: replicate_add)
  from u_printf_correct [OF f, of screen_gate "0xEFFFE000" "\<lparr>umem = (\<lambda>_. 0), shown = ''> ''\<rparr>"] show ?thesis
    by (simp add: p screen_gate_piece r)
qed

end
