(* ===== verification/Monitor.thy ===== *)
theory Monitor
  imports Trap Partial
begin

unbundle bit_operations_syntax

text \<open>
  The kernel monitor, \<^verbatim>\<open>kern/lib/monitor.c\<close>: a loop that reads a line from the console, splits it into words in place
  and runs a command. The addresses that the linker gives to the sections of the kernel are parameters.
\<close>

datatype command = Mon_help | Mon_kerninfo

definition commands :: "(string \<times> string \<times> command) list" where
  "commands =
     [(''help'', ''Display this list of commands'', Mon_help),
      (''kerninfo'', ''Display information about the kernel'', Mon_kerninfo)]"

definition mon_help :: "('s, 'b) world_scheme \<Rightarrow> 'a mcons_scheme \<Rightarrow> (u32 \<times> 'a mcons_scheme) outcome" where
  "mon_help w s =
     andThen (forM commands (\<lambda>(name, desc, _) s.
       andThen (dprintf w (''%s - %s'' @ [CHR 0x0A]) [VStr (Some name), VStr (Some desc)] s) (\<lambda>(_, s). Ret s)) s) (\<lambda>s.
     Ret (0, s))"

definition ROUNDDOWN :: "u32 \<Rightarrow> u32 \<Rightarrow> u32" where "ROUNDDOWN a n = a - a mod n"
definition ROUNDUP :: "u32 \<Rightarrow> u32 \<Rightarrow> u32" where "ROUNDUP a n = ROUNDDOWN (a + n - 1) n"

definition mon_kerninfo :: "('s, 'b) world_scheme \<Rightarrow> 'a mcons_scheme \<Rightarrow> (u32 \<times> 'a mcons_scheme) outcome" where
  "mon_kerninfo w s =
     (let first = w_local w ''start''; last = w_local w ''end'' in
      andThen (dprintf w (''Special kernel symbols:'' @ [CHR 0x0A]) [] s) (\<lambda>(_, s).
      andThen (dprintf w (''  start  %08x'' @ [CHR 0x0A]) [VInt first] s) (\<lambda>(_, s).
      andThen (dprintf w (''  etext  %08x'' @ [CHR 0x0A]) [VInt (w_local w ''etext'')] s) (\<lambda>(_, s).
      andThen (dprintf w (''  edata  %08x'' @ [CHR 0x0A]) [VInt (w_local w ''edata'')] s) (\<lambda>(_, s).
      andThen (dprintf w (''  end    %08x'' @ [CHR 0x0A]) [VInt last] s) (\<lambda>(_, s).
      andThen (dprintf w (''Kernel executable memory footprint: %dKB'' @ [CHR 0x0A]) [VInt (ROUNDUP (last - first) 1024 div 1024)] s) (\<lambda>(_, s).
      Ret (0, s))))))))"

definition run_command :: "('s, 'b) world_scheme \<Rightarrow> command \<Rightarrow> 'a mcons_scheme \<Rightarrow> (u32 \<times> 'a mcons_scheme) outcome" where
  "run_command w c s = (case c of Mon_help \<Rightarrow> mon_help w s | Mon_kerninfo \<Rightarrow> mon_kerninfo w s)"

section \<open>Command interpreter\<close>

definition whitespace :: "u8 \<Rightarrow> bool" where
  "whitespace c \<longleftrightarrow> c = 9 \<or> c = 13 \<or> c = 10 \<or> c = 32"

abbreviation (input) MAXARGS :: nat where "MAXARGS \<equiv> 16"

text \<open>
  The loop over the words: the place in the line, the words found, the line, and how the loop has ended: at the end of the line
  (\<open>Some True\<close>) or with too many words (\<open>Some False\<close>).
\<close>

definition runcmd_word :: "u32 \<times> u32 list \<times> (u32 \<Rightarrow> u8) \<times> bool option \<Rightarrow> (u32 \<times> u32 list \<times> (u32 \<Rightarrow> u8) \<times> bool option) outcome" where
  "runcmd_word = (\<lambda>(buf, argv, l, _).
     andThen (whileM (\<lambda>(buf, l). l buf \<noteq> 0 \<and> whitespace (l buf)) (\<lambda>(buf, l). Ret (buf + 1, l(buf := 0))) (buf, l)) (\<lambda>(buf, l).
     if l buf = 0 then Ret (buf, argv, l, Some True)
     else if length argv = MAXARGS - 1 then Ret (buf, argv, l, Some False)
     else
       andThen (whileM (\<lambda>b. l b \<noteq> 0 \<and> \<not> whitespace (l b)) (\<lambda>b. Ret (b + 1)) buf) (\<lambda>buf'.
       Ret (buf', argv @ [buf], l, None))))"

text \<open>Whether the string at an address is a given one.\<close>

primrec streq :: "(u32 \<Rightarrow> u8) \<Rightarrow> u32 \<Rightarrow> string \<Rightarrow> bool" where
  "streq l p [] = (l p = 0)"
| "streq l p (c # cs) = (l p = of_char c \<and> streq l (p + 1) cs)"

definition runcmd :: "('s, 'b) world_scheme \<Rightarrow> 'a mcons_scheme \<Rightarrow> (u32 \<times> 'a mcons_scheme) outcome" where
  "runcmd w s =
     andThen (whileM (\<lambda>(_, _, _, r). r = None) runcmd_word (0, [], linebuf s, None)) (\<lambda>(_, argv, l, r).
     let s = s\<lparr>linebuf := l\<rparr> in
     if r = Some False then
       andThen (dprintf w (''Too many arguments (max %d)'' @ [CHR 0x0A]) [VInt (of_nat MAXARGS)] s) (\<lambda>(_, s). Ret (0, s))
     else
       case argv of
         [] \<Rightarrow> Ret (0, s)
       | name # _ \<Rightarrow>
           (case find (\<lambda>(n, _, _). streq l name n) commands of
              Some (_, _, c) \<Rightarrow> run_command w c s
            | None \<Rightarrow>
                andThen (dprintf w (''Unknown command '' @ [CHR 0x27] @ ''%s'' @ [CHR 0x27, CHR 0x0A]) [VStr (Some (mem_string 1024 l name))] s) (\<lambda>(_, s).
                Ret (0, s))))"

definition monitor :: "('s, 'b) world_scheme \<Rightarrow> 'a mcons_scheme \<Rightarrow> 'a mcons_scheme outcome" where
  "monitor w s =
     (let bar = [CHR 0x0A] @ ''****************************************'' @ [CHR 0x0A, CHR 0x0A] in
      andThen (dprintf w bar [] s) (\<lambda>(_, s).
      andThen (dprintf w (''Welcome to the mCertiKOS kernel monitor!'' @ [CHR 0x0A]) [] s) (\<lambda>(_, s).
      andThen (dprintf w bar [] s) (\<lambda>(_, s).
      andThen (dprintf w (''Type '' @ [CHR 0x27] @ ''help'' @ [CHR 0x27] @ '' for a list of commands.'' @ [CHR 0x0A]) [] s) (\<lambda>(_, s).
      andThen (whileM (\<lambda>(stop, s). \<not> stop)
        (\<lambda>(_, s). andThen (readline w (Some ''$> '') s) (\<lambda>(line, s).
          if line then andThen (runcmd w s) (\<lambda>(r, s). Ret (r <s 0, s)) else Ret (False, s))) (False, s)) (\<lambda>(_, s).
      Ret s))))))"

text \<open>Every command returns 0, so the monitor never comes to an end by itself.\<close>

lemma run_command_zero: "run_command w c s = Ret (r, t) \<Longrightarrow> r = 0"
  by (cases c) (auto simp: run_command_def mon_help_def mon_kerninfo_def Let_def andThen_eq_Ret)

lemma runcmd_zero: "runcmd w s = Ret (r, t) \<Longrightarrow> r = 0"
  unfolding runcmd_def Let_def
  by (auto simp: andThen_eq_Ret split: if_splits list.splits option.splits dest: run_command_zero)

lemma monitor_never_returns: "monitor w s \<noteq> Ret t"
proof -
  let ?c = "\<lambda>(_ :: bool, s). andThen (readline w (Some ''$> '') s) (\<lambda>(line, s).
          if line then andThen (runcmd w s) (\<lambda>(r, s). Ret (r <s 0, s)) else Ret (False, s))"
  have "whileM (\<lambda>(stop, s). \<not> stop) ?c (False, s) \<noteq> Ret (x, t)" for s x t
  proof -
    have "ends (whileM (\<lambda>(stop, s). \<not> stop) ?c (False, s)) (\<lambda>_. False)"
      by (rule ends_whileM [where I = "\<lambda>(stop, _). \<not> stop"])
        (auto simp: ends_def andThen_eq_Ret split: if_splits outcome.splits dest: runcmd_zero)
    then show ?thesis by (auto simp: ends_def)
  qed
  then show ?thesis unfolding monitor_def Let_def by (auto simp: andThen_eq_Ret)
qed

end
