(* ===== verification/Unit_Tests.thy ===== *)
theory Unit_Tests
  imports Thread
begin

unbundle bit_operations_syntax

text \<open>
  The tests that the sources keep beside the modules, the files \<^verbatim>\<open>test.c\<close> under \<^verbatim>\<open>kern/pmm\<close>, \<^verbatim>\<open>kern/vmm\<close> and
  \<^verbatim>\<open>kern/thread\<close>. A test returns 0 when it passes and 1 when it fails, with the state it leaves; what it prints
  is left out. The tests of a module run from left to right and their results are added. The functions
  \<^verbatim>\<open>..._test_own\<close> are empty and return 0.
\<close>

text \<open>One check of a test: it returns 1 when the condition for a failure holds.\<close>

definition fails_if :: "bool \<Rightarrow> 's \<Rightarrow> ('s \<Rightarrow> (u32 \<times> 's) outcome) \<Rightarrow> (u32 \<times> 's) outcome" where
  "fails_if b s k = (if b then Ret (1, s) else k s)"

definition and_test :: "('s \<Rightarrow> (u32 \<times> 's) outcome) \<Rightarrow> ('s \<Rightarrow> (u32 \<times> 's) outcome) \<Rightarrow> 's \<Rightarrow> (u32 \<times> 's) outcome" where
  "and_test t t' s = andThen (t s) (\<lambda>(r, s). andThen (t' s) (\<lambda>(r', s). Ret (r + r', s)))"

definition test_own :: "'s \<Rightarrow> (u32 \<times> 's) outcome" where
  "test_own s = Ret (0, s)"

text \<open>A loop of checks over a range of numbers, left at the first failure.\<close>

primrec test_each :: "('i \<Rightarrow> 's \<Rightarrow> (u32 \<times> 's) outcome) \<Rightarrow> 'i list \<Rightarrow> 's \<Rightarrow> (u32 \<times> 's) outcome" where
  "test_each f [] s = Ret (0, s)"
| "test_each f (i # is) s = andThen (f i s) (\<lambda>(r, s). if r \<noteq> 0 then Ret (r, s) else test_each f is s)"

section \<open>Physical memory (MATIntro, MATInit, MATOp, MContainer)\<close>

definition MATIntro_test1 :: "'a mat_scheme \<Rightarrow> (u32 \<times> 'a mat_scheme) outcome" where
  "MATIntro_test1 s =
     (let nps = get_nps s in
      andThen (test_each (\<lambda>n s. let s = set_nps n s in fails_if (get_nps s \<noteq> n) s (\<lambda>s. Ret (0, s)))
        [1, 3, 5, 6, 78, 3576, 32, 8, 0, 100] s) (\<lambda>(r, s).
      Ret (r, set_nps nps s)))"

definition MATIntro_test2_check :: "u32 \<Rightarrow> u32 \<Rightarrow> 'a mat_scheme \<Rightarrow> (u32 \<times> 'a mat_scheme) outcome" where
  "MATIntro_test2_check perm norm s =
     andThen (at_set_perm 0 perm s) (\<lambda>s.
     andThen (at_is_norm 0 s) (\<lambda>n.
     andThen (at_is_allocated 0 s) (\<lambda>a.
     if n \<noteq> norm \<or> a \<noteq> 0 then andThen (at_set_perm 0 0 s) (\<lambda>s. Ret (1, s)) else Ret (0, s))))"

definition MATIntro_test2 :: "'a mat_scheme \<Rightarrow> (u32 \<times> 'a mat_scheme) outcome" where
  "MATIntro_test2 s =
     andThen (test_each (\<lambda>(perm, norm). MATIntro_test2_check perm norm) [(0, 0), (1, 0), (2, 1), (100, 1)] s) (\<lambda>(r, s).
     if r \<noteq> 0 then Ret (r, s) else andThen (at_set_perm 0 0 s) (\<lambda>s. Ret (0, s)))"

definition MATIntro_test3_check :: "u32 \<Rightarrow> u32 \<Rightarrow> 'a mat_scheme \<Rightarrow> (u32 \<times> 'a mat_scheme) outcome" where
  "MATIntro_test3_check allocated result s =
     andThen (at_set_allocated 1 allocated s) (\<lambda>s.
     andThen (at_is_allocated 1 s) (\<lambda>a.
     if a \<noteq> result then andThen (at_set_allocated 1 0 s) (\<lambda>s. Ret (1, s)) else Ret (0, s)))"

definition MATIntro_test3 :: "'a mat_scheme \<Rightarrow> (u32 \<times> 'a mat_scheme) outcome" where
  "MATIntro_test3 s =
     andThen (test_each (\<lambda>(allocated, result). MATIntro_test3_check allocated result) [(0, 0), (1, 1), (100, 1)] s) (\<lambda>(r, s).
     if r \<noteq> 0 then Ret (r, s) else andThen (at_set_allocated 1 0 s) (\<lambda>s. Ret (0, s)))"

definition test_MATIntro :: "'a mat_scheme \<Rightarrow> (u32 \<times> 'a mat_scheme) outcome" where
  "test_MATIntro = and_test (and_test (and_test MATIntro_test1 MATIntro_test2) MATIntro_test3) test_own"

definition MATInit_test1 :: "'a mat_scheme \<Rightarrow> (u32 \<times> 'a mat_scheme) outcome" where
  "MATInit_test1 s =
     (let nps = get_nps s in
      fails_if (nps \<le>s 1000) s (\<lambda>s.
      test_each (\<lambda>i s.
        andThen (at_is_allocated i s) (\<lambda>a.
        fails_if (a \<noteq> 0) s (\<lambda>s.
        if i < VM_USERLO_PI \<or> VM_USERHI_PI \<le> i then andThen (at_is_norm i s) (\<lambda>n. fails_if (n \<noteq> 0) s (\<lambda>s. Ret (0, s))) else Ret (0, s))))
        (range32 0 (unat nps)) s))"

definition test_MATInit :: "'a mat_scheme \<Rightarrow> (u32 \<times> 'a mat_scheme) outcome" where
  "test_MATInit = and_test MATInit_test1 test_own"

definition MATOp_test1 :: "'a mat_scheme \<Rightarrow> (u32 \<times> 'a mat_scheme) outcome" where
  "MATOp_test1 s =
     andThen (palloc s) (\<lambda>(page_index, s).
     let failed = (\<lambda>s. andThen (pfree page_index s) (\<lambda>s. Ret (1, s))) in
     if page_index < VM_USERLO_PI \<or> VM_USERHI_PI \<le> page_index then failed s
     else
       andThen (at_is_norm page_index s) (\<lambda>n.
       if n \<noteq> 1 then failed s
       else
         andThen (at_is_allocated page_index s) (\<lambda>a.
         if a \<noteq> 1 then failed s
         else
           andThen (pfree page_index s) (\<lambda>s.
           andThen (at_is_allocated page_index s) (\<lambda>a.
           fails_if (a \<noteq> 0) s (\<lambda>s. Ret (0, s)))))))"

definition test_MATOp :: "'a mat_scheme \<Rightarrow> (u32 \<times> 'a mat_scheme) outcome" where
  "test_MATOp = and_test MATOp_test1 test_own"

definition MContainer_test1 :: "'a mcont_scheme \<Rightarrow> (u32 \<times> 'a mcont_scheme) outcome" where
  "MContainer_test1 s =
     andThen (container_get_quota 0 s) (\<lambda>q.
     fails_if (q \<le> 10000) s (\<lambda>s.
     andThen (container_can_consume 0 10000 s) (\<lambda>ok.
     fails_if (\<not> ok) s (\<lambda>s.
     andThen (container_can_consume 0 10000000 s) (\<lambda>ok.
     fails_if ok s (\<lambda>s. Ret (0, s)))))))"

definition MContainer_test2 :: "'a mcont_scheme \<Rightarrow> (u32 \<times> 'a mcont_scheme) outcome" where
  "MContainer_test2 s =
     andThen (container_get_usage 0 s) (\<lambda>old_usage.
     andThen (container_get_nchildren 0 s) (\<lambda>old_nchildren.
     andThen (container_split 0 100 s) (\<lambda>(chid, s).
     andThen (container_get_quota chid s) (\<lambda>q.
     andThen (container_get_parent chid s) (\<lambda>p.
     andThen (container_get_usage chid s) (\<lambda>u.
     andThen (container_get_nchildren chid s) (\<lambda>n.
     andThen (container_get_usage 0 s) (\<lambda>u0.
     andThen (container_get_nchildren 0 s) (\<lambda>n0.
     fails_if (q \<noteq> 100 \<or> p \<noteq> 0 \<or> u \<noteq> 0 \<or> n \<noteq> 0 \<or> u0 \<noteq> old_usage + 100 \<or> n0 \<noteq> old_nchildren + 1) s (\<lambda>s.
     andThen (container_alloc chid s) (\<lambda>(_, s).
     andThen (container_get_usage chid s) (\<lambda>u.
     fails_if (u \<noteq> 1) s (\<lambda>s. Ret (0, s))))))))))))))"

definition test_MContainer :: "'a mcont_scheme \<Rightarrow> (u32 \<times> 'a mcont_scheme) outcome" where
  "test_MContainer = and_test (and_test MContainer_test1 MContainer_test2) test_own"

section \<open>Virtual memory (MPTIntro, MPTOp, MPTComm, MPTKern, MPTNew)\<close>

text \<open>\<^verbatim>\<open>4096 * 1024\<close>, the memory that one entry of a page directory covers.\<close>

abbreviation (input) PDE_SIZE :: u32 where "PDE_SIZE \<equiv> 0x400000"

definition MPTIntro_test1 :: "'a mpt_scheme \<Rightarrow> (u32 \<times> 'a mpt_scheme) outcome" where
  "MPTIntro_test1 s =
     andThen (set_pdir_base 0 s) (\<lambda>s.
     fails_if (PDirPool_addr s \<noteq> cr3 s) s (\<lambda>s.
     andThen (set_pdir_entry_identity 1 1 s) (\<lambda>s.
     andThen (set_pdir_entry 1 2 100 s) (\<lambda>s.
     andThen (get_pdir_entry 1 1 s) (\<lambda>e.
     fails_if (e \<noteq> IDPTbl_addr s + 4096 + 7) s (\<lambda>s.
     andThen (get_pdir_entry 1 2 s) (\<lambda>e.
     fails_if (e \<noteq> 409607) s (\<lambda>s.
     andThen (rmv_pdir_entry 1 1 s) (\<lambda>s.
     andThen (rmv_pdir_entry 1 2 s) (\<lambda>s.
     andThen (get_pdir_entry 1 1 s) (\<lambda>e1.
     andThen (get_pdir_entry 1 2 s) (\<lambda>e2.
     fails_if (e1 \<noteq> 0 \<or> e2 \<noteq> 0) s (\<lambda>s. Ret (0, s))))))))))))))"

definition MPTIntro_test2 :: "'a mpt_scheme \<Rightarrow> (u32 \<times> 'a mpt_scheme) outcome" where
  "MPTIntro_test2 s =
     andThen (set_pdir_entry 1 1 10000 s) (\<lambda>s.
     andThen (set_ptbl_entry 1 1 1 10000 259 s) (\<lambda>s.
     andThen (get_ptbl_entry 1 1 1 s) (\<lambda>e.
     fails_if (e \<noteq> 40960259) s (\<lambda>s.
     andThen (rmv_ptbl_entry 1 1 1 s) (\<lambda>s.
     andThen (get_ptbl_entry 1 1 1 s) (\<lambda>e.
     fails_if (e \<noteq> 0) s (\<lambda>s.
     andThen (rmv_pdir_entry 1 1 s) (\<lambda>s. Ret (0, s)))))))))"

definition test_MPTIntro :: "'a mpt_scheme \<Rightarrow> (u32 \<times> 'a mpt_scheme) outcome" where
  "test_MPTIntro = and_test (and_test MPTIntro_test1 MPTIntro_test2) test_own"

text \<open>The checks of a page table entry and of a directory entry by address, for zero or for something else.\<close>

definition ptbl_check :: "u32 \<Rightarrow> u32 \<Rightarrow> (u32 \<Rightarrow> bool) \<Rightarrow> 'a mpt_scheme \<Rightarrow> ('a mpt_scheme \<Rightarrow> (u32 \<times> 'a mpt_scheme) outcome) \<Rightarrow> (u32 \<times> 'a mpt_scheme) outcome" where
  "ptbl_check pid vaddr bad s k = andThen (get_ptbl_entry_by_va pid vaddr s) (\<lambda>e. fails_if (bad e) s k)"

definition pdir_check :: "u32 \<Rightarrow> u32 \<Rightarrow> (u32 \<Rightarrow> bool) \<Rightarrow> 'a mpt_scheme \<Rightarrow> ('a mpt_scheme \<Rightarrow> (u32 \<times> 'a mpt_scheme) outcome) \<Rightarrow> (u32 \<times> 'a mpt_scheme) outcome" where
  "pdir_check pid vaddr bad s k = andThen (get_pdir_entry_by_va pid vaddr s) (\<lambda>e. fails_if (bad e) s k)"

definition MPTOp_test1 :: "'a mpt_scheme \<Rightarrow> (u32 \<times> 'a mpt_scheme) outcome" where
  "MPTOp_test1 s =
     (let vaddr = PDE_SIZE * 300 in
      ptbl_check 10 vaddr (\<lambda>e. e \<noteq> 0) s (\<lambda>s.
      pdir_check 10 vaddr (\<lambda>e. e \<noteq> 0) s (\<lambda>s.
      andThen (set_pdir_entry_by_va 10 vaddr 100 s) (\<lambda>s.
      andThen (set_ptbl_entry_by_va 10 vaddr 100 259 s) (\<lambda>s.
      ptbl_check 10 vaddr (\<lambda>e. e = 0) s (\<lambda>s.
      pdir_check 10 vaddr (\<lambda>e. e = 0) s (\<lambda>s.
      andThen (rmv_ptbl_entry_by_va 10 vaddr s) (\<lambda>s.
      andThen (rmv_pdir_entry_by_va 10 vaddr s) (\<lambda>s.
      ptbl_check 10 vaddr (\<lambda>e. e \<noteq> 0) s (\<lambda>s.
      pdir_check 10 vaddr (\<lambda>e. e \<noteq> 0) s (\<lambda>s. Ret (0, s))))))))))))"

definition test_MPTOp :: "'a mpt_scheme \<Rightarrow> (u32 \<times> 'a mpt_scheme) outcome" where
  "test_MPTOp = and_test MPTOp_test1 test_own"

definition MPTComm_test1 :: "'a mpt_scheme \<Rightarrow> (u32 \<times> 'a mpt_scheme) outcome" where
  "MPTComm_test1 s =
     test_each (\<lambda>i s.
       if i < 256 \<or> 960 \<le> i then ptbl_check 10 (i * PDE_SIZE) (\<lambda>e. e \<noteq> i * PDE_SIZE + 259) s (\<lambda>s. Ret (0, s)) else Ret (0, s))
       (range32 0 1024) s"

definition MPTComm_test2 :: "'a mpt_scheme \<Rightarrow> (u32 \<times> 'a mpt_scheme) outcome" where
  "MPTComm_test2 s =
     (let vaddr = 300 * PDE_SIZE in
      andThen (container_split 0 100 s) (\<lambda>(_, s).
      andThen (alloc_ptbl 1 vaddr s) (\<lambda>(_, s).
      pdir_check 1 vaddr (\<lambda>e. e = 0) s (\<lambda>s.
      ptbl_check 1 vaddr (\<lambda>e. e \<noteq> 0) s (\<lambda>s.
      andThen (free_ptbl 1 vaddr s) (\<lambda>s.
      pdir_check 1 vaddr (\<lambda>e. e \<noteq> 0) s (\<lambda>s. Ret (0, s))))))))"

definition test_MPTComm :: "'a mpt_scheme \<Rightarrow> (u32 \<times> 'a mpt_scheme) outcome" where
  "test_MPTComm = and_test (and_test MPTComm_test1 MPTComm_test2) test_own"

definition MPTKern_test1 :: "'a mpt_scheme \<Rightarrow> (u32 \<times> 'a mpt_scheme) outcome" where
  "MPTKern_test1 s =
     (let vaddr = PDE_SIZE * 300 in
      andThen (container_split 0 100 s) (\<lambda>(_, s).
      ptbl_check 1 vaddr (\<lambda>e. e \<noteq> 0) s (\<lambda>s.
      pdir_check 1 vaddr (\<lambda>e. e \<noteq> 0) s (\<lambda>s.
      andThen (map_page 1 vaddr 100 7 s) (\<lambda>(_, s).
      ptbl_check 1 vaddr (\<lambda>e. e = 0) s (\<lambda>s.
      pdir_check 1 vaddr (\<lambda>e. e = 0) s (\<lambda>s.
      andThen (unmap_page 1 vaddr s) (\<lambda>(_, s).
      ptbl_check 1 vaddr (\<lambda>e. e \<noteq> 0) s (\<lambda>s. Ret (0, s))))))))))"

definition MPTKern_test2 :: "'a mpt_scheme \<Rightarrow> (u32 \<times> 'a mpt_scheme) outcome" where
  "MPTKern_test2 s =
     test_each (\<lambda>i s. ptbl_check 0 (i * PDE_SIZE) (\<lambda>e. e \<noteq> i * PDE_SIZE + 3) s (\<lambda>s. Ret (0, s))) (range32 256 960) s"

definition test_MPTKern :: "'a mpt_scheme \<Rightarrow> (u32 \<times> 'a mpt_scheme) outcome" where
  "test_MPTKern = and_test (and_test MPTKern_test1 MPTKern_test2) test_own"

definition MPTNew_test1 :: "'a mpt_scheme \<Rightarrow> (u32 \<times> 'a mpt_scheme) outcome" where
  "MPTNew_test1 s =
     (let vaddr = PDE_SIZE * 400 in
      andThen (container_split 0 100 s) (\<lambda>(_, s).
      ptbl_check 1 vaddr (\<lambda>e. e \<noteq> 0) s (\<lambda>s.
      pdir_check 1 vaddr (\<lambda>e. e \<noteq> 0) s (\<lambda>s.
      andThen (alloc_page 1 vaddr 7 s) (\<lambda>(_, s).
      ptbl_check 1 vaddr (\<lambda>e. e = 0) s (\<lambda>s.
      pdir_check 1 vaddr (\<lambda>e. e = 0) s (\<lambda>s. Ret (0, s))))))))"

definition test_MPTNew :: "'a mpt_scheme \<Rightarrow> (u32 \<times> 'a mpt_scheme) outcome" where
  "test_MPTNew = and_test MPTNew_test1 test_own"

section \<open>Threads (PKCtxNew, PTCBInit, PTQueueInit, PThread)\<close>

definition PKCtxNew_test1 :: "'a mthr_scheme \<Rightarrow> (u32 \<times> 'a mthr_scheme) outcome" where
  "PKCtxNew_test1 s =
     andThen (kctx_new 0 0 1000 s) (\<lambda>(chid, s).
     andThen (container_get_quota chid s) (\<lambda>q.
     fails_if (q \<noteq> 1000) s (\<lambda>s.
     fails_if (kc_eip (kctx_pool s chid) \<noteq> 0) s (\<lambda>s. Ret (0, s)))))"

definition test_PKCtxNew :: "'a mthr_scheme \<Rightarrow> (u32 \<times> 'a mthr_scheme) outcome" where
  "test_PKCtxNew = and_test PKCtxNew_test1 test_own"

definition PTCBInit_test1 :: "'a mthr_scheme \<Rightarrow> (u32 \<times> 'a mthr_scheme) outcome" where
  "PTCBInit_test1 s =
     test_each (\<lambda>i s.
       andThen (tcb_get_state i s) (\<lambda>st.
       andThen (tcb_get_prev i s) (\<lambda>p.
       andThen (tcb_get_next i s) (\<lambda>n.
       fails_if (st \<noteq> TSTATE_DEAD \<or> p \<noteq> NUM_IDS \<or> n \<noteq> NUM_IDS) s (\<lambda>s. Ret (0, s)))))) (range32 1 64) s"

definition test_PTCBInit :: "'a mthr_scheme \<Rightarrow> (u32 \<times> 'a mthr_scheme) outcome" where
  "test_PTCBInit = and_test PTCBInit_test1 test_own"

definition PTQueueInit_test1 :: "'a mthr_scheme \<Rightarrow> (u32 \<times> 'a mthr_scheme) outcome" where
  "PTQueueInit_test1 s =
     test_each (\<lambda>i s.
       andThen (tqueue_get_head i s) (\<lambda>h.
       andThen (tqueue_get_tail i s) (\<lambda>t.
       fails_if (h \<noteq> NUM_IDS \<or> t \<noteq> NUM_IDS) s (\<lambda>s. Ret (0, s))))) (range32 0 64) s"

definition link_check :: "u32 \<Rightarrow> u32 \<Rightarrow> u32 \<Rightarrow> 'a mthr_scheme \<Rightarrow> ('a mthr_scheme \<Rightarrow> (u32 \<times> 'a mthr_scheme) outcome) \<Rightarrow> (u32 \<times> 'a mthr_scheme) outcome" where
  "link_check pid prev next_id s k =
     andThen (tcb_get_prev pid s) (\<lambda>p.
     andThen (tcb_get_next pid s) (\<lambda>n.
     fails_if (p \<noteq> prev \<or> n \<noteq> next_id) s k))"

definition PTQueueInit_test2 :: "'a mthr_scheme \<Rightarrow> (u32 \<times> 'a mthr_scheme) outcome" where
  "PTQueueInit_test2 s =
     andThen (tqueue_enqueue 0 2 s) (\<lambda>s.
     andThen (tqueue_enqueue 0 3 s) (\<lambda>s.
     andThen (tqueue_enqueue 0 4 s) (\<lambda>s.
     link_check 2 NUM_IDS 3 s (\<lambda>s.
     link_check 3 2 4 s (\<lambda>s.
     link_check 4 3 NUM_IDS s (\<lambda>s.
     andThen (tqueue_remove 0 3 s) (\<lambda>s.
     link_check 2 NUM_IDS 4 s (\<lambda>s.
     link_check 3 NUM_IDS NUM_IDS s (\<lambda>s.
     link_check 4 2 NUM_IDS s (\<lambda>s.
     andThen (tqueue_dequeue 0 s) (\<lambda>(pid, s).
     fails_if (pid \<noteq> 2) s (\<lambda>s.
     link_check pid NUM_IDS NUM_IDS s (\<lambda>s.
     andThen (tqueue_get_head 0 s) (\<lambda>h.
     andThen (tqueue_get_tail 0 s) (\<lambda>t.
     fails_if (h \<noteq> 4 \<or> t \<noteq> 4) s (\<lambda>s. Ret (0, s)))))))))))))))))"

definition test_PTQueueInit :: "'a mthr_scheme \<Rightarrow> (u32 \<times> 'a mthr_scheme) outcome" where
  "test_PTQueueInit = and_test (and_test PTQueueInit_test1 PTQueueInit_test2) test_own"

definition PThread_test1 :: "'a mthr_scheme \<Rightarrow> (u32 \<times> 'a mthr_scheme) outcome" where
  "PThread_test1 s =
     andThen (thread_spawn 0 0 1000 s) (\<lambda>(chid, s).
     andThen (tcb_get_state chid s) (\<lambda>st.
     fails_if (st \<noteq> TSTATE_READY) s (\<lambda>s.
     andThen (tqueue_get_tail NUM_IDS s) (\<lambda>t.
     fails_if (t \<noteq> chid) s (\<lambda>s. Ret (0, s))))))"

definition test_PThread :: "'a mthr_scheme \<Rightarrow> (u32 \<times> 'a mthr_scheme) outcome" where
  "test_PThread = and_test PThread_test1 test_own"

end
