(* ===== verification/Unit_Tests_Spec.thy ===== *)
theory Unit_Tests_Spec
  imports Unit_Tests Page_Tables Scheduler
begin

unbundle bit_operations_syntax

text \<open>
  The tests of the modules pass: every test returns 0 in every state with the invariant of its module that has what the test
  uses (a free page, some quota, an entry that is not set yet), and not only in the state after the initialisation that it
  is meant for. The two tests of \<^verbatim>\<open>MPTKern\<close> pass each by itself.
\<close>

definition passes :: "('s \<Rightarrow> (u32 \<times> 's) outcome) \<Rightarrow> 's \<Rightarrow> bool" where
  "passes t s \<longleftrightarrow> returns (t s) (\<lambda>(r, _). r = 0)"

lemma passes_and_test: "returns (t s) (\<lambda>(r, s). r = 0 \<and> passes t' s) \<Longrightarrow> passes (and_test t t') s"
  unfolding passes_def and_test_def by (auto elim!: returnsE)

lemma passes_own: "passes t s \<Longrightarrow> passes (and_test t test_own) s"
  unfolding passes_def and_test_def test_own_def by (auto elim!: returnsE)

lemma passes_each:
  assumes "\<And>i. i \<in> set is \<Longrightarrow> f i s = Ret (0, s)"
  shows "test_each f is s = Ret (0, s)"
  using assms by (induction "is") simp_all

section \<open>Physical memory\<close>

lemma test_MATIntro_passes: "passes test_MATIntro s"
proof -
  have both: "passes (and_test t t') s" if "passes t s" "\<And>s. passes t' s" for t t' :: "'a mat_scheme \<Rightarrow> (u32 \<times> 'a mat_scheme) outcome" and s
    by (rule passes_and_test) (use that in \<open>auto simp: passes_def elim!: returns_mono\<close>)
  have "passes MATIntro_test1 s" for s :: "'a mat_scheme"
    by (simp add: passes_def MATIntro_test1_def Let_def set_nps_def get_nps_def fails_if_def)
  moreover have "passes MATIntro_test2 s" for s :: "'a mat_scheme"
    by (simp add: passes_def MATIntro_test2_def MATIntro_test2_check_def at_set_perm_def at_is_norm_def at_is_allocated_def bounded_def)
  moreover have "passes MATIntro_test3 s" for s :: "'a mat_scheme"
    by (simp add: passes_def MATIntro_test3_def MATIntro_test3_check_def at_set_allocated_def at_is_allocated_def bounded_def)
  ultimately show ?thesis unfolding test_MATIntro_def by (intro passes_own both)
qed

lemma test_MATInit_passes:
  assumes "1000 <s NUM_PAGES s" and "NUM_PAGES s \<le> AT_SIZE" and "\<forall>i < NUM_PAGES s. AT s i = \<lparr>at_perm = page_perm pm i, at_allocated = 0\<rparr>"
  shows "passes test_MATInit s"
proof -
  have "i < NUM_PAGES s \<and> i < AT_SIZE" if "i \<in> set (range32 0 (unat (NUM_PAGES s)))" for i
    using that assms(2) by (auto simp: set_range32 less_imp_le word_less_nat_alt word_le_nat_alt)
  moreover have "\<not> user_page i" if "i < VM_USERLO_PI \<or> VM_USERHI_PI \<le> i" for i using that by (auto simp: user_page_def)
  ultimately have "MATInit_test1 s = Ret (0, s)"
    using assms(1,3) unfolding MATInit_test1_def Let_def get_nps_def fails_if_def
    by (auto simp: at_is_allocated_def at_is_norm_def bounded_def page_perm_def word_sle_eq word_sless_alt intro!: passes_each)
  then show ?thesis unfolding test_MATInit_def by (intro passes_own) (simp add: passes_def)
qed

lemma test_MATOp_passes:
  assumes "mat_ok s" and "page_free s i"
  shows "passes test_MATOp s"
  using assms(1)
proof (cases rule: palloc_cases)
  case full
  then show ?thesis using assms(2) by blast
next
  case (page p)
  have p: "user_page p" "1 < at_perm (AT s p)" using first_free_user [OF page(1)] first_free_free [OF page(1)] by (auto simp: page_free_def page_norm_def)
  have "p < AT_SIZE" by (rule user_page_AT [OF p(1)])
  then have "passes MATOp_test1 s"
    using p assms(1) page(2) unfolding passes_def MATOp_test1_def
    by (simp add: user_page_def not_less not_le at_is_norm_def at_is_allocated_def pfree_eq mat_ok_def bounded_def fails_if_def Let_def)
  then show ?thesis unfolding test_MATOp_def by (rule passes_own)
qed

text \<open>The first container that container 0 gives away.\<close>

lemma first_child:
  assumes "cont_ok s" and "ct_is_used s 0" and "ct_nchildren (CONTAINER s 0) = 0" and "unat q \<le> ct_slack s 0"
  shows "container_split 0 q s = Ret (1, ct_gave 0 q s)" and "cont_ok (ct_gave 0 q s)" and "ct_is_used (ct_gave 0 q s) 1"
    and "ct_slack (ct_gave 0 q s) 1 = unat q"
proof -
  have c: "ct_child 0 s = 1" by (simp add: ct_child_def assms(3))
  show s: "container_split 0 q s = Ret (1, ct_gave 0 q s)" using container_split_eq [OF assms(1), of 0 q] assms(3) c by simp
  show "cont_ok (ct_gave 0 q s)" "ct_is_used (ct_gave 0 q s) 1" "ct_slack (ct_gave 0 q s) 1 = unat q"
    using container_split_ok [OF assms(1,2) _ _ assms(4)] assms(3) c by (simp_all add: s)
qed

lemma test_MContainer_passes:
  assumes ok: "cont_ok s" and u: "ct_is_used s 0" and n: "ct_nchildren (CONTAINER s 0) = 0" and a: "10000 < ct_slack s 0"
  shows "passes test_MContainer s"
proof -
  have b: "unat (ct_usage (CONTAINER s 0)) \<le> unat (ct_quota (CONTAINER s 0))" "unat (ct_quota (CONTAINER s 0)) \<le> 2 ^ 20"
    using ok u by (auto simp: cont_ok_def ct_quotas_def)
  have 1: "MContainer_test1 s = Ret (0, s)"
    using a b by (simp add: MContainer_test1_def container_get_quota_def container_can_consume_def fails_if_def ct_slack_def
      word_le_nat_alt word_less_nat_alt unat_word_ariths) linarith
  let ?t = "ct_gave 0 100 s"
  note ch = first_child [OF ok u n, of 100]
  have f: "cont_ok ?t" "ct_is_used ?t 1" "0 < ct_slack ?t 1" using ch a by simp_all
  obtain p where p: "container_alloc 1 ?t = Ret (p, ct_took 1 p ?t)" by (rule container_alloc_page [OF f])
  have v: "ct_quota (CONTAINER ?t 1) = 100" "ct_parent (CONTAINER ?t 1) = 0" "ct_usage (CONTAINER ?t 1) = 0" "ct_nchildren (CONTAINER ?t 1) = 0"
    "ct_usage (CONTAINER ?t 0) = ct_usage (CONTAINER s 0) + 100" "ct_nchildren (CONTAINER ?t 0) = ct_nchildren (CONTAINER s 0) + 1"
    by (simp_all add: ct_gave_def ct_child_def n)
  have "ct_usage (CONTAINER (ct_took 1 p ?t) 1) = 1" using v(3) by (simp add: ct_took_def)
  then have 2: "passes MContainer_test2 s"
    using a by (simp add: passes_def MContainer_test2_def container_get_usage_def container_get_nchildren_def container_get_quota_def
      container_get_parent_def bounded_def ch(1) v p fails_if_def)
  show ?thesis unfolding test_MContainer_def by (intro passes_own passes_and_test) (simp add: 1 2)
qed

section \<open>Virtual memory\<close>

lemma aligned_or:
  assumes "aligned 4096 x" and "unat perm < 4096"
  shows "x OR perm = x + perm" and "ADDR_MASK (x OR perm) = x"
proof -
  have "unat x = unat (drop_bit 12 x) * 4096" using assms(1) by (simp add: unat_drop12 aligned_def dvd_div_mult_self)
  then have x: "x = push_bit 12 (drop_bit 12 x)" by (simp add: word_unat_eq_iff unat_push12 [OF drop12_less])
  show "ADDR_MASK (x OR perm) = x" using entry_fields(2) [OF drop12_less assms(2), of x] x by metis
  have "drop_bit 12 perm = 0" using assms(2) by (simp add: word_unat_eq_iff unat_drop12)
  then have z: "\<not> bit perm (12 + n)" for n using bit_drop_bit_eq [of 12 perm] by (auto simp: fun_eq_iff)
  have "x AND perm = 0"
  proof (rule bit_word_eqI)
    fix n
    show "bit (x AND perm) n = bit 0 n" using z [of "n - 12"] by (subst x) (auto simp: bit_simps)
  qed
  from disjunctive_add_eq_or [OF this] show "x OR perm = x + perm" by simp
qed

lemma test_MPTIntro_passes:
  assumes "layout_ok s"
  shows "passes test_MPTIntro s"
proof -
  have "aligned 4096 (IDPTbl_addr s + 4096)" using assms by (auto simp: layout_ok_def aligned_def unat_word_ariths)
  from aligned_or(1) [OF this, of 7] have i: "IDPTbl_addr s + 4096 OR 7 = IDPTbl_addr s + 4096 + 7" by simp
  have 1: "returns (MPTIntro_test1 s) (\<lambda>(r, _). r = 0)"
    using i by (simp add: MPTIntro_test1_def set_pdir_base_def set_cr3_def set_pdir_entry_identity_def set_pdir_entry_def get_pdir_entry_def
      rmv_pdir_entry_def put_pdir_def pdir_bounded_def bounded_def fails_if_def Let_def)
  have 2: "passes MPTIntro_test2 s" for s :: "'a mpt_scheme"
    by (simp add: passes_def MPTIntro_test2_def set_pdir_entry_def set_ptbl_entry_def get_ptbl_entry_def rmv_ptbl_entry_def
      rmv_pdir_entry_def put_pdir_def pdir_bounded_def bounded_def fails_if_def Let_def)
  show ?thesis
    unfolding test_MPTIntro_def by (intro passes_own passes_and_test) (use 1 2 in \<open>auto elim!: returns_mono\<close>)
qed

lemma test_MPTOp_passes:
  assumes "PDirPool s 10 300 = 0"
  shows "passes test_MPTOp s"
proof -
  have "passes MPTOp_test1 s"
    using assms by (simp add: passes_def MPTOp_test1_def ptbl_check_def pdir_check_def get_ptbl_entry_by_va_def get_pdir_entry_by_va_def
      set_pdir_entry_by_va_def set_ptbl_entry_by_va_def rmv_ptbl_entry_by_va_def rmv_pdir_entry_by_va_def set_pdir_entry_def set_ptbl_entry_def
      get_pdir_entry_def get_ptbl_entry_def rmv_ptbl_entry_def rmv_pdir_entry_def put_pdir_def pdir_bounded_def bounded_def fails_if_def Let_def
      PDE_ADDR_def PTE_ADDR_def)
  then show ?thesis unfolding test_MPTOp_def by (rule passes_own)
qed

text \<open>The entries of the identity map at the start of the region of a directory entry.\<close>

lemma pde_start: "i < 1024 \<Longrightarrow> PDE_ADDR (i * 0x400000) = i" "i < 1024 \<Longrightarrow> PTE_ADDR (i * 0x400000) = 0"
  by (auto simp: word_unat_eq_iff unat_PDE unat_PTE unat_word_ariths word_less_nat_alt)

lemma get_identity_entry:
  assumes ok: "mpt_ok s" and b: "pid < NUM_IDS" "i < 1024" and n: "\<not> user_pde pid i"
  shows "get_ptbl_entry_by_va pid (i * 0x400000) s = Ret (i * 0x400000 + idptbl_perm i)"
proof -
  have a: "aligned 4096 (idpt s i)" using ok b(2) by (simp add: mpt_ok_def idpt_props)
  have pde: "PDirPool s pid i = idpt s i OR 7" using ok b n by (simp add: mpt_ok_def ident_ok_def)
  have m: "ADDR_MASK (PDirPool s pid i) = idpt s i" unfolding pde by (rule aligned_or(2) [OF a]) simp
  have nz: "PDirPool s pid i \<noteq> 0"
  proof
    assume "PDirPool s pid i = 0"
    then have "(0 :: u32) AND 7 = 7" using or7_and7 [of "idpt s i"] pde by simp
    then show False by simp
  qed
  have "aligned 4096 (i * 0x400000)" using b(2) by (auto simp: aligned_def unat_word_ariths word_less_nat_alt)
  moreover have "push_bit 22 i = i * 0x400000" by (simp add: push_bit_eq_mult)
  moreover have "unat (idptbl_perm i) < 4096" by (simp add: idptbl_perm_def)
  ultimately have "id_entry i 0 = i * 0x400000 + idptbl_perm i" using aligned_or(1) by (simp add: id_entry_def)
  then show ?thesis
    using ok b m nz by (simp add: get_ptbl_entry_by_va_def get_pdir_entry_def get_ptbl_entry_def pdir_bounded_def pde_start mpt_ok_def ident_ok_def Let_def)
qed

text \<open>The first process, with a quota of 100 pages.\<close>

lemma first_process:
  assumes "mpt_ok s" and "ct_is_used s 0" and "ct_nchildren (CONTAINER s 0) = 0" and "100 \<le> ct_slack s 0"
  obtains t where "container_split 0 100 s = Ret (1, t)" and "mpt_ok t" and "ct_is_used t 1" and "ct_slack t 1 = 100" and "PDirPool t = PDirPool s"
proof -
  have c: "cont_ok s" using assms(1) by (simp add: mpt_ok_def)
  note f = first_child [OF c assms(2,3), of 100]
  have "ct_child 0 s = 1" using assms(3) by (simp add: ct_child_def)
  then have "mpt_ok (ct_gave 0 100 s)" using assms by (intro mpt_ok_gave) simp_all
  then show thesis using f assms(4) by (intro that [of "ct_gave 0 100 s"]) (simp_all add: ct_gave_def)
qed

text \<open>A page table that is added for the first process and taken away again.\<close>

lemma first_table:
  assumes "mpt_ok t" and "ct_is_used t 1" and "0 < ct_slack t 1" and va: "user_pde 1 (PDE_ADDR va)" "PDirPool t 1 (PDE_ADDR va) = 0"
  obtains p t' where "alloc_ptbl 1 va t = Ret (p, t')" and "user_page p" and "mpt_ok t'" and "ct_is_used t' 1" and "PDirPool t' 1 (PDE_ADDR va) = push_bit 12 p OR 7"
    and "get_ptbl_entry_by_va 1 va t' = Ret 0"
  using assms(1,2) va
proof (cases rule: alloc_ptbl_mpt)
  case full
  then show thesis using assms(3) by simp
next
  case (page p t')
  have up: "user_page p" by (rule first_free_user [OF page(2)])
  from page(4) obtain m' where m: "cleared_page (push_bit 12 p) (mem (ct_took 1 p t)) m'"
    and t': "t' = (ct_took 1 p t)\<lparr>PDirPool := (PDirPool (ct_took 1 p t))(1 := (PDirPool (ct_took 1 p t) 1)(PDE_ADDR va := push_bit 12 p OR 7)), mem := m'\<rparr>"
    unfolding new_ptab_def by blast
  have e: "PDirPool t' 1 (PDE_ADDR va) = push_bit 12 p OR 7" by (simp add: t')
  have a: "ADDR_MASK (push_bit 12 p OR 7) = push_bit 12 p" using entry_fields(2) [of p 7] user_page_20 [OF up] by simp
  have "ct_is_used t' 1" using assms(2) by (simp add: t' ct_took_def ct_is_used_def)
  moreover have "get_ptbl_entry_by_va 1 va t' = Ret 0"
    using m PTE_less [of va] PDE_less [of va] a
    by (simp add: get_ptbl_entry_by_va_def get_pdir_entry_def get_ptbl_entry_def pdir_bounded_def e t' cleared_page_def Let_def)
  ultimately show thesis by (rule that [OF page(3) up page(5) _ e])
qed

lemma test_MPTComm_passes:
  assumes ok: "mpt_ok s" and c: "ct_is_used s 0" "ct_nchildren (CONTAINER s 0) = 0" "100 \<le> ct_slack s 0" and z: "PDirPool s 1 300 = 0"
  shows "passes test_MPTComm s"
proof -
  have "MPTComm_test1 s = Ret (0, s)"
    unfolding MPTComm_test1_def ptbl_check_def
  proof (rule passes_each)
    fix i assume "i \<in> set (range32 0 1024)"
    then have i: "i < 1024" by (simp add: set_range32 word_less_nat_alt)
    have "\<not> user_pde 10 i" "idptbl_perm i = 259" if "i < 256 \<or> 960 \<le> i" using that by (auto simp: user_pde_def idptbl_perm_def)
    then show "(if i < 256 \<or> 960 \<le> i then andThen (get_ptbl_entry_by_va 10 (i * 0x400000) s) (\<lambda>e. fails_if (e \<noteq> i * 0x400000 + 259) s (\<lambda>s. Ret (0, s)))
        else Ret (0, s)) = Ret (0, s)"
      using get_identity_entry [OF ok _ i, of 10] by (auto simp: fails_if_def)
  qed
  moreover have "passes MPTComm_test2 s"
  proof -
    obtain t where t: "container_split 0 100 s = Ret (1, t)" "mpt_ok t" "ct_is_used t 1" "ct_slack t 1 = 100" "PDirPool t = PDirPool s"
      by (rule first_process [OF ok c])
    have va: "PDE_ADDR 0x4B000000 = 300" "PTE_ADDR 0x4B000000 = 0" by (simp_all add: PDE_ADDR_def PTE_ADDR_def)
    have u: "user_pde 1 (PDE_ADDR 0x4B000000)" unfolding va by (simp add: user_pde_def)
    have z': "PDirPool t 1 (PDE_ADDR 0x4B000000) = 0" unfolding va using z t(5) by simp
    obtain p t' where p: "alloc_ptbl 1 0x4B000000 t = Ret (p, t')" "user_page p" "mpt_ok t'" "ct_is_used t' 1"
        "PDirPool t' 1 (PDE_ADDR 0x4B000000) = push_bit 12 p OR 7" "get_ptbl_entry_by_va 1 0x4B000000 t' = Ret 0"
      by (rule first_table [OF t(2,3) _ u z']) (simp_all add: t(4))
    have nz: "push_bit 12 p OR 7 \<noteq> (0 :: u32)" "drop_bit 12 (push_bit 12 p OR 7 :: u32) = p"
      using perm_or_nonzero [of p 7] entry_fields(1) [of p 7] user_page_20 [OF p(2)] by simp_all
    let ?s = "t'\<lparr>PDirPool := (PDirPool t')(1 := (PDirPool t' 1)(300 := 0))\<rparr>"
    have "cont_ok ?s" "ct_is_used ?s 1" using p(3,4) by (simp_all add: mpt_ok_def ct_is_used_def)
    from container_free_eq [OF this user_page_AT [OF p(2)]] obtain r where r: "container_free 1 p ?s = Ret r" "PDirPool r = PDirPool ?s"
      by (auto simp: ct_freed_def split: if_splits)
    show ?thesis
      using t(1) p nz r unfolding va
      by (simp add: passes_def MPTComm_test2_def pdir_check_def ptbl_check_def free_ptbl_def get_pdir_entry_by_va_def get_pdir_entry_def
        rmv_pdir_entry_def put_pdir_def pdir_bounded_def fails_if_def Let_def va)
  qed
  ultimately show ?thesis unfolding test_MPTComm_def by (intro passes_own passes_and_test) simp
qed

lemma MPTKern_tests_pass:
  assumes ok: "mpt_ok s" and c: "ct_is_used s 0" "ct_nchildren (CONTAINER s 0) = 0" "100 \<le> ct_slack s 0" and z: "PDirPool s 1 300 = 0"
  shows "passes MPTKern_test1 s" and "passes MPTKern_test2 s"
proof -
  obtain t where t: "container_split 0 100 s = Ret (1, t)" "mpt_ok t" "ct_is_used t 1" "ct_slack t 1 = 100" "PDirPool t = PDirPool s"
    by (rule first_process [OF ok c])
  have va: "PDE_ADDR 0x4B000000 = 300" "PTE_ADDR 0x4B000000 = 0" by (simp_all add: PDE_ADDR_def PTE_ADDR_def)
  have u: "user_pde 1 (PDE_ADDR 0x4B000000)" unfolding va by (simp add: user_pde_def)
  have z': "PDirPool t 1 (PDE_ADDR 0x4B000000) = 0" unfolding va using z t(5) by simp
  obtain p t' where p: "alloc_ptbl 1 0x4B000000 t = Ret (p, t')" "user_page p"
      "PDirPool t' 1 (PDE_ADDR 0x4B000000) = push_bit 12 p OR 7"
    by (rule first_table [OF t(2,3) _ u z']) (simp_all add: t(4))
  have nz: "push_bit 12 p OR 7 \<noteq> (0 :: u32)" "drop_bit 12 (push_bit 12 p OR 7 :: u32) = p" "p \<noteq> 0"
    using perm_or_nonzero [of p 7] entry_fields(1) [of p 7] user_page_20 [OF p(2)] by simp_all
  show "passes MPTKern_test1 s"
    using t(1) z' p nz unfolding va
    by (simp add: passes_def MPTKern_test1_def map_page_def unmap_page_def pdir_check_def ptbl_check_def get_pdir_entry_by_va_def get_ptbl_entry_by_va_def
      set_ptbl_entry_by_va_def rmv_ptbl_entry_by_va_def get_pdir_entry_def get_ptbl_entry_def set_ptbl_entry_def rmv_ptbl_entry_def pdir_bounded_def fails_if_def Let_def va)
  have "MPTKern_test2 s = Ret (0, s)"
    unfolding MPTKern_test2_def ptbl_check_def
  proof (rule passes_each)
    fix i assume "i \<in> set (range32 256 960)"
    then have i: "i < 1024" "256 \<le> i" "i < 960" by (simp_all add: set_range32 word_less_nat_alt word_le_nat_alt)
    then have "idptbl_perm i = 3" by (simp add: idptbl_perm_def not_less not_le)
    moreover have "\<not> user_pde 0 i" by (simp add: user_pde_def)
    ultimately show "andThen (get_ptbl_entry_by_va 0 (i * 0x400000) s) (\<lambda>e. fails_if (e \<noteq> i * 0x400000 + 3) s (\<lambda>s. Ret (0, s))) = Ret (0, s)"
      using get_identity_entry [OF ok _ i(1), of 0] by (simp add: fails_if_def)
  qed
  then show "passes MPTKern_test2 s" by (simp add: passes_def)
qed

lemma test_MPTNew_passes:
  assumes ok: "mpt_ok s" and c: "ct_is_used s 0" "ct_nchildren (CONTAINER s 0) = 0" "100 \<le> ct_slack s 0" and z: "PDirPool s 1 400 = 0"
  shows "passes test_MPTNew s"
proof -
  obtain t where t: "container_split 0 100 s = Ret (1, t)" "mpt_ok t" "ct_is_used t 1" "ct_slack t 1 = 100" "PDirPool t = PDirPool s"
    by (rule first_process [OF ok c])
  have va: "PDE_ADDR 0x64000000 = 400" by (simp add: PDE_ADDR_def)
  have z': "PDirPool t 1 (PDE_ADDR 0x64000000) = 0" unfolding va using z t(5) by simp
  have "returns (alloc_page 1 0x64000000 7 t) (\<lambda>(r, t'). \<exists>a. walk t' 1 0x64000000 = Some a)"
    by (rule returns_mono [OF alloc_page_walks [of t 1 "0x64000000" 7]]) (use t z' in \<open>auto split: if_splits\<close>)
  then obtain r t' a where r: "alloc_page 1 0x64000000 7 t = Ret (r, t')" "walk t' 1 0x64000000 = Some a" by (auto elim!: returnsE)
  have w: "PDirPool t' 1 400 \<noteq> 0" "load32 (mem t') (pt_entry_addr (ADDR_MASK (PDirPool t' 1 400)) (PTE_ADDR 0x64000000)) \<noteq> 0"
    using r(2) unfolding walk_def Let_def va by (auto split: if_splits)
  have "passes MPTNew_test1 s"
    using t(1,5) r(1) w z by (simp add: passes_def MPTNew_test1_def pdir_check_def ptbl_check_def get_pdir_entry_by_va_def get_ptbl_entry_by_va_def
      get_pdir_entry_def get_ptbl_entry_def pdir_bounded_def fails_if_def Let_def va)
  then show ?thesis unfolding test_MPTNew_def by (rule passes_own)
qed

section \<open>Threads\<close>

lemma test_PTCBInit_passes:
  assumes "\<forall>i < NUM_IDS. i \<noteq> 0 \<longrightarrow> tcb_state (TCBPool s i) = TSTATE_DEAD \<and> tcb_prev (TCBPool s i) = NUM_IDS \<and> tcb_next (TCBPool s i) = NUM_IDS"
  shows "passes test_PTCBInit s"
proof -
  have "i < NUM_IDS \<and> i \<noteq> 0" if "i \<in> set (range32 1 64)" for i using that by (auto simp: set_range32 word_less_nat_alt)
  then have "PTCBInit_test1 s = Ret (0, s)"
    unfolding PTCBInit_test1_def using assms
    by (intro passes_each) (auto simp: tcb_get_state_def tcb_get_prev_def tcb_get_next_def bounded_def fails_if_def)
  then show ?thesis unfolding test_PTCBInit_def by (intro passes_own) (simp add: passes_def)
qed

lemma test_PTQueueInit_passes:
  assumes "\<forall>i < NUM_IDS. TQueuePool s i = \<lparr>tq_head = NUM_IDS, tq_tail = NUM_IDS\<rparr>"
  shows "passes test_PTQueueInit s"
proof -
  have "i < NUM_IDS" if "i \<in> set (range32 0 64)" for i using that by (auto simp: set_range32 word_less_nat_alt)
  moreover have "i < NUM_IDS \<Longrightarrow> i < NUM_QUEUES" for i by (simp add: word_less_nat_alt)
  ultimately have 1: "PTQueueInit_test1 s = Ret (0, s)"
    unfolding PTQueueInit_test1_def using assms
    by (intro passes_each) (auto simp: tqueue_get_head_def tqueue_get_tail_def bounded_def fails_if_def)
  have q: "TQueuePool s 0 = \<lparr>tq_head = NUM_IDS, tq_tail = NUM_IDS\<rparr>" using assms by simp
  define st where "st f h t' = s\<lparr>TCBPool := f, TQueuePool := (TQueuePool s)(0 := \<lparr>tq_head = h, tq_tail = t'\<rparr>)\<rparr>" for f h t'
  let ?l = "\<lambda>p n t. t\<lparr>tcb_prev := p, tcb_next := n\<rparr>"
  let ?T1 = "(TCBPool s)(2 := ?l 64 64 (TCBPool s 2))"
  let ?T2 = "(TCBPool s)(2 := ?l 64 3 (TCBPool s 2), 3 := ?l 2 64 (TCBPool s 3))"
  let ?T3 = "(TCBPool s)(2 := ?l 64 3 (TCBPool s 2), 3 := ?l 2 4 (TCBPool s 3), 4 := ?l 3 64 (TCBPool s 4))"
  let ?T4 = "(TCBPool s)(2 := ?l 64 4 (TCBPool s 2), 4 := (TCBPool s 4)\<lparr>tcb_next := 64, tcb_prev := 2\<rparr>, 3 := ?l 64 64 (TCBPool s 3))"
  let ?T5 = "(TCBPool s)(2 := ?l 64 64 (TCBPool s 2), 4 := (TCBPool s 4)\<lparr>tcb_next := 64, tcb_prev := 64\<rparr>, 3 := ?l 64 64 (TCBPool s 3))"
  note ops = tcb_ops tqueue_ops bounded_def st_def
  have e1: "tqueue_enqueue 0 2 s = Ret (st ?T1 2 2)" using q by (simp add: tqueue_enqueue_def ops del: del_queue_simps)
  have e2: "tqueue_enqueue 0 3 (st ?T1 2 2) = Ret (st ?T2 2 3)" by (simp add: tqueue_enqueue_def ops fun_upd_twist del: del_queue_simps)
  have e3: "tqueue_enqueue 0 4 (st ?T2 2 3) = Ret (st ?T3 2 4)" by (simp add: tqueue_enqueue_def ops fun_upd_twist del: del_queue_simps)
  have e4: "tqueue_remove 0 3 (st ?T3 2 4) = Ret (st ?T4 2 4)" by (simp add: tqueue_remove_def ops fun_upd_twist del: del_queue_simps)
  have e5: "tqueue_dequeue 0 (st ?T4 2 4) = Ret (2, st ?T5 4 4)" by (simp add: tqueue_dequeue_def ops fun_upd_twist del: del_queue_simps)
  have l: "link_check pid p n (st f h t') k = k (st f h t')" if "pid < NUM_IDS" "tcb_prev (f pid) = p" "tcb_next (f pid) = n" for pid p n f h t' and k
    using that by (simp add: link_check_def fails_if_def ops)
  have h: "tqueue_get_head 0 (st f h t') = Ret h" "tqueue_get_tail 0 (st f h t') = Ret t'" for f h t' by (simp_all add: ops)
  have 2: "passes PTQueueInit_test2 s"
    by (simp add: passes_def PTQueueInit_test2_def e1 e2 e3 e4 e5 l h fails_if_def)
  show ?thesis unfolding test_PTQueueInit_def by (intro passes_own passes_and_test) (simp add: 1 2)
qed

lemma test_PKCtxNew_passes:
  assumes ok: "cont_ok s" and u: "ct_is_used s 0" and n: "ct_nchildren (CONTAINER s 0) = 0" and a: "1000 \<le> ct_slack s 0"
  shows "passes test_PKCtxNew s"
proof -
  have b: "unat (ct_usage (CONTAINER s 0)) \<le> unat (ct_quota (CONTAINER s 0))" "unat (ct_quota (CONTAINER s 0)) \<le> 2 ^ 20"
    using ok u by (auto simp: cont_ok_def ct_quotas_def)
  have c: "container_can_consume 0 1000 s = Ret True"
    using a b by (simp add: container_can_consume_def ct_slack_def word_le_nat_alt unat_word_ariths)
  have "ct_quota (CONTAINER (ct_gave 0 1000 s) 1) = 1000" by (simp add: ct_gave_def ct_child_def n)
  then have "passes PKCtxNew_test1 s"
    using c first_child(1) [OF ok u n, of 1000] a
    by (simp add: passes_def PKCtxNew_test1_def kctx_new_def alloc_mem_quota_def kctx_set_esp_def kctx_set_eip_def container_get_quota_def fails_if_def)
  then show ?thesis unfolding test_PKCtxNew_def by (rule passes_own)
qed

lemma test_PThread_passes:
  assumes "on_cpu s" and "sched_lk s = unlocked" and "queues s Q" and "threads_used s Q" and "cont_ok s"
    and "ct_is_used s 0" and n: "ct_nchildren (CONTAINER s 0) = 0" and "1000 \<le> ct_slack s 0"
  shows "passes test_PThread s"
proof -
  have "returns (thread_spawn 0 0 1000 s) (\<lambda>(pid, t). pid = ct_child 0 s \<and> queues t (Q(NUM_IDS := Q NUM_IDS @ [pid])) \<and> tcb_state (TCBPool t pid) = TSTATE_READY)"
    by (rule returns_mono [OF thread_spawn_ok [OF assms(1-6)]]) (use n assms(8) in \<open>auto simp: ct_child_def\<close>)
  then obtain t where t: "thread_spawn 0 0 1000 s = Ret (1, t)" "queues t (Q(NUM_IDS := Q NUM_IDS @ [1]))" "tcb_state (TCBPool t 1) = TSTATE_READY"
    using n by (auto simp: ct_child_def elim!: returnsE)
  have "queue_is t NUM_IDS (Q NUM_IDS @ [1])" using t(2) unfolding queues_def by (auto dest: spec [of _ NUM_IDS])
  then have "tq_tail (TQueuePool t NUM_IDS) = 1" by (simp add: queue_is_def)
  then have "passes PThread_test1 s"
    using t by (simp add: passes_def PThread_test1_def tcb_get_state_def tqueue_get_tail_def fails_if_def)
  then show ?thesis unfolding test_PThread_def by (rule passes_own)
qed

end
