(* ===== verification/Spec2Isabelle.thy ===== *)
theory Spec2Isabelle
  imports Lock_Protocol Isolation Trap_Spec Log_Spec Boot_Loader_Spec User_Lib_Spec Monitor Unit_Tests_Spec
begin

text \<open>
  A verification library for mCertiKOS, the teaching kernel under \<^verbatim>\<open>src/mCertiKOS\<close>: a 32-bit x86 kernel for several CPUs with quotas of physical
  memory, paging, threads, an IDE disk with a logging file system, and system calls; with its boot loader and the library of its
  user programs. Every theory translates some of the C files and states what they promise.

  \<^bold>\<open>How the parts interact.\<close> The boot loader (\<^verbatim>\<open>boot/boot1\<close>) reads the kernel from the disk and jumps to it. \<^verbatim>\<open>kern_init\<close> (\<^verbatim>\<open>kern/init/init.c\<close>)
  initialises the devices (\<^verbatim>\<open>kern/dev\<close>), the memory map of the BIOS, the page allocator and the quotas (\<^verbatim>\<open>kern/pmm\<close>), the page tables (\<^verbatim>\<open>kern/vmm\<close>), the
  threads (\<^verbatim>\<open>kern/thread\<close>) and the traps (\<^verbatim>\<open>kern/trap\<close>), creates the first process (\<^verbatim>\<open>kern/proc\<close>) and switches to it. From then on the kernel is
  entered through \<^verbatim>\<open>trap\<close>: a page fault asks for a page of the quota and maps it, an interrupt serves a device or the timer that makes
  threads yield, and a system call prints, spawns, yields or goes to the file system (\<^verbatim>\<open>kern/fs\<close>), whose layers are, from below, the
  disk driver, the buffer cache, the log, blocks, inodes, and files. Shared data is protected by the locks of \<^verbatim>\<open>kern/lib\<close>.

  \<^bold>\<open>Conventions.\<close> A C function is a HOL function of its arguments and the state; its result is an \<^verbatim>\<open>outcome\<close>: a value, \<^verbatim>\<open>Panic\<close>, \<^verbatim>\<open>Undef\<close> (the C code
  would leave an array or follow a null pointer, or a reader of numbers overflow a signed integer) or \<^verbatim>\<open>Diverge\<close> (a loop that does not end). \<^verbatim>\<open>whileM\<close> is the C loop, so
  that a theorem that something \<^verbatim>\<open>returns\<close> says that it ends without a panic; \<^verbatim>\<open>ends\<close> (theory \<^verbatim>\<open>Partial\<close>) speaks of the runs that come back only.
  No loop is cut off by a fuel: a loop that may not end has the value \<^verbatim>\<open>Diverge\<close>, and the functions by recursion have
  termination proofs. Integers are words of their C width; \<^verbatim>\<open>int\<close> is a word that is compared as signed where the source does.
  Signed overflow, which C leaves undefined, is \<^verbatim>\<open>Undef\<close> in \<^verbatim>\<open>atoi\<close> and \<^verbatim>\<open>strtol\<close>, which do not guard against it; other signed sums, such as counters of characters
  and the usage of a container, which its invariant keeps at \<open>2 ^ 20\<close> at most, are words that wrap around. Every layer adds
  its static variables to a record: \<^verbatim>\<open>machine\<close>, \<^verbatim>\<open>mboot\<close>, \<^verbatim>\<open>mat\<close>, \<^verbatim>\<open>mcont\<close>, \<^verbatim>\<open>mpt\<close>, \<^verbatim>\<open>mthr\<close>, \<^verbatim>\<open>mio\<close>, \<^verbatim>\<open>mcons\<close>, \<^verbatim>\<open>mintr\<close>, \<^verbatim>\<open>mbuf\<close>, \<^verbatim>\<open>mlog\<close>, \<^verbatim>\<open>mino\<close>, \<^verbatim>\<open>mfile\<close>, \<^verbatim>\<open>mproc\<close>,
  \<^verbatim>\<open>mtrap\<close>, so that an operation of a layer works on the states of all layers above it. Memory that is reached through pointers, such as page tables,
  the screen and user pages, is byte-addressed (\<^verbatim>\<open>Phys_Mem\<close>). Devices, other threads and addresses that the linker chooses are the parameter
  \<^verbatim>\<open>world\<close> (\<^verbatim>\<open>Ports\<close>): what the kernel does to a device is a trace of events, and what a device answers is a function of the trace.

  \<^bold>\<open>Theories.\<close>
  \<^item> \<^verbatim>\<open>Prelude\<close>, \<^verbatim>\<open>Phys_Mem\<close>, \<^verbatim>\<open>Partial\<close>: outcomes, loops and their rules, words, memory.
  \<^item> \<^verbatim>\<open>Machine\<close>, \<^verbatim>\<open>Spinlock\<close>, \<^verbatim>\<open>Lock_Protocol\<close>: CPUs, kernel stacks, the locks (\<^verbatim>\<open>kern/lib/spinlock.c\<close>, \<^verbatim>\<open>reentrant_lock.c\<close>). The locale \<^verbatim>\<open>kernel_lock\<close> is the
    contract of a critical section, interpreted on both locks; an interleaving of all CPUs, one memory access at a time, gives
    mutual exclusion, progress, and that the sequential functions are runs of it.
  \<^item> \<^verbatim>\<open>Mboot\<close>, \<^verbatim>\<open>MAT\<close>, \<^verbatim>\<open>MContainer\<close>: memory map (\<^verbatim>\<open>kern/dev/mboot.c\<close>), page allocator and quotas (\<^verbatim>\<open>kern/pmm\<close>). The locale \<^verbatim>\<open>page_allocator\<close> is interpreted
    on \<^verbatim>\<open>palloc\<close> and \<^verbatim>\<open>pfree\<close>; the invariants \<^verbatim>\<open>mat_ok\<close> and \<^verbatim>\<open>cont_ok\<close> say that the quotas never exceed the free pages.
  \<^item> \<^verbatim>\<open>MPT\<close>, \<^verbatim>\<open>Page_Tables\<close>, \<^verbatim>\<open>KString\<close>, \<^verbatim>\<open>Pmap\<close>, \<^verbatim>\<open>Isolation\<close>: page tables (\<^verbatim>\<open>kern/vmm\<close>), string routines, copies to user memory (\<^verbatim>\<open>kern/lib/pmap.c\<close>). The invariant
    \<^verbatim>\<open>mpt_ok\<close> gives the isolation of the address spaces and the kernel's identity map, which programs cannot use, over the walk of the page tables, in every
    state that the steps of \<^verbatim>\<open>vm_step\<close> reach from the start of paging.
  \<^item> \<^verbatim>\<open>Thread\<close>, \<^verbatim>\<open>Thread_Queues\<close>, \<^verbatim>\<open>Scheduler\<close>: threads (\<^verbatim>\<open>kern/thread\<close>). The linked queues are lists (locale \<^verbatim>\<open>thread_queues\<close>, interpreted on them), and
    \<^verbatim>\<open>thread_yield\<close> refines a round-robin scheduler.
  \<^item> \<^verbatim>\<open>Ports\<close>, \<^verbatim>\<open>Console\<close>, \<^verbatim>\<open>Interrupts\<close>, \<^verbatim>\<open>Multiproc\<close>, \<^verbatim>\<open>Console_Spec\<close>: device drivers (\<^verbatim>\<open>kern/dev\<close>), formatted output (\<^verbatim>\<open>kern/lib/printfmt.c\<close>); the display is a
    terminal, the input buffer a queue.
  \<^item> \<^verbatim>\<open>Ide\<close>, \<^verbatim>\<open>Bufcache\<close>, \<^verbatim>\<open>Log\<close>, \<^verbatim>\<open>Block\<close>, \<^verbatim>\<open>Inode\<close>, \<^verbatim>\<open>File\<close>, \<^verbatim>\<open>Sysfile\<close>: the file system (\<^verbatim>\<open>kern/fs\<close>) and its disk driver (\<^verbatim>\<open>kern/dev/disk\<close>).
    \<^verbatim>\<open>Ide_Spec\<close>, \<^verbatim>\<open>Disk_World\<close>, \<^verbatim>\<open>Bufcache_Spec\<close> and \<^verbatim>\<open>Log_Spec\<close> show, one upon the other, that the driver moves a sector, that the cache is coherent with
    the disk, and that a transaction survives a crash at any moment as a whole or not at all.
  \<^item> \<^verbatim>\<open>Trap_Frame\<close>, \<^verbatim>\<open>Proc\<close>, \<^verbatim>\<open>Trap\<close>, \<^verbatim>\<open>Boot\<close>, \<^verbatim>\<open>Trap_Spec\<close>: processes, system calls, traps and the start of the kernel; what a trap restores, and the page fault
    from the hardware frame to the new mapping and back.
  \<^item> \<^verbatim>\<open>Boot_Loader\<close>, \<^verbatim>\<open>Boot_Loader_Spec\<close>: the second stage of the boot loader, and that it puts a kernel image where its headers say.
  \<^item> \<^verbatim>\<open>User_Lib\<close>, \<^verbatim>\<open>User_Lib_Spec\<close>: the user library and the small user programs (\<^verbatim>\<open>user\<close>); formatted output is parametric in its receiver, from which
    follow the bounds of \<^verbatim>\<open>snprintf\<close>, the calls that \<^verbatim>\<open>printf\<close> makes, whatever the kernel does with them, and that \<^verbatim>\<open>atoi\<close> reads a printed number.
  \<^item> \<^verbatim>\<open>Monitor\<close>: the kernel monitor (\<^verbatim>\<open>kern/lib/monitor.c\<close>), which never returns.
  \<^item> \<^verbatim>\<open>Unit_Tests\<close>, \<^verbatim>\<open>Unit_Tests_Spec\<close>: the tests \<^verbatim>\<open>test.c\<close> of the modules, and that they pass under the invariants of the modules.

  \<^bold>\<open>Assumptions of the properties of the disk.\<close> \<^verbatim>\<open>ide_env\<close> says that the disk is ready, reports no error, and serves a command while the thread that
  has issued it sleeps, which is when its interrupt comes; \<^verbatim>\<open>alone\<close> says that there is one thread. The second is needed by the code: \<^verbatim>\<open>thread_sleep\<close> does not set
  the current thread (\<^verbatim>\<open>thread_sleep_keeps_curid\<close>), so that a thread that sleeps beside others cannot be relied upon. \<^verbatim>\<open>commit_crash_safe\<close> and
  \<^verbatim>\<open>log_write_adds\<close> ask for two buffers that are not dirty, because a transaction of ten blocks finds no buffer in a cache of ten. \<^verbatim>\<open>ata_env\<close> is the part of
  \<^verbatim>\<open>ide_env\<close> without interrupts. Each of them holds in the machine of \<^verbatim>\<open>Disk_World\<close>,
  or in that of the witness.

  \<^bold>\<open>Not modelled.\<close> Assembly files (the first boot stage, the kernel entry, the instructions of \<^verbatim>\<open>idt.S\<close>, of which the table of entry
  points is modelled, \<^verbatim>\<open>cswitch\<close> being a definition of its own); the AES
  wrappers of \<^verbatim>\<open>kern/dev/sse\<close>, which nothing calls; instruction wrappers without effect on the state (\<^verbatim>\<open>read_esp\<close>, \<^verbatim>\<open>smp_wmb\<close> and the like) and those of \<^verbatim>\<open>user/include/x86.h\<close>,
  which no program uses; \<^verbatim>\<open>user/fstest\<close>, a client of file system calls that the kernel leaves unfinished, and \<^verbatim>\<open>fake_syscall.c\<close>, which replaces the system calls
  in a hosted build. Most messages that only inform (\<^verbatim>\<open>KERN_INFO\<close>, \<^verbatim>\<open>KERN_DEBUG\<close>, the output of the tests) are
  left out; what system calls, the monitor and user programs print is modelled. The build without \<^verbatim>\<open>DEBUG_DEADLOCK\<close> and \<^verbatim>\<open>DEBUG_LOCKHOLDING\<close> is the one that is modelled. Caches and memory ordering of the hardware
  are not: a memory access is one step. The directories of the repository other than \<^verbatim>\<open>mCertiKOS\<close> are separate programs in Go and Python.
\<close>

end
